(* ===== verification/Py_Prelude.thy ===== *)
theory Py_Prelude
  imports Complex_Main "HOL-Library.AList" "HOL-Library.Multiset"
begin

text \<open>
  Shared vocabulary of the development.

  The programs modelled here are Python.  This theory fixes how the parts of the
  language they use are rendered in HOL:
  \<^item> an exception is a value of \<open>py_error\<close>, and a computation that may raise has the
    type \<open>'a res\<close> (\<open>Inl\<close> the exception, \<open>Inr\<close> the result), sequenced with
    \<open>res_bind\<close> and iterated over a list with \<open>res_fold\<close>;
  \<^item> a dictionary is an association list whose keys are distinct; \<open>dict_get\<close>,
    \<open>dict_set\<close>, \<open>dict_del\<close> are subscript read, subscript assignment and \<open>del\<close>, a new
    key is appended at the end;
  \<^item> \<open>py_index\<close>, \<open>py_slice\<close> are subscripts and slices of a sequence with Python's
    treatment of negative and out-of-range positions;
  \<^item> \<open>str_split\<close>, \<open>str_strip\<close>, \<open>is_substring\<close>, \<open>str_startswith\<close> are the
    string operations the programs call.
  The locale \<open>dictionary\<close> is the contract of the dictionary operations; it is
  interpreted on the association lists, and the components use its facts.
\<close>

section \<open>Collections of rewrite rules\<close>

named_theorems res_simps \<open>rewrite rules for computations that may raise\<close>
named_theorems dict_simps \<open>rewrite rules for dictionaries\<close>

section \<open>Exceptions\<close>

datatype py_error =
    KeyError
  | IndexError
  | ValueError string
  | TypeError
  | AttributeError
  | NameError
  | UnboundLocalError
  | ZeroDivisionError
  | OSError
  | SystemExit int
  | Exception string

type_synonym 'a res = "py_error + 'a"

definition res_bind :: "'e + 'a \<Rightarrow> ('a \<Rightarrow> 'e + 'b) \<Rightarrow> 'e + 'b" where
  "res_bind m f = (case m of Inl e \<Rightarrow> Inl e | Inr x \<Rightarrow> f x)"

lemma res_bind_simps [simp, res_simps]:
  "res_bind (Inl e) f = Inl e"
  "res_bind (Inr x) f = f x"
  by (simp_all add: res_bind_def)

lemma res_bind_eq_Inr [res_simps]:
  "res_bind m f = Inr y \<longleftrightarrow> (\<exists>x. m = Inr x \<and> f x = Inr y)"
  by (cases m) auto

lemma res_bind_eq_Inl [res_simps]:
  "res_bind m f = Inl e \<longleftrightarrow> m = Inl e \<or> (\<exists>x. m = Inr x \<and> f x = Inl e)"
  by (cases m) auto

lemma res_bind_cong [fundef_cong]:
  "m = m' \<Longrightarrow> (\<And>x. m' = Inr x \<Longrightarrow> f x = g x) \<Longrightarrow> res_bind m f = res_bind m' g"
  by (cases m') auto

lemma res_bind_assoc: "res_bind (res_bind m f) g = res_bind m (\<lambda>x. res_bind (f x) g)"
  by (cases m) auto

text \<open>A \<open>for\<close> loop whose body may raise: it stops at the first exception.\<close>

fun res_fold :: "('x \<Rightarrow> 's \<Rightarrow> 'e + 's) \<Rightarrow> 'x list \<Rightarrow> 's \<Rightarrow> 'e + 's" where
  "res_fold f [] s = Inr s"
| "res_fold f (x # xs) s = res_bind (f x s) (res_fold f xs)"

lemma res_fold_append:
  "res_fold f (xs @ ys) s = res_bind (res_fold f xs s) (res_fold f ys)"
  by (induction xs arbitrary: s) (auto simp: res_bind_def split: sum.splits)

lemma res_fold_invariant:
  assumes "res_fold f xs s = Inr t" and "P s"
    and "\<And>x u v. x \<in> set xs \<Longrightarrow> P u \<Longrightarrow> f x u = Inr v \<Longrightarrow> P v"
  shows "P t"
  using assms by (induction xs arbitrary: s) (auto simp: res_bind_eq_Inr)

lemma res_fold_total:
  assumes "P s"
    and "\<And>x u. x \<in> set xs \<Longrightarrow> P u \<Longrightarrow> \<exists>v. f x u = Inr v \<and> P v"
  shows "\<exists>t. res_fold f xs s = Inr t \<and> P t"
  using assms
proof (induction xs arbitrary: s)
  case Nil
  then show ?case by simp
next
  case (Cons x xs)
  then obtain v where v: "f x s = Inr v" "P v" by (meson list.set_intros(1))
  have "\<exists>t. res_fold f xs v = Inr t \<and> P t"
    using Cons.IH [OF v(2)] Cons.prems(2) by (meson list.set_intros(2))
  with v(1) show ?case by simp
qed

text \<open>A \<open>for\<close> loop whose body does not raise is a fold.\<close>

lemma res_fold_pure: "res_fold (\<lambda>x s. Inr (g x s)) xs s = Inr (fold g xs s)"
  by (induction xs arbitrary: s) simp_all

section \<open>Dictionaries\<close>

type_synonym ('k, 'v) dict = "('k \<times> 'v) list"

definition dict_ok :: "('k, 'v) dict \<Rightarrow> bool" where
  "dict_ok d \<longleftrightarrow> distinct (map fst d)"

definition dict_find :: "('k, 'v) dict \<Rightarrow> 'k \<Rightarrow> 'v option" where
  "dict_find d k = map_of d k"

definition dict_get :: "('k, 'v) dict \<Rightarrow> 'k \<Rightarrow> 'v res" where
  "dict_get d k = (case map_of d k of None \<Rightarrow> Inl KeyError | Some v \<Rightarrow> Inr v)"

definition dict_set :: "'k \<Rightarrow> 'v \<Rightarrow> ('k, 'v) dict \<Rightarrow> ('k, 'v) dict" where
  "dict_set k v d = AList.update k v d"

definition dict_rem :: "'k \<Rightarrow> ('k, 'v) dict \<Rightarrow> ('k, 'v) dict" where
  "dict_rem k d = AList.delete k d"

definition dict_has :: "('k, 'v) dict \<Rightarrow> 'k \<Rightarrow> bool" where
  "dict_has d k \<longleftrightarrow> k \<in> set (map fst d)"

definition dict_del :: "'k \<Rightarrow> ('k, 'v) dict \<Rightarrow> ('k, 'v) dict res" where
  "dict_del k d = (if dict_has d k then Inr (dict_rem k d) else Inl KeyError)"

lemma dict_find_Nil [simp]: "dict_find [] k = None"
  by (simp add: dict_find_def)

lemma dict_ok_Nil [simp]: "dict_ok []"
  by (simp add: dict_ok_def)

lemma dict_has_find [dict_simps]: "dict_has d k \<longleftrightarrow> dict_find d k \<noteq> None"
  by (auto simp: dict_has_def dict_find_def map_of_eq_None_iff)

lemma dict_get_find: "dict_get d k = (case dict_find d k of None \<Rightarrow> Inl KeyError | Some v \<Rightarrow> Inr v)"
  by (simp add: dict_get_def dict_find_def)

lemma keys_dict_find: "k \<in> set (map fst d) \<longleftrightarrow> dict_find d k \<noteq> None"
  using dict_has_find [of d k] by (simp add: dict_has_def)

lemma length_dict_rem: "dict_has d k \<Longrightarrow> length (dict_rem k d) < length d"
  unfolding dict_has_def dict_rem_def
  by (induction d) (auto simp: AList.delete_eq le_imp_less_Suc)

lemma length_dict_set_present: "dict_has d k \<Longrightarrow> length (dict_set k v d) = length d"
  unfolding dict_has_def dict_set_def by (induction d) auto

text \<open>The contract of the dictionary operations.\<close>

locale dictionary =
  fixes find :: "'d \<Rightarrow> 'k \<Rightarrow> 'v option"
    and upd :: "'k \<Rightarrow> 'v \<Rightarrow> 'd \<Rightarrow> 'd"
    and rem :: "'k \<Rightarrow> 'd \<Rightarrow> 'd"
    and empty :: "'d"
    and ok :: "'d \<Rightarrow> bool"
  assumes find_empty: "find empty k = None"
    and find_upd: "ok d \<Longrightarrow> find (upd k v d) j = (if j = k then Some v else find d j)"
    and find_rem: "ok d \<Longrightarrow> find (rem k d) j = (if j = k then None else find d j)"
    and ok_empty: "ok empty"
    and ok_upd: "ok d \<Longrightarrow> ok (upd k v d)"
    and ok_rem: "ok d \<Longrightarrow> ok (rem k d)"
begin

lemma find_upd_same: "ok d \<Longrightarrow> find (upd k v d) k = Some v"
  by (simp add: find_upd)

lemma find_upd_other: "ok d \<Longrightarrow> j \<noteq> k \<Longrightarrow> find (upd k v d) j = find d j"
  by (simp add: find_upd)

lemma dom_upd: "ok d \<Longrightarrow> dom (find (upd k v d)) = insert k (dom (find d))"
  by (auto simp: find_upd split: if_splits)

lemma dom_rem: "ok d \<Longrightarrow> dom (find (rem k d)) = dom (find d) - {k}"
  by (auto simp: find_rem split: if_splits)

text \<open>A loop of assignments keeps the invariant, and the last assignment to a key wins.\<close>

lemma fold_upd_ok: "ok d \<Longrightarrow> ok (fold (\<lambda>(k, v). upd k v) kvs d)"
  by (induction kvs arbitrary: d) (auto simp: ok_upd)

lemma find_fold_upd:
  "ok d \<Longrightarrow> find (fold (\<lambda>(k, v). upd k v) kvs d) k =
     (case map_of (rev kvs) k of None \<Rightarrow> find d k | Some v \<Rightarrow> Some v)"
  by (induction kvs arbitrary: d) (auto simp: ok_upd find_upd map_add_def split: option.splits)

end

interpretation dict: dictionary dict_find dict_set dict_rem "[]" dict_ok
  by unfold_locales
    (auto simp: dict_find_def dict_set_def dict_rem_def dict_ok_def update_conv' delete_conv'
        distinct_update distinct_delete)

lemmas dict_ops = dict.find_upd dict.find_rem dict.ok_upd dict.ok_rem
declare dict_ops [dict_simps]

lemma dict_get_Inr [dict_simps]: "dict_get d k = Inr v \<longleftrightarrow> dict_find d k = Some v"
  by (auto simp: dict_get_find split: option.splits)

lemma dict_del_Inr [dict_simps]:
  "dict_del k d = Inr d' \<longleftrightarrow> dict_find d k \<noteq> None \<and> d' = dict_rem k d"
  by (auto simp: dict_del_def dict_has_find)

section \<open>Lists\<close>

lemma in_concat_nth: "x \<in> set (concat ls) \<longleftrightarrow> (\<exists>k<length ls. x \<in> set (ls ! k))"
  by (metis (no_types, lifting) UN_iff in_set_conv_nth set_concat)

lemma filter_interval:
  assumes "\<And>j. j < length xs \<Longrightarrow> P (xs ! j) \<longleftrightarrow> i \<le> j \<and> j < n"
  shows "filter P xs = drop i (take n xs)"
proof -
  have split: "xs = take (min i n) xs @ drop i (take n xs) @ drop n xs" (is "xs = ?a @ ?b @ ?c")
    by (cases "i \<le> n") (simp_all add: min_def drop_take flip: append_assoc take_add)
  have "filter P ?a = []"
    using assms by (fastforce simp: filter_empty_conv in_set_conv_nth)
  moreover have "filter P ?c = []"
    using assms by (fastforce simp: filter_empty_conv in_set_conv_nth)
  moreover have "P x" if x: "x \<in> set ?b" for x
  proof -
    obtain k where "k < length ?b" "x = ?b ! k" using x by (metis in_set_conv_nth)
    then have "k < n - i" "i + k < length xs" "x = xs ! (i + k)" by (auto simp: drop_take)
    then show ?thesis using assms [of "i + k"] by simp
  qed
  then have "filter P ?b = ?b" by (simp add: filter_id_conv)
  ultimately show ?thesis by (subst split) simp
qed

section \<open>Subscripts and slices\<close>

text \<open>
  \<open>py_index xs i\<close> is \<open>xs[i]\<close>; \<open>slice_to xs k\<close> is \<open>xs[:k]\<close>, \<open>slice_from xs k\<close> is
  \<open>xs[k:]\<close> and \<open>slice xs i j\<close> is \<open>xs[i:j]\<close>.  A negative position counts from the end,
  and a slice clamps positions that are out of range.
\<close>

definition py_index :: "'a list \<Rightarrow> int \<Rightarrow> 'a res" where
  "py_index xs i =
     (let j = (if i < 0 then i + int (length xs) else i)
      in if 0 \<le> j \<and> j < int (length xs) then Inr (xs ! nat j) else Inl IndexError)"

definition slice_pos :: "'a list \<Rightarrow> int \<Rightarrow> nat" where
  "slice_pos xs k = nat (if k < 0 then k + int (length xs) else k)"

definition slice_to :: "'a list \<Rightarrow> int \<Rightarrow> 'a list" where
  "slice_to xs k = take (slice_pos xs k) xs"

definition slice_from :: "'a list \<Rightarrow> int \<Rightarrow> 'a list" where
  "slice_from xs k = drop (slice_pos xs k) xs"

definition slice :: "'a list \<Rightarrow> int \<Rightarrow> int \<Rightarrow> 'a list" where
  "slice xs i j = drop (slice_pos xs i) (take (slice_pos xs j) xs)"

lemma py_index_nat [simp]:
  "py_index xs (int i) = (if i < length xs then Inr (xs ! i) else Inl IndexError)"
  by (simp add: py_index_def)

lemma py_index_0: "py_index xs 0 = (if xs = [] then Inl IndexError else Inr (hd xs))"
  by (cases xs) (auto simp: py_index_def)

lemma py_index_last: "py_index xs (-1) = (if xs = [] then Inl IndexError else Inr (last xs))"
  by (cases xs rule: rev_cases) (auto simp: py_index_def nat_add_distrib)

lemma slice_nat: "slice xs (int i) (int j) = drop i (take j xs)"
  by (simp add: slice_def slice_pos_def)

lemma slice_nat_Suc: "slice xs (int i) (int j + 1) = drop i (take (Suc j) xs)"
  using slice_nat [of xs i "Suc j"] by (simp add: add.commute)

section \<open>Strings\<close>

definition str_startswith :: "string \<Rightarrow> string \<Rightarrow> bool" where
  "str_startswith s p \<longleftrightarrow> take (length p) s = p"

definition str_endswith :: "string \<Rightarrow> string \<Rightarrow> bool" where
  "str_endswith s p \<longleftrightarrow> length p \<le> length s \<and> drop (length s - length p) s = p"

fun is_substring :: "string \<Rightarrow> string \<Rightarrow> bool" where
  "is_substring p [] = (p = [])"
| "is_substring p (c # cs) = (str_startswith (c # cs) p \<or> is_substring p cs)"

text \<open>\<open>s.split(c)\<close> for a one-character separator.\<close>

fun str_split :: "char \<Rightarrow> string \<Rightarrow> string list" where
  "str_split c [] = [[]]"
| "str_split c (x # xs) =
     (if x = c then [] # str_split c xs
      else (case str_split c xs of [] \<Rightarrow> [[x]] | w # ws \<Rightarrow> (x # w) # ws))"

fun str_join :: "string \<Rightarrow> string list \<Rightarrow> string" where
  "str_join sep [] = []"
| "str_join sep [w] = w"
| "str_join sep (w # v # ws) = w @ sep @ str_join sep (v # ws)"

definition unlines :: "string list \<Rightarrow> string" where
  "unlines ls = concat (map (\<lambda>l. l @ [CHR 0x0A]) ls)"

definition is_space :: "char \<Rightarrow> bool" where
  "is_space c \<longleftrightarrow> c \<in> {CHR '' '', CHR 0x09, CHR 0x0A, CHR 0x0B, CHR 0x0C, CHR 0x0D}"

definition str_strip_chars :: "(char \<Rightarrow> bool) \<Rightarrow> string \<Rightarrow> string" where
  "str_strip_chars P s = rev (dropWhile P (rev (dropWhile P s)))"

definition str_strip :: "string \<Rightarrow> string" where
  "str_strip s = str_strip_chars is_space s"

lemma str_split_not_Nil [simp]: "str_split c s \<noteq> []"
  by (induction s) (auto split: list.splits)

lemma str_join_split: "str_join [c] (str_split c s) = s"
proof (induction s)
  case (Cons x xs)
  then show ?case
    by (cases "str_split c xs"; cases "tl (str_split c xs)") (auto simp: neq_Nil_conv)
qed simp

lemma str_split_no_sep: "w \<in> set (str_split c s) \<Longrightarrow> c \<notin> set w"
proof (induction s arbitrary: w)
  case (Cons x xs)
  then show ?case by (cases "str_split c xs") (auto split: if_splits)
qed simp

lemma str_split_join:
  "ws \<noteq> [] \<Longrightarrow> \<forall>w\<in>set ws. c \<notin> set w \<Longrightarrow> str_split c (str_join [c] ws) = ws"
proof (induction "[c]" ws rule: str_join.induct)
  case (2 w)
  then have "c \<notin> set w" by simp
  then show ?case by (induction w) auto
next
  case (3 w v ws)
  then have w: "c \<notin> set w" and IH: "str_split c (str_join [c] (v # ws)) = v # ws" by auto
  from w show ?case
    by (induction w) (use IH in \<open>auto\<close>)
qed simp

lemma startswith_append [simp]: "str_startswith (p @ s) p"
  by (simp add: str_startswith_def)

lemma is_substring_iff: "is_substring p s \<longleftrightarrow> (\<exists>u v. s = u @ p @ v)"
proof (induction s)
  case (Cons x xs)
  have "str_startswith (x # xs) p \<longleftrightarrow> (\<exists>v. x # xs = p @ v)"
    by (metis append_eq_conv_conj str_startswith_def)
  then show ?case using Cons by (auto simp: Cons_eq_append_conv)
qed auto

section \<open>Decimal numerals\<close>

text \<open>\<open>str(n)\<close> of an integer, and \<open>int(s)\<close> of a string that matched \<open>[0-9]+\<close>.\<close>

definition digit_char :: "nat \<Rightarrow> char" where
  "digit_char d = char_of (48 + d)"

definition is_digit :: "char \<Rightarrow> bool" where
  "is_digit c \<longleftrightarrow> 48 \<le> (of_char c :: nat) \<and> (of_char c :: nat) \<le> 57"

fun str_nat :: "nat \<Rightarrow> string" where
  "str_nat n = (if n < 10 then [digit_char n] else str_nat (n div 10) @ [digit_char (n mod 10)])"

declare str_nat.simps [simp del]

definition str_int :: "int \<Rightarrow> string" where
  "str_int i = (if i < 0 then CHR ''-'' # str_nat (nat (- i)) else str_nat (nat i))"

definition dec_val :: "string \<Rightarrow> nat" where
  "dec_val s = foldl (\<lambda>v c. 10 * v + (of_char c - 48)) 0 s"

lemma of_char_digit_char [simp]: "d < 10 \<Longrightarrow> of_char (digit_char d) = 48 + d"
  by (simp add: digit_char_def)

lemma is_digit_digit_char [simp]: "d < 10 \<Longrightarrow> is_digit (digit_char d)"
  by (simp add: is_digit_def)

lemma dec_val_snoc: "dec_val (s @ [c]) = 10 * dec_val s + (of_char c - 48)"
  by (simp add: dec_val_def)

lemma dec_val_str_nat [simp]: "dec_val (str_nat n) = n"
proof (induction n rule: str_nat.induct)
  case (1 n)
  show ?case
  proof (cases "n < 10")
    case True
    then show ?thesis by (subst str_nat.simps) (simp add: dec_val_def)
  next
    case False
    then have "dec_val (str_nat (n div 10) @ [digit_char (n mod 10)]) = 10 * (n div 10) + n mod 10"
      using 1 by (simp add: dec_val_snoc)
    with False show ?thesis by (subst str_nat.simps) simp
  qed
qed

lemma str_nat_digits: "\<forall>c\<in>set (str_nat n). is_digit c"
proof (induction n rule: str_nat.induct)
  case (1 n)
  then show ?case by (subst str_nat.simps) auto
qed

lemma str_nat_not_Nil [simp]: "str_nat n \<noteq> []"
  by (subst str_nat.simps) simp

section \<open>Numbers\<close>

text \<open>
  A Python number is an \<open>int\<close> or a \<open>float\<close>.  Floats are modelled by the exact rational
  they denote and float arithmetic by exact arithmetic: rounding is not modelled.
  \<open>num_div\<close> is Python 2's \<open>/\<close>, floor division on two integers.
\<close>

datatype pynum = PInt int | PFlt rat

fun num_val :: "pynum \<Rightarrow> rat" where
  "num_val (PInt i) = of_int i"
| "num_val (PFlt r) = r"

fun num_lift :: "(int \<Rightarrow> int \<Rightarrow> int) \<Rightarrow> (rat \<Rightarrow> rat \<Rightarrow> rat) \<Rightarrow> pynum \<Rightarrow> pynum \<Rightarrow> pynum" where
  "num_lift f g (PInt a) (PInt b) = PInt (f a b)"
| "num_lift f g a b = PFlt (g (num_val a) (num_val b))"

definition num_add :: "pynum \<Rightarrow> pynum \<Rightarrow> pynum" where
  "num_add = num_lift (+) (+)"

definition num_sub :: "pynum \<Rightarrow> pynum \<Rightarrow> pynum" where
  "num_sub = num_lift (-) (-)"

definition num_mul :: "pynum \<Rightarrow> pynum \<Rightarrow> pynum" where
  "num_mul = num_lift (*) (*)"

definition num_div :: "pynum \<Rightarrow> pynum \<Rightarrow> pynum res" where
  "num_div a b =
     (if num_val b = 0 then Inl ZeroDivisionError else Inr (num_lift (div) (/) a b))"

definition rat_mod :: "rat \<Rightarrow> rat \<Rightarrow> rat" where
  "rat_mod a b = a - b * of_int \<lfloor>a / b\<rfloor>"

definition num_mod :: "pynum \<Rightarrow> pynum \<Rightarrow> pynum res" where
  "num_mod a b =
     (if num_val b = 0 then Inl ZeroDivisionError else Inr (num_lift (mod) rat_mod a b))"

text \<open>\<open>int(x)\<close> truncates towards zero.\<close>

fun num_int :: "pynum \<Rightarrow> int" where
  "num_int (PInt i) = i"
| "num_int (PFlt r) = (if 0 \<le> r then \<lfloor>r\<rfloor> else \<lceil>r\<rceil>)"

definition num_lt :: "pynum \<Rightarrow> pynum \<Rightarrow> bool" where
  "num_lt a b \<longleftrightarrow> num_val a < num_val b"

definition num_le :: "pynum \<Rightarrow> pynum \<Rightarrow> bool" where
  "num_le a b \<longleftrightarrow> num_val a \<le> num_val b"

definition num_max :: "pynum \<Rightarrow> pynum \<Rightarrow> pynum" where
  "num_max a b = (if num_lt a b then b else a)"

definition num_min :: "pynum \<Rightarrow> pynum \<Rightarrow> pynum" where
  "num_min a b = (if num_lt b a then b else a)"

fun num_abs :: "pynum \<Rightarrow> pynum" where
  "num_abs (PInt i) = PInt \<bar>i\<bar>"
| "num_abs (PFlt r) = PFlt \<bar>r\<bar>"

text \<open>\<open>a / b\<close> where \<open>b\<close> is a literal other than zero.\<close>

definition num_quot :: "pynum \<Rightarrow> pynum \<Rightarrow> pynum" where
  "num_quot a b = num_lift (div) (/) a b"

text \<open>Operators and numerals for Python numbers; a numeral is an \<open>int\<close>.\<close>

instantiation pynum :: "{minus, uminus, times, ord, comm_monoid_add, numeral}"
begin

definition plus_pynum_def: "a + b = num_add a b"

definition minus_pynum_def: "a - b = num_sub a b"

definition uminus_pynum_def: "- a = num_sub (PInt 0) a"

definition times_pynum_def: "a * b = num_mul a b"

definition zero_pynum_def: "0 = PInt 0"

definition one_pynum_def: "1 = PInt 1"

definition less_eq_pynum_def: "a \<le> b \<longleftrightarrow> num_le a b"

definition less_pynum_def: "a < b \<longleftrightarrow> num_lt a b"

instance
proof
  fix a b c :: pynum
  show "a + b + c = a + (b + c)"
    by (cases a; cases b; cases c) (simp_all add: plus_pynum_def num_add_def)
  show "a + b = b + a"
    by (cases a; cases b) (simp_all add: plus_pynum_def num_add_def)
  show "0 + a = a"
    by (cases a) (simp_all add: plus_pynum_def num_add_def zero_pynum_def)
qed

end

lemma numeral_pynum: "(numeral n :: pynum) = PInt (numeral n)"
  by (induction n) (simp_all only: numeral.simps one_pynum_def plus_pynum_def num_add_def num_lift.simps)

named_theorems num_simps \<open>rewrite rules to the rational value of a number\<close>

lemma num_val_add [num_simps]: "num_val (num_add a b) = num_val a + num_val b"
  by (cases a; cases b) (simp_all add: num_add_def)

lemma num_val_sub [num_simps]: "num_val (num_sub a b) = num_val a - num_val b"
  by (cases a; cases b) (simp_all add: num_sub_def)

lemma num_val_mul [num_simps]: "num_val (num_mul a b) = num_val a * num_val b"
  by (cases a; cases b) (simp_all add: num_mul_def)

lemma num_val_max [num_simps]: "num_val (num_max a b) = max (num_val a) (num_val b)"
  by (simp add: num_max_def num_lt_def)

lemma num_val_min [num_simps]: "num_val (num_min a b) = min (num_val a) (num_val b)"
  by (simp add: num_min_def num_lt_def)

lemma num_val_abs [num_simps]: "num_val (num_abs a) = \<bar>num_val a\<bar>"
  by (cases a) simp_all

lemma num_val_ops [simp]:
  "num_val (a + b) = num_val a + num_val b" "num_val (a - b) = num_val a - num_val b"
  "num_val (a * b) = num_val a * num_val b" "num_val (- a) = - num_val a"
  "num_val 0 = 0" "num_val 1 = 1" "num_val (numeral n) = numeral n"
  by (simp_all add: plus_pynum_def minus_pynum_def times_pynum_def uminus_pynum_def zero_pynum_def
      one_pynum_def numeral_pynum num_simps)

lemma num_less_val: "a \<le> b \<longleftrightarrow> num_val a \<le> num_val b" "a < b \<longleftrightarrow> num_val a < num_val b" for a b :: pynum
  by (simp_all add: less_eq_pynum_def num_le_def less_pynum_def num_lt_def)

lemma PInt_ops:
  "PInt a + PInt b = PInt (a + b)" "PInt a - PInt b = PInt (a - b)" "PInt a * PInt b = PInt (a * b)"
  "- PInt a = PInt (- a)" "0 = PInt 0" "1 = PInt 1" "numeral n = PInt (numeral n)"
  by (simp_all add: plus_pynum_def minus_pynum_def times_pynum_def uminus_pynum_def zero_pynum_def
      one_pynum_def numeral_pynum num_add_def num_sub_def num_mul_def)

lemma num_quot_2:
  "num_val (num_quot (PInt i) (PInt 2)) = of_int (i div 2)" "num_val (num_quot (PFlt x) (PInt 2)) = x / 2"
  by (simp_all add: num_quot_def)

lemma num_div_val:
  "num_div a b = Inr c \<Longrightarrow> num_val b \<noteq> 0"
  "num_val b \<noteq> 0 \<Longrightarrow> \<exists>c. num_div a b = Inr c"
  "num_div a b = Inl e \<longleftrightarrow> num_val b = 0 \<and> e = ZeroDivisionError"
  by (auto simp: num_div_def split: if_splits)

lemma num_div_float:
  "num_val b \<noteq> 0 \<Longrightarrow> num_div (PFlt a) b = Inr (PFlt (a / num_val b))"
  "num_val b \<noteq> 0 \<Longrightarrow> num_div b (PFlt a) = (if a = 0 then Inl ZeroDivisionError else Inr (PFlt (num_val b / a)))"
  by (simp_all add: num_div_def)

section \<open>Unspecified iteration order\<close>

text \<open>
  Python 2 iterates over the keys of a dictionary in an order the language leaves
  open.  Definitions take that order as an argument \<open>key_order\<close>, applied to the keys;
  all that is known of it is that it lists every key once.
\<close>

definition permutes_keys :: "('a list \<Rightarrow> 'a list) \<Rightarrow> bool" where
  "permutes_keys key_order \<longleftrightarrow> (\<forall>ks. mset (key_order ks) = mset ks)"

lemma permutes_keys_set: "permutes_keys f \<Longrightarrow> set (f ks) = set ks"
  unfolding permutes_keys_def by (metis set_mset_mset)

lemma permutes_keys_distinct: "permutes_keys f \<Longrightarrow> distinct (f ks) \<longleftrightarrow> distinct ks"
  unfolding permutes_keys_def by (metis mset_eq_imp_distinct_iff)

lemma permutes_keys_length: "permutes_keys f \<Longrightarrow> length (f ks) = length ks"
  unfolding permutes_keys_def by (metis size_mset)

lemma permutes_keys_id: "permutes_keys (\<lambda>ks. ks)"
  by (simp add: permutes_keys_def)

lemma permutes_keys_rev: "permutes_keys rev"
  by (simp add: permutes_keys_def)

section \<open>Actions on a state\<close>

text \<open>
  A method that changes an object and may raise: the assignments made before an
  exception stay, so the state is returned with the exception too.
\<close>

type_synonym ('s, 'a) act = "'s \<Rightarrow> 's \<times> 'a res"

definition act_ret :: "'a \<Rightarrow> ('s, 'a) act" where
  "act_ret x s = (s, Inr x)"

definition act_bind :: "('s, 'a) act \<Rightarrow> ('a \<Rightarrow> ('s, 'b) act) \<Rightarrow> ('s, 'b) act" where
  "act_bind m f s = (case m s of (s', Inl e) \<Rightarrow> (s', Inl e) | (s', Inr x) \<Rightarrow> f x s')"

text \<open>Read something of the state, which may raise; change the state.\<close>

definition act_read :: "('s \<Rightarrow> 'a res) \<Rightarrow> ('s, 'a) act" where
  "act_read r s = (s, r s)"

definition act_upd :: "('s \<Rightarrow> 's) \<Rightarrow> ('s, unit) act" where
  "act_upd f s = (f s, Inr ())"

definition act_then :: "('s, 'a) act \<Rightarrow> ('s, 'b) act \<Rightarrow> ('s, 'b) act" where
  "act_then m n = act_bind m (\<lambda>_. n)"

named_theorems act_simps \<open>evaluation of actions\<close>

lemma act_ops [act_simps]:
  "act_ret x s = (s, Inr x)"
  "act_read r s = (s, r s)"
  "act_upd h s = (h s, Inr ())"
  "act_then m n s = (case m s of (s', Inl e) \<Rightarrow> (s', Inl e) | (s', Inr x) \<Rightarrow> n s')"
  "act_bind m f s = (case m s of (s', Inl e) \<Rightarrow> (s', Inl e) | (s', Inr x) \<Rightarrow> f x s')"
  by (simp_all add: act_ret_def act_read_def act_upd_def act_then_def act_bind_def)

text \<open>An action keeps a property of the state, whether it raises or not.\<close>

definition act_keeps :: "('s \<Rightarrow> bool) \<Rightarrow> ('s, 'a) act \<Rightarrow> bool" where
  "act_keeps P m \<longleftrightarrow> (\<forall>s. P s \<longrightarrow> P (fst (m s)))"

named_theorems keeps_intros \<open>introduction rules for actions that keep a property\<close>

lemma act_keepsD: "act_keeps P m \<Longrightarrow> P s \<Longrightarrow> P (fst (m s))"
  by (simp add: act_keeps_def)

lemma act_keeps_ret [keeps_intros]: "act_keeps P (act_ret x)"
  by (simp add: act_keeps_def act_simps)

lemma act_keeps_read [keeps_intros]: "act_keeps P (act_read r)"
  by (simp add: act_keeps_def act_simps)

lemma act_keeps_upd: "(\<And>s. P s \<Longrightarrow> P (f s)) \<Longrightarrow> act_keeps P (act_upd f)"
  by (simp add: act_keeps_def act_simps)

lemma act_keeps_bind [keeps_intros]:
  assumes "act_keeps P m" and "\<And>x. act_keeps P (f x)"
  shows "act_keeps P (act_bind m f)"
proof -
  have "P (fst (act_bind m f s))" if "P s" for s
    using act_keepsD [OF assms(1) that] act_keepsD [OF assms(2)]
    by (cases "m s"; cases "snd (m s)") (auto simp: act_simps)
  then show ?thesis by (simp add: act_keeps_def)
qed

lemma act_keeps_then [keeps_intros]:
  "act_keeps P m \<Longrightarrow> act_keeps P n \<Longrightarrow> act_keeps P (act_then m n)"
  unfolding act_then_def by (rule act_keeps_bind)

lemma act_keeps_if [keeps_intros]:
  "act_keeps P m \<Longrightarrow> act_keeps P n \<Longrightarrow> act_keeps P (if b then m else n)"
  by simp

lemma act_keeps_state_if [keeps_intros]:
  "act_keeps P m \<Longrightarrow> act_keeps P n \<Longrightarrow> act_keeps P (\<lambda>s. if b s then m s else n s)"
  by (simp add: act_keeps_def)

lemma act_keeps_prod [keeps_intros]:
  "(\<And>a b. p = (a, b) \<Longrightarrow> act_keeps P (f a b)) \<Longrightarrow> act_keeps P (case p of (a, b) \<Rightarrow> f a b)"
  by (cases p) simp

text \<open>Conditional actions, a raise, and actions over a list.\<close>

definition act_when :: "bool \<Rightarrow> ('s, unit) act \<Rightarrow> ('s, unit) act" where
  "act_when b m = (if b then m else act_ret ())"

definition act_fail :: "py_error \<Rightarrow> ('s, 'a) act" where
  "act_fail e s = (s, Inl e)"

definition act_lift :: "'a res \<Rightarrow> ('s, 'a) act" where
  "act_lift r s = (s, r)"

fun act_map :: "('a \<Rightarrow> ('s, 'b) act) \<Rightarrow> 'a list \<Rightarrow> ('s, 'b list) act" where
  "act_map f [] = act_ret []"
| "act_map f (x # xs) = act_bind (f x) (\<lambda>y. act_bind (act_map f xs) (\<lambda>ys. act_ret (y # ys)))"

definition act_each :: "('a \<Rightarrow> ('s, unit) act) \<Rightarrow> 'a list \<Rightarrow> ('s, unit) act" where
  "act_each f xs = act_then (act_map f xs) (act_ret ())"

text \<open>\<open>all(f(x) for x in xs)\<close> for an action \<open>f\<close>: it stops at the first false result.\<close>

fun act_all :: "('a \<Rightarrow> ('s, bool) act) \<Rightarrow> 'a list \<Rightarrow> ('s, bool) act" where
  "act_all f [] = act_ret True"
| "act_all f (x # xs) = act_bind (f x) (\<lambda>b. if b then act_all f xs else act_ret False)"

text \<open>\<open>try\<close> with \<open>except Exception\<close>, which lets \<open>SystemExit\<close> pass.\<close>

definition act_catch :: "('s, 'a) act \<Rightarrow> (py_error \<Rightarrow> ('s, 'a) act) \<Rightarrow> ('s, 'a) act" where
  "act_catch m h s =
     (case m s of
        (s', Inl (SystemExit c)) \<Rightarrow> (s', Inl (SystemExit c))
      | (s', Inl e) \<Rightarrow> h e s'
      | (s', Inr x) \<Rightarrow> (s', Inr x))"

lemma act_small [act_simps]:
  "act_fail e s = (s, Inl e)"
  "act_lift r s = (s, r)"
  by (simp_all add: act_fail_def act_lift_def)

lemma act_keeps_small [keeps_intros]:
  "act_keeps P (act_fail e)"
  "act_keeps P (act_lift r)"
  "act_keeps P m \<Longrightarrow> act_keeps P (act_when b m)"
  by (simp_all add: act_keeps_def act_simps act_when_def)

lemma act_keeps_map [keeps_intros]:
  "(\<And>x. x \<in> set xs \<Longrightarrow> act_keeps P (f x)) \<Longrightarrow> act_keeps P (act_map f xs)"
  by (induction xs) (auto intro!: keeps_intros)

lemma act_each_simps [act_simps]:
  "act_each f [] s = (s, Inr ())"
  "act_each f (x # xs) s = act_then (f x) (act_each f xs) s"
  by (simp_all add: act_each_def act_simps split: prod.splits sum.splits)

lemma act_keeps_each [keeps_intros]:
  "(\<And>x. x \<in> set xs \<Longrightarrow> act_keeps P (f x)) \<Longrightarrow> act_keeps P (act_each f xs)"
  unfolding act_each_def by (intro keeps_intros)

lemma act_keeps_all [keeps_intros]:
  "(\<And>x. x \<in> set xs \<Longrightarrow> act_keeps P (f x)) \<Longrightarrow> act_keeps P (act_all f xs)"
  by (induction xs) (auto intro!: keeps_intros)

lemma act_keeps_catch [keeps_intros]:
  assumes "act_keeps P m" and "\<And>e. act_keeps P (h e)"
  shows "act_keeps P (act_catch m h)"
  using assms unfolding act_keeps_def act_catch_def
  by (auto split: prod.splits sum.splits py_error.splits)

text \<open>What an action raises and what it returns.\<close>

definition act_gives :: "(py_error \<Rightarrow> bool) \<Rightarrow> ('a \<Rightarrow> bool) \<Rightarrow> ('s, 'a) act \<Rightarrow> bool" where
  "act_gives E R m \<longleftrightarrow> (\<forall>s. case snd (m s) of Inl e \<Rightarrow> E e | Inr x \<Rightarrow> R x)"

named_theorems gives_intros \<open>introduction rules for what an action raises and returns\<close>

lemma act_gives_ret [gives_intros]: "R x \<Longrightarrow> act_gives E R (act_ret x)"
  by (simp add: act_gives_def act_simps)

lemma act_gives_fail [gives_intros]: "E e \<Longrightarrow> act_gives E R (act_fail e)"
  by (simp add: act_gives_def act_simps)

lemma act_gives_upd [gives_intros]: "R () \<Longrightarrow> act_gives E R (act_upd f)"
  by (simp add: act_gives_def act_simps)

lemma act_gives_pure [gives_intros]: "(\<And>s. R (f s)) \<Longrightarrow> act_gives E R (act_read (\<lambda>s. Inr (f s)))"
  by (simp add: act_gives_def act_simps)

lemma act_gives_lift [gives_intros]:
  "(\<And>e. r = Inl e \<Longrightarrow> E e) \<Longrightarrow> (\<And>x. r = Inr x \<Longrightarrow> R x) \<Longrightarrow> act_gives E R (act_lift r)"
  by (cases r) (simp_all add: act_gives_def act_simps)

lemma act_gives_bind:
  assumes "act_gives E R m" and "\<And>x. R x \<Longrightarrow> act_gives E S (f x)"
  shows "act_gives E S (act_bind m f)"
  unfolding act_gives_def
proof
  fix s
  obtain s1 r where m: "m s = (s1, r)" by fastforce
  show "case snd (act_bind m f s) of Inl e \<Rightarrow> E e | Inr x \<Rightarrow> S x"
    using assms(1) assms(2) unfolding act_gives_def
    by (cases r) (auto simp: act_simps m dest!: spec [of _ s])
qed

lemma act_gives_then [gives_intros]:
  "act_gives E (\<lambda>_. True) m \<Longrightarrow> act_gives E R n \<Longrightarrow> act_gives E R (act_then m n)"
  unfolding act_then_def by (rule act_gives_bind)

lemma act_gives_bind_any [gives_intros]:
  "act_gives E (\<lambda>_. True) m \<Longrightarrow> (\<And>x. act_gives E R (f x)) \<Longrightarrow> act_gives E R (act_bind m f)"
  by (rule act_gives_bind)

lemma act_gives_if [gives_intros]:
  "(b \<Longrightarrow> act_gives E R m) \<Longrightarrow> (\<not> b \<Longrightarrow> act_gives E R n) \<Longrightarrow> act_gives E R (if b then m else n)"
  by simp

lemma act_gives_when [gives_intros]: "act_gives E (\<lambda>_. True) m \<Longrightarrow> act_gives E (\<lambda>_. True) (act_when b m)"
  by (simp add: act_when_def act_gives_ret)

lemma act_gives_all [gives_intros]:
  "(\<And>x. x \<in> set xs \<Longrightarrow> act_gives E (\<lambda>_. True) (f x)) \<Longrightarrow> act_gives E (\<lambda>_. True) (act_all f xs)"
  by (induction xs) (auto intro!: gives_intros)

lemma act_gives_map:
  "(\<And>x. x \<in> set xs \<Longrightarrow> act_gives E R (f x)) \<Longrightarrow> act_gives E (list_all R) (act_map f xs)"
proof (induction xs)
  case (Cons a xs)
  have "act_gives E (list_all R) (act_bind (act_map f xs) (\<lambda>ys. act_ret (y # ys)))" if "R y" for y
    using Cons that by (intro act_gives_bind [where R = "list_all R"]) (auto intro: act_gives_ret)
  then show ?case using Cons.prems [of a] by (auto intro: act_gives_bind [where R = R])
qed (simp add: act_gives_ret)

lemma act_keeps_bind_gives:
  assumes "act_keeps P m" and "act_gives (\<lambda>_. True) R m" and "\<And>x. R x \<Longrightarrow> act_keeps P (f x)"
  shows "act_keeps P (act_bind m f)"
proof -
  have "P (fst (act_bind m f s))" if "P s" for s
  proof -
    obtain s1 r where m: "m s = (s1, r)" by fastforce
    then have "P s1" "case r of Inl e \<Rightarrow> True | Inr x \<Rightarrow> R x"
      using act_keepsD [OF assms(1) that] assms(2) by (auto simp: act_gives_def dest!: spec [of _ s])
    then show ?thesis using assms(3) by (cases r) (auto simp: act_simps m act_keeps_def)
  qed
  then show ?thesis by (simp add: act_keeps_def)
qed

text \<open>An attribute that is read before it was assigned.\<close>

definition attr :: "'a option \<Rightarrow> 'a res" where
  "attr x = (case x of None \<Rightarrow> Inl AttributeError | Some v \<Rightarrow> Inr v)"

lemma attr_simps [simp]: "attr None = Inl AttributeError" "attr (Some v) = Inr v"
  by (simp_all add: attr_def)

lemma attr_Inr [res_simps]: "attr x = Inr v \<longleftrightarrow> x = Some v"
  by (cases x) simp_all

section \<open>\<open>range\<close>\<close>

definition py_range :: "int \<Rightarrow> int \<Rightarrow> int \<Rightarrow> int list res" where
  "py_range a b s =
     (if s = 0 then Inl (ValueError ''range() step argument must not be zero'')
      else if 0 < s then Inr (map (\<lambda>k. a + int k * s) [0..<nat ((b - a + s - 1) div s)])
      else Inr (map (\<lambda>k. a + int k * s) [0..<nat ((b - a + s + 1) div s)]))"

lemma int_le_div_iff:
  assumes "0 < (s::int)"
  shows "k \<le> c div s \<longleftrightarrow> k * s \<le> c"
proof
  assume "k \<le> c div s"
  then have "k * s \<le> c div s * s" using assms by simp
  also have "\<dots> \<le> c" using assms div_mult_mod_eq [of c s] pos_mod_sign [OF assms, of c] by linarith
  finally show "k * s \<le> c" .
next
  assume "k * s \<le> c"
  then have "k * s div s \<le> c div s" using assms by (rule zdiv_mono1)
  with assms show "k \<le> c div s" by simp
qed

lemma set_py_range:
  assumes "0 < s" and "py_range a b s = Inr xs"
  shows "x \<in> set xs \<longleftrightarrow> a \<le> x \<and> x < b \<and> s dvd (x - a)"
proof -
  have xs: "xs = map (\<lambda>k. a + int k * s) [0..<nat ((b - a + s - 1) div s)]"
    using assms by (simp add: py_range_def)
  have lt: "int k < (b - a + s - 1) div s \<longleftrightarrow> a + int k * s < b" for k
  proof -
    have "int k + 1 \<le> (b - a + s - 1) div s \<longleftrightarrow> (int k + 1) * s \<le> b - a + s - 1"
      using assms(1) by (rule int_le_div_iff)
    also have "(int k + 1) * s = int k * s + s" by (simp add: algebra_simps)
    finally show ?thesis by linarith
  qed
  show ?thesis
  proof
    assume "x \<in> set xs"
    then obtain k where "x = a + int k * s" "k < nat ((b - a + s - 1) div s)" unfolding xs by fastforce
    then have "x = a + int k * s" "int k < (b - a + s - 1) div s" by (simp_all add: zless_nat_eq_int_zless)
    then show "a \<le> x \<and> x < b \<and> s dvd (x - a)" using assms(1) lt by auto
  next
    assume x: "a \<le> x \<and> x < b \<and> s dvd (x - a)"
    then obtain q where q: "x - a = s * q" by (auto simp: dvd_def)
    with x assms(1) have "0 \<le> s * q" by simp
    with assms(1) have "0 \<le> q" by (simp add: zero_le_mult_iff)
    then obtain k where "q = int k" using nonneg_int_cases by blast
    with q have k: "x = a + int k * s" by (simp add: algebra_simps)
    with x lt [of k] have "k < nat ((b - a + s - 1) div s)" by (simp add: zless_nat_eq_int_zless)
    with k show "x \<in> set xs" by (auto simp: xs)
  qed
qed

section \<open>Pieces of regular expressions\<close>

text \<open>
  A literal, a non-empty run of characters of a class (\<open>[0-9]+\<close> for digits), each with the rest
  of the string.  A run takes all it can.
\<close>

definition re_lit :: "string \<Rightarrow> string \<Rightarrow> string option" where
  "re_lit p s = (if str_startswith s p then Some (drop (length p) s) else None)"

definition re_span :: "(char \<Rightarrow> bool) \<Rightarrow> string \<Rightarrow> (string \<times> string) option" where
  "re_span P s = (if takeWhile P s = [] then None else Some (takeWhile P s, dropWhile P s))"

definition re_digits :: "string \<Rightarrow> (string \<times> string) option" where
  "re_digits s = re_span is_digit s"

lemma re_lit_prefix: "re_lit p s = Some t \<longleftrightarrow> s = p @ t"
  by (auto simp: re_lit_def str_startswith_def) (metis append_take_drop_id)

lemma re_lit_self [simp]: "re_lit p (p @ s) = Some s"
  by (simp add: re_lit_def)

lemma re_span_append:
  "w \<noteq> [] \<Longrightarrow> \<forall>c\<in>set w. P c \<Longrightarrow> \<not> P c \<Longrightarrow> re_span P (w @ c # s) = Some (w, c # s)"
  by (simp add: re_span_def)

lemma re_digits_append:
  "0 \<le> i \<Longrightarrow> \<not> is_digit c \<Longrightarrow> re_digits (str_int i @ c # s) = Some (str_int i, c # s)"
  by (simp add: re_digits_def str_int_def re_span_append str_nat_digits)

lemma dec_val_str_int: "0 \<le> i \<Longrightarrow> int (dec_val (str_int i)) = i"
  by (simp add: str_int_def)

lemma not_digit [simp]: "\<not> is_digit (CHR '' '')" "\<not> is_digit (CHR 0x0A)"
  by (simp_all add: is_digit_def)

section \<open>Lines\<close>

text \<open>\<open>fh.readlines()\<close>: the lines with their line feeds.\<close>

function readlines :: "string \<Rightarrow> string list" where
  "readlines s =
     (if s = [] then []
      else (case dropWhile (\<lambda>c. c \<noteq> CHR 0x0A) s of
              [] \<Rightarrow> [s]
            | n # rest \<Rightarrow> (takeWhile (\<lambda>c. c \<noteq> CHR 0x0A) s @ [n]) # readlines rest))"
  by pat_completeness auto
termination
proof (relation "measure length")
  fix s :: string and n rest
  assume "dropWhile (\<lambda>c. c \<noteq> CHR 0x0A) s = n # rest"
  then have "length (n # rest) \<le> length s" by (metis length_dropWhile_le)
  then show "(rest, s) \<in> measure length" by simp
qed simp

declare readlines.simps [simp del]

lemma readlines_Nil [simp]: "readlines [] = []"
  by (subst readlines.simps) simp

lemma readlines_line:
  "CHR 0x0A \<notin> set l \<Longrightarrow> readlines (l @ CHR 0x0A # rest) = (l @ [CHR 0x0A]) # readlines rest"
proof -
  assume "CHR 0x0A \<notin> set l"
  then have "dropWhile (\<lambda>c. c \<noteq> CHR 0x0A) (l @ CHR 0x0A # rest) = CHR 0x0A # rest"
    "takeWhile (\<lambda>c. c \<noteq> CHR 0x0A) (l @ CHR 0x0A # rest) = l" by (induction l) auto
  then show ?thesis by (subst readlines.simps) (simp only: list.case, simp)
qed

lemma concat_readlines: "concat (readlines s) = s"
proof (induction s rule: readlines.induct)
  case (1 s)
  show ?case
  proof (cases "dropWhile (\<lambda>c. c \<noteq> CHR 0x0A) s")
    case Nil
    show ?thesis by (subst readlines.simps) (simp only: Nil list.case, simp)
  next
    case (Cons n rest)
    then have "s \<noteq> []" by auto
    with 1 Cons have "concat (readlines rest) = rest" by blast
    then have "concat (readlines s) = takeWhile (\<lambda>c. c \<noteq> CHR 0x0A) s @ n # rest"
      using Cons \<open>s \<noteq> []\<close> by (subst readlines.simps) simp
    also have "\<dots> = s" using takeWhile_dropWhile_id [of "\<lambda>c. c \<noteq> CHR 0x0A" s] Cons by simp
    finally show ?thesis .
  qed
qed

end
