(* ===== verification/Rad_Util.thy ===== *)
theory Rad_Util
  imports Py_Prelude "HOL-Library.Sublist"
begin

text \<open>
  The helper functions of \<open>src/bindings/python/rad_util.py\<close> (Python 2: \<open>/\<close> on two
  integers is floor division).
\<close>

section \<open>Rotations of a sequence (\<open>is_rotated\<close>)\<close>

definition is_rotated :: "'a list \<Rightarrow> 'a list \<Rightarrow> bool res" where
  "is_rotated seq1 seq2 =
     (if length seq1 \<noteq> length seq2 then Inr False
      else if seq2 = [] then Inl IndexError
      else
        (let head_item = seq2 ! 0;
             start_indexes = filter (\<lambda>i. seq1 ! i = head_item) [0..<length seq1];
             double_seq1 = seq1 @ seq1
         in Inr (list_ex (\<lambda>i. take (length seq1) (drop i double_seq1) = seq2) start_indexes)))"

lemma window_rotate: "i \<le> length xs \<Longrightarrow> take (length xs) (drop i (xs @ xs)) = rotate i xs"
  by (cases "i = length xs") (simp_all add: rotate_drop_take)

lemma is_rotated_rotate:
  assumes "seq2 \<noteq> []"
  shows "is_rotated seq1 seq2 = Inr (\<exists>n. seq2 = rotate n seq1)"
proof (cases "length seq1 = length seq2")
  case False
  then show ?thesis by (auto simp: is_rotated_def)
next
  case len: True
  have "(\<exists>i<length seq1. seq1 ! i = seq2 ! 0 \<and> rotate i seq1 = seq2) \<longleftrightarrow> (\<exists>n. seq2 = rotate n seq1)"
  proof
    assume "\<exists>n. seq2 = rotate n seq1"
    then obtain n where n: "seq2 = rotate n seq1" ..
    let ?i = "n mod length seq1"
    have pos: "0 < length seq1" using assms len by simp
    have "rotate ?i seq1 = seq2" by (simp add: n rotate_conv_mod [symmetric])
    moreover have "seq1 ! ?i = seq2 ! 0" using pos by (simp add: n nth_rotate)
    ultimately show "\<exists>i<length seq1. seq1 ! i = seq2 ! 0 \<and> rotate i seq1 = seq2"
      using pos by (intro exI [of _ ?i]) simp
  qed auto
  moreover have "is_rotated seq1 seq2 =
      Inr (\<exists>i<length seq1. seq1 ! i = seq2 ! 0 \<and> rotate i seq1 = seq2)"
  proof -
    have "list_ex (\<lambda>i. take (length seq1) (drop i (seq1 @ seq1)) = seq2)
          (filter (\<lambda>i. seq1 ! i = seq2 ! 0) [0..<length seq1]) \<longleftrightarrow>
        (\<exists>i<length seq1. seq1 ! i = seq2 ! 0 \<and> rotate i seq1 = seq2)"
      unfolding list_ex_iff by (auto simp del: take_append drop_append simp: window_rotate)
    with assms len show ?thesis by (simp add: is_rotated_def Let_def del: take_append drop_append)
  qed
  ultimately show ?thesis by simp
qed

section \<open>Strings, matrices and permutations\<close>

text \<open>\<open>reverse\<close> copies the string into a list, reverses it in place and joins it again.\<close>

definition reverse :: "string \<Rightarrow> string" where
  "reverse input_string = rev input_string"

text \<open>\<open>zip(*matrix)\<close> stops at the shortest row, and is empty for no rows at all.\<close>

function zip_rows :: "'a list list \<Rightarrow> 'a list list" where
  "zip_rows rows =
     (if rows = [] \<or> [] \<in> set rows then [] else map hd rows # zip_rows (map tl rows))"
  by pat_completeness auto
termination
proof (relation "measure (\<lambda>rows. length (hd rows))", simp)
  fix rows :: "'a list list" assume "\<not> (rows = [] \<or> [] \<in> set rows)"
  then show "(map tl rows, rows) \<in> measure (\<lambda>rows. length (hd rows))"
    by (cases rows) auto
qed

declare zip_rows.simps [simp del]

definition transpose_py :: "'a list list \<Rightarrow> 'a list list" where
  "transpose_py matrix = zip_rows matrix"

definition list_insert :: "nat \<Rightarrow> 'a \<Rightarrow> 'a list \<Rightarrow> 'a list" where
  "list_insert i x xs = take i xs @ x # drop i xs"

fun permutations :: "'a list \<Rightarrow> 'a list list" where
  "permutations (item # y # ys) =
     concat (map (\<lambda>sub_list. map (\<lambda>i. list_insert i item sub_list) [0..<length (item # y # ys)])
       (permutations (y # ys)))"
| "permutations input_list = [input_list]"

lemma zip_rows_length:
  "rows \<noteq> [] \<Longrightarrow> length (zip_rows rows) = Min (length ` set rows)"
proof (induction rows rule: zip_rows.induct)
  case (1 rows)
  show ?case
  proof (cases "[] \<in> set rows")
    case True
    then have "0 \<in> length ` set rows" by force
    then have "Min (length ` set rows) = 0" by (metis List.finite_set Min_le finite_imageI le_zero_eq)
    with True show ?thesis by (simp add: zip_rows.simps [of rows])
  next
    case False
    have img: "length ` set rows = Suc ` (length ` set (map tl rows))"
    proof -
      have "length r = Suc (length (tl r))" if "r \<in> set rows" for r using False that by (cases r) auto
      then show ?thesis by (force simp: image_iff)
    qed
    have "Min (length ` set rows) = Suc (Min (length ` set (map tl rows)))"
      unfolding img using 1(2) by (intro mono_Min_commute [symmetric]) (auto simp: mono_def)
    with False 1 show ?thesis by (simp add: zip_rows.simps [of rows])
  qed
qed

lemma zip_rows_nth:
  "rows \<noteq> [] \<Longrightarrow> \<forall>r\<in>set rows. j < length r \<Longrightarrow> zip_rows rows ! j = map (\<lambda>r. r ! j) rows"
proof (induction rows arbitrary: j rule: zip_rows.induct)
  case (1 rows)
  then have ne: "[] \<notin> set rows" by force
  show ?case
  proof (cases j)
    case 0
    moreover have "hd r = r ! 0" if "r \<in> set rows" for r using ne that by (metis hd_conv_nth)
    ultimately show ?thesis using ne 1(2) by (simp add: zip_rows.simps [of rows])
  next
    case (Suc k)
    have "zip_rows (map tl rows) ! k = map (\<lambda>r. r ! k) (map tl rows)"
      using 1(1) [of k] ne 1(2,3) Suc by fastforce
    moreover have "tl r ! k = r ! Suc k" if "r \<in> set rows" for r using ne that by (cases r) auto
    ultimately show ?thesis using ne 1(2) Suc by (simp add: zip_rows.simps [of rows])
  qed
qed

lemma zip_rows_rect:
  assumes "rows \<noteq> []" and "\<forall>r\<in>set rows. length r = c"
  shows "zip_rows rows = map (\<lambda>j. map (\<lambda>r. r ! j) rows) [0..<c]"
proof (rule nth_equalityI)
  have "length ` set rows = {c}" using assms by (cases rows) auto
  then show len: "length (zip_rows rows) = length (map (\<lambda>j. map (\<lambda>r. r ! j) rows) [0..<c])"
    using zip_rows_length [OF assms(1)] by simp
  fix j assume "j < length (zip_rows rows)"
  with len assms show "zip_rows rows ! j = map (\<lambda>j. map (\<lambda>r. r ! j) rows) [0..<c] ! j"
    by (simp add: zip_rows_nth)
qed

text \<open>
  Transposing a rectangular matrix (at least one row and one column) swaps the
  two subscripts, and transposing twice gives the matrix back.
\<close>

theorem transpose_involution:
  assumes "m \<noteq> []" and "\<forall>r\<in>set m. length r = c" and "0 < c"
  shows "length (transpose_py m) = c \<and>
     (\<forall>i<length m. \<forall>j<c. transpose_py m ! j ! i = m ! i ! j) \<and>
     transpose_py (transpose_py m) = m"
proof -
  have t: "zip_rows m = map (\<lambda>j. map (\<lambda>r. r ! j) m) [0..<c]" using zip_rows_rect [OF assms(1,2)] .
  then have "zip_rows (zip_rows m) = map (\<lambda>i. map (\<lambda>r. r ! i) (zip_rows m)) [0..<length m]"
    using assms by (intro zip_rows_rect) auto
  also have "\<dots> = m"
    by (rule nth_equalityI) (use assms(2) in \<open>auto simp: t intro!: nth_equalityI\<close>)
  finally show ?thesis using t by (simp add: transpose_py_def)
qed

theorem transpose_involution_witness:
  "length (transpose_py [[1, 2, 3], [4, 5, 6::int]]) = 3 \<and>
     (\<forall>i<length [[1, 2, 3], [4, 5, 6::int]]. \<forall>j<3.
        transpose_py [[1, 2, 3], [4, 5, 6::int]] ! j ! i = [[1, 2, 3], [4, 5, 6]] ! i ! j) \<and>
     transpose_py (transpose_py [[1, 2, 3], [4, 5, 6::int]]) = [[1, 2, 3], [4, 5, 6]]"
  by (rule transpose_involution) simp_all

lemma length_permutations: "length (permutations xs) = fact (length xs)"
proof (induction xs rule: permutations.induct)
  case (1 item y ys)
  then show ?case by (simp add: length_concat comp_def sum_list_triv algebra_simps)
qed simp_all

lemma mset_list_insert: "mset (list_insert i x xs) = add_mset x (mset xs)"
proof -
  have "mset (list_insert i x xs) = add_mset x (mset (take i xs @ drop i xs))"
    unfolding list_insert_def mset_append by simp
  then show ?thesis by (simp only: append_take_drop_id)
qed

lemma in_concat_map_upt:
  "y \<in> set (concat (map (\<lambda>s. map (f s) [0..<n]) L)) \<longleftrightarrow> (\<exists>s\<in>set L. \<exists>i<n. y = f s i)"
  by (force simp: image_iff)

lemma set_permutations: "ys \<in> set (permutations xs) \<longleftrightarrow> mset ys = mset xs"
proof (induction xs arbitrary: ys rule: permutations.induct)
  case (1 item y zs)
  have "ys \<in> set (permutations (item # y # zs)) \<longleftrightarrow>
      (\<exists>s i. mset s = mset (y # zs) \<and> i < length (item # y # zs) \<and> ys = list_insert i item s)"
    unfolding permutations.simps in_concat_map_upt Bex_def 1 by blast
  also have "\<dots> \<longleftrightarrow> mset ys = mset (item # y # zs)"
  proof
    assume eq: "mset ys = mset (item # y # zs)"
    then have "item \<in> set ys" by (metis list.set_intros(1) set_mset_mset)
    then obtain a b where ys: "ys = a @ item # b" by (meson split_list)
    then have "mset (a @ b) = mset (y # zs)" using eq by simp
    moreover have "length ys = length (item # y # zs)" using eq by (metis size_mset)
    ultimately show "\<exists>s i. mset s = mset (y # zs) \<and> i < length (item # y # zs) \<and> ys = list_insert i item s"
      using ys by (intro exI [of _ "a @ b"] exI [of _ "length a"]) (simp add: list_insert_def)
  qed (auto simp: mset_list_insert)
  finally show ?case .
qed (auto simp: mset_single_iff_right)

text \<open>
  \<open>permutations\<close> returns exactly the rearrangements of the input, \<open>n!\<close> of them
  for a list of \<open>n\<close> items.
\<close>

theorem permutations_correct:
  "set (permutations xs) = {ys. mset ys = mset xs} \<and> length (permutations xs) = fact (length xs)"
  by (auto simp: set_permutations length_permutations)

section \<open>Duplicates and dictionaries\<close>

text \<open>
  \<open>uniquify\<close> has three ways: the list comprehension that records what it has seen in
  a dictionary, the keys of a dictionary, and, when an item is not hashable, a linear
  search in the result.  Whether the items are hashable is an argument of the model.
\<close>

fun uniq_ordered :: "('a, int) dict \<Rightarrow> 'a list \<Rightarrow> 'a list" where
  "uniq_ordered d [] = []"
| "uniq_ordered d (x # seq) =
     (if \<not> dict_has d x then x # uniq_ordered (dict_set x 0 d) seq else uniq_ordered d seq)"

definition uniq_keys :: "('a list \<Rightarrow> 'a list) \<Rightarrow> 'a list \<Rightarrow> 'a list" where
  "uniq_keys key_order seq = key_order (map fst (fold (\<lambda>x d. dict_set x (0::int) d) seq []))"

definition uniq_slow :: "'a list \<Rightarrow> 'a list" where
  "uniq_slow seq = fold (\<lambda>x result. if x \<notin> set result then result @ [x] else result) seq []"

definition uniquify :: "('a list \<Rightarrow> 'a list) \<Rightarrow> bool \<Rightarrow> bool \<Rightarrow> 'a list \<Rightarrow> 'a list" where
  "uniquify key_order hashable preserve_order seq =
     (if hashable then (if preserve_order then uniq_ordered [] seq else uniq_keys key_order seq)
      else uniq_slow seq)"

definition reverse_dict :: "('k list \<Rightarrow> 'k list) \<Rightarrow> ('k, 'v) dict \<Rightarrow> ('v, 'k) dict" where
  "reverse_dict key_order d =
     fold (\<lambda>key result. case dict_find d key of None \<Rightarrow> result | Some value \<Rightarrow> dict_set value key result)
       (key_order (map fst d)) []"

text \<open>The items of a list at their first occurrence.\<close>

definition first_occurrences :: "'a list \<Rightarrow> 'a list" where
  "first_occurrences xs = rev (remdups (rev xs))"

lemma first_occurrences_snoc:
  "first_occurrences (xs @ [x]) =
     (if x \<in> set xs then first_occurrences xs else first_occurrences xs @ [x])"
  by (simp add: first_occurrences_def)

lemma set_first_occurrences [simp]: "set (first_occurrences xs) = set xs"
  by (simp add: first_occurrences_def)

lemma distinct_first_occurrences [simp]: "distinct (first_occurrences xs)"
  by (simp add: first_occurrences_def)

lemma uniq_slow_first: "uniq_slow seq = first_occurrences seq"
proof (induction seq rule: rev_induct)
  case (snoc x xs)
  then show ?case by (simp add: uniq_slow_def first_occurrences_snoc)
qed (simp add: uniq_slow_def first_occurrences_def)

lemma uniq_ordered_filter:
  "dict_ok d \<Longrightarrow> uniq_ordered d seq = filter (\<lambda>x. \<not> dict_has d x) (first_occurrences seq)"
proof (induction seq arbitrary: d)
  case Nil
  then show ?case by (simp add: first_occurrences_def)
next
  case (Cons x seq)
  have first: "first_occurrences (x # seq) = x # filter (\<lambda>y. y \<noteq> x) (first_occurrences seq)"
  proof (induction seq rule: rev_induct)
    case (snoc y ys)
    have "first_occurrences (x # ys @ [y]) = first_occurrences ((x # ys) @ [y])" by simp
    also have "\<dots> = x # filter (\<lambda>z. z \<noteq> x) (first_occurrences (ys @ [y]))"
      unfolding first_occurrences_snoc using snoc by auto
    finally show ?case .
  qed (simp add: first_occurrences_def)
  show ?case using Cons
    by (auto simp: first dict_simps intro!: filter_cong split: if_splits)
qed

lemma uniq_ordered_first: "uniq_ordered [] seq = first_occurrences seq"
  by (simp add: uniq_ordered_filter dict_has_find)

lemma uniq_dict: "dict_ok d \<Longrightarrow>
  dict_ok (fold (\<lambda>x d. dict_set x (0::int) d) seq d) \<and>
  set (map fst (fold (\<lambda>x d. dict_set x (0::int) d) seq d)) = set seq \<union> set (map fst d)"
proof (induction seq arbitrary: d)
  case (Cons x seq)
  have "dict_ok (dict_set x 0 d)" using Cons.prems by (simp add: dict_ops)
  moreover have "set (map fst (dict_set x (0::int) d)) = insert x (set (map fst d))"
    by (simp add: dict_set_def dom_update)
  ultimately show ?case using Cons.IH [of "dict_set x 0 d"] by auto
qed simp

text \<open>
  Whichever way \<open>uniquify\<close> takes, its result has exactly the items of the
  sequence, each once; with \<open>preserve_order\<close>, or when items are not hashable, they are
  in the order of their first occurrence.
\<close>

theorem uniquify_correct:
  assumes "permutes_keys key_order"
  shows "distinct (uniquify key_order hashable preserve_order seq) \<and>
     set (uniquify key_order hashable preserve_order seq) = set seq \<and>
     (preserve_order \<or> \<not> hashable \<longrightarrow>
        uniquify key_order hashable preserve_order seq = first_occurrences seq)"
proof -
  have "distinct (uniq_keys key_order seq) \<and> set (uniq_keys key_order seq) = set seq"
    using uniq_dict [of "[]" seq]
    by (simp add: uniq_keys_def permutes_keys_set [OF assms] permutes_keys_distinct [OF assms] dict_ok_def)
  then show ?thesis by (simp add: uniquify_def uniq_ordered_first uniq_slow_first)
qed

theorem uniquify_correct_witness:
  "distinct (uniquify rev True True [3, 3, 1, 2::int]) \<and>
     set (uniquify rev True True [3, 3, 1, 2::int]) = set [3, 3, 1, 2] \<and>
     (True \<or> \<not> True \<longrightarrow>
        uniquify rev True True [3, 3, 1, 2::int] = first_occurrences [3, 3, 1, 2])"
  by (rule uniquify_correct [OF permutes_keys_rev])

lemma reverse_dict_find:
  assumes "permutes_keys key_order" and "dict_ok d" and "distinct (map snd d)"
  shows "dict_find (reverse_dict key_order d) v = Some k \<longleftrightarrow> dict_find d k = Some v"
proof -
  have inj: "dict_find d j = Some w \<Longrightarrow> dict_find d k = Some w \<Longrightarrow> j = k" for j k w
    using assms(2,3) by (metis dict_find_def eq_key_imp_eq_value distinct_map fst_conv inj_onD
        map_of_SomeD snd_conv)
  have "dict_ok r \<and> (\<forall>v k. dict_find r v = Some k \<longleftrightarrow> k \<in> set ks \<and> dict_find d k = Some v)"
    if "r = fold (\<lambda>key result. case dict_find d key of None \<Rightarrow> result
          | Some value \<Rightarrow> dict_set value key result) ks []" for r ks
    using that
  proof (induction ks arbitrary: r rule: rev_induct)
    case (snoc j ks)
    then show ?case by (cases "dict_find d j") (auto simp: dict_ops dest: inj)
  qed simp
  from this [OF reverse_dict_def, of key_order] have
    "dict_find (reverse_dict key_order d) v = Some k \<longleftrightarrow>
       k \<in> set (key_order (map fst d)) \<and> dict_find d k = Some v" by blast
  then show ?thesis unfolding permutes_keys_set [OF assms(1)] keys_dict_find by auto
qed

text \<open>
  Reversing a dictionary whose values are all different turns every entry round
  and adds none.
\<close>

theorem reverse_dict_correct:
  assumes "permutes_keys key_order" and "dict_ok d" and "distinct (map snd d)"
  shows "dict_find (reverse_dict key_order d) v = Some k \<longleftrightarrow> dict_find d k = Some v"
  by (rule reverse_dict_find [OF assms])

theorem reverse_dict_correct_witness:
  "dict_find (reverse_dict rev [(''a'', 1), (''b'', 2::int)]) 2 = Some ''b'' \<longleftrightarrow>
     dict_find [(''a'', 1), (''b'', 2::int)] ''b'' = Some 2"
  by (rule reverse_dict_correct [OF permutes_keys_rev]) (simp_all add: dict_ok_def)

section \<open>Common prefix and suffix\<close>

function prefix_loop :: "string \<Rightarrow> string \<Rightarrow> nat \<Rightarrow> nat \<Rightarrow> string \<Rightarrow> string" where
  "prefix_loop s1 s2 common_len i acc =
     (if i < common_len
      then (if s1 ! i \<noteq> s2 ! i then acc
            else prefix_loop s1 s2 common_len (i + 1) (acc @ [s1 ! i]))
      else acc)"
  by pat_completeness auto
termination by (relation "measure (\<lambda>(s1, s2, n, i, acc). n - i)") auto

function suffix_loop :: "string \<Rightarrow> string \<Rightarrow> nat \<Rightarrow> nat \<Rightarrow> string \<Rightarrow> string" where
  "suffix_loop s1 s2 common_len i acc =
     (if i < common_len + 1
      then (if s1 ! (length s1 - i) \<noteq> s2 ! (length s2 - i) then acc
            else suffix_loop s1 s2 common_len (i + 1) (acc @ [s1 ! (length s1 - i)]))
      else acc)"
  by pat_completeness auto
termination by (relation "measure (\<lambda>(s1, s2, n, i, acc). n + 1 - i)") auto

declare prefix_loop.simps [simp del] suffix_loop.simps [simp del]

definition find_common_fixes :: "string \<Rightarrow> string \<Rightarrow> string \<times> string" where
  "find_common_fixes s1 s2 =
     (let common_len = min (length s1) (length s2)
      in (prefix_loop s1 s2 common_len 0 [], rev (suffix_loop s1 s2 common_len 1 [])))"

lemma prefix_loop_lcp:
  "n = min (length s1) (length s2) \<Longrightarrow> i \<le> n \<Longrightarrow>
     prefix_loop s1 s2 n i acc = acc @ longest_common_prefix (drop i s1) (drop i s2)"
proof (induction s1 s2 n i acc rule: prefix_loop.induct)
  case (1 s1 s2 n i acc)
  show ?case
  proof (cases "i < n")
    case True
    then have "drop i s1 = s1 ! i # drop (Suc i) s1" "drop i s2 = s2 ! i # drop (Suc i) s2"
      using 1(2) by (simp_all add: Cons_nth_drop_Suc)
    with True 1 show ?thesis by (subst prefix_loop.simps) auto
  next
    case False
    then have "drop i s1 = [] \<or> drop i s2 = []" using 1(2,3) by auto
    with False show ?thesis by (subst prefix_loop.simps) auto
  qed
qed

lemma suffix_loop_rev:
  assumes "n = min (length s1) (length s2)"
  shows "suffix_loop s1 s2 n (Suc i) acc = prefix_loop (rev s1) (rev s2) n i acc"
  using assms
proof (induction "rev s1" "rev s2" n i acc rule: prefix_loop.induct)
  case (1 n i acc)
  show ?case
  proof (cases "i < n")
    case True
    then have "rev s1 ! i = s1 ! (length s1 - Suc i)" "rev s2 ! i = s2 ! (length s2 - Suc i)"
      using 1(2) by (simp_all add: rev_nth)
    with True 1 show ?thesis
      by (subst suffix_loop.simps, subst prefix_loop.simps) auto
  next
    case False
    then show ?thesis
      by (simp add: suffix_loop.simps [of s1 s2 n "Suc i"] prefix_loop.simps [of "rev s1" "rev s2" n i])
  qed
qed

text \<open>
  \<open>find_common_fixes\<close> returns the longest common prefix of the two strings and
  their longest common suffix.
\<close>

theorem find_common_fixes_longest:
  "find_common_fixes s1 s2 =
     (longest_common_prefix s1 s2, rev (longest_common_prefix (rev s1) (rev s2)))"
  by (simp add: find_common_fixes_def Let_def prefix_loop_lcp suffix_loop_rev [of _ s1 s2 0, simplified])

section \<open>Command-line arguments\<close>

datatype arg_value = ArgStr string | ArgNone | ArgList "string list"

definition add_arg ::
    "string \<Rightarrow> (string, arg_value) dict \<times> string list \<Rightarrow> (string, arg_value) dict \<times> string list" where
  "add_arg arg acc =
     (case acc of (d, args) \<Rightarrow>
      if str_startswith arg ''-'' then
        (let parts = str_split CHR ''='' (dropWhile (\<lambda>c. c = CHR ''-'') arg)
         in if length parts = 2 then (dict_set (parts ! 0) (ArgStr (parts ! 1)) d, args)
            else (dict_set (parts ! 0) ArgNone d, args))
      else (d, args @ [arg]))"

definition get_args :: "string list \<Rightarrow> (string, arg_value) dict" where
  "get_args argv =
     (case fold add_arg argv ([], []) of (d, args) \<Rightarrow> dict_set ''args'' (ArgList args) d)"

lemma add_args_positional:
  "snd (fold add_arg argv (d, args)) = args @ filter (\<lambda>a. \<not> str_startswith a ''-'') argv"
  by (induction argv arbitrary: d args) (auto simp: add_arg_def Let_def)

lemma add_args_ok: "dict_ok d \<Longrightarrow> dict_ok (fst (fold add_arg argv (d, args)))"
  by (induction argv arbitrary: d args) (auto simp: add_arg_def Let_def dict_ops)

lemma get_args_find:
  "dict_find (get_args argv) k =
     (if k = ''args'' then Some (ArgList (filter (\<lambda>a. \<not> str_startswith a ''-'') argv))
      else dict_find (fst (fold add_arg argv ([], []))) k)"
  using add_args_ok [of "[]" argv "[]"] add_args_positional [of argv "[]" "[]"]
  by (cases "fold add_arg argv ([], [])") (auto simp: get_args_def dict_ops)

text \<open>
  \<open>get_args\<close> keeps the positional arguments in order under the key \<open>args\<close>, and
  the value of an option \<open>--name=value\<close> is what the last such argument gives it, for every
  name but \<open>args\<close>.
\<close>

theorem get_args_option:
  assumes "CHR ''='' \<notin> set name" and "CHR ''='' \<notin> set value" and "\<not> str_startswith name ''-''"
    and "name \<noteq> ''args''"
  shows "dict_find (get_args (argv @ [''--'' @ name @ ''='' @ value])) name = Some (ArgStr value) \<and>
     dict_find (get_args (argv @ [''--'' @ name @ ''='' @ value])) ''args'' =
       Some (ArgList (filter (\<lambda>a. \<not> str_startswith a ''-'') argv))"
proof -
  have "dropWhile (\<lambda>c. c = CHR ''-'') (''--'' @ name @ ''='' @ value) = name @ ''='' @ value"
    using assms(3) by (cases name) (auto simp: str_startswith_def)
  moreover have "str_split CHR ''='' (name @ ''='' @ value) = [name, value]"
    using str_split_join [of "[name, value]" "CHR ''=''"] assms(1,2) by simp
  ultimately have "add_arg (''--'' @ name @ ''='' @ value) (d, args) = (dict_set name (ArgStr value) d, args)"
    for d args by (simp add: add_arg_def str_startswith_def)
  then show ?thesis
    using assms(4) add_args_ok [of "[]" argv "[]"]
    by (cases "fold add_arg argv ([], [])") (auto simp: get_args_find dict_ops str_startswith_def)
qed

theorem get_args_option_witness:
  "dict_find (get_args ([''in.txt'', ''-v''] @ [''--'' @ ''out'' @ ''='' @ ''x''])) ''out'' = Some (ArgStr ''x'') \<and>
     dict_find (get_args ([''in.txt'', ''-v''] @ [''--'' @ ''out'' @ ''='' @ ''x''])) ''args'' =
       Some (ArgList (filter (\<lambda>a. \<not> str_startswith a ''-'') [''in.txt'', ''-v'']))"
  by (rule get_args_option) (simp_all add: str_startswith_def)

end
