(* ===== verification/Rad_Binary.thy ===== *)
theory Rad_Binary
  imports Py_Prelude
begin

text \<open>
  The binary-number helpers of \<open>src/bindings/python/rad_util.py\<close>: \<open>int2bin\<close>,
  \<open>bin2int\<close>, \<open>lsb\<close>, \<open>gray_encode\<close>, \<open>random_vec\<close> and \<open>binary_range\<close>.
\<close>

unbundle bit_operations_syntax

section \<open>Model\<close>

definition hex_digit :: "nat \<Rightarrow> char" where
  "hex_digit d = ''0123456789abcdef'' ! d"

fun hex_digits :: "nat \<Rightarrow> string" where
  "hex_digits n = (if n < 16 then [hex_digit n] else hex_digits (n div 16) @ [hex_digit (n mod 16)])"

declare hex_digits.simps [simp del]

text \<open>\<open>hex(i)\<close>; the \<open>L\<close> of a Python 2 long is removed again by the caller.\<close>

definition py_hex :: "int \<Rightarrow> string" where
  "py_hex i = (if i < 0 then ''-0x'' @ hex_digits (nat (- i)) else ''0x'' @ hex_digits (nat i))"

definition hex2bin :: "(char, string) dict" where
  "hex2bin =
     [(CHR ''0'', ''0000''), (CHR ''1'', ''0001''), (CHR ''2'', ''0010''), (CHR ''3'', ''0011''),
      (CHR ''4'', ''0100''), (CHR ''5'', ''0101''), (CHR ''6'', ''0110''), (CHR ''7'', ''0111''),
      (CHR ''8'', ''1000''), (CHR ''9'', ''1001''), (CHR ''a'', ''1010''), (CHR ''b'', ''1011''),
      (CHR ''c'', ''1100''), (CHR ''d'', ''1101''), (CHR ''e'', ''1110''), (CHR ''f'', ''1111'')]"

definition hex_to_bin :: "string \<Rightarrow> string res" where
  "hex_to_bin s = res_fold (\<lambda>x acc. res_bind (dict_get hex2bin x) (\<lambda>b. Inr (acc @ b))) s []"

definition int2bin :: "int \<Rightarrow> int \<Rightarrow> string res" where
  "int2bin i n =
     res_bind (hex_to_bin (drop 2 (py_hex i))) (\<lambda>result.
       if CHR ''1'' \<in> set (slice_to result (- n))
       then Inl (ValueError ''Value too large for given number of bits.'')
       else
         (let result' = slice_from result (- n)
          in Inr (replicate (nat (n - int (length result'))) CHR ''0'' @ result')))"

definition bin_val :: "string \<Rightarrow> nat" where
  "bin_val s = foldl (\<lambda>a c. 2 * a + (if c = CHR ''1'' then 1 else 0)) 0 s"

definition is_binary :: "string \<Rightarrow> bool" where
  "is_binary s \<longleftrightarrow> set s \<subseteq> {CHR ''0'', CHR ''1''}"

text \<open>\<open>int(s, 2)\<close>: surrounding blanks, a sign and a prefix \<open>0b\<close> are accepted.\<close>

definition int_base2 :: "string \<Rightarrow> int res" where
  "int_base2 s =
     (let t = str_strip s;
          neg = str_startswith t ''-'';
          u = (if neg \<or> str_startswith t ''+'' then drop 1 t else t);
          w = (if str_startswith u ''0b'' \<or> str_startswith u ''0B'' then drop 2 u else u)
      in if w = [] \<or> \<not> is_binary w then Inl (ValueError ''invalid literal for int() with base 2'')
         else Inr (if neg then - int (bin_val w) else int (bin_val w)))"

definition bin2int :: "string \<Rightarrow> int res" where
  "bin2int bin_string = int_base2 bin_string"

definition lsb :: "int \<Rightarrow> nat \<Rightarrow> int" where
  "lsb x n = x AND (2 ^ n - 1)"

definition gray_encode :: "int \<Rightarrow> int" where
  "gray_encode i = i XOR (drop_bit 1 i)"

text \<open>
  \<open>random_vec\<close> takes the values \<open>int((2**10) * random.random())\<close> as a list of draws;
  \<open>bits\<close> is not negative.
\<close>

definition random_vec :: "int list \<Rightarrow> nat \<Rightarrow> int option \<Rightarrow> string res" where
  "random_vec draws bits max_value =
     res_bind (res_fold (\<lambda>i vector. res_bind (int2bin i 10) (\<lambda>b. Inr (vector @ b)))
         (take (bits div 10 + 1) draws) [])
       (\<lambda>vector.
          res_bind
            (case max_value of
               None \<Rightarrow> Inr vector
             | Some mv \<Rightarrow>
                 if mv \<noteq> 0 \<and> mv < 2 ^ bits - 1 then
                   res_bind (int_base2 vector) (\<lambda>v.
                     if (2 ^ bits - 1 :: int) = 0 then Inl ZeroDivisionError
                     else int2bin ((v div (2 ^ bits - 1)) * mv) (int bits))
                 else Inr vector)
            (\<lambda>vector'. Inr (take bits vector')))"

text \<open>
  \<open>binary_range\<close>: \<open>v\<close> holds the least significant digit first; \<open>toggle\<close> carries the
  overflow of each position into the next.
\<close>

function toggle_bits :: "nat \<Rightarrow> nat \<Rightarrow> string \<Rightarrow> int list \<Rightarrow> string \<times> int list" where
  "toggle_bits bits i v toggle =
     (if i < bits \<and> toggle ! i = 1
      then (if v ! i = CHR ''0''
            then toggle_bits bits (i + 1) (v[i := CHR ''1'']) (toggle[i + 1 := 0])
            else toggle_bits bits (i + 1) (v[i := CHR ''0'']) (toggle[i + 1 := 1]))
      else (v, toggle))"
  by pat_completeness auto
termination by (relation "measure (\<lambda>(bits, i, v, t). bits - i)") auto

declare toggle_bits.simps [simp del]

partial_function (option) range_loop ::
    "nat \<Rightarrow> string \<Rightarrow> int list \<Rightarrow> string list \<Rightarrow> string list option" where
  "range_loop bits v toggle l =
     (if toggle ! bits \<noteq> 1
      then (let r = toggle_bits bits 0 v (1 # replicate bits 0)
            in range_loop bits (fst r) (snd r) (l @ [rev v]))
      else Some l)"

definition binary_range :: "nat \<Rightarrow> string list option" where
  "binary_range bits = range_loop bits (replicate bits CHR ''0'') (1 # replicate bits 0) []"

section \<open>Binary strings\<close>

lemma bin_val_snoc: "bin_val (s @ [c]) = 2 * bin_val s + (if c = CHR ''1'' then 1 else 0)"
  by (simp add: bin_val_def)

lemma bin_val_Nil [simp]: "bin_val [] = 0"
  by (simp add: bin_val_def)

lemma bin_val_append: "bin_val (u @ v) = bin_val u * 2 ^ length v + bin_val v"
proof (induction v rule: rev_induct)
  case (snoc c v)
  then show ?case unfolding append_assoc [symmetric] bin_val_snoc by simp
qed simp

lemma bin_val_zero: "CHR ''1'' \<notin> set s \<Longrightarrow> bin_val s = 0"
  by (induction s rule: rev_induct) (auto simp: bin_val_snoc)

lemma bin_val_pos: "CHR ''1'' \<in> set s \<Longrightarrow> 0 < bin_val s"
  by (induction s rule: rev_induct) (auto simp: bin_val_snoc)

lemma bin_val_bound: "bin_val s < 2 ^ length s"
  by (induction s rule: rev_induct) (auto simp: bin_val_snoc)

lemma bin_val_replicate [simp]: "bin_val (replicate n CHR ''0'') = 0"
  by (simp add: bin_val_zero)

lemma is_binary_append [simp]: "is_binary (u @ v) \<longleftrightarrow> is_binary u \<and> is_binary v"
  by (auto simp: is_binary_def)

lemma is_binary_replicate [simp]: "is_binary (replicate n CHR ''0'')"
  by (auto simp: is_binary_def)

lemma is_binary_take_drop: "is_binary s \<Longrightarrow> is_binary (take n s) \<and> is_binary (drop n s)"
  unfolding is_binary_def by (meson dual_order.trans set_drop_subset set_take_subset)

fun to_bin :: "nat \<Rightarrow> nat \<Rightarrow> string" where
  "to_bin 0 k = []"
| "to_bin (Suc b) k = to_bin b (k div 2) @ [if odd k then CHR ''1'' else CHR ''0'']"

lemma length_to_bin [simp]: "length (to_bin b k) = b"
  by (induction b arbitrary: k) auto

lemma to_bin_bin_val: "is_binary s \<Longrightarrow> to_bin (length s) (bin_val s) = s"
proof (induction s rule: rev_induct)
  case (snoc c s)
  then show ?case by (auto simp: bin_val_snoc is_binary_def)
qed simp

section \<open>Conversion\<close>

lemma lt16_cases:
  "(d::nat) < 16 \<Longrightarrow> d = 0 \<or> d = 1 \<or> d = 2 \<or> d = 3 \<or> d = 4 \<or> d = 5 \<or> d = 6 \<or> d = 7 \<or>
     d = 8 \<or> d = 9 \<or> d = 10 \<or> d = 11 \<or> d = 12 \<or> d = 13 \<or> d = 14 \<or> d = 15"
  by presburger

lemma hex2bin_digit:
  assumes "d < 16"
  shows "\<exists>b. dict_get hex2bin (hex_digit d) = Inr b \<and> is_binary b \<and> length b = 4 \<and> bin_val b = d"
  using lt16_cases [OF assms]
  by (elim disjE) (simp_all add: dict_get_def hex2bin_def hex_digit_def is_binary_def bin_val_def)

lemma hex_to_bin_digits:
  "\<exists>b. hex_to_bin (hex_digits n) = Inr b \<and> is_binary b \<and> bin_val b = n"
proof (induction n rule: hex_digits.induct)
  case (1 n)
  show ?case
  proof (cases "n < 16")
    case True
    with hex2bin_digit [OF True] show ?thesis
      by (auto simp: hex_digits.simps [of n] hex_to_bin_def)
  next
    case False
    with 1 obtain b where b: "hex_to_bin (hex_digits (n div 16)) = Inr b" "is_binary b" "bin_val b = n div 16"
      by blast
    obtain c where c: "dict_get hex2bin (hex_digit (n mod 16)) = Inr c" "is_binary c" "length c = 4"
      "bin_val c = n mod 16" using hex2bin_digit [of "n mod 16"] by auto
    have "hex_to_bin (hex_digits n) = Inr (b @ c)"
      using False b(1) c(1) by (simp add: hex_digits.simps [of n] hex_to_bin_def res_fold_append)
    moreover have "bin_val (b @ c) = n" using b(3) c(3,4) by (simp add: bin_val_append)
    ultimately show ?thesis using b(2) c(2) by auto
  qed
qed

lemma slice_neg:
  assumes "0 < n"
  shows "slice_to xs (- int n) = take (length xs - n) xs"
    and "slice_from xs (- int n) = drop (length xs - n) xs"
proof -
  have "slice_pos xs (- int n) = length xs - n" using assms by (simp add: slice_pos_def)
  then show "slice_to xs (- int n) = take (length xs - n) xs"
    "slice_from xs (- int n) = drop (length xs - n) xs"
    by (simp_all add: slice_to_def slice_from_def)
qed

lemma int2bin_small:
  assumes "0 < n" and "k < 2 ^ n"
  shows "int2bin (int k) (int n) = Inr (to_bin n k)"
proof -
  obtain b where b: "hex_to_bin (hex_digits k) = Inr b" "is_binary b" "bin_val b = k"
    using hex_to_bin_digits by blast
  let ?hi = "take (length b - n) b" and ?lo = "drop (length b - n) b"
  have split: "bin_val b = bin_val ?hi * 2 ^ length ?lo + bin_val ?lo"
    using bin_val_append [of ?hi ?lo] by simp
  have no1: "CHR ''1'' \<notin> set ?hi"
  proof
    assume one: "CHR ''1'' \<in> set ?hi"
    then have "?hi \<noteq> []" by (cases ?hi) auto
    then have "length ?lo = n" by simp
    moreover have "1 \<le> bin_val ?hi" using bin_val_pos [OF one] by simp
    ultimately have "2 ^ n \<le> bin_val b" using split by (metis le_add1 mult_le_mono1 nat_mult_1 order_trans)
    with assms(2) b(3) show False by simp
  qed
  let ?r = "replicate (n - length ?lo) CHR ''0'' @ ?lo"
  have "bin_val ?r = k" using split b(3) bin_val_zero [OF no1] by (simp add: bin_val_append)
  moreover have "is_binary ?r" using is_binary_take_drop [OF b(2)] by simp
  moreover have "length ?r = n" by simp
  ultimately have "?r = to_bin n k" using to_bin_bin_val [of ?r] by simp
  moreover have "int2bin (int k) (int n) = Inr ?r"
  proof -
    have "nat (int n - int (length ?lo)) = n - length ?lo" by simp
    with no1 b(1) show ?thesis
      unfolding int2bin_def py_hex_def by (simp add: slice_neg [OF assms(1)] Let_def del: length_drop)
  qed
  ultimately show ?thesis by simp
qed

lemma bin_val_to_bin: "k < 2 ^ b \<Longrightarrow> bin_val (to_bin b k) = k"
proof (induction b arbitrary: k)
  case (Suc b)
  then have "k div 2 < 2 ^ b" by auto
  with Suc show ?case by (auto simp: bin_val_snoc)
qed simp

lemma is_binary_to_bin: "is_binary (to_bin b k)"
  by (induction b arbitrary: k) (auto simp: is_binary_def)

lemma is_binary_char: "is_binary s \<Longrightarrow> c \<in> set s \<Longrightarrow> c = CHR ''0'' \<or> c = CHR ''1''"
  by (auto simp: is_binary_def)

lemma dropWhile_none: "(\<And>x. x \<in> set xs \<Longrightarrow> \<not> P x) \<Longrightarrow> dropWhile P xs = xs"
  by (cases xs) auto

lemma int_base2_binary:
  assumes "is_binary s" and "s \<noteq> []"
  shows "int_base2 s = Inr (int (bin_val s))"
proof -
  have "\<not> is_space c" if "c \<in> set s" for c
    using is_binary_char [OF assms(1) that] by (auto simp: is_space_def)
  then have "dropWhile is_space s = s" "dropWhile is_space (rev s) = rev s"
    by (rule dropWhile_none, simp)+
  then have strip: "str_strip s = s" by (simp add: str_strip_def str_strip_chars_def)
  obtain c t where s: "s = c # t" using assms(2) by (cases s) auto
  have c: "c = CHR ''0'' \<or> c = CHR ''1''" using assms(1) by (auto simp: s is_binary_def)
  have t: "take 1 t \<noteq> ''b''" "take 1 t \<noteq> ''B''" using assms(1) by (cases t; auto simp: s is_binary_def)+
  have no: "\<not> str_startswith s ''-''" "\<not> str_startswith s ''+''"
    "\<not> str_startswith s ''0b''" "\<not> str_startswith s ''0B''"
    using c t by (auto simp: s str_startswith_def)
  show ?thesis using assms unfolding int_base2_def strip Let_def by (simp only: no if_False simp_thms)
qed

text \<open>
  For a non-negative number and a positive width \<open>int2bin\<close> returns a string of
  exactly that many digits which \<open>bin2int\<close> reads back, when the number fits, and raises
  \<open>ValueError\<close> when it does not.
\<close>

theorem int2bin_roundtrip:
  assumes "0 \<le> i" and "0 < n"
  shows "if i < 2 ^ n
    then \<exists>s. int2bin i (int n) = Inr s \<and> length s = n \<and> is_binary s \<and> bin2int s = Inr i
    else int2bin i (int n) = Inl (ValueError ''Value too large for given number of bits.'')"
proof (cases "i < 2 ^ n")
  case True
  let ?k = "nat i"
  have k: "?k < 2 ^ n" using True assms(1) by (simp add: nat_less_iff)
  have ne: "to_bin n ?k \<noteq> []" using assms(2) by (cases n) auto
  have "bin2int (to_bin n ?k) = Inr i"
    using int_base2_binary [OF is_binary_to_bin ne] bin_val_to_bin [OF k] assms(1) by (simp add: bin2int_def)
  then show ?thesis using True int2bin_small [OF assms(2) k] assms(1) is_binary_to_bin by simp
next
  case False
  obtain b where b: "hex_to_bin (hex_digits (nat i)) = Inr b" "is_binary b" "bin_val b = nat i"
    using hex_to_bin_digits by blast
  let ?hi = "take (length b - n) b" and ?lo = "drop (length b - n) b"
  have "CHR ''1'' \<in> set ?hi"
  proof (rule ccontr)
    assume "CHR ''1'' \<notin> set ?hi"
    then have "bin_val b = bin_val ?lo" using bin_val_append [of ?hi ?lo] bin_val_zero by simp
    also have "\<dots> < 2 ^ length ?lo" by (rule bin_val_bound)
    also have "\<dots> \<le> 2 ^ n" by (rule power_increasing) simp_all
    finally have "nat i < 2 ^ n" by (simp add: b(3))
    with False assms(1) show False by (simp add: nat_less_iff)
  qed
  with b(1) False assms show ?thesis
    by (simp add: int2bin_def py_hex_def slice_neg [OF assms(2)])
qed

theorem int2bin_roundtrip_witness:
  "if (123::int) < 2 ^ 8
    then \<exists>s. int2bin 123 (int 8) = Inr s \<and> length s = 8 \<and> is_binary s \<and> bin2int s = Inr 123
    else int2bin 123 (int 8) = Inl (ValueError ''Value too large for given number of bits.'')"
  by (rule int2bin_roundtrip) simp_all

text \<open>
  A width of zero is not checked: \<open>result[:-0]\<close> is empty and \<open>result[-0:]\<close> is the whole
  string, so a number that needs digits comes back untruncated instead of raising.
\<close>

lemma int2bin_zero_width: "int2bin 5 0 = Inr ''0101''"
  by (simp add: int2bin_def py_hex_def hex_digits.simps [of 5] hex_digit_def hex_to_bin_def
      dict_get_def hex2bin_def slice_to_def slice_from_def slice_pos_def)

section \<open>Masks and Gray codes\<close>

text \<open>\<open>lsb\<close> keeps the low \<open>n\<close> bits: the remainder modulo \<open>2 ^ n\<close>, also of a negative number.\<close>

theorem lsb_mod: "lsb x n = x mod 2 ^ n \<and> 0 \<le> lsb x n \<and> lsb x n < 2 ^ n"
proof -
  have "lsb x n = take_bit n x" by (simp add: lsb_def take_bit_eq_mask mask_eq_exp_minus_1)
  then show ?thesis by (simp add: take_bit_eq_mod)
qed

lemma xor_Suc_mask: "\<exists>k. (int n + 1) XOR int n = mask (Suc k)"
proof (induction n rule: less_induct)
  case (less n)
  show ?case
  proof (cases "even n")
    case True
    then obtain m where n: "n = 2 * m" by (elim evenE)
    have "(int n + 1) XOR int n = 1" by (simp add: n xor_int_rec [of "2 * int m + 1"])
    then show ?thesis by (intro exI [of _ 0]) (simp add: mask_Suc_exp)
  next
    case False
    then obtain m where n: "n = 2 * m + 1" by (elim oddE)
    with less [of m] obtain k where k: "(int m + 1) XOR int m = mask (Suc k)" by auto
    have "(int n + 1) XOR int n = 2 * ((int m + 1) XOR int m) + 1"
    proof -
      have "(int n + 1) div 2 = int m + 1" "int n div 2 = int m" "odd (int n)" by (simp_all add: n)
      then show ?thesis using xor_int_rec [of "int n + 1" "int n"] by simp
    qed
    also have "\<dots> = mask (Suc (Suc k))" unfolding k by (simp add: mask_Suc_double [of "Suc k"] one_or_eq)
    finally show ?thesis ..
  qed
qed

lemma gray_xor: "gray_encode a XOR gray_encode b = gray_encode (a XOR b)"
  by (rule bit_eqI) (auto simp: gray_encode_def bit_simps)

lemma gray_mask: "gray_encode (mask (Suc k)) = 2 ^ k"
  by (rule bit_eqI) (auto simp: gray_encode_def bit_simps)

lemma bit_high_nonneg: "0 \<le> (a::int) \<Longrightarrow> \<exists>m. \<forall>n\<ge>m. \<not> bit a n"
proof -
  assume "0 \<le> a"
  then have "\<not> bit a n" if "nat a \<le> n" for n
  proof -
    have "a < 2 ^ n" using that of_nat_less_two_power [of n, where ?'a = int] by linarith
    then show ?thesis using \<open>0 \<le> a\<close> by (simp add: bit_iff_odd)
  qed
  then show ?thesis by blast
qed

lemma gray_zero: "0 \<le> (x::int) \<Longrightarrow> gray_encode x = 0 \<Longrightarrow> x = 0"
proof -
  assume x: "0 \<le> x" and g: "gray_encode x = 0"
  have eq: "bit x n = bit x (Suc n)" for n
    using g by (metis bit_0_eq bot_apply bot_bool_def gray_encode_def bit_xor_iff bit_drop_bit_eq
        comp_apply plus_1_eq_Suc)
  obtain m where m: "\<And>n. m \<le> n \<Longrightarrow> \<not> bit x n" using bit_high_nonneg [OF x] by blast
  have shift: "bit x n = bit x (n + d)" for n d
    by (induction d) (use eq in auto)
  have "\<not> bit x n" for n using m [of "n + m"] shift [of n m] by simp
  then show "x = 0" by (intro bit_eqI) simp
qed

text \<open>
  \<open>gray_encode\<close> is a Gray code: the codes of consecutive non-negative numbers
  differ in exactly one bit, and no two numbers share a code.
\<close>

theorem gray_encode_code:
  assumes "0 \<le> i" and "0 \<le> j"
  shows "(\<exists>k. gray_encode (i + 1) XOR gray_encode i = 2 ^ k) \<and>
     (gray_encode i = gray_encode j \<longleftrightarrow> i = j)"
proof -
  obtain k where "(int (nat i) + 1) XOR int (nat i) = mask (Suc k)" using xor_Suc_mask by blast
  then have "gray_encode (i + 1) XOR gray_encode i = 2 ^ k" using assms(1) by (simp add: gray_xor gray_mask)
  moreover have "i = j" if "gray_encode i = gray_encode j"
  proof -
    have "gray_encode i XOR gray_encode j = 0" by (subst that) (rule xor_self_eq)
    then have "gray_encode (i XOR j) = 0" by (subst gray_xor [symmetric])
    moreover have "0 \<le> i XOR j" using assms by (simp add: xor_nonnegative_int_iff)
    ultimately have "i XOR j = 0" by (rule gray_zero [rotated])
    moreover have "(i XOR j) XOR j = i" by (simp add: xor.assoc)
    ultimately show "i = j" by simp
  qed
  ultimately show ?thesis by blast
qed

theorem gray_encode_code_witness:
  "(\<exists>k. gray_encode (3 + 1) XOR gray_encode 3 = 2 ^ k) \<and> (gray_encode 3 = gray_encode 9 \<longleftrightarrow> (3::int) = 9)"
  by (rule gray_encode_code) simp_all

section \<open>All numbers of a width\<close>

text \<open>The increment that one pass of \<open>toggle_bits\<close> performs, with its overflow.\<close>

fun inc_bits :: "string \<Rightarrow> string \<times> bool" where
  "inc_bits [] = ([], True)"
| "inc_bits (c # v) =
     (if c = CHR ''0'' then (CHR ''1'' # v, False)
      else (case inc_bits v of (w, carry) \<Rightarrow> (CHR ''0'' # w, carry)))"

lemma toggle_bits_inc:
  assumes "length v = bits" and "length t = Suc bits" and "i \<le> bits" and "t ! i = 1"
    and "\<And>j. i < j \<Longrightarrow> j \<le> bits \<Longrightarrow> t ! j = 0"
  shows "fst (toggle_bits bits i v t) = take i v @ fst (inc_bits (drop i v)) \<and>
     (snd (toggle_bits bits i v t) ! bits = 1 \<longleftrightarrow> snd (inc_bits (drop i v)))"
  using assms
proof (induction bits i v t rule: toggle_bits.induct)
  case (1 bits i v t)
  show ?case
  proof (cases "i < bits")
    case False
    then have "i = bits" using 1(5) by simp
    then show ?thesis using 1(3,6) by (subst (1 2) toggle_bits.simps) simp
  next
    case True
    have d: "drop i v = v ! i # drop (Suc i) v" using True 1(3) by (simp add: Cons_nth_drop_Suc)
    show ?thesis
    proof (cases "v ! i = CHR ''0''")
      case zero: True
      have stop: "toggle_bits bits (i + 1) (v[i := CHR ''1'']) (t[i + 1 := 0]) = (v[i := CHR ''1''], t[i + 1 := 0])"
        using True 1(4) by (subst toggle_bits.simps) simp
      have "t[i + 1 := 0] ! bits = 0" using True 1(4,7) by (cases "i + 1 = bits") auto
      then show ?thesis
        using True zero 1(3,6) stop d
        by (subst (1 2) toggle_bits.simps) (auto simp: upd_conv_take_nth_drop)
    next
      case one: False
      have "fst (toggle_bits bits (i + 1) (v[i := CHR ''0'']) (t[i + 1 := 1])) =
            take (i + 1) (v[i := CHR ''0'']) @ fst (inc_bits (drop (i + 1) (v[i := CHR ''0'']))) \<and>
          (snd (toggle_bits bits (i + 1) (v[i := CHR ''0'']) (t[i + 1 := 1])) ! bits = 1 \<longleftrightarrow>
            snd (inc_bits (drop (i + 1) (v[i := CHR ''0'']))))"
        by (rule 1(2)) (use True one 1(3,4,6,7) in \<open>auto simp: nth_list_update\<close>)
      moreover have "take (i + 1) (v[i := CHR ''0'']) = take i v @ [CHR ''0'']"
        using True 1(3) by (simp add: take_Suc_conv_app_nth)
      ultimately show ?thesis
        using True one 1(6) d
        by (subst (1 2) toggle_bits.simps) (auto split: prod.splits)
    qed
  qed
qed

lemma inc_bits_spec:
  assumes "is_binary v"
  shows "length (fst (inc_bits v)) = length v \<and> is_binary (fst (inc_bits v)) \<and>
     bin_val (rev (fst (inc_bits v))) + (if snd (inc_bits v) then 2 ^ length v else 0) = Suc (bin_val (rev v))"
  using assms
proof (induction v)
  case (Cons c v)
  then have "c = CHR ''0'' \<or> c = CHR ''1''" and "is_binary v" by (auto simp: is_binary_def)
  with Cons.IH show ?case by (auto simp: bin_val_snoc is_binary_def split: prod.splits)
qed simp

lemma range_loop_end: "t ! bits = 1 \<Longrightarrow> range_loop bits v t l = Some l"
  by (simp add: range_loop.simps)

lemma range_loop_values:
  assumes "length v = bits" and "is_binary v" and "t ! bits \<noteq> 1"
  shows "range_loop bits v t l = Some (l @ map (to_bin bits) [bin_val (rev v)..<2 ^ bits])"
  using assms
proof (induction "2 ^ bits - bin_val (rev v)" arbitrary: v t l rule: less_induct)
  case less
  let ?t0 = "1 # replicate bits (0::int)" and ?k = "bin_val (rev v)"
  let ?r = "toggle_bits bits 0 v ?t0"
  have "\<And>j. 0 < j \<Longrightarrow> j \<le> bits \<Longrightarrow> ?t0 ! j = 0" by (simp add: nth_Cons')
  then have r: "fst ?r = fst (inc_bits v)" "snd ?r ! bits = 1 \<longleftrightarrow> snd (inc_bits v)"
    using toggle_bits_inc [of v bits ?t0 0] less.prems(1) by simp_all
  note inc = inc_bits_spec [OF less.prems(2)]
  have k: "?k < 2 ^ bits" using bin_val_bound [of "rev v"] less.prems(1) by simp
  have "is_binary (rev v)" using less.prems(2) by (simp add: is_binary_def)
  then have head: "rev v = to_bin bits ?k" using to_bin_bin_val [of "rev v"] less.prems(1) by simp
  have upt: "[?k..<2 ^ bits] = ?k # [Suc ?k..<2 ^ bits]" using k by (rule upt_conv_Cons)
  have step: "range_loop bits v t l = range_loop bits (fst ?r) (snd ?r) (l @ [rev v])"
    using less.prems(3) by (subst range_loop.simps) (simp add: Let_def)
  show ?case
  proof (cases "snd (inc_bits v)")
    case True
    then have "Suc ?k = 2 ^ bits + bin_val (rev (fst (inc_bits v)))" using inc less.prems(1) by simp
    then have last: "[Suc ?k..<2 ^ bits] = []" by simp
    have "range_loop bits v t l = Some (l @ [rev v])" using step True r(2) by (simp add: range_loop_end)
    with head show ?thesis unfolding upt last by simp
  next
    case False
    then have val: "bin_val (rev (fst (inc_bits v))) = Suc ?k" using inc by simp
    have "range_loop bits (fst ?r) (snd ?r) (l @ [rev v]) =
        Some ((l @ [rev v]) @ map (to_bin bits) [bin_val (rev (fst ?r))..<2 ^ bits])"
      by (rule less.hyps) (use False r inc val k less.prems(1) in auto)
    with step head show ?thesis unfolding upt r(1) val by simp
  qed
qed

text \<open>
  For a positive width \<open>binary_range\<close> terminates and returns the binary numbers of
  that width in increasing order: item \<open>k\<close> is \<open>int2bin(k, bits)\<close>, for every
  \<open>k < 2 ^ bits\<close>.
\<close>

theorem binary_range_correct:
  assumes "0 < bits"
  shows "\<exists>l. binary_range bits = Some l \<and> length l = 2 ^ bits \<and>
     (\<forall>k<2 ^ bits. int2bin (int k) (int bits) = Inr (l ! k))"
proof -
  have "(1 # replicate bits 0) ! bits \<noteq> (1::int)" using assms by (simp add: nth_Cons')
  then have "binary_range bits = Some (map (to_bin bits) [0..<2 ^ bits])"
    unfolding binary_range_def by (subst range_loop_values) simp_all
  then show ?thesis using int2bin_small [OF assms] by auto
qed

theorem binary_range_correct_witness:
  "\<exists>l. binary_range 3 = Some l \<and> length l = 2 ^ 3 \<and>
     (\<forall>k<2 ^ 3. int2bin (int k) (int 3) = Inr (l ! k))"
  by (rule binary_range_correct) simp

text \<open>The number of width zero is missing: the loop does not run.\<close>

lemma binary_range_zero: "binary_range 0 = Some []"
  by (simp add: binary_range_def range_loop.simps)

section \<open>Random vectors\<close>

lemma draws_vector:
  assumes "\<forall>i\<in>set ds. 0 \<le> i \<and> i < 1024"
  shows "\<exists>v. res_fold (\<lambda>i vector. res_bind (int2bin i 10) (\<lambda>b. Inr (vector @ b))) ds acc = Inr (acc @ v) \<and>
     length v = 10 * length ds"
  using assms
proof (induction ds arbitrary: acc)
  case (Cons i ds)
  have "int2bin (int (nat i)) (int 10) = Inr (to_bin 10 (nat i))"
    using Cons.prems by (intro int2bin_small) auto
  then have one: "int2bin i 10 = Inr (to_bin 10 (nat i))" using Cons.prems by simp
  from Cons obtain v where
    "res_fold (\<lambda>i vector. res_bind (int2bin i 10) (\<lambda>b. Inr (vector @ b))) ds (acc @ to_bin 10 (nat i)) =
       Inr ((acc @ to_bin 10 (nat i)) @ v)" "length v = 10 * length ds" by fastforce
  with one show ?case by (intro exI [of _ "to_bin 10 (nat i) @ v"]) simp
qed simp

text \<open>
  Without a maximum \<open>random_vec\<close> returns a vector of exactly \<open>bits\<close> digits, for any
  draws of the random generator.
\<close>

theorem random_vec_length:
  assumes "\<forall>i\<in>set draws. 0 \<le> i \<and> i < 1024" and "bits div 10 + 1 \<le> length draws"
  shows "\<exists>s. random_vec draws bits None = Inr s \<and> length s = bits"
proof -
  have "\<forall>i\<in>set (take (bits div 10 + 1) draws). 0 \<le> i \<and> i < 1024"
    using assms(1) by (meson in_set_takeD)
  from draws_vector [OF this, of "[]"] obtain v where
    v: "res_fold (\<lambda>i vector. res_bind (int2bin i 10) (\<lambda>b. Inr (vector @ b)))
        (take (bits div 10 + 1) draws) [] = Inr v" "length v = 10 * length (take (bits div 10 + 1) draws)"
    by auto
  have "bits \<le> length v" using v(2) assms(2) by simp
  with v(1) show ?thesis by (simp add: random_vec_def)
qed

theorem random_vec_length_witness:
  "\<exists>s. random_vec [7, 1023] 12 None = Inr s \<and> length s = 12"
  by (rule random_vec_length) simp_all

text \<open>
  With a maximum the scaled vector is computed from all drawn digits, more than \<open>bits\<close> of
  them, so that the conversion can fail.
\<close>

lemma int2bin_99: "int2bin 99 5 = Inl (ValueError ''Value too large for given number of bits.'')"
  by (simp add: int2bin_def py_hex_def hex_digits.simps [of 99] hex_digits.simps [of 6] hex_digit_def
      hex_to_bin_def dict_get_def hex2bin_def slice_to_def slice_pos_def)

lemma int2bin_1023: "int2bin 1023 10 = Inr ''1111111111''"
  by (simp add: int2bin_def py_hex_def hex_digits.simps [of 1023] hex_digits.simps [of 63]
      hex_digits.simps [of 3] hex_digit_def hex_to_bin_def dict_get_def hex2bin_def slice_to_def
      slice_from_def slice_pos_def)

lemma random_vec_max_value_fails:
  "random_vec [1023] 5 (Some 3) = Inl (ValueError ''Value too large for given number of bits.'')"
proof -
  have "int_base2 ''1111111111'' = Inr 1023"
    using int_base2_binary [of "''1111111111''"] by (simp add: is_binary_def bin_val_def)
  then show ?thesis by (simp add: random_vec_def int2bin_1023 int2bin_99)
qed

end
