(* ===== verification/Rad_Numeric.thy ===== *)
theory Rad_Numeric
  imports Py_Prelude
begin

text \<open>
  The arithmetic and statistics helpers of \<open>src/bindings/python/rad_util.py\<close>: \<open>gcf\<close>,
  \<open>lcm\<close> and \<open>reduce_fraction\<close> on integers, \<open>polygon_area\<close>, \<open>quantile\<close>, \<open>trim\<close>,
  \<open>float_range\<close> and \<open>round_grid\<close> on numbers, and the choice of a multiplier in
  \<open>nice_units\<close>.
\<close>

section \<open>Common factors\<close>

text \<open>
  The loop of \<open>gcf\<close> on integers: a remainder other than zero is at least one in
  magnitude, hence above \<open>epsilon\<close>.
\<close>

function gcf_loop :: "int \<Rightarrow> int \<Rightarrow> int" where
  "gcf_loop result remainder =
     (if remainder \<noteq> 0 then gcf_loop remainder (result mod remainder) else result)"
  by pat_completeness auto
termination
  by (relation "measure (\<lambda>(a, b). nat \<bar>b\<bar>)") (auto simp: abs_mod_less)

declare gcf_loop.simps [simp del]

definition gcf :: "int \<Rightarrow> int \<Rightarrow> int" where
  "gcf a b = \<bar>gcf_loop (max a b) (min a b)\<bar>"

definition lcm_py :: "int \<Rightarrow> int \<Rightarrow> int" where
  "lcm_py a b = (let denom = gcf a b in if denom = 0 then 0 else a * (b div denom))"

definition reduce_fraction :: "int \<times> int \<Rightarrow> (int \<times> int) res" where
  "reduce_fraction fraction =
     (case fraction of (numerator, denominator) \<Rightarrow>
      let common_factor = \<bar>gcf numerator denominator\<bar>
      in if common_factor = 0 then Inl ZeroDivisionError
         else Inr (numerator div common_factor, denominator div common_factor))"

lemma gcf_loop_gcd: "\<bar>gcf_loop a b\<bar> = gcd a b"
proof (induction a b rule: gcf_loop.induct)
  case (1 a b)
  show ?case
  proof (cases "b = 0")
    case True
    then show ?thesis by (simp add: gcf_loop.simps [of a])
  next
    case False
    then have "\<bar>gcf_loop a b\<bar> = gcd b (a mod b)" using 1 by (simp add: gcf_loop.simps [of a b])
    then show ?thesis by (simp add: gcd.commute gcd_red_int [symmetric])
  qed
qed

lemma gcf_gcd: "gcf a b = gcd a b"
  by (simp add: gcf_def gcf_loop_gcd max_def min_def gcd.commute)

text \<open>
  On integers of any sign \<open>gcf\<close> is the greatest common divisor and \<open>lcm\<close> is, in
  magnitude, the least common multiple; \<open>lcm\<close> keeps the sign of the product.
\<close>

theorem gcf_lcm_correct:
  "gcf a b = gcd a b \<and> \<bar>lcm_py a b\<bar> = lcm a b \<and> lcm_py a b * gcd a b = a * b"
proof (cases "gcd a b = 0")
  case True
  then show ?thesis by (simp add: gcf_gcd lcm_py_def)
next
  case False
  then have eq: "lcm_py a b = a * (b div gcd a b)" by (simp add: lcm_py_def gcf_gcd)
  then have prod: "lcm_py a b * gcd a b = a * b" by (simp add: mult.assoc)
  then have "\<bar>lcm_py a b\<bar> * gcd a b = \<bar>a * b\<bar>" by (metis abs_gcd_int abs_mult)
  also have "\<dots> = lcm a b * gcd a b" by (metis mult.commute prod_gcd_lcm_int abs_mult)
  finally have "\<bar>lcm_py a b\<bar> = lcm a b" using False by (metis mult_cancel_right)
  with prod show ?thesis by (simp add: gcf_gcd)
qed

text \<open>
  \<open>reduce_fraction\<close> returns a fraction in lowest terms that denotes the same
  ratio, with signs kept; it raises \<open>ZeroDivisionError\<close> exactly for \<open>(0, 0)\<close>.
\<close>

theorem reduce_fraction_correct:
  "(reduce_fraction (n, d) = Inl ZeroDivisionError \<longleftrightarrow> n = 0 \<and> d = 0) \<and>
   (\<forall>n' d'. reduce_fraction (n, d) = Inr (n', d') \<longrightarrow>
      coprime n' d' \<and> n * d' = n' * d \<and> sgn n' = sgn n \<and> sgn d' = sgn d)"
proof (cases "gcd n d = 0")
  case True
  then show ?thesis by (simp add: reduce_fraction_def gcf_gcd)
next
  case False
  let ?g = "gcd n d"
  have red: "reduce_fraction (n, d) = Inr (n div ?g, d div ?g)"
    using False by (auto simp: reduce_fraction_def gcf_gcd Let_def)
  have n: "n = (n div ?g) * ?g" and d: "d = (d div ?g) * ?g" by simp_all
  have pos: "sgn ?g = 1" using False by (simp add: sgn_if)
  have "sgn (n div ?g) = sgn n" using n pos by (metis mult.right_neutral sgn_mult)
  moreover have "sgn (d div ?g) = sgn d" using d pos by (metis mult.right_neutral sgn_mult)
  moreover have "n * (d div ?g) = (n div ?g) * d" by (metis d n mult.commute mult.left_commute)
  moreover have "coprime (n div ?g) (d div ?g)" using False by (intro div_gcd_coprime) auto
  ultimately show ?thesis using red False by auto
qed

section \<open>Polygons\<close>

fun twice_area :: "(int \<times> int) list \<Rightarrow> int \<Rightarrow> int" where
  "twice_area ((x, y) # (x', y') # ps) area = twice_area ((x', y') # ps) (area + x' * y - y' * x)"
| "twice_area _ area = area"

text \<open>The list of points is scaled and closed in place; the model returns it with the area.\<close>

definition polygon_area ::
    "(pynum \<times> pynum) list \<Rightarrow> int \<Rightarrow> (rat \<times> (int \<times> int) list) res" where
  "polygon_area points_list precision =
     (let scaled = map (\<lambda>(x, y). (num_int (num_mul x (PInt precision)), num_int (num_mul y (PInt precision))))
            points_list
      in if scaled = [] then Inl IndexError
         else
           (let closed = (if last scaled \<noteq> hd scaled then scaled @ [hd scaled] else scaled);
                area = \<bar>twice_area closed 0 div 2\<bar>
            in if precision = 0 then Inl ZeroDivisionError
               else Inr (of_int area / of_int (precision ^ 2), closed)))"


text \<open>
  Halving rounds down before the sign is dropped, so the result can depend on the
  orientation of the polygon: the same triangle has area 0 or 1 at precision 1.
\<close>

lemma polygon_area_orientation:
  "map_sum id fst (polygon_area [(PInt 0, PInt 0), (PInt 0, PInt 1), (PInt 1, PInt 0)] 1) = Inr 0"
  "map_sum id fst (polygon_area [(PInt 0, PInt 0), (PInt 1, PInt 0), (PInt 0, PInt 1)] 1) = Inr 1"
  by (simp_all add: polygon_area_def num_mul_def)

section \<open>Quantiles\<close>

text \<open>The values and \<open>p\<close> are floats; subscripts are Python's.\<close>

definition quantile :: "rat list \<Rightarrow> rat \<Rightarrow> rat res" where
  "quantile l p =
     (let l_sort = sort l; n = int (length l); r = 1 + of_int (n - 1) * p;
          i = num_int (PFlt r); f = r - of_int i
      in if i < n
         then res_bind (py_index l_sort (i - 1)) (\<lambda>a. res_bind (py_index l_sort i) (\<lambda>b.
                Inr ((1 - f) * a + f * b)))
         else py_index l_sort (i - 1))"

definition trim_list :: "rat list \<Rightarrow> rat list res" where
  "trim_list l =
     (let l_sort = sort l; n = int (length l_sort)
      in res_bind
           (if n mod 2 = 0
            then res_bind (py_index l_sort (n div 2)) (\<lambda>a.
                   res_bind (py_index l_sort (n div 2 - 1)) (\<lambda>b. Inr ((a + b) / 2)))
            else py_index l_sort (n div 2))
           (\<lambda>median.
              res_bind (quantile l_sort (1 / 4)) (\<lambda>q1. res_bind (quantile l_sort (3 / 4)) (\<lambda>q3.
                let iqr_extra = (q3 - q1) * (3 / 2)
                in Inr (filter (\<lambda>x. q1 - iqr_extra \<le> x \<and> x \<le> q3 + iqr_extra) l_sort)))))"

text \<open>Linear interpolation in a list at a non-negative position.\<close>

definition interpolate :: "rat list \<Rightarrow> rat \<Rightarrow> rat" where
  "interpolate xs t =
     (let k = nat \<lfloor>t\<rfloor>; f = t - of_int \<lfloor>t\<rfloor>
      in if Suc k < length xs then (1 - f) * xs ! k + f * xs ! Suc k else xs ! k)"

lemma quantile_interpolate:
  assumes "l \<noteq> []" and "0 \<le> p" and "p \<le> 1"
  shows "quantile l p = Inr (interpolate (sort l) (of_nat (length l - 1) * p))"
proof -
  define t where "t = (of_nat (length l - 1) * p :: rat)"
  define k where "k = nat \<lfloor>t\<rfloor>"
  have t0: "0 \<le> t" using assms(2) by (simp add: t_def)
  have fl: "\<lfloor>t\<rfloor> = int k" using t0 by (simp add: k_def)
  have "of_int (int (length l) - 1) = (of_nat (length l - 1) :: rat)" using assms(1) by (cases l) auto
  then have r: "1 + of_int (int (length l) - 1) * p = 1 + t" by (simp only: t_def)
  have i: "num_int (PFlt (1 + t)) = 1 + int k" using t0 fl by simp
  have "t \<le> of_nat (length l - 1)" using assms(2,3) unfolding t_def by (simp add: mult_left_le)
  then have "k \<le> length l - 1" using fl by (metis floor_mono floor_of_nat of_nat_le_iff)
  then have k: "k < length l" using assms(1) by (cases l) auto
  have idx: "py_index (sort l) (1 + int k - 1) = Inr (sort l ! k)"
    using k py_index_nat [of "sort l" k] by simp
  have idx': "Suc k < length l \<Longrightarrow> py_index (sort l) (1 + int k) = Inr (sort l ! Suc k)"
    using py_index_nat [of "sort l" "Suc k"] by simp
  have f: "1 + t - of_int (1 + int k) = t - of_int \<lfloor>t\<rfloor>" by (simp add: fl)
  show ?thesis
    unfolding quantile_def Let_def r i f interpolate_def t_def [symmetric] k_def [symmetric] idx res_bind_simps
    using idx' by simp
qed

lemma interpolate_bracket:
  assumes "sorted xs" and "0 \<le> t" and "nat \<lfloor>t\<rfloor> < length xs"
  shows "xs ! nat \<lfloor>t\<rfloor> \<le> interpolate xs t \<and>
     (Suc (nat \<lfloor>t\<rfloor>) < length xs \<longrightarrow> interpolate xs t \<le> xs ! Suc (nat \<lfloor>t\<rfloor>))"
proof (cases "Suc (nat \<lfloor>t\<rfloor>) < length xs")
  case True
  let ?k = "nat \<lfloor>t\<rfloor>" and ?f = "t - of_int \<lfloor>t\<rfloor>"
  have le: "xs ! ?k \<le> xs ! Suc ?k" using assms(1) True by (intro sorted_nth_mono) auto
  have f: "0 \<le> ?f" "?f \<le> 1" by linarith+
  have "(1 - ?f) * xs ! ?k + ?f * xs ! Suc ?k = xs ! ?k + ?f * (xs ! Suc ?k - xs ! ?k)"
    by (simp add: algebra_simps)
  moreover have "0 \<le> ?f * (xs ! Suc ?k - xs ! ?k)" using f(1) le by simp
  moreover have "?f * (xs ! Suc ?k - xs ! ?k) \<le> xs ! Suc ?k - xs ! ?k"
    using f le by (intro mult_left_le_one_le) simp_all
  ultimately show ?thesis using True by (simp add: interpolate_def Let_def)
qed (simp add: interpolate_def Let_def)

lemma interpolate_mono:
  assumes "sorted xs" and "0 \<le> s" and "s \<le> t" and "nat \<lfloor>t\<rfloor> < length xs"
  shows "interpolate xs s \<le> interpolate xs t"
proof -
  let ?i = "nat \<lfloor>s\<rfloor>" and ?j = "nat \<lfloor>t\<rfloor>"
  have ij: "?i \<le> ?j" using assms(3) by (simp add: floor_mono nat_mono)
  show ?thesis
  proof (cases "?i = ?j")
    case False
    then have lt: "Suc ?i \<le> ?j" using ij by simp
    then have "interpolate xs s \<le> xs ! Suc ?i" using interpolate_bracket [OF assms(1,2)] assms(4) by simp
    also have "\<dots> \<le> xs ! ?j" using assms(1,4) lt by (intro sorted_nth_mono) auto
    also have "\<dots> \<le> interpolate xs t" using interpolate_bracket [OF assms(1) _ assms(4)] assms(2,3) by simp
    finally show ?thesis .
  next
    case True
    then have fl: "\<lfloor>s\<rfloor> = \<lfloor>t\<rfloor>" using assms(2,3) by (metis floor_mono int_nat_eq le_floor_iff of_int_0 order_trans)
    show ?thesis
    proof (cases "Suc ?j < length xs")
      case last: True
      have "0 \<le> xs ! Suc ?j - xs ! ?j" using assms(1) last by (simp add: sorted_nth_mono)
      then have "(s - of_int \<lfloor>t\<rfloor>) * (xs ! Suc ?j - xs ! ?j) \<le> (t - of_int \<lfloor>t\<rfloor>) * (xs ! Suc ?j - xs ! ?j)"
        using assms(3) by (intro mult_right_mono) simp_all
      then show ?thesis using last by (simp add: interpolate_def Let_def fl algebra_simps)
    qed (simp add: interpolate_def Let_def fl)
  qed
qed

lemma quantile_position:
  assumes "l \<noteq> []" and "0 \<le> p" and "p \<le> 1"
  shows "nat \<lfloor>of_nat (length l - 1) * p :: rat\<rfloor> < length (sort l)"
proof -
  have "of_nat (length l - 1) * p \<le> (of_nat (length l - 1) :: rat)" using assms(2,3) by (simp add: mult_left_le)
  then have "\<lfloor>of_nat (length l - 1) * p :: rat\<rfloor> \<le> int (length l - 1)" by (metis floor_mono floor_of_nat)
  then show ?thesis using assms(1) by (cases l) auto
qed

text \<open>
  For a non-empty list and \<open>p\<close> between 0 and 1 \<open>quantile\<close> returns, lies between the
  least and the greatest value, reaches them at 0 and 1, and never decreases when \<open>p\<close>
  grows.
\<close>

theorem quantile_correct:
  assumes "l \<noteq> []" and "0 \<le> p" and "p \<le> q" and "q \<le> 1"
  shows "\<exists>a b. quantile l p = Inr a \<and> quantile l q = Inr b \<and> a \<le> b \<and>
     Min (set l) \<le> a \<and> b \<le> Max (set l) \<and>
     (p = 0 \<longrightarrow> a = Min (set l)) \<and> (q = 1 \<longrightarrow> b = Max (set l))"
proof -
  let ?xs = "sort l" and ?m = "of_nat (length l - 1) :: rat"
  have len: "length l - 1 < length ?xs" using assms(1) by (cases l) auto
  have bounds: "0 \<le> p" "p \<le> 1" "0 \<le> q" "q \<le> 1" using assms by auto
  have at0: "interpolate ?xs (?m * 0) = Min (set l)"
  proof -
    have "interpolate ?xs 0 = ?xs ! 0" by (simp add: interpolate_def Let_def)
    also have "\<dots> = Min (set ?xs)" using assms(1) sorted_sort [of l]
      by (metis Min_eqI List.finite_set hd_conv_nth len length_0_conv length_greater_0_conv length_sort
          nth_mem sorted_nth_mono in_set_conv_nth le0)
    finally show ?thesis by simp
  qed
  have at1: "interpolate ?xs (?m * 1) = Max (set l)"
  proof -
    have "interpolate ?xs ?m = ?xs ! (length l - 1)" by (simp add: interpolate_def Let_def)
    also have "\<dots> = Max (set ?xs)"
    proof (rule Max_eqI [symmetric])
      show "y \<le> ?xs ! (length l - 1)" if "y \<in> set ?xs" for y
      proof -
        from that obtain k where "k < length ?xs" "y = ?xs ! k" by (metis in_set_conv_nth)
        then show ?thesis using sorted_nth_mono [OF sorted_sort, of k "length l - 1" l] len by simp
      qed
      show "?xs ! (length l - 1) \<in> set ?xs" using len by (rule nth_mem)
    qed simp
    finally show ?thesis by simp
  qed
  have mono: "interpolate ?xs (?m * x) \<le> interpolate ?xs (?m * y)" if "0 \<le> x" "x \<le> y" "y \<le> 1" for x y
  proof (rule interpolate_mono)
    show "nat \<lfloor>?m * y\<rfloor> < length ?xs" using quantile_position [OF assms(1), of y] that by linarith
  qed (use that in \<open>auto intro: mult_left_mono\<close>)
  show ?thesis
    using quantile_interpolate [OF assms(1) bounds(1,2)] quantile_interpolate [OF assms(1) bounds(3,4)]
      mono [OF assms(2-4)] mono [of 0 p] mono [of q 1] bounds at0 at1 by auto
qed

theorem quantile_correct_witness:
  "\<exists>a b. quantile [3, 1, 2] (1/4) = Inr a \<and> quantile [3, 1, 2] 1 = Inr b \<and> a \<le> b \<and>
     Min (set [3, 1, 2]) \<le> a \<and> b \<le> Max (set [3, 1, 2]) \<and>
     ((1/4 :: rat) = 0 \<longrightarrow> a = Min (set [3, 1, 2])) \<and> ((1 :: rat) = 1 \<longrightarrow> b = Max (set [3, 1, 2]))"
  by (rule quantile_correct) simp_all

lemma quartiles:
  assumes "l \<noteq> []"
  obtains q1 q3 where "quantile (sort l) (1 / 4) = Inr q1" and "quantile (sort l) (3 / 4) = Inr q3"
    and "q1 \<le> q3" and "quantile (sort l) (1 / 4) = quantile l (1 / 4)"
    and "quantile (sort l) (3 / 4) = quantile l (3 / 4)"
proof -
  let ?m = "of_nat (length l - 1) :: rat"
  have ne: "sort l \<noteq> []" using assms by (metis length_0_conv length_sort)
  have q: "quantile (sort l) p = Inr (interpolate (sort l) (?m * p)) \<and> quantile (sort l) p = quantile l p"
    if "0 \<le> p" "p \<le> 1" for p
    using quantile_interpolate [OF ne that] quantile_interpolate [OF assms that]
    by (simp add: sorted_sort_id)
  have "interpolate (sort l) (?m * (1 / 4)) \<le> interpolate (sort l) (?m * (3 / 4))"
  proof (rule interpolate_mono)
    show "nat \<lfloor>?m * (3 / 4)\<rfloor> < length (sort l)" using quantile_position [OF assms, of "3 / 4"] by linarith
    show "?m * (1 / 4) \<le> ?m * (3 / 4)" by (rule mult_left_mono) simp_all
  qed simp_all
  then show ?thesis using q [of "1 / 4"] q [of "3 / 4"]
    by (intro that [of "interpolate (sort l) (?m * (1 / 4))" "interpolate (sort l) (?m * (3 / 4))"]) auto
qed

lemma median_defined:
  assumes "l \<noteq> []"
  shows "\<exists>m. (if int (length (sort l)) mod 2 = 0
       then res_bind (py_index (sort l) (int (length (sort l)) div 2)) (\<lambda>a.
              res_bind (py_index (sort l) (int (length (sort l)) div 2 - 1)) (\<lambda>b. Inr ((a + b) / (2::rat))))
       else py_index (sort l) (int (length (sort l)) div 2)) = Inr m"
proof -
  let ?n = "int (length (sort l))"
  have in_range: "\<exists>v. py_index (sort l) i = Inr v" if "0 \<le> i" "i < ?n" for i
    using that by (simp add: py_index_def)
  have pos: "0 < ?n" using assms by simp
  show ?thesis
  proof (cases "?n mod 2 = 0")
    case True
    then have "0 \<le> ?n div 2 - 1" using pos by presburger
    moreover have "0 \<le> ?n div 2" "?n div 2 < ?n" "?n div 2 - 1 < ?n" using pos by linarith+
    ultimately obtain a b where "py_index (sort l) (?n div 2) = Inr a" "py_index (sort l) (?n div 2 - 1) = Inr b"
      using in_range [of "?n div 2"] in_range [of "?n div 2 - 1"] by blast
    then show ?thesis unfolding if_P [OF True] by (intro exI [of _ "(a + b) / 2"]) simp
  next
    case False
    moreover have "0 \<le> ?n div 2" "?n div 2 < ?n" using pos by linarith+
    ultimately show ?thesis using in_range [of "?n div 2"] by (simp only: if_False)
  qed
qed

text \<open>
  \<open>trim\<close> of a non-empty list returns its values in order without exactly those
  more than one and a half times the inter-quartile range outside the quartiles, so
  every value between the quartiles stays; on an empty list it raises
  \<open>IndexError\<close>.
\<close>

theorem trim_correct:
  "trim_list [] = Inl IndexError \<and>
   (l \<noteq> [] \<longrightarrow> (\<exists>q1 q3. quantile l (1 / 4) = Inr q1 \<and> quantile l (3 / 4) = Inr q3 \<and> q1 \<le> q3 \<and>
      trim_list l = Inr (filter (\<lambda>x. q1 - 3 / 2 * (q3 - q1) \<le> x \<and> x \<le> q3 + 3 / 2 * (q3 - q1)) (sort l)) \<and>
      (\<forall>x\<in>set l. q1 \<le> x \<and> x \<le> q3 \<longrightarrow>
         x \<in> set (filter (\<lambda>x. q1 - 3 / 2 * (q3 - q1) \<le> x \<and> x \<le> q3 + 3 / 2 * (q3 - q1)) (sort l)))))"
proof (intro conjI impI)
  show "trim_list [] = Inl IndexError" by (simp add: trim_list_def py_index_def)
next
  assume ne: "l \<noteq> []"
  obtain q1 q3 where q: "quantile (sort l) (1 / 4) = Inr q1" "quantile (sort l) (3 / 4) = Inr q3"
      "q1 \<le> q3" "quantile (sort l) (1 / 4) = quantile l (1 / 4)"
      "quantile (sort l) (3 / 4) = quantile l (3 / 4)" using quartiles [OF ne] .
  obtain m where m: "(if int (length (sort l)) mod 2 = 0
       then res_bind (py_index (sort l) (int (length (sort l)) div 2)) (\<lambda>a.
              res_bind (py_index (sort l) (int (length (sort l)) div 2 - 1)) (\<lambda>b. Inr ((a + b) / (2::rat))))
       else py_index (sort l) (int (length (sort l)) div 2)) = Inr m" using median_defined [OF ne] ..
  have "trim_list l =
      Inr (filter (\<lambda>x. q1 - 3 / 2 * (q3 - q1) \<le> x \<and> x \<le> q3 + 3 / 2 * (q3 - q1)) (sort l))"
    unfolding trim_list_def Let_def m res_bind_simps q(1,2) by (simp add: mult.commute)
  moreover have "x \<in> set (filter (\<lambda>x. q1 - 3 / 2 * (q3 - q1) \<le> x \<and> x \<le> q3 + 3 / 2 * (q3 - q1)) (sort l))"
    if "x \<in> set l" "q1 \<le> x" "x \<le> q3" for x
    using that q(3) by (auto simp: field_simps)
  ultimately show "\<exists>q1 q3. quantile l (1 / 4) = Inr q1 \<and> quantile l (3 / 4) = Inr q3 \<and> q1 \<le> q3 \<and>
      trim_list l = Inr (filter (\<lambda>x. q1 - 3 / 2 * (q3 - q1) \<le> x \<and> x \<le> q3 + 3 / 2 * (q3 - q1)) (sort l)) \<and>
      (\<forall>x\<in>set l. q1 \<le> x \<and> x \<le> q3 \<longrightarrow>
         x \<in> set (filter (\<lambda>x. q1 - 3 / 2 * (q3 - q1) \<le> x \<and> x \<le> q3 + 3 / 2 * (q3 - q1)) (sort l)))"
    using q by (intro exI [of _ q1] exI [of _ q3]) simp
qed

theorem trim_correct_witness:
  "trim_list [] = Inl IndexError \<and>
   ([1, 2, 100 :: rat] \<noteq> [] \<longrightarrow> (\<exists>q1 q3. quantile [1, 2, 100] (1 / 4) = Inr q1 \<and> quantile [1, 2, 100] (3 / 4) = Inr q3 \<and> q1 \<le> q3 \<and>
      trim_list [1, 2, 100] = Inr (filter (\<lambda>x. q1 - 3 / 2 * (q3 - q1) \<le> x \<and> x \<le> q3 + 3 / 2 * (q3 - q1)) (sort [1, 2, 100])) \<and>
      (\<forall>x\<in>set [1, 2, 100]. q1 \<le> x \<and> x \<le> q3 \<longrightarrow>
         x \<in> set (filter (\<lambda>x. q1 - 3 / 2 * (q3 - q1) \<le> x \<and> x \<le> q3 + 3 / 2 * (q3 - q1)) (sort [1, 2, 100])))))"
  by (rule trim_correct)

section \<open>Ranges and grids\<close>

partial_function (option) float_loop :: "rat \<Rightarrow> rat \<Rightarrow> rat \<Rightarrow> rat list \<Rightarrow> rat list option" where
  "float_loop cur stop step l =
     (if cur < stop then float_loop (cur + step) stop step (l @ [cur]) else Some l)"

definition float_range :: "rat \<Rightarrow> rat option \<Rightarrow> rat option \<Rightarrow> rat list option" where
  "float_range start stop step =
     (let start' = (case stop of None \<Rightarrow> 0 | Some s \<Rightarrow> start);
          stop' = (case stop of None \<Rightarrow> start | Some s \<Rightarrow> s);
          step' = (case step of None \<Rightarrow> 1 | Some s \<Rightarrow> s)
      in float_loop start' stop' step' [])"

definition round_grid :: "pynum \<Rightarrow> pynum \<Rightarrow> int \<Rightarrow> pynum res" where
  "round_grid value grid mode =
     res_bind (num_mod value grid) (\<lambda>off_grid.
       res_bind
         (if mode = 0 then res_bind (num_div grid (PFlt 2)) (\<lambda>h. Inr (if num_le h off_grid then 1 else 0))
          else if mode = 1 \<and> num_val off_grid \<noteq> 0 then Inr 1
          else if mode = - 1 \<and> num_val off_grid \<noteq> 0 then Inr 0
          else Inl UnboundLocalError)
         (\<lambda>add_one. res_bind (num_div value grid) (\<lambda>q. Inr (num_mul (PInt (num_int q + add_one)) grid))))"

lemma float_loop_steps:
  assumes "0 < step"
  shows "float_loop cur stop step l =
     Some (l @ map (\<lambda>k. cur + of_nat k * step) [0..<nat \<lceil>(stop - cur) / step\<rceil>])"
proof (induction "nat \<lceil>(stop - cur) / step\<rceil>" arbitrary: cur l rule: less_induct)
  case less
  show ?case
  proof (cases "cur < stop")
    case False
    then have "(stop - cur) / step \<le> 0" using assms by (simp add: divide_nonpos_pos)
    then have "nat \<lceil>(stop - cur) / step\<rceil> = 0" by simp
    then show ?thesis using False by (simp add: float_loop.simps)
  next
    case True
    let ?n = "nat \<lceil>(stop - cur) / step\<rceil>"
    have pos: "0 < (stop - cur) / step" using True assms by simp
    then have n: "0 < ?n" by simp
    have "(stop - (cur + step)) / step = (stop - cur) / step - 1" using assms by (simp add: field_simps)
    then have n': "nat \<lceil>(stop - (cur + step)) / step\<rceil> = ?n - 1" by (simp add: nat_diff_distrib')
    have "float_loop cur stop step l = float_loop (cur + step) stop step (l @ [cur])"
      using True by (subst float_loop.simps) simp
    also have "\<dots> = Some ((l @ [cur]) @ map (\<lambda>k. cur + step + of_nat k * step) [0..<?n - 1])"
      using less [of "cur + step"] n n' by simp
    also have "\<dots> = Some (l @ map (\<lambda>k. cur + of_nat k * step) (0 # map Suc [0..<?n - 1]))"
      by (simp add: comp_def algebra_simps)
    also have "0 # map Suc [0..<?n - 1] = [0..<?n]"
      using n by (metis Suc_diff_1 map_Suc_upt upt_conv_Cons)
    finally show ?thesis .
  qed
qed

text \<open>
  With a positive step \<open>float_range\<close> terminates and returns the arithmetic
  progression from \<open>start\<close>: its items are below \<open>stop\<close> and the next one would not be.
\<close>

theorem float_range_correct:
  assumes "0 < step"
  shows "\<exists>n. float_range start (Some stop) (Some step) = Some (map (\<lambda>k. start + of_nat k * step) [0..<n]) \<and>
     (\<forall>k<n. start + of_nat k * step < stop) \<and> stop \<le> start + of_nat n * step"
proof -
  let ?n = "nat \<lceil>(stop - start) / step\<rceil>"
  have "start + of_nat k * step < stop" if "k < ?n" for k
  proof -
    from that have "of_nat k < (stop - start) / step" by (simp add: zless_nat_eq_int_zless less_ceiling_iff)
    then show ?thesis using assms by (simp add: pos_less_divide_eq algebra_simps)
  qed
  moreover have "(stop - start) / step \<le> of_nat ?n" by (rule of_nat_ceiling)
  then have "stop \<le> start + of_nat ?n * step" using assms by (simp add: pos_divide_le_eq algebra_simps)
  ultimately show ?thesis using assms by (auto simp: float_range_def float_loop_steps)
qed

theorem float_range_correct_witness:
  "\<exists>n. float_range 0 (Some 1) (Some (1 / 3)) = Some (map (\<lambda>k. 0 + of_nat k * (1 / 3)) [0..<n]) \<and>
     (\<forall>k<n. 0 + of_nat k * (1 / 3) < (1::rat)) \<and> 1 \<le> 0 + of_nat n * (1 / 3 :: rat)"
  by (rule float_range_correct) simp

text \<open>
  On integers and a positive grid \<open>round_grid\<close> returns, for a value off the grid or
  in the nearest mode, a multiple of the grid that is nearest, next above or next below,
  as the mode says.
\<close>

theorem round_grid_int:
  assumes "0 < g" and "mode \<in> {0, 1, - 1}" and "mode = 0 \<or> v mod g \<noteq> 0"
  shows "\<exists>k. round_grid (PInt v) (PInt g) mode = Inr (PInt (k * g)) \<and>
     (mode = 0 \<longrightarrow> 2 * \<bar>k * g - v\<bar> \<le> g) \<and>
     (mode = 1 \<longrightarrow> v < k * g \<and> k * g < v + g) \<and> (mode = - 1 \<longrightarrow> k * g < v \<and> v < k * g + g)"
proof -
  have v: "v = g * (v div g) + v mod g" by simp
  have m: "0 \<le> v mod g" "v mod g < g" using assms(1) by simp_all
  have half: "of_int g / 2 \<le> (of_int (v mod g) :: rat) \<longleftrightarrow> g \<le> 2 * (v mod g)"
  proof -
    have "of_int g / 2 \<le> (of_int (v mod g) :: rat) \<longleftrightarrow> (of_int g :: rat) \<le> of_int (2 * (v mod g))"
      by (simp add: field_simps)
    then show ?thesis by (simp only: of_int_le_iff)
  qed
  consider "mode = 0" | "mode = 1" "v mod g \<noteq> 0" | "mode = - 1" "v mod g \<noteq> 0" using assms(2,3) by auto
  then show ?thesis
  proof cases
    case 1
    let ?k = "v div g + (if g \<le> 2 * (v mod g) then 1 else 0)"
    have "round_grid (PInt v) (PInt g) mode = Inr (PInt (?k * g))"
      using 1 assms(1) half by (simp add: round_grid_def num_mod_def num_div_def num_le_def num_mul_def)
    moreover have "2 * \<bar>?k * g - v\<bar> \<le> g"
    proof -
      have "?k * g - v = (if g \<le> 2 * (v mod g) then g - v mod g else - (v mod g))"
        using v by (simp add: algebra_simps)
      then show ?thesis using m by auto
    qed
    ultimately show ?thesis using 1 by auto
  next
    case 2
    have "round_grid (PInt v) (PInt g) mode = Inr (PInt ((v div g + 1) * g))"
      using 2 assms(1) by (simp add: round_grid_def num_mod_def num_div_def num_mul_def)
    moreover have "v < (v div g + 1) * g \<and> (v div g + 1) * g < v + g"
      using v m 2(2) unfolding distrib_right mult.commute [of "v div g" g] by linarith
    ultimately show ?thesis using 2 by auto
  next
    case 3
    have "round_grid (PInt v) (PInt g) mode = Inr (PInt (v div g * g))"
      using 3 assms(1) by (simp add: round_grid_def num_mod_def num_div_def num_mul_def)
    moreover have "v div g * g < v \<and> v < v div g * g + g"
      using v m 3(2) unfolding mult.commute [of "v div g" g] by linarith
    ultimately show ?thesis using 3 by auto
  qed
qed

theorem round_grid_int_witness:
  "\<exists>k. round_grid (PInt 7) (PInt 5) 1 = Inr (PInt (k * 5)) \<and>
     ((1::int) = 0 \<longrightarrow> 2 * \<bar>k * 5 - 7\<bar> \<le> 5) \<and>
     ((1::int) = 1 \<longrightarrow> 7 < k * 5 \<and> k * 5 < 7 + 5) \<and> ((1::int) = - 1 \<longrightarrow> k * 5 < 7 \<and> 7 < k * 5 + 5)"
  by (rule round_grid_int) simp_all

text \<open>
  A value that is already on the grid cannot be rounded up or down: \<open>add_one\<close> is never
  assigned.  A negative float is rounded to the wrong side, since \<open>int\<close> truncates
  towards zero.
\<close>

lemma round_grid_on_grid: "round_grid (PInt 10) (PInt 5) 1 = Inl UnboundLocalError"
  by (simp add: round_grid_def num_mod_def)

lemma round_grid_negative_float: "round_grid (PFlt (- 15 / 2)) (PInt 5) 0 = Inr (PInt 0)"
proof -
  have "\<lfloor>- (3 / 2 :: rat)\<rfloor> = - 2" "\<lceil>- (3 / 2 :: rat)\<rceil> = - 1" by linarith+
  then show ?thesis
    by (simp add: round_grid_def num_mod_def num_div_def num_mul_def num_le_def rat_mod_def)
qed

section \<open>Human readable units\<close>

text \<open>
  The prefix tables of \<open>nice_units\<close> as dictionaries from the multiplier to the short and
  the long name.  The value is a float.  \<open>round\<close> and the two \<open>%\<close> formats belong to
  the interpreter's float printing and are arguments.
\<close>

definition si_prefixes :: "(rat, string \<times> string) dict" where
  "si_prefixes =
     [(10 ^ 24, ''Y'', ''yotta''), (10 ^ 21, ''Z'', ''zetta''), (10 ^ 18, ''E'', ''exa''),
      (10 ^ 15, ''P'', ''peta''), (10 ^ 12, ''T'', ''tera''), (10 ^ 9, ''G'', ''giga''),
      (10 ^ 6, ''M'', ''mega''), (10 ^ 3, ''k'', ''kilo''), (1 / 10 ^ 3, ''m'', ''milli''),
      (1 / 10 ^ 6, ''u'', ''micro''), (1 / 10 ^ 9, ''n'', ''nano''), (1 / 10 ^ 12, ''p'', ''pico''),
      (1 / 10 ^ 15, ''f'', ''femto''), (1 / 10 ^ 18, ''a'', ''atto''), (1 / 10 ^ 21, ''z'', ''zepto''),
      (1 / 10 ^ 24, ''y'', ''yocto'')]"

definition extra_prefixes :: "(rat, string \<times> string) dict" where
  "extra_prefixes =
     [(10 ^ 2, ''h'', ''hecto''), (10, ''da'', ''deka''), (1 / 10, ''d'', ''deci''), (1 / 10 ^ 2, ''c'', ''centi'')]"

definition bin_prefixes :: "(rat, string \<times> string) dict" where
  "bin_prefixes =
     [(2 ^ 10, ''K'', ''kilo''), (2 ^ 20, ''M'', ''mega''), (2 ^ 30, ''G'', ''mega''),
      (2 ^ 40, ''T'', ''tera''), (2 ^ 50, ''P'', ''peta''), (2 ^ 60, ''E'', ''exa'')]"

definition unit_prefixes :: "bool \<Rightarrow> string \<Rightarrow> (rat, string \<times> string) dict" where
  "unit_prefixes use_extra_prefixes mode =
     (let si = (if use_extra_prefixes
            then fold (\<lambda>(k, v). dict_set k v) extra_prefixes si_prefixes else si_prefixes);
          prefixes = (if mode = ''bin'' then bin_prefixes else si)
      in dict_set 1 ([], []) prefixes)"

text \<open>The index of the multiplier: the loop over neighbours, then the two ends.\<close>

definition mult_index :: "rat list \<Rightarrow> rat \<Rightarrow> nat option" where
  "mult_index multipliers value =
     (let inner = find (\<lambda>i. multipliers ! i \<le> value \<and> value < multipliers ! (i + 1))
            [0..<length multipliers - 1]
      in if value < multipliers ! 0 then Some 0
         else if multipliers ! (length multipliers - 1) \<le> value then Some (length multipliers - 1)
         else inner)"

definition nice_units ::
    "(rat \<Rightarrow> int \<Rightarrow> rat) \<Rightarrow> (int \<Rightarrow> rat \<Rightarrow> string) \<Rightarrow> (int \<Rightarrow> rat \<Rightarrow> string) \<Rightarrow>
     rat \<Rightarrow> int \<Rightarrow> int option \<Rightarrow> string \<Rightarrow> string \<Rightarrow> bool \<Rightarrow> bool \<Rightarrow> string \<Rightarrow> string res" where
  "nice_units round_to format_f format_g value dp sigfigs suffix space
      use_extra_prefixes use_full_name mode =
     (let prefixes = unit_prefixes use_extra_prefixes mode;
          multipliers = sort (map fst prefixes)
      in case mult_index multipliers value of
           None \<Rightarrow> Inl UnboundLocalError
         | Some mult_i \<Rightarrow>
             (let mult0 = multipliers ! mult_i;
                  bump = (sigfigs = None \<and> mult_i < length multipliers - 1 \<and>
                    round_to (value / mult0) dp = round_to (multipliers ! (mult_i + 1) / mult0) dp);
                  mult = (if bump then multipliers ! (mult_i + 1) else mult0);
                  new_value = value / mult;
                  str_value = (case sigfigs of None \<Rightarrow> format_f dp new_value | Some sf \<Rightarrow> format_g sf new_value)
              in res_bind (dict_get prefixes mult) (\<lambda>(short, full).
                   Inr (str_value @ space @ (if use_full_name then full else short) @ suffix))))"

lemma mult_index_spec:
  assumes "sorted ms" and "ms \<noteq> []"
  shows "\<exists>i. mult_index ms v = Some i \<and> i < length ms \<and> (v < ms ! 0 \<or> ms ! i \<le> v) \<and>
     (Suc i < length ms \<longrightarrow> v < ms ! Suc i)"
proof -
  let ?n = "length ms"
  have n: "?n - 1 < ?n" using assms(2) by simp
  consider "v < ms ! 0" | "\<not> v < ms ! 0" "ms ! (?n - 1) \<le> v" | "ms ! 0 \<le> v" "v < ms ! (?n - 1)" by linarith
  then show ?thesis
  proof cases
    case 1
    moreover have "v < ms ! Suc 0" if "Suc 0 < ?n"
      using sorted_nth_mono [OF assms(1), of 0 "Suc 0"] that 1 by simp
    ultimately show ?thesis using assms(2) by (simp add: mult_index_def)
  next
    case 2
    then show ?thesis using n by (intro exI [of _ "?n - 1"]) (auto simp: mult_index_def)
  next
    case 3
    define i where "i = (LEAST j. v < ms ! Suc j)"
    have ex: "v < ms ! Suc (?n - 2)" using 3 by (cases "?n = 1") (auto simp: numeral_2_eq_2 Suc_diff_Suc)
    then have up: "v < ms ! Suc i" unfolding i_def by (rule LeastI)
    have le: "i \<le> ?n - 2" unfolding i_def using ex by (rule Least_le)
    have n2: "2 \<le> ?n" using 3 by (cases "?n = 1") (use n in auto)
    have low: "ms ! i \<le> v"
    proof (cases i)
      case (Suc j)
      have "\<not> v < ms ! Suc j" using Suc not_less_Least [of j "\<lambda>j. v < ms ! Suc j"] by (simp add: i_def)
      then show ?thesis using Suc by simp
    qed (use 3 in simp)
    have "find (\<lambda>i. ms ! i \<le> v \<and> v < ms ! (i + 1)) [0..<?n - 1] \<noteq> None"
      using up low le n2 by (auto simp: find_None_iff intro!: bexI [of _ i])
    then obtain j where j: "find (\<lambda>i. ms ! i \<le> v \<and> v < ms ! (i + 1)) [0..<?n - 1] = Some j" by auto
    then have "j < ?n - 1" "ms ! j \<le> v" "v < ms ! Suc j" by (auto simp: find_Some_iff)
    with 3 j show ?thesis by (auto simp: mult_index_def)
  qed
qed

text \<open>
  \<open>nice_units\<close> always finds a multiplier: the largest that does not exceed the value, the
  smallest of all when the value is below them all.
\<close>

lemma nice_units_multiplier:
  "\<exists>i. mult_index (sort (map fst (unit_prefixes extra mode))) v = Some i \<and>
     i < length (unit_prefixes extra mode) \<and>
     (v < sort (map fst (unit_prefixes extra mode)) ! 0 \<or> sort (map fst (unit_prefixes extra mode)) ! i \<le> v) \<and>
     (Suc i < length (unit_prefixes extra mode) \<longrightarrow> v < sort (map fst (unit_prefixes extra mode)) ! Suc i)"
proof -
  have "unit_prefixes extra mode \<noteq> []"
    by (simp add: unit_prefixes_def Let_def dict_set_def update_nonempty)
  then have "sort (map fst (unit_prefixes extra mode)) \<noteq> []"
    by (metis length_0_conv length_sort map_is_Nil_conv)
  from mult_index_spec [OF sorted_sort this] show ?thesis by simp
qed

lemma bin_prefix_giga: "dict_find (unit_prefixes False ''bin'') (2 ^ 30) = Some (''G'', ''mega'')"
  by (simp add: unit_prefixes_def bin_prefixes_def dict_set_def dict_find_def)

end
