(* ===== verification/Topsort.thy ===== *)
theory Topsort
  imports Rad_Util
begin

text \<open>
  Dependency sorting and cycle finding: \<open>src/bindings/python/topsort.py\<close>.
\<close>

section \<open>Model\<close>

type_synonym 'a num_parents = "('a, int) dict"
type_synonym 'a children = "('a, 'a list) dict"

datatype 'a topsort_error =
    CycleError "'a list" "'a num_parents" "'a children"
  | LevelsCycleError "'a num_parents" "'a children"
  | Raised py_error

definition register_pair ::
    "'a \<times> 'a \<Rightarrow> 'a num_parents \<times> 'a children \<Rightarrow> ('a num_parents \<times> 'a children) res" where
  "register_pair pc st =
     (case pc of (parent, child) \<Rightarrow> case st of (num_parents, children) \<Rightarrow>
      let np1 = (if \<not> dict_has num_parents parent then dict_set parent 0 num_parents else num_parents);
          np2 = (if \<not> dict_has np1 child then dict_set child 0 np1 else np1)
      in res_bind (dict_get np2 child) (\<lambda>n.
           Inr (dict_set child (n + 1) np2,
                dict_set parent
                  ((case dict_find children parent of None \<Rightarrow> [] | Some l \<Rightarrow> l) @ [child]) children)))"

definition register_pairs :: "('a \<times> 'a) list \<Rightarrow> ('a num_parents \<times> 'a children) res" where
  "register_pairs pairlist = res_fold register_pair pairlist ([], [])"

fun knock_down :: "'a list \<Rightarrow> 'a num_parents \<Rightarrow> 'a list \<Rightarrow> ('a num_parents \<times> 'a list) res" where
  "knock_down [] num_parents answer = Inr (num_parents, answer)"
| "knock_down (child # cs) num_parents answer =
     res_bind (dict_get num_parents child) (\<lambda>n.
       knock_down cs (dict_set child (n - 1) num_parents)
         (if n - 1 = 0 then answer @ [child] else answer))"

type_synonym 'a topsort_state = "'a list \<times> 'a num_parents \<times> 'a children"

definition visit_parent :: "'a \<Rightarrow> 'a topsort_state \<Rightarrow> 'a topsort_state res" where
  "visit_parent parent st =
     (case st of (answer, num_parents, children) \<Rightarrow>
      res_bind (dict_del parent num_parents) (\<lambda>np1.
        case dict_find children parent of
          None \<Rightarrow> Inr (answer, np1, children)
        | Some cs \<Rightarrow>
            res_bind (knock_down cs np1 answer) (\<lambda>(np2, answer').
              res_bind (dict_del parent children) (\<lambda>children'.
                Inr (answer', np2, children')))))"

lemma knock_down_length:
  "knock_down cs np answer = Inr (np', answer') \<Longrightarrow> length np' = length np"
proof (induction cs np answer rule: knock_down.induct)
  case (2 child cs np answer)
  then obtain n where "dict_get np child = Inr n" by (auto simp: res_simps)
  with 2 show ?case by (force simp: dict_simps length_dict_set_present)
qed simp

lemma visit_parent_decreases:
  assumes "visit_parent p (answer, np, ch) = Inr (answer', np', ch')"
  shows "length np' < length np"
proof -
  from assms obtain np1 where del: "dict_del p np = Inr np1" and "length np' = length np1"
    by (auto simp: visit_parent_def res_simps dest: knock_down_length split: option.splits)
  then show ?thesis by (auto simp: dict_simps length_dict_rem)
qed

text \<open>\<open>for parent in answer\<close>, where \<open>answer\<close> grows in the loop: an index into the list.\<close>

function topsort_loop :: "nat \<Rightarrow> 'a topsort_state \<Rightarrow> 'a topsort_state res" where
  "topsort_loop i st =
     (if i < length (fst st)
      then res_bind (visit_parent (fst st ! i) st) (topsort_loop (Suc i))
      else Inr st)"
  by pat_completeness auto
termination
  by (relation "measure (\<lambda>(i, st). length (fst (snd st)))")
    (auto dest: visit_parent_decreases)

declare topsort_loop.simps [simp del]

definition topsort :: "('a list \<Rightarrow> 'a list) \<Rightarrow> ('a \<times> 'a) list \<Rightarrow> 'a topsort_error + 'a list" where
  "topsort key_order pairlist =
     (case register_pairs pairlist of
        Inl e \<Rightarrow> Inl (Raised e)
      | Inr (num_parents, children) \<Rightarrow>
          (case topsort_loop 0
              (filter (\<lambda>x. dict_find num_parents x = Some 0) (key_order (map fst num_parents)),
               num_parents, children) of
             Inl e \<Rightarrow> Inl (Raised e)
           | Inr (answer, num_parents', children') \<Rightarrow>
               if num_parents' \<noteq> [] then Inl (CycleError answer num_parents' children')
               else Inr answer))"

text \<open>
  \<open>topsort_levels_core\<close> is a generator: the model returns the levels it yields and how
  it ends (\<open>None\<close> for \<open>StopIteration\<close>).
\<close>

definition decrement_child :: "'a \<Rightarrow> 'a num_parents \<Rightarrow> 'a num_parents res" where
  "decrement_child child num_parents =
     res_bind (dict_get num_parents child) (\<lambda>n. Inr (dict_set child (n - 1) num_parents))"

definition remove_level_parent ::
    "'a \<Rightarrow> 'a num_parents \<times> 'a children \<Rightarrow> ('a num_parents \<times> 'a children) res" where
  "remove_level_parent level_parent st =
     (case st of (num_parents, children) \<Rightarrow>
      res_bind (dict_del level_parent num_parents) (\<lambda>np1.
        case dict_find children level_parent of
          None \<Rightarrow> Inr (np1, children)
        | Some cs \<Rightarrow>
            res_bind (res_fold decrement_child cs np1) (\<lambda>np2.
              res_bind (dict_del level_parent children) (\<lambda>children'.
                Inr (np2, children')))))"

lemma decrement_child_length: "decrement_child c np = Inr np' \<Longrightarrow> length np' = length np"
  by (auto simp: decrement_child_def res_simps dict_simps length_dict_set_present)

lemma remove_level_parent_length:
  assumes "remove_level_parent p (np, ch) = Inr (np', ch')"
  shows "length np' < length np"
proof -
  have kd: "res_fold decrement_child cs d = Inr d' \<Longrightarrow> length d' = length d" for cs and d d' :: "'a num_parents"
    by (rule res_fold_invariant [where P = "\<lambda>u. length u = length d"])
      (auto simp: decrement_child_length)
  from assms obtain np1 where "dict_del p np = Inr np1" and "length np' = length np1"
    by (auto simp: remove_level_parent_def res_simps dest: kd split: option.splits)
  then show ?thesis by (auto simp: dict_simps length_dict_rem)
qed

lemma remove_level_length:
  "res_fold remove_level_parent ps (np, ch) = Inr (np', ch') \<Longrightarrow> ps \<noteq> [] \<Longrightarrow> length np' < length np"
proof (induction ps arbitrary: np ch)
  case (Cons p ps)
  then obtain np1 ch1 where "remove_level_parent p (np, ch) = Inr (np1, ch1)"
    and "res_fold remove_level_parent ps (np1, ch1) = Inr (np', ch')"
    by (auto simp: res_simps)
  with Cons.IH [of np1 ch1] show ?case
    by (cases "ps = []") (auto dest: remove_level_parent_length)
qed simp

function topsort_levels_core ::
    "('a list \<Rightarrow> 'a list) \<Rightarrow> 'a num_parents \<times> 'a children \<Rightarrow> 'a list list \<times> 'a topsort_error option" where
  "topsort_levels_core key_order st =
     (let level_parents = filter (\<lambda>x. dict_find (fst st) x = Some 0) (key_order (map fst (fst st)))
      in if level_parents = []
         then ([], if fst st \<noteq> [] then Some (LevelsCycleError (fst st) (snd st)) else None)
         else (case res_fold remove_level_parent level_parents st of
                 Inl e \<Rightarrow> ([level_parents], Some (Raised e))
               | Inr st' \<Rightarrow>
                   (case topsort_levels_core key_order st' of (levels, outcome) \<Rightarrow>
                      (level_parents # levels, outcome))))"
  by pat_completeness auto
termination
  by (relation "measure (\<lambda>(f, st). length (fst st))") (auto dest: remove_level_length)

declare topsort_levels_core.simps [simp del]

definition topsort_levels ::
    "('a list \<Rightarrow> 'a list) \<Rightarrow> ('a \<times> 'a) list \<Rightarrow> 'a list list \<times> 'a topsort_error option" where
  "topsort_levels key_order pairlist =
     (case register_pairs pairlist of
        Inl e \<Rightarrow> ([], Some (Raised e))
      | Inr st \<Rightarrow> topsort_levels_core key_order st)"

section \<open>The graph of a pair list\<close>

definition nodes :: "('a \<times> 'a) list \<Rightarrow> 'a set" where
  "nodes pairs = fst ` set pairs \<union> snd ` set pairs"

definition kids :: "('a \<times> 'a) list \<Rightarrow> 'a \<Rightarrow> 'a list" where
  "kids pairs p = map snd (filter (\<lambda>e. fst e = p) pairs)"

definition indeg :: "('a \<times> 'a) list \<Rightarrow> 'a set \<Rightarrow> 'a \<Rightarrow> nat" where
  "indeg pairs D c = length (filter (\<lambda>e. snd e = c \<and> fst e \<notin> D) pairs)"

definition topological_order :: "('a \<times> 'a) list \<Rightarrow> 'a list \<Rightarrow> bool" where
  "topological_order pairs ans \<longleftrightarrow>
     distinct ans \<and> set ans = nodes pairs \<and>
     (\<forall>j<length ans. \<forall>e\<in>set pairs. snd e = ans ! j \<longrightarrow> fst e \<in> set (take j ans))"

lemma finite_nodes [simp]: "finite (nodes pairs)"
  by (simp add: nodes_def)

lemma indeg_zero: "indeg pairs D c = 0 \<longleftrightarrow> (\<forall>e\<in>set pairs. snd e = c \<longrightarrow> fst e \<in> D)"
  by (auto simp: indeg_def filter_empty_conv)

lemma set_kids: "c \<in> set (kids pairs p) \<longleftrightarrow> (p, c) \<in> set pairs"
  by (force simp: kids_def)

lemma indeg_insert:
  "p \<notin> D \<Longrightarrow> indeg pairs D c = indeg pairs (insert p D) c + count_list (kids pairs p) c"
  by (induction pairs) (auto simp: indeg_def kids_def)

lemma set_kids_nodes: "set (kids pairs p) \<subseteq> nodes pairs"
  by (force simp: set_kids nodes_def)

subsection \<open>Registration\<close>

lemma ensure_key:
  assumes "dict_ok d"
  shows "dict_ok (if \<not> dict_has d k then dict_set k v d else d)"
    and "dict_find (if \<not> dict_has d k then dict_set k v d else d) c =
      (if c = k \<and> dict_find d k = None then Some v else dict_find d c)"
  using assms by (auto simp: dict_simps)

lemma register_pair_spec:
  assumes "dict_ok np" and "dict_ok ch"
  shows "\<exists>np' ch'. register_pair (a, b) (np, ch) = Inr (np', ch') \<and> dict_ok np' \<and> dict_ok ch' \<and>
     (\<forall>c. dict_find np' c =
        (if c = b then Some ((case dict_find np b of None \<Rightarrow> 0 | Some n \<Rightarrow> n) + 1)
         else if c = a \<and> dict_find np a = None then Some 0 else dict_find np c)) \<and>
     (\<forall>p. dict_find ch' p =
        (if p = a then Some ((case dict_find ch a of None \<Rightarrow> [] | Some l \<Rightarrow> l) @ [b])
         else dict_find ch p))"
proof -
  define np1 where "np1 = (if \<not> dict_has np a then dict_set a 0 np else np)"
  define np2 where "np2 = (if \<not> dict_has np1 b then dict_set b 0 np1 else np1)"
  define n where "n = (case dict_find np b of None \<Rightarrow> 0 | Some n \<Rightarrow> n)"
  have ok1: "dict_ok np1"
    and f1: "dict_find np1 c = (if c = a \<and> dict_find np a = None then Some 0 else dict_find np c)" for c
    unfolding np1_def by (rule ensure_key [OF assms(1)])+
  have ok2: "dict_ok np2"
    and f2: "dict_find np2 c = (if c = b \<and> dict_find np1 b = None then Some 0 else dict_find np1 c)" for c
    unfolding np2_def by (rule ensure_key [OF ok1])+
  have n: "dict_find np2 b = Some n"
    unfolding f2 f1 n_def by (cases "dict_find np b") auto
  have "register_pair (a, b) (np, ch) = Inr (dict_set b (n + 1) np2,
      dict_set a ((case dict_find ch a of None \<Rightarrow> [] | Some l \<Rightarrow> l) @ [b]) ch)"
    unfolding register_pair_def prod.case Let_def np1_def [symmetric] np2_def [symmetric]
    using n by (simp add: dict_get_find)
  moreover have "dict_find (dict_set b (n + 1) np2) c =
        (if c = b then Some (n + 1)
         else if c = a \<and> dict_find np a = None then Some 0 else dict_find np c)" for c
    using ok2 by (simp add: dict_ops f2 f1)
  ultimately show ?thesis
    using assms(2) ok2 by (auto simp: dict_ops n_def)
qed

lemma register_pairs_spec:
  "\<exists>np ch. register_pairs pairs = Inr (np, ch) \<and> dict_ok np \<and> dict_ok ch \<and>
     (\<forall>c. dict_find np c = (if c \<in> nodes pairs then Some (int (indeg pairs {} c)) else None)) \<and>
     (\<forall>p. dict_find ch p = (if kids pairs p = [] then None else Some (kids pairs p)))"
proof (induction pairs rule: rev_induct)
  case Nil
  show ?case by (simp add: register_pairs_def nodes_def kids_def)
next
  case (snoc e pairs)
  obtain a b where e: "e = (a, b)" by (cases e)
  have nodes: "nodes (pairs @ [e]) = insert a (insert b (nodes pairs))"
    by (auto simp: nodes_def e)
  have deg: "indeg (pairs @ [e]) {} c = indeg pairs {} c + (if c = b then 1 else 0)" for c
    by (auto simp: indeg_def e)
  have fresh: "c \<notin> nodes pairs \<Longrightarrow> indeg pairs {} c = 0" for c
    by (auto simp: indeg_zero nodes_def image_iff)
  have kids: "kids (pairs @ [e]) p = kids pairs p @ (if p = a then [b] else [])" for p
    by (auto simp: kids_def e)
  from snoc.IH obtain np ch where IH: "register_pairs pairs = Inr (np, ch)" "dict_ok np" "dict_ok ch"
      "\<And>c. dict_find np c = (if c \<in> nodes pairs then Some (int (indeg pairs {} c)) else None)"
      "\<And>p. dict_find ch p = (if kids pairs p = [] then None else Some (kids pairs p))"
    by auto
  from register_pair_spec [OF IH(2,3), of a b] obtain np' ch' where
    step: "register_pair (a, b) (np, ch) = Inr (np', ch')" "dict_ok np'" "dict_ok ch'"
      "\<And>c. dict_find np' c =
        (if c = b then Some ((case dict_find np b of None \<Rightarrow> 0 | Some n \<Rightarrow> n) + 1)
         else if c = a \<and> dict_find np a = None then Some 0 else dict_find np c)"
      "\<And>p. dict_find ch' p =
        (if p = a then Some ((case dict_find ch a of None \<Rightarrow> [] | Some l \<Rightarrow> l) @ [b])
         else dict_find ch p)"
    by auto
  have "register_pairs (pairs @ [e]) = Inr (np', ch')"
    using IH(1) step(1) by (simp add: register_pairs_def res_fold_append e)
  moreover have "dict_find np' c =
      (if c \<in> nodes (pairs @ [e]) then Some (int (indeg (pairs @ [e]) {} c)) else None)" for c
    by (auto simp: step(4) IH(4) nodes deg fresh)
  moreover have "dict_find ch' p =
      (if kids (pairs @ [e]) p = [] then None else Some (kids (pairs @ [e]) p))" for p
    by (auto simp: step(5) IH(5) kids)
  ultimately show ?case using step(2,3) by blast
qed

subsection \<open>The main loop\<close>

lemma knock_down_spec:
  assumes "dict_ok np"
    and "\<And>c. c \<in> set cs \<Longrightarrow> \<exists>n. dict_find np c = Some n \<and> int (count_list cs c) \<le> n"
  shows "\<exists>np' new. knock_down cs np answer = Inr (np', answer @ new) \<and> dict_ok np' \<and> distinct new \<and>
     set new = {c \<in> set cs. dict_find np c = Some (int (count_list cs c))} \<and>
     (\<forall>c. dict_find np' c = map_option (\<lambda>n. n - int (count_list cs c)) (dict_find np c))"
  using assms
proof (induction cs arbitrary: np answer)
  case Nil
  then show ?case by (auto simp: option.map_ident)
next
  case (Cons c cs)
  from Cons.prems(2) [of c] obtain n where n: "dict_find np c = Some n" "int (count_list cs c) < n"
    by auto
  let ?np = "dict_set c (n - 1) np"
  let ?ans = "if n - 1 = 0 then answer @ [c] else answer"
  have ok: "dict_ok ?np" using Cons.prems(1) by (simp add: dict_ops)
  have pre: "\<exists>m. dict_find ?np d = Some m \<and> int (count_list cs d) \<le> m" if "d \<in> set cs" for d
    using Cons.prems that n by (auto simp: dict_ops) (metis list.set_intros(2))
  from Cons.IH [OF ok pre, of ?ans] obtain np' new where
    r: "knock_down cs ?np ?ans = Inr (np', ?ans @ new)" "dict_ok np'" "distinct new"
      "set new = {d \<in> set cs. dict_find ?np d = Some (int (count_list cs d))}"
      "\<And>d. dict_find np' d = map_option (\<lambda>n. n - int (count_list cs d)) (dict_find ?np d)"
    by auto
  let ?new = "(if n - 1 = 0 then [c] else []) @ new"
  have zero: "n - 1 = 0 \<Longrightarrow> c \<notin> set cs" using n(2) by (auto simp: count_list_0_iff)
  have "knock_down (c # cs) np answer = Inr (np', answer @ ?new)"
    using r(1) n(1) by (auto simp: dict_get_find)
  moreover have "distinct ?new" using r(3,4) zero by auto
  moreover have "set ?new = {d \<in> set (c # cs). dict_find np d = Some (int (count_list (c # cs) d))}"
    using n Cons.prems(1) zero by (auto simp: r(4) dict_ops count_list_0_iff split: if_splits)
  moreover have "dict_find np' d = map_option (\<lambda>n. n - int (count_list (c # cs) d)) (dict_find np d)" for d
    using n Cons.prems(1) by (auto simp: r(5) dict_ops)
  ultimately show ?case using r(2) by blast
qed

definition loop_inv :: "('a \<times> 'a) list \<Rightarrow> nat \<Rightarrow> 'a topsort_state \<Rightarrow> bool" where
  "loop_inv pairs i st \<longleftrightarrow>
     (case st of (answer, np, ch) \<Rightarrow>
        dict_ok np \<and> dict_ok ch \<and> i \<le> length answer \<and> distinct answer \<and> set answer \<subseteq> nodes pairs \<and>
        (\<forall>c. dict_find np c = (if c \<in> nodes pairs - set (take i answer)
            then Some (int (indeg pairs (set (take i answer)) c)) else None)) \<and>
        (\<forall>p. dict_find ch p = (if p \<in> set (take i answer) \<or> kids pairs p = []
            then None else Some (kids pairs p))) \<and>
        (\<forall>c\<in>nodes pairs. indeg pairs (set (take i answer)) c = 0 \<longleftrightarrow> c \<in> set answer) \<and>
        (\<forall>j<length answer. \<forall>e\<in>set pairs. snd e = answer ! j \<longrightarrow> fst e \<in> set (take j answer)))"

lemma take_Suc_insert: "i < length xs \<Longrightarrow> set (take (Suc i) xs) = insert (xs ! i) (set (take i xs))"
  by (simp add: take_Suc_conv_app_nth)

lemma visit_parent_inv:
  assumes inv: "loop_inv pairs i (answer, np, ch)" and i: "i < length answer"
  shows "\<exists>st'. visit_parent (answer ! i) (answer, np, ch) = Inr st' \<and> loop_inv pairs (Suc i) st'"
proof -
  let ?D = "set (take i answer)" and ?p = "answer ! i"
  let ?D' = "insert ?p ?D" and ?ks = "kids pairs ?p"
  note facts = inv [unfolded loop_inv_def prod.case]
  have oks: "dict_ok np" "dict_ok ch" and dist: "distinct answer" and sub: "set answer \<subseteq> nodes pairs"
    and fnp: "\<And>c. dict_find np c = (if c \<in> nodes pairs - ?D then Some (int (indeg pairs ?D c)) else None)"
    and fch: "\<And>p. dict_find ch p = (if p \<in> ?D \<or> kids pairs p = [] then None else Some (kids pairs p))"
    and deg: "\<And>c. c \<in> nodes pairs \<Longrightarrow> indeg pairs ?D c = 0 \<longleftrightarrow> c \<in> set answer"
    and ord: "\<And>j e. j < length answer \<Longrightarrow> e \<in> set pairs \<Longrightarrow> snd e = answer ! j \<Longrightarrow> fst e \<in> set (take j answer)"
    using facts by auto
  have p_new: "?p \<notin> ?D" using dist i by (auto simp: in_set_conv_nth nth_eq_iff_index_eq)
  have p_node: "?p \<in> nodes pairs" using sub i by auto
  have D_ans: "?D \<subseteq> set answer" by (rule set_take_subset)
  have split: "indeg pairs ?D c = indeg pairs ?D' c + count_list ?ks c" for c
    using p_new by (rule indeg_insert)
  have kid_open: "c \<notin> set answer \<and> c \<in> nodes pairs" if "c \<in> set ?ks" for c
  proof -
    have "0 < count_list ?ks c" using that by (metis count_list_0_iff neq0_conv)
    then have "indeg pairs ?D c \<noteq> 0" using split [of c] by linarith
    moreover have "c \<in> nodes pairs" using that set_kids_nodes by fastforce
    ultimately show ?thesis using deg [of c] by simp
  qed
  let ?np1 = "dict_rem ?p np"
  have ok1: "dict_ok ?np1" using oks by (simp add: dict_ops)
  have f1: "dict_find ?np1 c = (if c \<in> nodes pairs - ?D' then Some (int (indeg pairs ?D c)) else None)" for c
    using oks by (auto simp: dict_ops fnp)
  have del: "dict_del ?p np = Inr ?np1" using p_new p_node by (simp add: dict_del_Inr fnp)
  have pre: "\<exists>n. dict_find ?np1 c = Some n \<and> int (count_list ?ks c) \<le> n" if "c \<in> set ?ks" for c
    using kid_open [OF that] D_ans i by (auto simp: f1 split [of c])
  from knock_down_spec [OF ok1 pre, of answer] obtain np' new where
    kd: "knock_down ?ks ?np1 answer = Inr (np', answer @ new)" "dict_ok np'" "distinct new"
      "set new = {c \<in> set ?ks. dict_find ?np1 c = Some (int (count_list ?ks c))}"
      "\<And>c. dict_find np' c = map_option (\<lambda>n. n - int (count_list ?ks c)) (dict_find ?np1 c)"
    by blast
  have new: "c \<in> set new \<longleftrightarrow> c \<in> set ?ks \<and> indeg pairs ?D' c = 0" for c
    using kid_open [of c] D_ans i by (auto simp: kd(4) f1 split [of c])
  let ?ch' = "dict_rem ?p ch"
  have visit: "visit_parent ?p (answer, np, ch) = Inr (answer @ new, np', ?ch')"
  proof (cases "?ks = []")
    case True
    then have "new = [] \<and> np' = ?np1" using kd(1) by simp
    moreover have "?ch' = ch" using True fch [of ?p]
      by (simp add: dict_rem_def dict_find_def map_of_eq_None_iff delete_id)
    ultimately show ?thesis using True by (simp add: visit_parent_def del fch)
  next
    case False
    then have "dict_find ch ?p = Some ?ks" and "dict_del ?p ch = Inr ?ch'"
      using p_new by (simp_all add: fch dict_del_Inr)
    with kd(1) show ?thesis by (simp add: visit_parent_def del)
  qed
  have tk: "take (Suc i) (answer @ new) = take (Suc i) answer" using i by simp
  have D': "set (take (Suc i) (answer @ new)) = ?D'" using i by (simp add: tk take_Suc_insert)
  have "loop_inv pairs (Suc i) (answer @ new, np', ?ch')"
    unfolding loop_inv_def prod.case D'
  proof (intro conjI allI ballI impI)
    show "distinct (answer @ new)" using dist kd(3) new kid_open by auto
    show "set (answer @ new) \<subseteq> nodes pairs" using sub new kid_open by auto
    show "dict_find np' c = (if c \<in> nodes pairs - ?D' then Some (int (indeg pairs ?D' c)) else None)" for c
      by (simp add: kd(5) f1 split [of c])
    show "dict_find ?ch' p = (if p \<in> ?D' \<or> kids pairs p = [] then None else Some (kids pairs p))" for p
      using oks by (auto simp: dict_ops fch)
    show "indeg pairs ?D' c = 0 \<longleftrightarrow> c \<in> set (answer @ new)" if "c \<in> nodes pairs" for c
      using deg [OF that] split [of c] new [of c] by (auto simp: count_list_0_iff)
  next
    fix j e assume j: "j < length (answer @ new)" and e: "e \<in> set pairs" "snd e = (answer @ new) ! j"
    show "fst e \<in> set (take j (answer @ new))"
    proof (cases "j < length answer")
      case True
      with ord [OF _ e(1)] e(2) show ?thesis by (simp add: nth_append)
    next
      case False
      then have "snd e \<in> set new" using j e(2) by (auto simp: nth_append)
      then have "fst e \<in> ?D'" using new e(1) by (auto simp: indeg_zero)
      then have "fst e \<in> set answer" using i D_ans by auto
      with False show ?thesis by auto
    qed
  qed (use i kd(2) oks in \<open>simp_all add: dict_ops\<close>)
  with visit show ?thesis by blast
qed

lemma topsort_loop_inv:
  "loop_inv pairs i st \<Longrightarrow>
   \<exists>st'. topsort_loop i st = Inr st' \<and> loop_inv pairs (length (fst st')) st'"
proof (induction i st rule: topsort_loop.induct)
  case (1 i st)
  obtain answer np ch where st: "st = (answer, np, ch)" by (cases st)
  show ?case
  proof (cases "i < length answer")
    case True
    from visit_parent_inv [OF "1.prems" [unfolded st] True] obtain st' where
      v: "visit_parent (answer ! i) (answer, np, ch) = Inr st'" "loop_inv pairs (Suc i) st'" by blast
    with "1.IH" [of st'] True show ?thesis by (auto simp: st topsort_loop.simps [of i])
  next
    case False
    then have "i = length answer" using "1.prems" by (simp add: st loop_inv_def)
    with "1.prems" show ?thesis by (simp add: st topsort_loop.simps [of "length answer"])
  qed
qed

subsection \<open>Acyclicity\<close>

lemma closed_set_not_acyclic:
  assumes "finite E" and "R \<noteq> {}" and "\<And>c. c \<in> R \<Longrightarrow> \<exists>p\<in>R. (p, c) \<in> E"
  shows "\<not> acyclic E"
proof
  assume "acyclic E"
  with assms(1) have "wf E" by (rule finite_acyclic_wf)
  then obtain z where "z \<in> R" and "\<And>y. (y, z) \<in> E \<Longrightarrow> y \<notin> R"
    using assms(2) by (metis ex_in_conv wfE_min)
  with assms(3) show False by blast
qed

lemma topological_order_acyclic:
  assumes "topological_order pairs ans"
  shows "acyclic (set pairs)"
proof -
  define pos where "pos x = (THE j. j < length ans \<and> ans ! j = x)" for x
  have dist: "distinct ans" using assms by (simp add: topological_order_def)
  have pos: "pos (ans ! j) = j" if "j < length ans" for j
    unfolding pos_def using that dist by (auto simp: nth_eq_iff_index_eq intro!: the_equality)
  have "set pairs \<subseteq> measure pos"
  proof
    fix e assume e: "e \<in> set pairs"
    then have "snd e \<in> set ans" using assms by (auto simp: topological_order_def nodes_def)
    then obtain j where j: "j < length ans" "snd e = ans ! j" by (auto simp: in_set_conv_nth)
    then have "fst e \<in> set (take j ans)" using assms e by (auto simp: topological_order_def)
    then obtain k where "k < j" "fst e = ans ! k" using j(1) by (auto simp: in_set_conv_nth)
    then show "e \<in> measure pos" using j pos by (cases e) simp
  qed
  then show ?thesis using acyclic_subset wf_acyclic wf_measure by blast
qed

subsection \<open>Correctness of \<open>topsort\<close>\<close>

lemma loop_inv_final:
  assumes "loop_inv pairs (length answer) (answer, np, ch)"
  shows "np = [] \<Longrightarrow> topological_order pairs answer"
    and "set (map fst np) = nodes pairs - set answer"
    and "c \<in> nodes pairs - set answer \<Longrightarrow> \<exists>p\<in>nodes pairs - set answer. (p, c) \<in> set pairs"
proof -
  have fnp: "dict_find np c = (if c \<in> nodes pairs - set answer
      then Some (int (indeg pairs (set answer) c)) else None)" for c
    using assms by (simp add: loop_inv_def)
  show left: "set (map fst np) = nodes pairs - set answer"
    by (rule set_eqI) (simp add: keys_dict_find fnp del: set_map)
  show "topological_order pairs answer" if "np = []"
    using assms left that by (auto simp: loop_inv_def topological_order_def)
  assume "c \<in> nodes pairs - set answer"
  then have "indeg pairs (set answer) c \<noteq> 0" using assms by (auto simp: loop_inv_def)
  then obtain e where "e \<in> set pairs" "snd e = c" "fst e \<notin> set answer" by (auto simp: indeg_zero)
  then show "\<exists>p\<in>nodes pairs - set answer. (p, c) \<in> set pairs"
    by (intro bexI [of _ "fst e"]) (auto simp: nodes_def)
qed

lemma topsort_run:
  assumes "permutes_keys key_order"
  obtains answer np ch where "loop_inv pairs (length answer) (answer, np, ch)"
    and "topsort key_order pairs =
      (if np \<noteq> [] then Inl (CycleError answer np ch) else Inr answer)"
proof -
  obtain np ch where reg: "register_pairs pairs = Inr (np, ch)" "dict_ok np" "dict_ok ch"
      "\<And>c. dict_find np c = (if c \<in> nodes pairs then Some (int (indeg pairs {} c)) else None)"
      "\<And>p. dict_find ch p = (if kids pairs p = [] then None else Some (kids pairs p))"
    using register_pairs_spec [of pairs] by auto
  define ans where "ans = filter (\<lambda>x. dict_find np x = Some 0) (key_order (map fst np))"
  have keys: "set (map fst np) = nodes pairs"
    by (rule set_eqI) (simp add: keys_dict_find reg(4) del: set_map)
  have set_ans: "set ans = {c \<in> nodes pairs. indeg pairs {} c = 0}"
    unfolding ans_def set_filter permutes_keys_set [OF assms] keys by (auto simp: reg(4))
  have "distinct ans"
    using reg(2) by (simp add: ans_def permutes_keys_distinct [OF assms] dict_ok_def)
  moreover have "snd e \<noteq> ans ! j" if "j < length ans" "e \<in> set pairs" for j e
  proof
    assume "snd e = ans ! j"
    then have "snd e \<in> set ans" using that by simp
    with that(2) show False unfolding set_ans by (auto simp: indeg_zero)
  qed
  ultimately have "loop_inv pairs 0 (ans, np, ch)"
    unfolding loop_inv_def using reg(2-5) set_ans by auto
  from topsort_loop_inv [OF this] obtain answer np' ch' where
    "topsort_loop 0 (ans, np, ch) = Inr (answer, np', ch')"
    "loop_inv pairs (length answer) (answer, np', ch')" by auto
  then show ?thesis using reg(1)
    by (intro that [of answer np' ch']) (simp_all add: topsort_def ans_def)
qed

lemma topsort_orders:
  assumes "permutes_keys key_order" and "acyclic (set pairs)"
  shows "\<exists>ans. topsort key_order pairs = Inr ans \<and> topological_order pairs ans"
proof -
  obtain answer np ch where run: "loop_inv pairs (length answer) (answer, np, ch)"
    "topsort key_order pairs = (if np \<noteq> [] then Inl (CycleError answer np ch) else Inr answer)"
    using topsort_run [OF assms(1)] .
  note fin = loop_inv_final [OF run(1)]
  have "nodes pairs - set answer = {}"
    using closed_set_not_acyclic [of "set pairs" "nodes pairs - set answer"] fin(3) assms(2) by auto
  then have "np = []" using fin(2) by (metis list.map_disc_iff set_empty)
  with run(2) fin(1) show ?thesis by simp
qed

text \<open>
  C1. On the pairs of an acyclic dependency graph \<open>topsort\<close> returns, whatever the
  iteration order of the dictionary, and its answer lists every node exactly once,
  each node after all of its parents.
\<close>

theorem topsort_sound:
  assumes "permutes_keys key_order" and "acyclic (set pairs)"
  shows "\<exists>ans. topsort key_order pairs = Inr ans \<and> topological_order pairs ans"
  using assms by (rule topsort_orders)

theorem topsort_sound_witness:
  "\<exists>ans. topsort rev [(1::int, 2), (1, 3), (2, 3)] = Inr ans \<and>
     topological_order [(1, 2), (1, 3), (2, 3)] ans"
proof (rule topsort_sound [OF permutes_keys_rev])
  have "set [(1::int, 2), (1, 3), (2, 3)] \<subseteq> measure nat" by simp
  then show "acyclic (set [(1::int, 2), (1, 3), (2, 3)])"
    using acyclic_subset wf_acyclic wf_measure by blast
qed

text \<open>
  C2. On a cyclic dependency graph \<open>topsort\<close> raises \<open>CycleError\<close> (never a
  \<open>KeyError\<close>); the nodes it reports are those it did not emit, there is one, and each
  of them still has a parent among them.
\<close>

theorem topsort_cycle_error:
  assumes "permutes_keys key_order" and "\<not> acyclic (set pairs)"
  shows "\<exists>answer np ch. topsort key_order pairs = Inl (CycleError answer np ch) \<and> np \<noteq> [] \<and>
     set (map fst np) = nodes pairs - set answer \<and>
     (\<forall>c\<in>set (map fst np). \<exists>p\<in>set (map fst np). (p, c) \<in> set pairs)"
proof -
  obtain answer np ch where run: "loop_inv pairs (length answer) (answer, np, ch)"
    "topsort key_order pairs = (if np \<noteq> [] then Inl (CycleError answer np ch) else Inr answer)"
    using topsort_run [OF assms(1)] .
  note fin = loop_inv_final [OF run(1)]
  have "np \<noteq> []" using fin(1) topological_order_acyclic assms(2) by blast
  with run(2) have "topsort key_order pairs = Inl (CycleError answer np ch)" by simp
  moreover have "\<forall>c\<in>set (map fst np). \<exists>p\<in>set (map fst np). (p, c) \<in> set pairs"
    unfolding fin(2) using fin(3) by blast
  ultimately show ?thesis using \<open>np \<noteq> []\<close> fin(2) by blast
qed

theorem topsort_cycle_error_witness:
  "\<exists>answer np ch. topsort rev [(1::int, 2), (2, 3), (3, 2)] = Inl (CycleError answer np ch) \<and> np \<noteq> [] \<and>
     set (map fst np) = nodes [(1, 2), (2, 3), (3, 2)] - set answer \<and>
     (\<forall>c\<in>set (map fst np). \<exists>p\<in>set (map fst np). (p, c) \<in> set [(1, 2), (2, 3), (3, 2)])"
proof (rule topsort_cycle_error [OF permutes_keys_rev])
  have "(2::int, 2) \<in> (set [(1, 2), (2, 3), (3, 2)])\<^sup>+"
    by (rule trancl_trans [of _ 3]) (auto intro: r_into_trancl)
  then show "\<not> acyclic (set [(1::int, 2), (2, 3), (3, 2)])" by (auto simp: acyclic_def)
qed

subsection \<open>Correctness of \<open>topsort_levels\<close>\<close>

definition level_inv :: "('a \<times> 'a) list \<Rightarrow> 'a set \<Rightarrow> 'a num_parents \<times> 'a children \<Rightarrow> bool" where
  "level_inv pairs D st \<longleftrightarrow>
     (case st of (np, ch) \<Rightarrow>
        dict_ok np \<and> dict_ok ch \<and>
        (\<forall>c. dict_find np c = (if c \<in> nodes pairs - D then Some (int (indeg pairs D c)) else None)) \<and>
        (\<forall>p. dict_find ch p = (if p \<in> D \<or> kids pairs p = [] then None else Some (kids pairs p))))"

lemma level_inv_init: "\<exists>st. register_pairs pairs = Inr st \<and> level_inv pairs {} st"
  using register_pairs_spec [of pairs] by (auto simp: level_inv_def)

lemma decrement_children:
  assumes "dict_ok np" and "\<And>c. c \<in> set cs \<Longrightarrow> dict_find np c \<noteq> None"
  shows "\<exists>np'. res_fold decrement_child cs np = Inr np' \<and> dict_ok np' \<and>
     (\<forall>c. dict_find np' c = map_option (\<lambda>n. n - int (count_list cs c)) (dict_find np c))"
  using assms
proof (induction cs arbitrary: np)
  case Nil
  then show ?case by (simp add: option.map_ident)
next
  case (Cons c cs)
  obtain n where n: "dict_find np c = Some n" using Cons.prems(2) [of c] by auto
  let ?np = "dict_set c (n - 1) np"
  have ok: "dict_ok ?np" using Cons.prems(1) by (simp add: dict_ops)
  have "dict_find ?np d \<noteq> None" if "d \<in> set cs" for d
    using Cons.prems that by (auto simp: dict_ops)
  from Cons.IH [OF ok this] obtain np' where r: "res_fold decrement_child cs ?np = Inr np'" "dict_ok np'"
    "\<And>d. dict_find np' d = map_option (\<lambda>n. n - int (count_list cs d)) (dict_find ?np d)" by blast
  have "decrement_child c np = Inr ?np" using n by (simp add: decrement_child_def dict_get_find)
  moreover have "dict_find np' d = map_option (\<lambda>n. n - int (count_list (c # cs) d)) (dict_find np d)" for d
    using n Cons.prems(1) by (simp add: r(3) dict_ops)
  ultimately show ?case using r(1,2) by auto
qed

lemma remove_level_parent_inv:
  assumes "level_inv pairs D (np, ch)" and "p \<in> nodes pairs - D"
    and "\<And>c. c \<in> set (kids pairs p) \<Longrightarrow> c \<notin> insert p D"
  shows "\<exists>st. remove_level_parent p (np, ch) = Inr st \<and> level_inv pairs (insert p D) st"
proof -
  let ?np1 = "dict_rem p np" and ?ch' = "dict_rem p ch" and ?ks = "kids pairs p"
  have oks: "dict_ok np" "dict_ok ch"
    and fnp: "\<And>c. dict_find np c = (if c \<in> nodes pairs - D then Some (int (indeg pairs D c)) else None)"
    and fch: "\<And>p. dict_find ch p = (if p \<in> D \<or> kids pairs p = [] then None else Some (kids pairs p))"
    using assms(1) by (auto simp: level_inv_def)
  have split: "indeg pairs D c = indeg pairs (insert p D) c + count_list ?ks c" for c
    using assms(2) by (intro indeg_insert) simp
  have f1: "dict_find ?np1 c = (if c \<in> nodes pairs - insert p D then Some (int (indeg pairs D c)) else None)" for c
    using oks by (auto simp: dict_ops fnp)
  have pre: "dict_find ?np1 c \<noteq> None" if "c \<in> set ?ks" for c
    using assms(3) [OF that] that set_kids_nodes by (fastforce simp: f1)
  have "dict_ok ?np1" using oks by (simp add: dict_ops)
  from decrement_children [OF this pre] obtain np' where
    kd: "res_fold decrement_child ?ks ?np1 = Inr np'" "dict_ok np'"
      "\<And>c. dict_find np' c = map_option (\<lambda>n. n - int (count_list ?ks c)) (dict_find ?np1 c)" by blast
  have del: "dict_del p np = Inr ?np1" using assms(2) by (simp add: dict_del_Inr fnp)
  have "remove_level_parent p (np, ch) = Inr (np', ?ch')"
  proof (cases "?ks = []")
    case True
    have "?ch' = ch" using True fch [of p]
      by (simp add: dict_rem_def dict_find_def map_of_eq_None_iff delete_id)
    with True kd(1) show ?thesis by (simp add: remove_level_parent_def del fch)
  next
    case False
    then have "dict_find ch p = Some ?ks" and "dict_del p ch = Inr ?ch'"
      using assms(2) by (simp_all add: fch dict_del_Inr)
    with kd(1) show ?thesis by (simp add: remove_level_parent_def del)
  qed
  moreover have "level_inv pairs (insert p D) (np', ?ch')"
    using kd(2) oks by (auto simp: level_inv_def kd(3) f1 split dict_ops fch)
  ultimately show ?thesis by blast
qed

definition frontier :: "('a \<times> 'a) list \<Rightarrow> 'a set \<Rightarrow> 'a set" where
  "frontier pairs D = {c \<in> nodes pairs - D. indeg pairs D c = 0}"

definition parents_closed :: "('a \<times> 'a) list \<Rightarrow> 'a set \<Rightarrow> bool" where
  "parents_closed pairs D \<longleftrightarrow> (\<forall>e\<in>set pairs. snd e \<in> D \<longrightarrow> fst e \<in> D)"

lemma remove_level_inv:
  assumes "level_inv pairs D st" and "distinct ps" and "set ps \<subseteq> frontier pairs D0"
    and "D0 \<subseteq> D" and "D \<inter> set ps = {}" and "D \<subseteq> D0 \<union> frontier pairs D0" and "parents_closed pairs D0"
  shows "\<exists>st'. res_fold remove_level_parent ps st = Inr st' \<and> level_inv pairs (D \<union> set ps) st'"
  using assms
proof (induction ps arbitrary: st D)
  case Nil
  then show ?case by simp
next
  case (Cons p ps)
  obtain np ch where st: "st = (np, ch)" by (cases st)
  have kid: "c \<notin> insert p D" if "c \<in> set (kids pairs p)" for c
  proof -
    have e: "(p, c) \<in> set pairs" using that by (simp add: set_kids)
    have "p \<notin> D0" using Cons.prems(3) by (auto simp: frontier_def)
    with e have "c \<notin> D0" and "c \<notin> frontier pairs D0"
      using Cons.prems(7) by (force simp: parents_closed_def frontier_def indeg_zero)+
    then show ?thesis using Cons.prems(3,6) by auto
  qed
  have "p \<in> nodes pairs - D" using Cons.prems(3,5) by (auto simp: frontier_def)
  with Cons.prems(1) kid obtain st1 where
    st1: "remove_level_parent p st = Inr st1" "level_inv pairs (insert p D) st1"
    using remove_level_parent_inv [of pairs D np ch p] unfolding st by blast
  have "\<exists>st'. res_fold remove_level_parent ps st1 = Inr st' \<and> level_inv pairs (insert p D \<union> set ps) st'"
    by (rule Cons.IH [OF st1(2)]) (use Cons.prems in auto)
  with st1(1) show ?case by simp
qed

text \<open>The levels that follow a set \<open>D\<close> of nodes already emitted.\<close>

fun level_run :: "('a \<times> 'a) list \<Rightarrow> 'a set \<Rightarrow> 'a list list \<Rightarrow> bool" where
  "level_run pairs D [] = True"
| "level_run pairs D (l # ls) =
     (l \<noteq> [] \<and> distinct l \<and> set l = frontier pairs D \<and> level_run pairs (D \<union> set l) ls)"

lemma topsort_levels_core_run:
  assumes "permutes_keys key_order" and "level_inv pairs D st" and "parents_closed pairs D"
  shows "\<exists>ls np ch. topsort_levels_core key_order st =
        (ls, if np \<noteq> [] then Some (LevelsCycleError np ch) else None) \<and>
      level_run pairs D ls \<and> frontier pairs (D \<union> set (concat ls)) = {} \<and>
      set (map fst np) = nodes pairs - (D \<union> set (concat ls))"
  using assms
proof (induction key_order st arbitrary: D rule: topsort_levels_core.induct)
  case (1 key_order st)
  obtain np ch where st: "st = (np, ch)" by (cases st)
  have ok: "dict_ok np"
    and fnp: "\<And>c. dict_find np c = (if c \<in> nodes pairs - D then Some (int (indeg pairs D c)) else None)"
    using "1.prems"(2) by (auto simp: level_inv_def st)
  have keys: "set (map fst np) = nodes pairs - D"
    by (rule set_eqI) (simp add: keys_dict_find fnp del: set_map)
  define lp where "lp = filter (\<lambda>x. dict_find np x = Some 0) (key_order (map fst np))"
  have lp: "set lp = frontier pairs D" "distinct lp"
    unfolding lp_def set_filter permutes_keys_set [OF "1.prems"(1)] keys
    using ok by (auto simp: fnp frontier_def permutes_keys_distinct [OF "1.prems"(1)] dict_ok_def)
  note unf = topsort_levels_core.simps [of key_order st, unfolded st fst_conv snd_conv, folded lp_def]
  show ?case
  proof (cases "lp = []")
    case True
    then show ?thesis using lp(1) keys by (auto simp: st unf)
  next
    case False
    have "\<exists>st'. res_fold remove_level_parent lp st = Inr st' \<and> level_inv pairs (D \<union> set lp) st'"
      by (rule remove_level_inv [OF "1.prems"(2) lp(2), of D])
        (use lp(1) "1.prems"(3) in \<open>auto simp: frontier_def\<close>)
    then obtain st' where st': "res_fold remove_level_parent lp st = Inr st'"
      "level_inv pairs (D \<union> set lp) st'" by blast
    have "parents_closed pairs (D \<union> set lp)"
      using "1.prems"(3) lp(1) by (auto simp: parents_closed_def frontier_def indeg_zero)
    from "1.IH" [OF _ _ st'(1) "1.prems"(1) st'(2) this] False obtain ls np' ch' where
      "topsort_levels_core key_order st' = (ls, if np' \<noteq> [] then Some (LevelsCycleError np' ch') else None)"
      "level_run pairs (D \<union> set lp) ls" "frontier pairs (D \<union> set lp \<union> set (concat ls)) = {}"
      "set (map fst np') = nodes pairs - (D \<union> set lp \<union> set (concat ls))"
      by (auto simp: st lp_def)
    then show ?thesis using False lp st'(1)
      by (intro exI [of _ "lp # ls"] exI [of _ np'] exI [of _ ch']) (simp add: st unf Un_assoc)
  qed
qed

lemma level_run_distinct:
  "level_run pairs D ls \<Longrightarrow> distinct (concat ls) \<and> set (concat ls) \<subseteq> nodes pairs - D"
proof (induction pairs D ls rule: level_run.induct)
  case (2 pairs D l ls)
  have "set l = frontier pairs D" using "2.prems" by simp
  also have "\<dots> \<subseteq> nodes pairs - D" unfolding frontier_def by blast
  finally have l: "set l \<subseteq> nodes pairs - D" .
  have rest: "distinct (concat ls) \<and> set (concat ls) \<subseteq> nodes pairs - (D \<union> set l)"
    using "2.IH" "2.prems" unfolding level_run.simps by blast
  have "distinct l" using "2.prems" by simp
  then have "distinct (l @ concat ls)" using rest unfolding distinct_append by blast
  moreover have "set (l @ concat ls) \<subseteq> nodes pairs - D" unfolding set_append using l rest by blast
  ultimately show ?case by simp
qed simp

lemma level_run_nth:
  "level_run pairs D ls \<Longrightarrow> k < length ls \<Longrightarrow>
     ls ! k \<noteq> [] \<and> set (ls ! k) = frontier pairs (D \<union> set (concat (take k ls)))"
proof (induction pairs D ls arbitrary: k rule: level_run.induct)
  case (2 pairs D l ls)
  then show ?case by (cases k) (auto simp: Un_assoc)
qed simp

text \<open>A node of level \<open>k > 0\<close> has a parent in level \<open>k - 1\<close>: its depth is exactly \<open>k\<close>.\<close>

lemma level_run_depth:
  assumes "level_run pairs {} ls" and "Suc k < length ls" and "c \<in> set (ls ! Suc k)"
  shows "\<exists>p\<in>set (ls ! k). (p, c) \<in> set pairs"
proof -
  let ?U = "set (concat (take k ls))"
  have k: "set (ls ! k) = frontier pairs ?U" using level_run_nth [OF assms(1), of k] assms(2) by simp
  have Suc: "set (concat (take (Suc k) ls)) = ?U \<union> set (ls ! k)"
    using assms(2) by (simp add: take_Suc_conv_app_nth)
  have c: "c \<in> frontier pairs (?U \<union> set (ls ! k))"
    using level_run_nth [OF assms(1,2)] assms(3) unfolding Suc by simp
  then have "c \<notin> frontier pairs ?U" and "c \<in> nodes pairs - ?U" using k by (auto simp: frontier_def)
  then obtain e where e: "e \<in> set pairs" "snd e = c" "fst e \<notin> ?U" by (auto simp: frontier_def indeg_zero)
  moreover have "fst e \<in> ?U \<union> set (ls ! k)" using c e(1,2) by (auto simp: frontier_def indeg_zero)
  ultimately show ?thesis by (intro bexI [of _ "fst e"]) auto
qed

lemma topsort_levels_run:
  assumes "permutes_keys key_order"
  shows "\<exists>ls np ch. topsort_levels key_order pairs =
        (ls, if np \<noteq> [] then Some (LevelsCycleError np ch) else None) \<and>
      level_run pairs {} ls \<and> frontier pairs (set (concat ls)) = {} \<and>
      set (map fst np) = nodes pairs - set (concat ls)"
proof -
  obtain st where "register_pairs pairs = Inr st" "level_inv pairs {} st"
    using level_inv_init [of pairs] by blast
  with topsort_levels_core_run [OF assms, of pairs "{}" st] show ?thesis
    by (simp add: topsort_levels_def parents_closed_def)
qed

lemma frontier_empty_rest:
  assumes "frontier pairs D = {}" and "c \<in> nodes pairs - D"
  shows "\<exists>p\<in>nodes pairs - D. (p, c) \<in> set pairs"
proof -
  from assms obtain e where "e \<in> set pairs" "snd e = c" "fst e \<notin> D"
    by (auto simp: frontier_def indeg_zero)
  then show ?thesis by (intro bexI [of _ "fst e"]) (auto simp: nodes_def)
qed

lemma level_run_acyclic:
  assumes "level_run pairs {} ls" and "nodes pairs \<subseteq> set (concat ls)"
  shows "acyclic (set pairs)"
proof -
  define lev where "lev x = (LEAST k. k < length ls \<and> x \<in> set (ls ! k))" for x
  have lev: "lev x < length ls \<and> x \<in> set (ls ! lev x)" if "x \<in> set (concat ls)" for x
  proof -
    from that obtain k where "k < length ls \<and> x \<in> set (ls ! k)" unfolding in_concat_nth by blast
    then show ?thesis unfolding lev_def by (rule LeastI)
  qed
  have "set pairs \<subseteq> measure lev"
  proof
    fix e assume e: "e \<in> set pairs"
    then have "snd e \<in> set (concat ls)" using assms(2) by (auto simp: nodes_def)
    with lev have k: "lev (snd e) < length ls" "snd e \<in> set (ls ! lev (snd e))" by auto
    with level_run_nth [OF assms(1)] have "snd e \<in> frontier pairs (set (concat (take (lev (snd e)) ls)))"
      by simp
    then have "fst e \<in> set (concat (take (lev (snd e)) ls))" using e by (auto simp: frontier_def indeg_zero)
    then obtain j where j: "j < lev (snd e)" "fst e \<in> set (ls ! j)"
      unfolding in_concat_nth by auto
    then have "lev (fst e) \<le> j" using k(1) unfolding lev_def by (intro Least_le) simp
    with j(1) show "e \<in> measure lev" by (cases e) simp
  qed
  then show ?thesis using acyclic_subset wf_acyclic wf_measure by blast
qed

text \<open>
  C3. On an acyclic graph \<open>topsort_levels\<close> yields non-empty levels and stops
  normally; together the levels list every node once, every parent of a node is in an
  earlier level, and a node that is not in the first level has a parent in the level
  just before its own: level \<open>k\<close> is exactly the nodes of depth \<open>k\<close>.
\<close>

theorem topsort_levels_sound:
  assumes "permutes_keys key_order" and "acyclic (set pairs)"
  shows "\<exists>ls. topsort_levels key_order pairs = (ls, None) \<and>
      distinct (concat ls) \<and> set (concat ls) = nodes pairs \<and>
      (\<forall>k<length ls. ls ! k \<noteq> [] \<and>
         (\<forall>e\<in>set pairs. snd e \<in> set (ls ! k) \<longrightarrow> fst e \<in> set (concat (take k ls))) \<and>
         (0 < k \<longrightarrow> (\<forall>c\<in>set (ls ! k). \<exists>p\<in>set (ls ! (k - 1)). (p, c) \<in> set pairs)))"
proof -
  obtain ls np ch where run: "topsort_levels key_order pairs =
        (ls, if np \<noteq> [] then Some (LevelsCycleError np ch) else None)"
      "level_run pairs {} ls" "frontier pairs (set (concat ls)) = {}"
      "set (map fst np) = nodes pairs - set (concat ls)"
    using topsort_levels_run [OF assms(1)] by blast
  have "nodes pairs - set (concat ls) = {}"
    using closed_set_not_acyclic [of "set pairs" "nodes pairs - set (concat ls)"]
      frontier_empty_rest [OF run(3)] assms(2) by auto
  then have all: "nodes pairs \<subseteq> set (concat ls)" and "set (map fst np) = {}" using run(4) by auto
  then have "np = []" by simp
  have "\<forall>k<length ls. ls ! k \<noteq> [] \<and>
      (\<forall>e\<in>set pairs. snd e \<in> set (ls ! k) \<longrightarrow> fst e \<in> set (concat (take k ls)))"
    using level_run_nth [OF run(2)] by (auto simp: frontier_def indeg_zero)
  moreover have "\<exists>p\<in>set (ls ! (k - 1)). (p, c) \<in> set pairs"
    if "k < length ls" "0 < k" "c \<in> set (ls ! k)" for k c
    using level_run_depth [OF run(2), of "k - 1" c] that by simp
  ultimately show ?thesis
    using run(1) level_run_distinct [OF run(2)] all \<open>np = []\<close> by (intro exI [of _ ls]) auto
qed

theorem topsort_levels_sound_witness:
  "\<exists>ls. topsort_levels rev [(1::int, 2), (1, 3), (2, 3)] = (ls, None) \<and>
      distinct (concat ls) \<and> set (concat ls) = nodes [(1, 2), (1, 3), (2, 3)] \<and>
      (\<forall>k<length ls. ls ! k \<noteq> [] \<and>
         (\<forall>e\<in>set [(1, 2), (1, 3), (2, 3)]. snd e \<in> set (ls ! k) \<longrightarrow> fst e \<in> set (concat (take k ls))) \<and>
         (0 < k \<longrightarrow> (\<forall>c\<in>set (ls ! k). \<exists>p\<in>set (ls ! (k - 1)). (p, c) \<in> set [(1, 2), (1, 3), (2, 3)])))"
proof (rule topsort_levels_sound [OF permutes_keys_rev])
  have "set [(1::int, 2), (1, 3), (2, 3)] \<subseteq> measure nat" by simp
  then show "acyclic (set [(1::int, 2), (1, 3), (2, 3)])"
    using acyclic_subset wf_acyclic wf_measure by blast
qed

text \<open>
  On a cyclic graph \<open>topsort_levels\<close> ends with \<open>CycleError\<close>; the dictionary it
  carries has exactly the nodes of no level as keys, and each of them has a parent
  among them.
\<close>

theorem topsort_levels_cycle_error:
  assumes "permutes_keys key_order" and "\<not> acyclic (set pairs)"
  shows "\<exists>ls np ch. topsort_levels key_order pairs = (ls, Some (LevelsCycleError np ch)) \<and>
      set (map fst np) = nodes pairs - set (concat ls) \<and> np \<noteq> [] \<and>
      (\<forall>c\<in>set (map fst np). \<exists>p\<in>set (map fst np). (p, c) \<in> set pairs)"
proof -
  obtain ls np ch where run: "topsort_levels key_order pairs =
        (ls, if np \<noteq> [] then Some (LevelsCycleError np ch) else None)"
      "level_run pairs {} ls" "frontier pairs (set (concat ls)) = {}"
      "set (map fst np) = nodes pairs - set (concat ls)"
    using topsort_levels_run [OF assms(1)] by blast
  have "np \<noteq> []"
    using level_run_acyclic [OF run(2)] run(4) assms(2) by (cases np) auto
  moreover have "\<forall>c\<in>set (map fst np). \<exists>p\<in>set (map fst np). (p, c) \<in> set pairs"
    unfolding run(4) using frontier_empty_rest [OF run(3)] by blast
  moreover from \<open>np \<noteq> []\<close> run(1) have
    "topsort_levels key_order pairs = (ls, Some (LevelsCycleError np ch))" by simp
  ultimately show ?thesis using run(4) by blast
qed

theorem topsort_levels_cycle_error_witness:
  "\<exists>ls np ch. topsort_levels rev [(1::int, 2), (2, 3), (3, 2)] = (ls, Some (LevelsCycleError np ch)) \<and>
      set (map fst np) = nodes [(1, 2), (2, 3), (3, 2)] - set (concat ls) \<and> np \<noteq> [] \<and>
      (\<forall>c\<in>set (map fst np). \<exists>p\<in>set (map fst np). (p, c) \<in> set [(1, 2), (2, 3), (3, 2)])"
proof (rule topsort_levels_cycle_error [OF permutes_keys_rev])
  have "(2::int, 2) \<in> (set [(1, 2), (2, 3), (3, 2)])\<^sup>+"
    by (rule trancl_trans [of _ 3]) (auto intro: r_into_trancl)
  then show "\<not> acyclic (set [(1::int, 2), (2, 3), (3, 2)])" by (auto simp: acyclic_def)
qed

end
