(* ===== verification/Find_Cycles.thy ===== *)
theory Find_Cycles
  imports Topsort
begin

text \<open>
  The cycle enumeration of \<open>src/bindings/python/topsort.py\<close> (\<open>find_cycles\<close>).  It is a
  generator that also records every cycle it yields in its list \<open>cycles\<close>; the model
  returns that list.  The stack \<open>paths\<close> is a list with its top first.
\<close>

section \<open>Model\<close>

type_synonym 'a graph_dict = "('a, 'a list) dict"

record 'a cycle_state =
  paths :: "'a list list"
  cycles :: "'a list list"
  visited_nodes :: "'a list"

fun is_dup_cycle :: "'a list list \<Rightarrow> 'a list \<Rightarrow> bool res" where
  "is_dup_cycle [] cycle = Inr False"
| "is_dup_cycle (other_cycle # cs) cycle =
     res_bind (is_rotated other_cycle cycle) (\<lambda>b. if b then Inr True else is_dup_cycle cs cycle)"

definition list_index :: "'a list \<Rightarrow> 'a \<Rightarrow> nat" where
  "list_index xs x = length (takeWhile (\<lambda>y. y \<noteq> x) xs)"

definition visit_child :: "'a list \<Rightarrow> 'a \<Rightarrow> 'a cycle_state \<Rightarrow> 'a cycle_state res" where
  "visit_child path child st =
     (if child \<in> set path then
        (let cycle = drop (list_index path child) path in
         res_bind (is_dup_cycle (cycles st) cycle) (\<lambda>is_dup.
           Inr (if \<not> is_dup then st\<lparr>cycles := cycles st @ [cycle]\<rparr> else st)))
      else Inr (st\<lparr>paths := (path @ [child]) # paths st,
                   visited_nodes := visited_nodes st @ [child]\<rparr>))"

definition graph_nodes :: "'a graph_dict \<Rightarrow> 'a set" where
  "graph_nodes pc = set (map fst pc) \<union> set (concat (map snd pc))"

definition unused :: "'a graph_dict \<Rightarrow> 'a list \<Rightarrow> nat" where
  "unused pc path = card (graph_nodes pc - set path)"

lemma finite_graph_nodes [simp]: "finite (graph_nodes pc)"
  by (simp add: graph_nodes_def)

lemma dict_find_children_nodes:
  "dict_find pc p = Some cs \<Longrightarrow> p \<in> graph_nodes pc \<and> set cs \<subseteq> graph_nodes pc"
  unfolding dict_find_def graph_nodes_def by (drule map_of_SomeD) force

lemma unused_extend:
  assumes "c \<in> graph_nodes pc" and "c \<notin> set path"
  shows "unused pc (path @ [c]) < unused pc path"
  unfolding unused_def using assms by (intro psubset_card_mono) auto

lemma visit_child_paths:
  assumes "visit_child path child st = Inr st'"
  shows "paths st' = (if child \<in> set path then [] else [path @ [child]]) @ paths st"
  using assms by (auto simp: visit_child_def res_simps Let_def split: if_splits)

lemma visit_children_paths:
  assumes "res_fold (visit_child path) children st = Inr st'"
  shows "paths st' = rev (map (\<lambda>c. path @ [c]) (filter (\<lambda>c. c \<notin> set path) children)) @ paths st"
  using assms
proof (induction children arbitrary: st)
  case (Cons c children)
  then obtain st1 where "visit_child path c st = Inr st1"
    and rest: "res_fold (visit_child path) children st1 = Inr st'" by (auto simp: res_simps)
  with Cons.IH [OF rest] show ?case by (simp add: visit_child_paths)
qed simp

lemma visit_children_decreases:
  assumes "dict_find pc (last path) = Some children"
    and "res_fold (visit_child path) children st = Inr st'"
  shows "(image_mset (unused pc) (mset (paths st')),
      image_mset (unused pc) (mset (path # paths st))) \<in> mult less_than"
proof -
  let ?new = "map (\<lambda>c. path @ [c]) (filter (\<lambda>c. c \<notin> set path) children)"
  have "(image_mset (unused pc) (mset (paths st)) + image_mset (unused pc) (mset ?new),
      image_mset (unused pc) (mset (paths st)) + {#unused pc path#}) \<in> mult less_than"
    by (rule one_step_implies_mult)
      (use dict_find_children_nodes [OF assms(1)] unused_extend in \<open>fastforce+\<close>)
  then show ?thesis by (simp add: visit_children_paths [OF assms(2)] union_commute)
qed

function cycle_search :: "'a graph_dict \<Rightarrow> 'a cycle_state \<Rightarrow> 'a cycle_state res" where
  "cycle_search parent_children st =
     (case paths st of
        [] \<Rightarrow> Inr st
      | path # rest \<Rightarrow>
          if path = [] then Inl IndexError
          else
            (case dict_find parent_children (last path) of
               None \<Rightarrow> cycle_search parent_children (st\<lparr>paths := rest\<rparr>)
             | Some children \<Rightarrow>
                 res_bind (res_fold (visit_child path) children (st\<lparr>paths := rest\<rparr>))
                   (cycle_search parent_children)))"
  by pat_completeness auto
termination
proof (relation "inv_image (mult less_than) (\<lambda>(pc, st). image_mset (unused pc) (mset (paths st)))", goal_cases)
  case 1
  show ?case by (simp add: wf_mult)
next
  case (2 pc st path rest)
  have "(image_mset (unused pc) (mset rest) + {#},
      image_mset (unused pc) (mset rest) + {#unused pc path#}) \<in> mult less_than"
    by (rule one_step_implies_mult) simp_all
  with 2 show ?case by simp
next
  case (3 pc st path rest children st')
  from visit_children_decreases [OF 3(3,4)] 3(1) show ?case by simp
qed

declare cycle_search.simps [simp del]

definition search_from ::
    "'a graph_dict \<Rightarrow> 'a \<Rightarrow> 'a list list \<times> 'a list \<Rightarrow> ('a list list \<times> 'a list) res" where
  "search_from parent_children parent acc =
     (case acc of (cs, visited) \<Rightarrow>
      if parent \<in> set visited then Inr (cs, visited)
      else res_bind
        (cycle_search parent_children \<lparr>paths = [[parent]], cycles = cs, visited_nodes = visited\<rparr>)
        (\<lambda>st. Inr (cycles st, visited_nodes st)))"

definition find_cycles :: "('a list \<Rightarrow> 'a list) \<Rightarrow> 'a graph_dict \<Rightarrow> 'a list list res" where
  "find_cycles key_order parent_children =
     res_bind (res_fold (search_from parent_children) (key_order (map fst parent_children)) ([], []))
       (\<lambda>(cs, _). Inr cs)"

section \<open>Paths and cycles of the graph\<close>

definition edge :: "'a graph_dict \<Rightarrow> 'a \<Rightarrow> 'a \<Rightarrow> bool" where
  "edge pc p c \<longleftrightarrow> (case dict_find pc p of None \<Rightarrow> False | Some cs \<Rightarrow> c \<in> set cs)"

definition simple_path :: "'a graph_dict \<Rightarrow> 'a list \<Rightarrow> bool" where
  "simple_path pc p \<longleftrightarrow> p \<noteq> [] \<and> distinct p \<and> successively (edge pc) p"

definition simple_cycle :: "'a graph_dict \<Rightarrow> 'a list \<Rightarrow> bool" where
  "simple_cycle pc c \<longleftrightarrow> simple_path pc c \<and> edge pc (last c) (hd c)"

definition same_cycle :: "'a list \<Rightarrow> 'a list \<Rightarrow> bool" where
  "same_cycle c d \<longleftrightarrow> (\<exists>n. d = rotate n c)"

fun no_repeated_cycle :: "'a list list \<Rightarrow> bool" where
  "no_repeated_cycle [] = True"
| "no_repeated_cycle (c # cs) = ((\<forall>d\<in>set cs. \<not> same_cycle c d) \<and> no_repeated_cycle cs)"

lemma no_repeated_cycle_snoc:
  "no_repeated_cycle (cs @ [d]) \<longleftrightarrow> no_repeated_cycle cs \<and> (\<forall>c\<in>set cs. \<not> same_cycle c d)"
  by (induction cs) auto

lemma same_cycle_refl: "same_cycle c c"
  unfolding same_cycle_def by (rule exI [of _ 0]) simp

lemma same_cycle_sym: "same_cycle c d \<Longrightarrow> same_cycle d c"
proof -
  assume "same_cycle c d"
  then obtain n where d: "d = rotate n c" by (auto simp: same_cycle_def)
  have "rotate (length c - n mod length c) d = c"
  proof (cases "c = []")
    case False
    then have "length c - n mod length c + n mod length c = length c"
      by (simp add: less_imp_le)
    then show ?thesis
      unfolding d rotate_conv_mod [of n c] rotate_rotate by simp
  qed (simp add: d)
  then show ?thesis unfolding same_cycle_def by metis
qed

lemma same_cycle_trans: "same_cycle c d \<Longrightarrow> same_cycle d e \<Longrightarrow> same_cycle c e"
  unfolding same_cycle_def by (metis rotate_rotate)

lemma drop_list_index:
  assumes "x \<in> set xs"
  shows "drop (list_index xs x) xs = dropWhile (\<lambda>y. y \<noteq> x) xs"
    and "hd (drop (list_index xs x) xs) = x" and "drop (list_index xs x) xs \<noteq> []"
proof -
  show "drop (list_index xs x) xs = dropWhile (\<lambda>y. y \<noteq> x) xs"
    by (simp add: list_index_def dropWhile_eq_drop)
  moreover have "dropWhile (\<lambda>y. y \<noteq> x) xs \<noteq> []" using assms by (auto simp: dropWhile_eq_Nil_conv)
  ultimately show "hd (drop (list_index xs x) xs) = x" "drop (list_index xs x) xs \<noteq> []"
    using hd_dropWhile [of "\<lambda>y. y \<noteq> x" xs] by auto
qed

lemma is_dup_cycle_spec:
  "cycle \<noteq> [] \<Longrightarrow> is_dup_cycle cs cycle = Inr (\<exists>c\<in>set cs. same_cycle c cycle)"
  by (induction cs) (auto simp: is_rotated_rotate same_cycle_def)

lemma successively_drop: "successively P xs \<Longrightarrow> successively P (drop n xs)"
  by (metis append_take_drop_id successively_append_iff)

lemma closing_cycle:
  assumes "simple_path pc path" and "edge pc (last path) x" and "x \<in> set path"
  shows "simple_cycle pc (drop (list_index path x) path)"
proof -
  note d = drop_list_index [OF assms(3)]
  have "last (drop (list_index path x) path) = last path" using d(3) by (simp add: last_drop)
  then show ?thesis using assms d(2,3)
    by (simp add: simple_cycle_def simple_path_def distinct_drop successively_drop)
qed

lemma simple_path_extend:
  "simple_path pc path \<Longrightarrow> edge pc (last path) c \<Longrightarrow> c \<notin> set path \<Longrightarrow> simple_path pc (path @ [c])"
  by (simp add: simple_path_def successively_append_iff)

section \<open>Soundness\<close>

definition cycles_ok :: "'a graph_dict \<Rightarrow> 'a list list \<Rightarrow> bool" where
  "cycles_ok pc cs \<longleftrightarrow> (\<forall>c\<in>set cs. simple_cycle pc c) \<and> no_repeated_cycle cs"

definition covered :: "'a list list \<Rightarrow> 'a list \<Rightarrow> bool" where
  "covered cs d \<longleftrightarrow> (\<exists>c\<in>set cs. same_cycle c d)"

lemma visit_child_spec:
  assumes "simple_path pc path" and "edge pc (last path) child" and "cycles_ok pc (cycles st)"
  shows "\<exists>st'. visit_child path child st = Inr st' \<and> cycles_ok pc (cycles st') \<and>
      set (cycles st) \<subseteq> set (cycles st') \<and>
      (child \<in> set path \<longrightarrow> covered (cycles st') (drop (list_index path child) path)) \<and>
      set (visited_nodes st') = set (visited_nodes st) \<union> ({child} - set path)"
proof (cases "child \<in> set path")
  case True
  let ?c = "drop (list_index path child) path"
  have "is_dup_cycle (cycles st) ?c = Inr (covered (cycles st) ?c)"
    unfolding covered_def by (rule is_dup_cycle_spec [OF drop_list_index(3) [OF True]])
  moreover have "simple_cycle pc ?c" using closing_cycle assms(1,2) True .
  ultimately show ?thesis using True assms(3)
    by (auto simp: visit_child_def Let_def cycles_ok_def covered_def no_repeated_cycle_snoc
        intro: same_cycle_refl)
next
  case False
  with assms(3) show ?thesis by (auto simp: visit_child_def)
qed

lemma visit_children_spec:
  assumes "simple_path pc path" and "\<And>c. c \<in> set cs \<Longrightarrow> edge pc (last path) c"
    and "cycles_ok pc (cycles st)"
  shows "\<exists>st'. res_fold (visit_child path) cs st = Inr st' \<and> cycles_ok pc (cycles st') \<and>
      set (cycles st) \<subseteq> set (cycles st') \<and>
      (\<forall>x\<in>set cs \<inter> set path. covered (cycles st') (drop (list_index path x) path)) \<and>
      set (visited_nodes st') = set (visited_nodes st) \<union> (set cs - set path)"
  using assms(2,3)
proof (induction cs arbitrary: st)
  case Nil
  then show ?case by simp
next
  case (Cons c cs)
  from visit_child_spec [OF assms(1), of c st] Cons.prems obtain st1 where
    1: "visit_child path c st = Inr st1" "cycles_ok pc (cycles st1)" "set (cycles st) \<subseteq> set (cycles st1)"
      "c \<in> set path \<longrightarrow> covered (cycles st1) (drop (list_index path c) path)"
      "set (visited_nodes st1) = set (visited_nodes st) \<union> ({c} - set path)" by auto
  from Cons.IH [OF _ 1(2)] Cons.prems(1) obtain st2 where
    2: "res_fold (visit_child path) cs st1 = Inr st2" "cycles_ok pc (cycles st2)"
      "set (cycles st1) \<subseteq> set (cycles st2)"
      "\<forall>x\<in>set cs \<inter> set path. covered (cycles st2) (drop (list_index path x) path)"
      "set (visited_nodes st2) = set (visited_nodes st1) \<union> (set cs - set path)" by auto
  have "c \<in> set path \<longrightarrow> covered (cycles st2) (drop (list_index path c) path)"
    using 1(4) 2(3) unfolding covered_def by blast
  with 1 2 show ?case by (intro exI [of _ st2]) auto
qed

text \<open>
  What one run of the \<open>while\<close> loop achieves, for the extensions of the paths that were on
  the stack: every closing edge of every extension is covered by a recorded cycle, and
  the end of every proper extension is marked as visited.
\<close>

definition explored :: "'a graph_dict \<Rightarrow> 'a list \<Rightarrow> 'a list list \<Rightarrow> 'a list \<Rightarrow> bool" where
  "explored pc q cs visited \<longleftrightarrow>
     (\<forall>r x. simple_path pc (q @ r) \<longrightarrow>
        (r \<noteq> [] \<longrightarrow> last r \<in> set visited) \<and>
        (edge pc (last (q @ r)) x \<and> x \<in> set (q @ r) \<longrightarrow>
           covered cs (drop (list_index (q @ r) x) (q @ r))))"

definition reached :: "'a graph_dict \<Rightarrow> 'a list list \<Rightarrow> 'a \<Rightarrow> bool" where
  "reached pc qs v \<longleftrightarrow> (\<exists>q\<in>set qs. \<exists>r. simple_path pc (q @ r) \<and> r \<noteq> [] \<and> v = last r)"

lemma covered_mono: "covered cs d \<Longrightarrow> set cs \<subseteq> set cs' \<Longrightarrow> covered cs' d"
  unfolding covered_def by blast

lemma explored_mono:
  "explored pc q cs vs \<Longrightarrow> set cs \<subseteq> set cs' \<Longrightarrow> set vs \<subseteq> set vs' \<Longrightarrow> explored pc q cs' vs'"
  unfolding explored_def by (meson covered_mono subsetD)

lemma edge_dict_find: "dict_find pc p = Some cs \<Longrightarrow> edge pc p c \<longleftrightarrow> c \<in> set cs"
  by (simp add: edge_def)

lemma simple_path_step:
  "simple_path pc (path @ c # r) \<Longrightarrow> path \<noteq> [] \<Longrightarrow> edge pc (last path) c \<and> c \<notin> set path"
  by (simp add: simple_path_def successively_append_iff)

lemma explored_leaf:
  assumes "dict_find pc (last path) = None" and "path \<noteq> []"
  shows "explored pc path cs vs"
proof -
  have no: "\<not> edge pc (last path) c" for c using assms(1) by (simp add: edge_def)
  have "r = []" if "simple_path pc (path @ r)" for r
    using that assms(2) no simple_path_step [of pc path "hd r" "tl r"] by (cases r) auto
  with no show ?thesis unfolding explored_def by (metis append.right_neutral)
qed

lemma explored_node:
  assumes "path \<noteq> []" and "dict_find pc (last path) = Some cs"
    and "\<forall>x\<in>set cs \<inter> set path. covered cyc (drop (list_index path x) path)"
    and "set cs - set path \<subseteq> set vs"
    and "\<And>c. c \<in> set cs \<Longrightarrow> c \<notin> set path \<Longrightarrow> explored pc (path @ [c]) cyc vs"
  shows "explored pc path cyc vs"
  unfolding explored_def
proof (intro allI impI)
  fix r x assume sp: "simple_path pc (path @ r)"
  show "(r \<noteq> [] \<longrightarrow> last r \<in> set vs) \<and>
      (edge pc (last (path @ r)) x \<and> x \<in> set (path @ r) \<longrightarrow>
         covered cyc (drop (list_index (path @ r) x) (path @ r)))"
  proof (cases r)
    case Nil
    then show ?thesis using assms(3) by (auto simp: edge_dict_find [OF assms(2)])
  next
    case (Cons c r')
    then have c: "c \<in> set cs" "c \<notin> set path"
      using simple_path_step [of pc path c r'] sp assms(1) by (auto simp: edge_dict_find [OF assms(2)])
    have "simple_path pc ((path @ [c]) @ r')" using sp Cons by simp
    with assms(5) [OF c] have "(r' \<noteq> [] \<longrightarrow> last r' \<in> set vs) \<and>
      (edge pc (last ((path @ [c]) @ r')) x \<and> x \<in> set ((path @ [c]) @ r') \<longrightarrow>
         covered cyc (drop (list_index ((path @ [c]) @ r') x) ((path @ [c]) @ r')))"
      unfolding explored_def by blast
    then show ?thesis using Cons c assms(4) by auto
  qed
qed

definition search_result :: "'a graph_dict \<Rightarrow> 'a cycle_state \<Rightarrow> 'a cycle_state \<Rightarrow> bool" where
  "search_result pc st st' \<longleftrightarrow> cycles_ok pc (cycles st') \<and>
      set (cycles st) \<subseteq> set (cycles st') \<and> set (visited_nodes st) \<subseteq> set (visited_nodes st') \<and>
      (\<forall>q\<in>set (paths st). explored pc q (cycles st') (visited_nodes st')) \<and>
      (\<forall>v\<in>set (visited_nodes st') - set (visited_nodes st). reached pc (paths st) v)"

lemma reached_mono: "reached pc qs v \<Longrightarrow> set qs \<subseteq> set qs' \<Longrightarrow> reached pc qs' v"
  unfolding reached_def by blast

lemma reached_child:
  "reached pc [path @ [c]] v \<Longrightarrow> reached pc [path] v"
proof -
  assume "reached pc [path @ [c]] v"
  then obtain r where "simple_path pc (path @ c # r)" "r \<noteq> []" "v = last r"
    by (auto simp: reached_def)
  then show ?thesis unfolding reached_def by (intro bexI [of _ path] exI [of _ "c # r"]) auto
qed

lemma search_result_step:
  assumes sp: "simple_path pc path" and ch: "dict_find pc (last path) = Some cs"
    and st1: "res_fold (visit_child path) cs (st\<lparr>paths := rest\<rparr>) = Inr st1"
    and cov: "\<forall>x\<in>set cs \<inter> set path. covered (cycles st1) (drop (list_index path x) path)"
    and mono: "set (cycles st) \<subseteq> set (cycles st1)"
    and vis: "set (visited_nodes st1) = set (visited_nodes st) \<union> (set cs - set path)"
    and res: "search_result pc st1 st'" and stack: "paths st = path # rest"
  shows "search_result pc st st'"
proof -
  have p1: "set (paths st1) = (\<lambda>c. path @ [c]) ` (set cs - set path) \<union> set rest"
    using visit_children_paths [OF st1] by auto
  have ok: "cycles_ok pc (cycles st')" and sub: "set (cycles st1) \<subseteq> set (cycles st')"
    "set (visited_nodes st1) \<subseteq> set (visited_nodes st')"
    and ex: "\<And>q. q \<in> set (paths st1) \<Longrightarrow> explored pc q (cycles st') (visited_nodes st')"
    and re: "\<And>v. v \<in> set (visited_nodes st') - set (visited_nodes st1) \<Longrightarrow> reached pc (paths st1) v"
    using res by (auto simp: search_result_def)
  have "explored pc path (cycles st') (visited_nodes st')"
  proof (rule explored_node [OF _ ch])
    show "path \<noteq> []" using sp by (simp add: simple_path_def)
    show "\<forall>x\<in>set cs \<inter> set path. covered (cycles st') (drop (list_index path x) path)"
      using cov sub(1) covered_mono by blast
    show "set cs - set path \<subseteq> set (visited_nodes st')" using vis sub(2) by blast
  qed (use ex p1 in blast)
  moreover have "reached pc (paths st) v" if v: "v \<in> set (visited_nodes st') - set (visited_nodes st)" for v
  proof (cases "v \<in> set (visited_nodes st1)")
    case True
    then have "v \<in> set cs - set path" using vis v by blast
    then have "simple_path pc (path @ [v])" using simple_path_extend [OF sp] by (simp add: edge_dict_find [OF ch])
    then show ?thesis unfolding reached_def stack by (intro bexI [of _ path] exI [of _ "[v]"]) auto
  next
    case False
    with re [of v] v have "reached pc (paths st1) v" by blast
    then obtain q where q: "q \<in> set (paths st1)" "reached pc [q] v" by (auto simp: reached_def)
    then consider "q \<in> set rest" | c where "q = path @ [c]" using p1 by auto
    then show ?thesis
    proof cases
      case 1
      with q(2) show ?thesis unfolding stack by (elim reached_mono) simp
    next
      case 2
      with q(2) have "reached pc [path] v" by (simp only: reached_child)
      then show ?thesis unfolding stack by (elim reached_mono) simp
    qed
  qed
  ultimately show ?thesis
    using ok mono sub vis ex p1 unfolding search_result_def stack by auto
qed

lemma cycle_search_spec:
  assumes "\<forall>q\<in>set (paths st). simple_path pc q" and "cycles_ok pc (cycles st)"
  shows "\<exists>st'. cycle_search pc st = Inr st' \<and> search_result pc st st'"
  using assms
proof (induction pc st rule: cycle_search.induct)
  case (1 pc st)
  show ?case
  proof (cases "paths st")
    case Nil
    then show ?thesis using "1.prems" by (simp add: cycle_search.simps [of pc st] search_result_def)
  next
    case (Cons path rest)
    then have sp: "simple_path pc path" and ne: "path \<noteq> []"
      using "1.prems"(1) by (auto simp: simple_path_def)
    show ?thesis
    proof (cases "dict_find pc (last path)")
      case None
      from "1.IH"(1) [OF Cons ne None] "1.prems" Cons obtain st' where
        "cycle_search pc (st\<lparr>paths := rest\<rparr>) = Inr st'" "search_result pc (st\<lparr>paths := rest\<rparr>) st'" by auto
      moreover have "reached pc rest v \<Longrightarrow> reached pc (path # rest) v" for v
        by (elim reached_mono) auto
      ultimately show ?thesis using Cons ne None explored_leaf [OF None ne]
        by (auto simp: cycle_search.simps [of pc st] search_result_def)
    next
      case (Some cs)
      from visit_children_spec [OF sp, of cs "st\<lparr>paths := rest\<rparr>"] "1.prems"(2) obtain st1 where
        1: "res_fold (visit_child path) cs (st\<lparr>paths := rest\<rparr>) = Inr st1" "cycles_ok pc (cycles st1)"
          "set (cycles st) \<subseteq> set (cycles st1)"
          "\<forall>x\<in>set cs \<inter> set path. covered (cycles st1) (drop (list_index path x) path)"
          "set (visited_nodes st1) = set (visited_nodes st) \<union> (set cs - set path)"
        by (auto simp: edge_dict_find [OF Some])
      have "\<forall>q\<in>set (paths st1). simple_path pc q"
        using visit_children_paths [OF 1(1)] "1.prems"(1) Cons simple_path_extend [OF sp]
        by (auto simp: edge_dict_find [OF Some])
      with "1.IH"(2) [OF Cons ne Some 1(1)] 1(2) obtain st' where
        "cycle_search pc st1 = Inr st'" "search_result pc st1 st'" by blast
      then show ?thesis using Cons ne Some 1(1) search_result_step [OF sp Some 1(1,4,3,5)]
        by (auto simp: cycle_search.simps [of pc st])
    qed
  qed
qed

section \<open>The outer loop and completeness\<close>

definition search_inv :: "'a graph_dict \<Rightarrow> 'a list \<Rightarrow> 'a list list \<times> 'a list \<Rightarrow> 'a set \<Rightarrow> bool" where
  "search_inv pc ks acc roots \<longleftrightarrow>
     (case acc of (cs, vs) \<Rightarrow> cycles_ok pc cs \<and>
        (\<forall>r\<in>roots. explored pc [r] cs vs) \<and> (\<forall>k\<in>set ks. k \<in> roots \<or> k \<in> set vs) \<and>
        (\<forall>v\<in>set vs. \<exists>r\<in>roots. reached pc [[r]] v))"

lemma search_from_inv:
  assumes "search_inv pc ks (cs, vs) roots"
  shows "\<exists>acc roots'. search_from pc k (cs, vs) = Inr acc \<and> search_inv pc (ks @ [k]) acc roots'"
proof (cases "k \<in> set vs")
  case True
  with assms show ?thesis by (auto simp: search_from_def search_inv_def)
next
  case False
  let ?st = "\<lparr>paths = [[k]], cycles = cs, visited_nodes = vs\<rparr>"
  have "cycles_ok pc cs" using assms by (simp add: search_inv_def)
  then obtain st' where st': "cycle_search pc ?st = Inr st'" "search_result pc ?st st'"
    using cycle_search_spec [of ?st pc] by (auto simp: simple_path_def)
  then have res: "cycles_ok pc (cycles st')" "set cs \<subseteq> set (cycles st')" "set vs \<subseteq> set (visited_nodes st')"
      "explored pc [k] (cycles st') (visited_nodes st')"
      "\<And>v. v \<in> set (visited_nodes st') - set vs \<Longrightarrow> reached pc [[k]] v"
    by (auto simp: search_result_def)
  have inv: "\<And>r. r \<in> roots \<Longrightarrow> explored pc [r] cs vs" "\<And>j. j \<in> set ks \<Longrightarrow> j \<in> roots \<or> j \<in> set vs"
      "\<And>v. v \<in> set vs \<Longrightarrow> \<exists>r\<in>roots. reached pc [[r]] v"
    using assms by (auto simp: search_inv_def)
  have "\<forall>r\<in>insert k roots. explored pc [r] (cycles st') (visited_nodes st')"
    using res(2-4) inv(1) explored_mono by (metis insert_iff)
  moreover have "\<forall>v\<in>set (visited_nodes st'). \<exists>r\<in>insert k roots. reached pc [[r]] v"
    using res(5) inv(3) by blast
  moreover have "\<forall>j\<in>set (ks @ [k]). j \<in> insert k roots \<or> j \<in> set (visited_nodes st')"
    using inv(2) res(3) by auto
  ultimately have "search_inv pc (ks @ [k]) (cycles st', visited_nodes st') (insert k roots)"
    using res(1) unfolding search_inv_def prod.case by blast
  then show ?thesis using st'(1) False by (auto simp: search_from_def)
qed

lemma search_all_inv:
  "\<exists>acc roots. res_fold (search_from pc) ks ([], []) = Inr acc \<and> search_inv pc ks acc roots"
proof (induction ks rule: rev_induct)
  case Nil
  show ?case by (auto simp: search_inv_def cycles_ok_def)
next
  case (snoc k ks)
  then obtain cs vs roots where "res_fold (search_from pc) ks ([], []) = Inr (cs, vs)"
    and "search_inv pc ks (cs, vs) roots" by auto
  with search_from_inv [of pc ks cs vs roots k] show ?case by (auto simp: res_fold_append)
qed

lemma simple_path_prefix: "simple_path pc (p @ q) \<Longrightarrow> p \<noteq> [] \<Longrightarrow> simple_path pc p"
  by (simp add: simple_path_def successively_append_iff)

lemma simple_cycle_rotate1: "simple_cycle pc c \<Longrightarrow> simple_cycle pc (rotate1 c)"
proof -
  assume c: "simple_cycle pc c"
  then obtain x xs where xs: "c = x # xs" by (cases c) (auto simp: simple_cycle_def simple_path_def)
  with c show ?thesis
    by (cases "xs = []") (auto simp: simple_cycle_def simple_path_def successively_append_iff
        successively_Cons)
qed

lemma simple_cycle_rotate: "simple_cycle pc c \<Longrightarrow> simple_cycle pc (rotate n c)"
  by (induction n) (auto simp: simple_cycle_rotate1 rotate_def)

text \<open>A path that enters a cycle at \<open>c\<close> and goes round it closes exactly that cycle.\<close>

lemma entering_path:
  assumes "simple_path pc (p @ [c])" and "simple_cycle pc (c # d)" and "set p \<inter> set (c # d) = {}"
  shows "simple_path pc (p @ c # d)" and "drop (list_index (p @ c # d) c) (p @ c # d) = c # d"
proof -
  show "simple_path pc (p @ c # d)"
    using assms by (auto simp: simple_path_def simple_cycle_def successively_append_iff)
  have "list_index (p @ c # d) c = length p"
  proof -
    have "\<And>y. y \<in> set p \<Longrightarrow> y \<noteq> c" using assms(3) by auto
    then have "takeWhile (\<lambda>y. y \<noteq> c) (p @ c # d) = p" by (simp add: takeWhile_append2)
    then show ?thesis by (simp add: list_index_def)
  qed
  then show "drop (list_index (p @ c # d) c) (p @ c # d) = c # d" by simp
qed

lemma explored_covers:
  assumes "explored pc [r] cs vs" and "simple_path pc p" and "hd p = r" and "last p \<in> set c"
    and cyc: "simple_cycle pc c"
  shows "covered cs c"
proof -
  from assms(2,4) have "\<exists>x\<in>set p. x \<in> set c" by (auto simp: simple_path_def)
  then obtain q x s where p: "p = q @ x # s" "x \<in> set c" "\<forall>y\<in>set q. y \<notin> set c"
    by (elim split_list_first_propE) auto
  then have qx: "simple_path pc (q @ [x])" using simple_path_prefix [of pc "q @ [x]" s] assms(2) by simp
  from p(2) obtain n where n: "n < length c" "x = c ! n" by (auto simp: in_set_conv_nth)
  define d where "d = tl (rotate n c)"
  have rot: "rotate n c = x # d"
  proof -
    have ne: "c \<noteq> []" using n by auto
    then have "hd (rotate n c) = x" using hd_rotate_conv_nth [OF ne, of n] n by simp
    with ne show ?thesis by (cases "rotate n c") (auto simp: d_def)
  qed
  have cyc': "simple_cycle pc (x # d)" using simple_cycle_rotate [OF cyc, of n] by (simp add: rot)
  have "set (x # d) = set c" by (metis rot set_rotate)
  with p(3) have "set q \<inter> set (x # d) = {}" by blast
  note enter = entering_path [OF qx cyc' this]
  obtain t where t: "q @ x # d = [r] @ t" using assms(3) p(1) by (cases q) auto
  have "edge pc (last (q @ x # d)) x" using cyc' by (simp add: simple_cycle_def)
  then have "covered cs (drop (list_index (q @ x # d) x) (q @ x # d))"
    using assms(1) enter(1) unfolding explored_def t by (metis in_set_conv_decomp t)
  then have "covered cs (x # d)" by (simp only: enter(2))
  then show ?thesis unfolding covered_def
    by (metis rot same_cycle_def same_cycle_sym same_cycle_trans)
qed

lemma find_cycles_run:
  assumes "permutes_keys key_order"
  shows "\<exists>cs. find_cycles key_order pc = Inr cs \<and> cycles_ok pc cs \<and>
     (\<forall>c. simple_cycle pc c \<longrightarrow> covered cs c)"
proof -
  obtain cs vs roots where run: "res_fold (search_from pc) (key_order (map fst pc)) ([], []) = Inr (cs, vs)"
    and inv: "search_inv pc (key_order (map fst pc)) (cs, vs) roots"
    using search_all_inv [of pc "key_order (map fst pc)"] by auto
  have "covered cs c" if c: "simple_cycle pc c" for c
  proof -
    obtain x where x: "x \<in> set c" "edge pc x (hd c)" "x = last c"
      using c by (auto simp: simple_cycle_def simple_path_def)
    then have "x \<in> set (map fst pc)"
      unfolding keys_dict_find by (auto simp: edge_def split: option.splits)
    then have "x \<in> roots \<or> x \<in> set vs"
      using inv permutes_keys_set [OF assms] by (auto simp: search_inv_def)
    then obtain r p where "r \<in> roots" "simple_path pc (r # p)" "last (r # p) = x"
    proof
      assume "x \<in> roots"
      then show ?thesis by (intro that [of x "[]"]) (simp_all add: simple_path_def)
    next
      assume "x \<in> set vs"
      then show ?thesis using inv that by (fastforce simp: search_inv_def reached_def)
    qed
    then show ?thesis using explored_covers [of pc r cs vs "r # p" c] inv c x(1)
      by (auto simp: search_inv_def)
  qed
  with run inv show ?thesis by (auto simp: find_cycles_def search_inv_def)
qed

text \<open>
  C4. \<open>find_cycles\<close> terminates without an exception; every list it yields is a
  simple cycle of the graph (no node twice, each node an edge to the next, the last one
  an edge to the first), and no yielded cycle is a rotation of an earlier one.
\<close>

theorem find_cycles_sound:
  assumes "permutes_keys key_order"
  shows "\<exists>cs. find_cycles key_order pc = Inr cs \<and> (\<forall>c\<in>set cs. simple_cycle pc c) \<and> no_repeated_cycle cs"
  using find_cycles_run [OF assms, of pc] by (auto simp: cycles_ok_def)

theorem find_cycles_sound_witness:
  "\<exists>cs. find_cycles rev [(''A'', [''B'']), (''B'', [''C'']), (''C'', [''B'', ''D'']), (''D'', [])] = Inr cs \<and>
     (\<forall>c\<in>set cs. simple_cycle [(''A'', [''B'']), (''B'', [''C'']), (''C'', [''B'', ''D'']), (''D'', [])] c) \<and>
     no_repeated_cycle cs"
  by (rule find_cycles_sound [OF permutes_keys_rev])

text \<open>
  C5. \<open>find_cycles\<close> misses nothing: every simple cycle of the graph is, up to
  rotation, among the yielded ones, although nodes already visited are not used as
  starting points again.
\<close>

theorem find_cycles_complete:
  assumes "permutes_keys key_order" and "simple_cycle pc c"
  shows "\<exists>cs d. find_cycles key_order pc = Inr cs \<and> d \<in> set cs \<and> same_cycle d c"
  using find_cycles_run [OF assms(1), of pc] assms(2) unfolding covered_def by blast

theorem find_cycles_complete_witness:
  "\<exists>cs d. find_cycles rev [(1::int, [2]), (2, [3]), (3, [2])] = Inr cs \<and> d \<in> set cs \<and> same_cycle d [3, 2]"
  by (rule find_cycles_complete [OF permutes_keys_rev])
    (simp add: simple_cycle_def simple_path_def edge_def dict_find_def)

end
