(* ===== verification/Grid_Data.thy ===== *)
theory Grid_Data
  imports Py_Prelude
begin

text \<open>
  The data model of \<open>src/utils/grid.py\<close>: ranges and events, the two binary searches, the
  named timelines and their bounds, the colour table and \<open>read_data\<close>.

  The file is Python 2 code (PyGTK, \<open>sort\<close> with a comparison function, \<open>has_key\<close>), so
  \<open>/\<close> is Python 2's.  Objects that the code shares by reference (a timeline inside
  \<open>Timelines\<close>, a range list inside a timeline) are addressed by their position.
\<close>

section \<open>Ranges, events and their searches\<close>

record data_range =
  start :: int
  stop :: int
  range_value :: string

datatype event_value = StrVal string | IntVal int

record event =
  ev_at :: int
  event_value :: event_value

definition ranges_cmp :: "data_range \<Rightarrow> data_range \<Rightarrow> int" where
  "ranges_cmp a b =
     (let diff = start a - start b in if diff < 0 then - 1 else if 0 < diff then 1 else 0)"

definition events_cmp :: "event \<Rightarrow> event \<Rightarrow> int" where
  "events_cmp a b =
     (let diff = ev_at a - ev_at b in if diff < 0 then - 1 else if 0 < diff then 1 else 0)"

text \<open>\<open>list.sort(cmp)\<close> is a stable sort.\<close>

fun insert_cmp :: "('a \<Rightarrow> 'a \<Rightarrow> int) \<Rightarrow> 'a \<Rightarrow> 'a list \<Rightarrow> 'a list" where
  "insert_cmp cmp x [] = [x]"
| "insert_cmp cmp x (y # ys) = (if cmp x y \<le> 0 then x # y # ys else y # insert_cmp cmp x ys)"

definition sort_cmp :: "('a \<Rightarrow> 'a \<Rightarrow> int) \<Rightarrow> 'a list \<Rightarrow> 'a list" where
  "sort_cmp cmp xs = foldr (insert_cmp cmp) xs []"

record timeline_data_range =
  range_name :: string
  ranges :: "data_range list"

record timeline_event =
  event_name :: string
  events :: "event list"

text \<open>
  The search loops; a key is the number the window starts or ends at.  The positions
  stay inside the list, see \<open>bisection\<close> below.
\<close>

function search_range :: "data_range list \<Rightarrow> rat \<Rightarrow> int \<Rightarrow> int \<Rightarrow> int" where
  "search_range rs key l u =
     (if l \<le> u then
        (let i = (l + u) div 2; r = rs ! nat i
         in if of_int (start r) \<le> key \<and> key \<le> of_int (stop r) then i
            else if key < of_int (start r) then search_range rs key l (i - 1)
            else search_range rs key (i + 1) u)
      else - 1)"
  by pat_completeness auto
termination by (relation "measure (\<lambda>(rs, key, l, u). nat (u - l + 1))") auto

function search_event :: "event list \<Rightarrow> rat \<Rightarrow> int \<Rightarrow> int \<Rightarrow> int" where
  "search_event es key l u =
     (if l \<le> u then
        (let i = (l + u) div 2; e = es ! nat i
         in if key = of_int (ev_at e) then i
            else if key < of_int (ev_at e) then search_event es key l (i - 1)
            else search_event es key (i + 1) u)
      else l)"
  by pat_completeness auto
termination by (relation "measure (\<lambda>(es, key, l, u). nat (u - l + 1))") auto

declare search_range.simps [simp del] search_event.simps [simp del]

definition tdr_search :: "timeline_data_range \<Rightarrow> rat \<Rightarrow> int" where
  "tdr_search t key = search_range (ranges t) key 0 (int (length (ranges t)) - 1)"

definition te_search :: "timeline_event \<Rightarrow> rat \<Rightarrow> int" where
  "te_search t key = search_event (events t) key 0 (int (length (events t)) - 1)"

definition add_range :: "data_range \<Rightarrow> timeline_data_range \<Rightarrow> timeline_data_range" where
  "add_range r t = t\<lparr>ranges := ranges t @ [r]\<rparr>"

definition get_ranges :: "timeline_data_range \<Rightarrow> rat \<Rightarrow> rat \<Rightarrow> data_range list" where
  "get_ranges t lo hi =
     (let s = tdr_search t lo; e = tdr_search t hi
      in if s = - 1 \<and> e = - 1 then []
         else if s = - 1 then slice (ranges t) 0 (e + 1)
         else if e = - 1 then slice (ranges t) s (int (length (ranges t)))
         else slice (ranges t) s (e + 1))"

definition get_ranges_bounds :: "timeline_data_range \<Rightarrow> rat \<Rightarrow> rat \<Rightarrow> int \<times> int" where
  "get_ranges_bounds t lo hi =
     (let s = tdr_search t lo; e = tdr_search t hi
      in if s = - 1 \<and> e = - 1 then (0, 0)
         else if s = - 1 then (0, e + 1)
         else if e = - 1 then (s, int (length (ranges t)))
         else (s, e + 1))"

definition tdr_sort :: "timeline_data_range \<Rightarrow> timeline_data_range" where
  "tdr_sort t = t\<lparr>ranges := sort_cmp ranges_cmp (ranges t)\<rparr>"

definition tdr_bounds :: "timeline_data_range \<Rightarrow> int \<times> int" where
  "tdr_bounds t =
     (if 0 < length (ranges t) then (start (hd (ranges t)), stop (last (ranges t))) else (0, 0))"

definition add_event :: "event \<Rightarrow> timeline_event \<Rightarrow> timeline_event" where
  "add_event e t = t\<lparr>events := events t @ [e]\<rparr>"

definition get_events :: "timeline_event \<Rightarrow> rat \<Rightarrow> rat \<Rightarrow> event list" where
  "get_events t lo hi =
     (let s = te_search t lo; e = te_search t hi in slice (events t) s (e + 1))"

definition get_events_bounds :: "timeline_event \<Rightarrow> rat \<Rightarrow> rat \<Rightarrow> int \<times> int" where
  "get_events_bounds t lo hi =
     (let s = te_search t lo; e = te_search t hi in (s, e + 1))"

definition te_sort :: "timeline_event \<Rightarrow> timeline_event" where
  "te_sort t = t\<lparr>events := sort_cmp events_cmp (events t)\<rparr>"

definition te_bounds :: "timeline_event \<Rightarrow> int \<times> int" where
  "te_bounds t =
     (if 0 < length (events t) then (ev_at (hd (events t)), ev_at (last (events t))) else (0, 0))"

section \<open>Named timelines\<close>

text \<open>
  The lookup that all the containers share: the position of the entry with the name,
  which is appended when there is none.
\<close>

definition get_or_create :: "('a \<Rightarrow> string) \<Rightarrow> (string \<Rightarrow> 'a) \<Rightarrow> string \<Rightarrow> 'a list \<Rightarrow> 'a list \<times> nat" where
  "get_or_create name_of fresh name xs =
     (let i = length (takeWhile (\<lambda>x. name_of x \<noteq> name) xs)
      in if i < length xs then (xs, i) else (xs @ [fresh name], i))"

record timeline =
  timeline_name :: string
  tl_ranges :: "timeline_data_range list"
  event_str :: "timeline_event list"
  event_int :: "timeline_event list"

definition new_range :: "string \<Rightarrow> timeline_data_range" where
  "new_range name = \<lparr>range_name = name, ranges = []\<rparr>"

definition new_event :: "string \<Rightarrow> timeline_event" where
  "new_event name = \<lparr>event_name = name, events = []\<rparr>"

definition new_timeline :: "string \<Rightarrow> timeline" where
  "new_timeline name = \<lparr>timeline_name = name, tl_ranges = [], event_str = [], event_int = []\<rparr>"

definition get_range :: "string \<Rightarrow> timeline \<Rightarrow> timeline \<times> nat" where
  "get_range name t =
     (case get_or_create range_name new_range name (tl_ranges t) of (xs, i) \<Rightarrow> (t\<lparr>tl_ranges := xs\<rparr>, i))"

definition get_event_str :: "string \<Rightarrow> timeline \<Rightarrow> timeline \<times> nat" where
  "get_event_str name t =
     (case get_or_create event_name new_event name (event_str t) of (xs, i) \<Rightarrow> (t\<lparr>event_str := xs\<rparr>, i))"

definition get_event_int :: "string \<Rightarrow> timeline \<Rightarrow> timeline \<times> nat" where
  "get_event_int name t =
     (case get_or_create event_name new_event name (event_int t) of (xs, i) \<Rightarrow> (t\<lparr>event_int := xs\<rparr>, i))"

definition timeline_sort :: "timeline \<Rightarrow> timeline" where
  "timeline_sort t =
     t\<lparr>tl_ranges := map tdr_sort (tl_ranges t), event_int := map te_sort (event_int t),
       event_str := map te_sort (event_str t)\<rparr>"

definition widen :: "int \<times> int \<Rightarrow> int \<times> int \<Rightarrow> int \<times> int" where
  "widen b acc =
     (case (b, acc) of ((b_lo, b_hi), (lo, hi)) \<Rightarrow>
      (if b_lo < lo then b_lo else lo, if hi < b_hi then b_hi else hi))"

definition timeline_bounds :: "timeline \<Rightarrow> int \<times> int" where
  "timeline_bounds t =
     fold widen (map te_bounds (event_int t))
       (fold widen (map te_bounds (event_str t))
         (fold widen (map tdr_bounds (tl_ranges t)) (0, 0)))"

type_synonym timelines = "timeline list"

definition timelines_get :: "string \<Rightarrow> timelines \<Rightarrow> timelines \<times> nat" where
  "timelines_get name ts = get_or_create timeline_name new_timeline name ts"

definition timelines_sort :: "timelines \<Rightarrow> timelines" where
  "timelines_sort ts = map timeline_sort ts"

definition timelines_bounds :: "timelines \<Rightarrow> int \<times> int" where
  "timelines_bounds ts = fold widen (map timeline_bounds ts) (0, 0)"

definition all_range_values :: "(string list \<Rightarrow> string list) \<Rightarrow> timelines \<Rightarrow> string list" where
  "all_range_values key_order ts =
     key_order (map fst
       (fold (\<lambda>r d. dict_set (range_value r) (1::int) d)
         (concat (map (\<lambda>t. concat (map ranges (tl_ranges t))) ts)) []))"

section \<open>Colours\<close>

record color =
  red :: pynum
  green :: pynum
  blue :: pynum

definition mk_color :: "pynum \<Rightarrow> pynum \<Rightarrow> pynum \<Rightarrow> color" where
  "mk_color r g b = \<lparr>red = r, green = g, blue = b\<rparr>"

definition color_set :: "pynum \<Rightarrow> pynum \<Rightarrow> pynum \<Rightarrow> color \<Rightarrow> color" where
  "color_set r g b c = c\<lparr>red := r, green := g, blue := b\<rparr>"

text \<open>The default colours are one list for the whole class, used up from its end.\<close>

definition initial_default_colors :: "color list" where
  "initial_default_colors =
     [mk_color (PInt 1) (PInt 0) (PInt 0), mk_color (PInt 0) (PInt 1) (PInt 0),
      mk_color (PInt 0) (PInt 0) (PInt 1), mk_color (PInt 1) (PInt 1) (PInt 0),
      mk_color (PInt 1) (PInt 0) (PInt 1), mk_color (PInt 0) (PInt 1) (PInt 1)]"

record colors =
  color_table :: "(string, color) dict"
  default_colors :: "color list"

definition new_colors :: colors where
  "new_colors = \<lparr>color_table = [], default_colors = initial_default_colors\<rparr>"

definition colors_add :: "string \<Rightarrow> color \<Rightarrow> colors \<Rightarrow> colors" where
  "colors_add name c cs = cs\<lparr>color_table := dict_set name c (color_table cs)\<rparr>"

definition colors_lookup :: "string \<Rightarrow> colors \<Rightarrow> (color \<times> colors) res" where
  "colors_lookup name cs =
     (case dict_find (color_table cs) name of
        Some c \<Rightarrow> Inr (c, cs)
      | None \<Rightarrow>
          if default_colors cs = [] then Inl IndexError
          else (let c = last (default_colors cs)
                in Inr (c, colors_add name c (cs\<lparr>default_colors := butlast (default_colors cs)\<rparr>))))"

section \<open>The searches\<close>

text \<open>
  What the two search loops share: a probe of the element in the middle, which is hit,
  or lies to the right of the key (\<open>left\<close>: go on to the left), or to its left.  The
  elements are ordered so that everything after an element to the right of the key is
  to the right of it as well, and everything before one to its left is to its left.
\<close>

locale bisection =
  fixes search :: "'a list \<Rightarrow> 'k \<Rightarrow> int \<Rightarrow> int \<Rightarrow> int"
    and hit :: "'k \<Rightarrow> 'a \<Rightarrow> bool"
    and left :: "'k \<Rightarrow> 'a \<Rightarrow> bool"
    and fail :: "int \<Rightarrow> int"
    and ordered :: "'a list \<Rightarrow> bool"
  assumes search_unfold:
      "search xs k l u =
         (if l \<le> u then
            (let i = (l + u) div 2
             in if hit k (xs ! nat i) then i
                else if left k (xs ! nat i) then search xs k l (i - 1)
                else search xs k (i + 1) u)
          else fail l)"
    and left_up: "ordered xs \<Longrightarrow> i < j \<Longrightarrow> j < length xs \<Longrightarrow> left k (xs ! i) \<Longrightarrow>
        left k (xs ! j) \<and> \<not> hit k (xs ! j)"
    and right_down: "ordered xs \<Longrightarrow> i < j \<Longrightarrow> j < length xs \<Longrightarrow>
        \<not> left k (xs ! j) \<Longrightarrow> \<not> hit k (xs ! j) \<Longrightarrow> \<not> left k (xs ! i) \<and> \<not> hit k (xs ! i)"
begin

text \<open>
  The search ends at an element that is hit, or else at the place between the elements
  to the left and those to the right of the key.
\<close>

lemma search_interval:
  assumes "ordered xs" and "0 \<le> l" and "u < int (length xs)" and "l \<le> u + 1"
  shows "(\<exists>i. l \<le> int i \<and> int i \<le> u \<and> search xs k l u = int i \<and> hit k (xs ! i)) \<or>
         (\<exists>m. l \<le> int m \<and> int m \<le> u + 1 \<and> search xs k l u = fail (int m) \<and>
              (\<forall>j. l \<le> int j \<and> j < m \<longrightarrow> \<not> left k (xs ! j) \<and> \<not> hit k (xs ! j)) \<and>
              (\<forall>j. m \<le> j \<and> int j \<le> u \<longrightarrow> left k (xs ! j) \<and> \<not> hit k (xs ! j)))"
  (is "?Found l u \<or> ?Absent l u")
  using assms
proof (induction "nat (u - l + 1)" arbitrary: l u rule: less_induct)
  case less
  show ?case
  proof (cases "l \<le> u")
    case False
    then have "l = u + 1" using less.prems by simp
    then have "?Absent l u"
      using less.prems False by (intro exI [of _ "nat l"]) (auto simp: search_unfold)
    then show ?thesis ..
  next
    case True
    define i where "i = nat ((l + u) div 2)"
    have mid: "(l + u) div 2 = int i" and i: "l \<le> int i" "int i \<le> u" "i < length xs"
      using True less.prems by (auto simp: i_def)
    have step: "search xs k l u =
        (if hit k (xs ! i) then int i
         else if left k (xs ! i) then search xs k l (int i - 1) else search xs k (int i + 1) u)"
      by (subst search_unfold) (simp add: True mid Let_def)
    consider "hit k (xs ! i)" | "\<not> hit k (xs ! i)" "left k (xs ! i)"
      | "\<not> hit k (xs ! i)" "\<not> left k (xs ! i)" by blast
    then show ?thesis
    proof cases
      case 1
      then show ?thesis using step i by auto
    next
      case 2
      have above: "left k (xs ! j) \<and> \<not> hit k (xs ! j)" if "i \<le> j" "int j \<le> u" for j
        using that 2 left_up [OF \<open>ordered xs\<close>, of i j k] less.prems(3) by (cases "i = j") auto
      have "?Found l (int i - 1) \<or> ?Absent l (int i - 1)"
        using i less.prems by (intro less.hyps) auto
      then show ?thesis
      proof
        assume "?Found l (int i - 1)"
        then show ?thesis using step 2 i by fastforce
      next
        assume "?Absent l (int i - 1)"
        then obtain m where m: "l \<le> int m" "int m \<le> int i" "search xs k l (int i - 1) = fail (int m)"
          "\<forall>j. l \<le> int j \<and> j < m \<longrightarrow> \<not> left k (xs ! j) \<and> \<not> hit k (xs ! j)"
          "\<forall>j. m \<le> j \<and> int j \<le> int i - 1 \<longrightarrow> left k (xs ! j) \<and> \<not> hit k (xs ! j)" by auto
        have "\<forall>j. m \<le> j \<and> int j \<le> u \<longrightarrow> left k (xs ! j) \<and> \<not> hit k (xs ! j)"
          using m(5) above by (metis less_le_not_le linorder_le_cases of_nat_less_iff zle_diff1_eq)
        then have "?Absent l u" using m(1-4) step 2 i by (intro exI [of _ m]) auto
        then show ?thesis ..
      qed
    next
      case 3
      have below: "\<not> left k (xs ! j) \<and> \<not> hit k (xs ! j)" if "j \<le> i" for j
        using that 3 right_down [OF \<open>ordered xs\<close>, of j i k] i(3) by (cases "i = j") auto
      have "?Found (int i + 1) u \<or> ?Absent (int i + 1) u"
        using i less.prems by (intro less.hyps) auto
      then show ?thesis
      proof
        assume "?Found (int i + 1) u"
        then show ?thesis using step 3 i by fastforce
      next
        assume "?Absent (int i + 1) u"
        then obtain m where m: "int i + 1 \<le> int m" "int m \<le> u + 1" "search xs k (int i + 1) u = fail (int m)"
          "\<forall>j. int i + 1 \<le> int j \<and> j < m \<longrightarrow> \<not> left k (xs ! j) \<and> \<not> hit k (xs ! j)"
          "\<forall>j. m \<le> j \<and> int j \<le> u \<longrightarrow> left k (xs ! j) \<and> \<not> hit k (xs ! j)" by blast
        have "\<forall>j. l \<le> int j \<and> j < m \<longrightarrow> \<not> left k (xs ! j) \<and> \<not> hit k (xs ! j)"
          using m(4) below by (metis add1_zle_eq not_le of_nat_le_iff)
        then have "?Absent l u" using m(1-3,5) step 3 i by (intro exI [of _ m]) auto
        then show ?thesis ..
      qed
    qed
  qed
qed

lemma search_whole:
  assumes "ordered xs"
  obtains (found) i where "i < length xs" "search xs k 0 (int (length xs) - 1) = int i" "hit k (xs ! i)"
    | (absent) m where "m \<le> length xs" "search xs k 0 (int (length xs) - 1) = fail (int m)"
      "\<forall>j<m. \<not> left k (xs ! j) \<and> \<not> hit k (xs ! j)"
      "\<forall>j. m \<le> j \<and> j < length xs \<longrightarrow> left k (xs ! j) \<and> \<not> hit k (xs ! j)"
  using search_interval [OF assms, of 0 "int (length xs) - 1" k]
  by (auto simp: zle_diff1_eq)

end

definition range_hit :: "rat \<Rightarrow> data_range \<Rightarrow> bool" where
  "range_hit key r \<longleftrightarrow> of_int (start r) \<le> key \<and> key \<le> of_int (stop r)"

definition range_left :: "rat \<Rightarrow> data_range \<Rightarrow> bool" where
  "range_left key r \<longleftrightarrow> key < of_int (start r)"

text \<open>The ranges of a timeline: non-empty intervals, in order and apart from each other.\<close>

definition ranges_ordered :: "data_range list \<Rightarrow> bool" where
  "ranges_ordered rs \<longleftrightarrow>
     (\<forall>r\<in>set rs. start r \<le> stop r) \<and> sorted_wrt (\<lambda>a b. stop a < start b) rs"

definition events_ordered :: "event list \<Rightarrow> bool" where
  "events_ordered es \<longleftrightarrow> sorted_wrt (\<lambda>a b. ev_at a \<le> ev_at b) es"

lemma ranges_ordered_nth:
  assumes "ranges_ordered rs" and "i < j" and "j < length rs"
  shows "start (rs ! i) \<le> stop (rs ! i)" and "stop (rs ! i) < start (rs ! j)"
    and "start (rs ! j) \<le> stop (rs ! j)"
  using assms by (auto simp: ranges_ordered_def sorted_wrt_iff_nth_less)

interpretation range_bisection:
  bisection search_range range_hit range_left "\<lambda>_. - 1" ranges_ordered
proof
  fix rs :: "data_range list" and k :: rat and l u :: int
  show "search_range rs k l u =
         (if l \<le> u then
            (let i = (l + u) div 2
             in if range_hit k (rs ! nat i) then i
                else if range_left k (rs ! nat i) then search_range rs k l (i - 1)
                else search_range rs k (i + 1) u)
          else - 1)"
    by (subst search_range.simps) (simp add: Let_def range_hit_def range_left_def)
next
  fix rs :: "data_range list" and i j and k :: rat
  assume r: "ranges_ordered rs" "i < j" "j < length rs"
  note o = ranges_ordered_nth [OF r]
  have lt: "(of_int (stop (rs ! i)) :: rat) < of_int (start (rs ! j))"
    and le: "(of_int (start (rs ! i)) :: rat) \<le> of_int (stop (rs ! i))"
      "(of_int (start (rs ! j)) :: rat) \<le> of_int (stop (rs ! j))"
    using o by simp_all
  show "range_left k (rs ! j) \<and> \<not> range_hit k (rs ! j)" if "range_left k (rs ! i)"
    using that lt le unfolding range_left_def range_hit_def by linarith
  show "\<not> range_left k (rs ! i) \<and> \<not> range_hit k (rs ! i)"
    if "\<not> range_left k (rs ! j)" "\<not> range_hit k (rs ! j)"
    using that lt le unfolding range_left_def range_hit_def by linarith
qed

interpretation event_bisection:
  bisection search_event "\<lambda>k e. k = of_int (ev_at e)" "\<lambda>k e. k < of_int (ev_at e)" "\<lambda>l. l" events_ordered
proof
  fix es :: "event list" and k :: rat and l u :: int
  show "search_event es k l u =
         (if l \<le> u then
            (let i = (l + u) div 2
             in if k = of_int (ev_at (es ! nat i)) then i
                else if k < of_int (ev_at (es ! nat i)) then search_event es k l (i - 1)
                else search_event es k (i + 1) u)
          else l)"
    by (subst search_event.simps) (simp add: Let_def)
next
  fix es :: "event list" and i j and k :: rat
  assume "events_ordered es" "i < j" "j < length es"
  then have le: "(of_int (ev_at (es ! i)) :: rat) \<le> of_int (ev_at (es ! j))"
    by (auto simp: events_ordered_def sorted_wrt_iff_nth_less)
  show "k < of_int (ev_at (es ! j)) \<and> k \<noteq> of_int (ev_at (es ! j))" if "k < of_int (ev_at (es ! i))"
    using that le by simp
  show "\<not> k < of_int (ev_at (es ! i)) \<and> k \<noteq> of_int (ev_at (es ! i))"
    if "\<not> k < of_int (ev_at (es ! j))" "k \<noteq> of_int (ev_at (es ! j))"
    using that le by simp
qed

section \<open>Windows of a timeline\<close>

definition covers :: "data_range list \<Rightarrow> rat \<Rightarrow> bool" where
  "covers rs key \<longleftrightarrow> (\<exists>r\<in>set rs. range_hit key r)"

lemma tdr_search_cases:
  assumes "ranges_ordered (ranges t)"
  obtains (found) i where "tdr_search t key = int i" "i < length (ranges t)" "covers (ranges t) key"
      "\<forall>j<length (ranges t). (key \<le> of_int (stop (ranges t ! j)) \<longleftrightarrow> i \<le> j) \<and>
        (of_int (start (ranges t ! j)) \<le> key \<longleftrightarrow> j \<le> i)"
  | (absent) "tdr_search t key = - 1" "\<not> covers (ranges t) key"
proof (rule range_bisection.search_whole [OF assms, of key])
  fix i
  assume i: "i < length (ranges t)"
    and f: "search_range (ranges t) key 0 (int (length (ranges t)) - 1) = int i"
    and h: "range_hit key (ranges t ! i)"
  have "(key \<le> of_int (stop (ranges t ! j)) \<longleftrightarrow> i \<le> j) \<and>
        (of_int (start (ranges t ! j)) \<le> key \<longleftrightarrow> j \<le> i)" if j: "j < length (ranges t)" for j
  proof (cases i j rule: linorder_cases)
    case less
    from ranges_ordered_nth [OF assms less j]
    have "(of_int (stop (ranges t ! i)) :: rat) < of_int (start (ranges t ! j))"
      "(of_int (start (ranges t ! j)) :: rat) \<le> of_int (stop (ranges t ! j))" by simp_all
    with less h show ?thesis by (auto simp: range_hit_def)
  next
    case greater
    from ranges_ordered_nth [OF assms greater i]
    have "(of_int (stop (ranges t ! j)) :: rat) < of_int (start (ranges t ! i))"
      "(of_int (start (ranges t ! j)) :: rat) \<le> of_int (stop (ranges t ! j))" by simp_all
    with greater h show ?thesis by (auto simp: range_hit_def)
  qed (use h in \<open>simp add: range_hit_def\<close>)
  moreover have "covers (ranges t) key" using i h by (auto simp: covers_def)
  ultimately show thesis using found f i by (simp add: tdr_search_def)
next
  fix m
  assume "search_range (ranges t) key 0 (int (length (ranges t)) - 1) = - 1"
    and "\<forall>j<m. \<not> range_left key (ranges t ! j) \<and> \<not> range_hit key (ranges t ! j)"
    and "\<forall>j. m \<le> j \<and> j < length (ranges t) \<longrightarrow>
        range_left key (ranges t ! j) \<and> \<not> range_hit key (ranges t ! j)"
  then show thesis
    by (intro absent) (auto simp: tdr_search_def covers_def in_set_conv_nth, metis not_le)
qed

lemma get_ranges_slice:
  "get_ranges t lo hi = slice (ranges t) (fst (get_ranges_bounds t lo hi)) (snd (get_ranges_bounds t lo hi))"
  by (simp add: get_ranges_def get_ranges_bounds_def Let_def slice_def slice_pos_def)

lemma tdr_search_found:
  assumes "ranges_ordered (ranges t)" and "covers (ranges t) key"
  obtains i where "tdr_search t key = int i"
      "\<And>j. j < length (ranges t) \<Longrightarrow> key \<le> of_int (stop (ranges t ! j)) \<longleftrightarrow> i \<le> j"
      "\<And>j. j < length (ranges t) \<Longrightarrow> of_int (start (ranges t ! j)) \<le> key \<longleftrightarrow> j \<le> i"
proof (cases rule: tdr_search_cases [OF assms(1), of key])
  case (1 i)
  then show thesis by (intro that [of i]) simp_all
qed (use assms(2) in simp)

lemma tdr_search_absent:
  "ranges_ordered (ranges t) \<Longrightarrow> \<not> covers (ranges t) key \<Longrightarrow> tdr_search t key = - 1"
  by (erule tdr_search_cases) auto

lemma get_ranges_both:
  assumes "ranges_ordered (ranges t)" and "covers (ranges t) lo" and "covers (ranges t) hi"
  shows "get_ranges t lo hi = filter (\<lambda>r. lo \<le> of_int (stop r) \<and> of_int (start r) \<le> hi) (ranges t)"
proof -
  obtain s where s: "tdr_search t lo = int s"
    "\<And>j. j < length (ranges t) \<Longrightarrow> lo \<le> of_int (stop (ranges t ! j)) \<longleftrightarrow> s \<le> j"
    "\<And>j. j < length (ranges t) \<Longrightarrow> of_int (start (ranges t ! j)) \<le> lo \<longleftrightarrow> j \<le> s"
    by (rule tdr_search_found [OF assms(1,2)]) (rule that)
  obtain e where e: "tdr_search t hi = int e"
    "\<And>j. j < length (ranges t) \<Longrightarrow> hi \<le> of_int (stop (ranges t ! j)) \<longleftrightarrow> e \<le> j"
    "\<And>j. j < length (ranges t) \<Longrightarrow> of_int (start (ranges t ! j)) \<le> hi \<longleftrightarrow> j \<le> e"
    by (rule tdr_search_found [OF assms(1,3)]) (rule that)
  have "get_ranges t lo hi = drop s (take (Suc e) (ranges t))"
    by (simp add: get_ranges_def slice_nat_Suc s(1) e(1))
  also have "\<dots> = filter (\<lambda>r. lo \<le> of_int (stop r) \<and> of_int (start r) \<le> hi) (ranges t)"
    by (rule filter_interval [symmetric]) (simp add: s(2) e(3) less_Suc_eq_le)
  finally show ?thesis .
qed

lemma get_ranges_left_only:
  assumes "ranges_ordered (ranges t)" and "covers (ranges t) lo" and "\<not> covers (ranges t) hi"
  shows "get_ranges t lo hi = filter (\<lambda>r. lo \<le> of_int (stop r)) (ranges t)"
proof -
  obtain s where s: "tdr_search t lo = int s"
    "\<And>j. j < length (ranges t) \<Longrightarrow> lo \<le> of_int (stop (ranges t ! j)) \<longleftrightarrow> s \<le> j"
    "\<And>j. j < length (ranges t) \<Longrightarrow> of_int (start (ranges t ! j)) \<le> lo \<longleftrightarrow> j \<le> s"
    by (rule tdr_search_found [OF assms(1,2)]) (rule that)
  have "get_ranges t lo hi = drop s (take (length (ranges t)) (ranges t))"
    by (simp add: get_ranges_def slice_nat s(1) tdr_search_absent [OF assms(1,3)])
  also have "\<dots> = filter (\<lambda>r. lo \<le> of_int (stop r)) (ranges t)"
    by (rule filter_interval [symmetric]) (simp add: s(2))
  finally show ?thesis .
qed

lemma get_ranges_right_only:
  assumes "ranges_ordered (ranges t)" and "\<not> covers (ranges t) lo" and "covers (ranges t) hi"
  shows "get_ranges t lo hi = filter (\<lambda>r. of_int (start r) \<le> hi) (ranges t)"
proof -
  obtain e where e: "tdr_search t hi = int e"
    "\<And>j. j < length (ranges t) \<Longrightarrow> hi \<le> of_int (stop (ranges t ! j)) \<longleftrightarrow> e \<le> j"
    "\<And>j. j < length (ranges t) \<Longrightarrow> of_int (start (ranges t ! j)) \<le> hi \<longleftrightarrow> j \<le> e"
    by (rule tdr_search_found [OF assms(1,3)]) (rule that)
  have "get_ranges t lo hi = drop 0 (take (Suc e) (ranges t))"
    using slice_nat_Suc [of "ranges t" 0 e]
    by (simp add: get_ranges_def e(1) tdr_search_absent [OF assms(1,2)])
  also have "\<dots> = filter (\<lambda>r. of_int (start r) \<le> hi) (ranges t)"
    by (rule filter_interval [symmetric]) (simp add: e(3) less_Suc_eq_le)
  finally show ?thesis .
qed

lemma get_ranges_neither:
  "ranges_ordered (ranges t) \<Longrightarrow> \<not> covers (ranges t) lo \<Longrightarrow> \<not> covers (ranges t) hi \<Longrightarrow>
   get_ranges t lo hi = []"
  by (simp add: get_ranges_def tdr_search_absent)

text \<open>
  C15. The window of a timeline of ordered, disjoint ranges.  When a range lies under
  each edge of the window, \<open>get_ranges\<close> returns exactly the ranges that meet the window;
  when only the left edge is covered, every range from there to the end of the timeline;
  when only the right edge is, every range from the beginning up to it; and when both
  edges fall between ranges, nothing.
\<close>

theorem get_ranges_window:
  assumes "ranges_ordered (ranges t)"
  shows "get_ranges t lo hi =
    (if covers (ranges t) lo \<and> covers (ranges t) hi
       then filter (\<lambda>r. lo \<le> of_int (stop r) \<and> of_int (start r) \<le> hi) (ranges t)
     else if covers (ranges t) lo then filter (\<lambda>r. lo \<le> of_int (stop r)) (ranges t)
     else if covers (ranges t) hi then filter (\<lambda>r. of_int (start r) \<le> hi) (ranges t)
     else [])"
  using assms by (simp add: get_ranges_both get_ranges_left_only get_ranges_right_only get_ranges_neither)

definition sample_ranges :: timeline_data_range where
  "sample_ranges = \<lparr>range_name = ''state'', ranges =
     [\<lparr>start = 0, stop = 3, range_value = ''a''\<rparr>, \<lparr>start = 5, stop = 8, range_value = ''b''\<rparr>,
      \<lparr>start = 10, stop = 12, range_value = ''c''\<rparr>]\<rparr>"

theorem get_ranges_window_witness:
  "get_ranges sample_ranges 2 6 = take 2 (ranges sample_ranges)"
  using get_ranges_window [of sample_ranges 2 6]
  by (simp add: sample_ranges_def ranges_ordered_def covers_def range_hit_def)

text \<open>
  The last case is a defect: a window whose edges both fall between ranges shows no
  range at all, although the range in the middle lies inside it.
\<close>

lemma get_ranges_gap:
  "get_ranges sample_ranges 4 9 = []"
  "\<lparr>start = 5, stop = 8, range_value = ''b''\<rparr> \<in> set (ranges sample_ranges)"
  by (simp_all add: get_ranges_neither sample_ranges_def ranges_ordered_def covers_def range_hit_def)

lemma te_search_cases:
  assumes "sorted_wrt (\<lambda>a b. ev_at a < ev_at b) (events t)"
  obtains i where "te_search t key = int i" "i \<le> length (events t)"
      "\<forall>j<length (events t). (of_int (ev_at (events t ! j)) < key \<longleftrightarrow> j < i)"
      "(\<exists>e\<in>set (events t). key = of_int (ev_at e)) \<longleftrightarrow> i < length (events t) \<and> key = of_int (ev_at (events t ! i))"
proof -
  have o: "events_ordered (events t)"
    using assms unfolding events_ordered_def by (rule sorted_wrt_mono_rel [rotated]) simp
  have lt: "(of_int (ev_at (events t ! i)) :: rat) < of_int (ev_at (events t ! j))"
    if "i < j" "j < length (events t)" for i j
    using that assms by (simp add: sorted_wrt_iff_nth_less)
  show thesis
  proof (rule event_bisection.search_whole [OF o, of key])
    fix i
    assume i: "i < length (events t)"
      and s: "search_event (events t) key 0 (int (length (events t)) - 1) = int i"
      and h: "key = of_int (ev_at (events t ! i))"
    have "(of_int (ev_at (events t ! j)) < key \<longleftrightarrow> j < i)" if "j < length (events t)" for j
      using lt [of i j] lt [of j i] that i h by (cases i j rule: linorder_cases) auto
    moreover have "\<exists>e\<in>set (events t). key = of_int (ev_at e)" using i h by auto
    ultimately show thesis using i s h by (intro that [of i]) (simp_all add: te_search_def)
  next
    fix m
    assume m: "m \<le> length (events t)"
      "search_event (events t) key 0 (int (length (events t)) - 1) = int m"
      "\<forall>j<m. \<not> key < of_int (ev_at (events t ! j)) \<and> key \<noteq> of_int (ev_at (events t ! j))"
      "\<forall>j. m \<le> j \<and> j < length (events t) \<longrightarrow>
         key < of_int (ev_at (events t ! j)) \<and> key \<noteq> of_int (ev_at (events t ! j))"
    have *: "(of_int (ev_at (events t ! j)) < key \<longleftrightarrow> j < m) \<and> key \<noteq> of_int (ev_at (events t ! j))"
      if "j < length (events t)" for j
    proof (cases "j < m")
      case True
      with m(3) show ?thesis by (meson linorder_neqE)
    next
      case False
      with m(4) that have "key < of_int (ev_at (events t ! j))" by simp
      with False show ?thesis by simp
    qed
    then have "\<not> (\<exists>e\<in>set (events t). key = of_int (ev_at e))" by (metis in_set_conv_nth)
    moreover have "\<not> (m < length (events t) \<and> key = of_int (ev_at (events t ! m)))" using * by blast
    ultimately show thesis using * m(1,2) by (intro that [of m]) (simp_all add: te_search_def)
  qed
qed

text \<open>
  For events at increasing times \<open>get_events\<close> returns the events inside the window
  and, unless an event lies on the right edge, the first event after the window too.
\<close>

theorem get_events_window:
  assumes "sorted_wrt (\<lambda>a b. ev_at a < ev_at b) (events t)" and "lo \<le> hi"
  shows "get_events t lo hi =
    filter (\<lambda>e. lo \<le> of_int (ev_at e) \<and> of_int (ev_at e) \<le> hi) (events t) @
    (if \<exists>e\<in>set (events t). hi = of_int (ev_at e) then []
     else take 1 (filter (\<lambda>e. hi < of_int (ev_at e)) (events t)))"
proof -
  let ?es = "events t"
  obtain s where s: "te_search t lo = int s"
    "\<forall>j<length ?es. of_int (ev_at (?es ! j)) < lo \<longleftrightarrow> j < s"
    by (rule te_search_cases [OF assms(1), of lo]) (rule that)
  obtain e where e: "te_search t hi = int e" "e \<le> length ?es"
    "\<forall>j<length ?es. of_int (ev_at (?es ! j)) < hi \<longleftrightarrow> j < e"
    "(\<exists>x\<in>set ?es. hi = of_int (ev_at x)) \<longleftrightarrow> e < length ?es \<and> hi = of_int (ev_at (?es ! e))"
    by (rule te_search_cases [OF assms(1), of hi]) (rule that)
  have se: "s \<le> e \<or> length ?es \<le> e"
  proof (rule ccontr)
    assume "\<not> ?thesis"
    then have "of_int (ev_at (?es ! e)) < lo" "\<not> of_int (ev_at (?es ! e)) < hi" using s(2) e(3) by auto
    with assms(2) show False by simp
  qed
  have g: "get_events t lo hi = drop s (take (Suc e) ?es)"
    by (simp add: get_events_def s(1) e(1) slice_nat_Suc)
  have ge: "lo \<le> of_int (ev_at (?es ! j)) \<longleftrightarrow> s \<le> j" if "j < length ?es" for j
    using s(2) that by (meson not_le)
  show ?thesis
  proof (cases "\<exists>x\<in>set ?es. hi = of_int (ev_at x)")
    case True
    then have h: "e < length ?es" "hi = of_int (ev_at (?es ! e))" using e(4) by blast+
    have "of_int (ev_at (?es ! j)) \<le> hi \<longleftrightarrow> j < Suc e" if "j < length ?es" for j
    proof -
      have "e < j \<Longrightarrow> ev_at (?es ! e) < ev_at (?es ! j)"
        using assms(1) that by (simp add: sorted_wrt_iff_nth_less)
      moreover have "ev_at (?es ! j) < ev_at (?es ! e) \<longleftrightarrow> j < e"
        using e(3) that h(2) by simp
      ultimately show ?thesis unfolding h(2) by (cases j e rule: linorder_cases) auto
    qed
    with True g ge show ?thesis by (simp add: filter_interval [of ?es _ s "Suc e"])
  next
    case False
    then have ne: "hi \<noteq> of_int (ev_at (?es ! j))" if "j < length ?es" for j
      using that by (metis nth_mem)
    have le: "of_int (ev_at (?es ! j)) \<le> hi \<longleftrightarrow> j < e" if "j < length ?es" for j
      using e(3) ne [OF that] that by (auto simp: order.order_iff_strict)
    have "filter (\<lambda>x. lo \<le> of_int (ev_at x) \<and> of_int (ev_at x) \<le> hi) ?es = drop s (take e ?es)"
      using ge le by (intro filter_interval) auto
    moreover have "filter (\<lambda>x. hi < of_int (ev_at x)) ?es = drop e (take (length ?es) ?es)"
      using le by (intro filter_interval) (auto simp: not_le [symmetric] simp del: not_le)
    moreover have "drop s (take (Suc e) ?es) = drop s (take e ?es) @ take 1 (drop e ?es)"
      using se e(2) by (cases "e < length ?es") (auto simp: take_Suc_conv_app_nth take_Suc hd_drop_conv_nth)
    ultimately show ?thesis using False g by simp
  qed
qed

definition sample_events :: timeline_event where
  "sample_events = \<lparr>event_name = ''tx'', events =
     [\<lparr>ev_at = 1, event_value = IntVal 7\<rparr>, \<lparr>ev_at = 4, event_value = IntVal 8\<rparr>,
      \<lparr>ev_at = 9, event_value = IntVal 9\<rparr>]\<rparr>"

theorem get_events_window_witness:
  "get_events sample_events 2 5 = drop 1 (events sample_events)"
  using get_events_window [of sample_events 2 5] by (simp add: sample_events_def)

end
