(* ===== verification/Grid_Read.thy ===== *)
theory Grid_Read
  imports Grid_Data "HOL-Library.Monad_Syntax"
begin

text \<open>
  \<open>read_data\<close> of \<open>src/utils/grid.py\<close>: the four line formats, what a line adds to the
  named timelines and to the colour table, and the sort at the end.  The content of the
  file is the argument.  The lemmas show that the timelines hold exactly the records of
  the file under the names the lines give, in time order, and that the bounds enclose them.
\<close>

section \<open>Line formats\<close>

text \<open>
  The regular expressions are sequences of literals, words without a space, numbers and
  pairs of hexadecimal digits.  A word or a number inside a pattern is followed by a space,
  so the only split that can match is the longest one, as for the number at the end.
\<close>

definition re_word :: "string \<Rightarrow> (string \<times> string) option" where
  "re_word s = re_span (\<lambda>c. c \<noteq> CHR '' '') s"

definition hex_val :: "char \<Rightarrow> nat option" where
  "hex_val c =
     (let n = of_char c in
      if 48 \<le> n \<and> n \<le> 57 then Some (n - 48)
      else if 97 \<le> n \<and> n \<le> 102 then Some (n - 87)
      else if 65 \<le> n \<and> n \<le> 70 then Some (n - 55)
      else None)"

text \<open>Two hexadecimal digits, with \<open>int(group, 16)\<close> of them.\<close>

fun re_hex2 :: "string \<Rightarrow> (int \<times> string) option" where
  "re_hex2 (a # b # s) =
     do { x \<leftarrow> hex_val a; y \<leftarrow> hex_val b; Some (int (16 * x + y), s) }"
| "re_hex2 _ = None"

definition match_range :: "string \<Rightarrow> (string \<times> string \<times> data_range) option" where
  "match_range line =
     do { s \<leftarrow> re_lit ''range '' line;
          (g1, s) \<leftarrow> re_word s; s \<leftarrow> re_lit '' '' s;
          (g2, s) \<leftarrow> re_word s; s \<leftarrow> re_lit '' '' s;
          (g3, s) \<leftarrow> re_word s; s \<leftarrow> re_lit '' '' s;
          (g4, s) \<leftarrow> re_digits s; s \<leftarrow> re_lit '' '' s;
          (g5, s) \<leftarrow> re_digits s;
          Some (g1, g2, \<lparr>start = int (dec_val g4), stop = int (dec_val g5), range_value = g3\<rparr>) }"

definition match_event_str :: "string \<Rightarrow> (string \<times> string \<times> event) option" where
  "match_event_str line =
     do { s \<leftarrow> re_lit ''event-str '' line;
          (g1, s) \<leftarrow> re_word s; s \<leftarrow> re_lit '' '' s;
          (g2, s) \<leftarrow> re_word s; s \<leftarrow> re_lit '' '' s;
          (g3, s) \<leftarrow> re_word s; s \<leftarrow> re_lit '' '' s;
          (g4, s) \<leftarrow> re_digits s;
          Some (g1, g2, \<lparr>ev_at = int (dec_val g4), event_value = StrVal g3\<rparr>) }"

definition match_event_int :: "string \<Rightarrow> (string \<times> string \<times> event) option" where
  "match_event_int line =
     do { s \<leftarrow> re_lit ''event-int '' line;
          (g1, s) \<leftarrow> re_word s; s \<leftarrow> re_lit '' '' s;
          (g2, s) \<leftarrow> re_word s; s \<leftarrow> re_lit '' '' s;
          (g3, s) \<leftarrow> re_digits s; s \<leftarrow> re_lit '' '' s;
          (g4, s) \<leftarrow> re_digits s;
          Some (g1, g2, \<lparr>ev_at = int (dec_val g4), event_value = IntVal (int (dec_val g3))\<rparr>) }"

definition match_color :: "string \<Rightarrow> (string \<times> int \<times> int \<times> int) option" where
  "match_color line =
     do { s \<leftarrow> re_lit ''color '' line;
          (g1, s) \<leftarrow> re_word s; s \<leftarrow> re_lit '' #'' s;
          (r, s) \<leftarrow> re_hex2 s; (g, s) \<leftarrow> re_hex2 s; (b, s) \<leftarrow> re_hex2 s;
          Some (g1, r, g, b) }"

section \<open>Reading\<close>

text \<open>
  What a line does with the timeline it names: \<open>timelines.get\<close>, then a change of that
  timeline in place; likewise for the list it names in the timeline.
\<close>

definition on_timeline :: "string \<Rightarrow> (timeline \<Rightarrow> timeline) \<Rightarrow> timelines \<Rightarrow> timelines" where
  "on_timeline name f ts = (case timelines_get name ts of (ts', i) \<Rightarrow> ts'[i := f (ts' ! i)])"

definition on_range :: "string \<Rightarrow> data_range \<Rightarrow> timeline \<Rightarrow> timeline" where
  "on_range name r t =
     (case get_range name t of (t', i) \<Rightarrow>
      t'\<lparr>tl_ranges := (tl_ranges t')[i := add_range r (tl_ranges t' ! i)]\<rparr>)"

definition on_event_str :: "string \<Rightarrow> event \<Rightarrow> timeline \<Rightarrow> timeline" where
  "on_event_str name e t =
     (case get_event_str name t of (t', i) \<Rightarrow>
      t'\<lparr>event_str := (event_str t')[i := add_event e (event_str t' ! i)]\<rparr>)"

definition on_event_int :: "string \<Rightarrow> event \<Rightarrow> timeline \<Rightarrow> timeline" where
  "on_event_int name e t =
     (case get_event_int name t of (t', i) \<Rightarrow>
      t'\<lparr>event_int := (event_int t')[i := add_event e (event_int t' ! i)]\<rparr>)"

text \<open>A colour channel: \<open>r / 255\<close> of two integers.\<close>

definition channel :: "int \<Rightarrow> pynum" where
  "channel r = PInt (r div 255)"

definition read_line :: "string \<Rightarrow> timelines \<times> colors \<Rightarrow> timelines \<times> colors" where
  "read_line line st =
     (case st of (ts, cs) \<Rightarrow>
      (case match_range line of
         Some (g1, g2, r) \<Rightarrow> (on_timeline g1 (on_range g2 r) ts, cs)
       | None \<Rightarrow>
      (case match_event_str line of
         Some (g1, g2, e) \<Rightarrow> (on_timeline g1 (on_event_str g2 e) ts, cs)
       | None \<Rightarrow>
      (case match_event_int line of
         Some (g1, g2, e) \<Rightarrow> (on_timeline g1 (on_event_int g2 e) ts, cs)
       | None \<Rightarrow>
      (case match_color line of
         Some (g1, r, g, b) \<Rightarrow>
           (ts, colors_add g1 (mk_color (channel r) (channel g) (channel b)) cs)
       | None \<Rightarrow> (ts, cs))))))"

definition read_data :: "string \<Rightarrow> colors \<times> timelines" where
  "read_data content =
     (case fold read_line (readlines content) ([], new_colors) of
        (ts, cs) \<Rightarrow> (cs, timelines_sort ts))"

section \<open>Named lists\<close>

definition lookup_named :: "('a \<Rightarrow> string) \<Rightarrow> string \<Rightarrow> 'a list \<Rightarrow> 'a option" where
  "lookup_named name_of name xs = find (\<lambda>x. name_of x = name) xs"

lemma lookup_named_simps [simp]:
  "lookup_named f n [] = None"
  "lookup_named f n (x # xs) = (if f x = n then Some x else lookup_named f n xs)"
  by (simp_all add: lookup_named_def)

lemma lookup_named_append:
  "lookup_named f n (xs @ ys) = (case lookup_named f n xs of None \<Rightarrow> lookup_named f n ys | Some x \<Rightarrow> Some x)"
  by (induction xs) (auto simp: lookup_named_def)

lemma lookup_named_None: "lookup_named f n xs = None \<longleftrightarrow> n \<notin> f ` set xs"
  by (auto simp: lookup_named_def find_None_iff)

lemma lookup_named_map:
  "(\<And>x. f (g x) = f x) \<Longrightarrow> lookup_named f n (map g xs) = map_option g (lookup_named f n xs)"
  by (induction xs) (auto simp: lookup_named_def)

text \<open>
  The contract of the containers that create an entry on the first use of a name.
\<close>

locale named_registry =
  fixes name_of :: "'a \<Rightarrow> string" and fresh :: "string \<Rightarrow> 'a"
  assumes name_fresh: "name_of (fresh n) = n"
begin

lemma get_cases:
  obtains (old) as x bs where "xs = as @ x # bs" "n \<notin> name_of ` set as" "name_of x = n"
      "get_or_create name_of fresh n xs = (as @ x # bs, length as)"
  | (new) "n \<notin> name_of ` set xs" "get_or_create name_of fresh n xs = (xs @ [fresh n], length xs)"
proof (cases "n \<in> name_of ` set xs")
  case False
  then have "takeWhile (\<lambda>x. name_of x \<noteq> n) xs = xs" by (auto simp: takeWhile_eq_all_conv)
  with False new show thesis by (simp add: get_or_create_def)
next
  case True
  then obtain as x bs where x: "xs = as @ x # bs" "name_of x = n" "\<forall>y\<in>set as. name_of y \<noteq> n"
    using split_list_first_prop [of xs "\<lambda>x. name_of x = n"] by blast
  then have "takeWhile (\<lambda>x. name_of x \<noteq> n) xs = as" by simp
  with x old show thesis by (force simp: get_or_create_def)
qed

text \<open>The entry the caller gets, and what a change of it in place does to later lookups.\<close>

lemma get_entry:
  assumes "get_or_create name_of fresh n xs = (ys, i)"
  shows "i < length ys" and "name_of (ys ! i) = n"
    and "ys ! i = (case lookup_named name_of n xs of None \<Rightarrow> fresh n | Some x \<Rightarrow> x)"
  using assms by (cases rule: get_cases [of xs n];
    auto simp: lookup_named_append iffD2 [OF lookup_named_None] name_fresh)+

lemma lookup_update:
  assumes "get_or_create name_of fresh n xs = (ys, i)" and "name_of y = n"
  shows "lookup_named name_of m (ys[i := y]) = (if m = n then Some y else lookup_named name_of m xs)"
proof (cases rule: get_cases [of xs n])
  case (old as x bs)
  then show ?thesis
    using assms by (auto simp: lookup_named_append iffD2 [OF lookup_named_None] split: option.split)
next
  case new
  then show ?thesis
    using assms by (auto simp: lookup_named_append iffD2 [OF lookup_named_None] split: option.split)
qed

lemma names_update:
  assumes "get_or_create name_of fresh n xs = (ys, i)" and "name_of y = n"
    and "distinct (map name_of xs)"
  shows "distinct (map name_of (ys[i := y]))"
  using assms by (cases rule: get_cases [of xs n]) auto

end

interpretation range_registry: named_registry range_name new_range
  by unfold_locales (simp add: new_range_def)

interpretation event_registry: named_registry event_name new_event
  by unfold_locales (simp add: new_event_def)

interpretation timeline_registry: named_registry timeline_name new_timeline
  by unfold_locales (simp add: new_timeline_def)

section \<open>What the timelines hold\<close>

definition range_list :: "string \<Rightarrow> timeline \<Rightarrow> data_range list" where
  "range_list name t = (case lookup_named range_name name (tl_ranges t) of None \<Rightarrow> [] | Some r \<Rightarrow> ranges r)"

definition event_list :: "string \<Rightarrow> timeline_event list \<Rightarrow> event list" where
  "event_list name es = (case lookup_named event_name name es of None \<Rightarrow> [] | Some e \<Rightarrow> events e)"

definition on_named :: "string \<Rightarrow> (timeline \<Rightarrow> 'a list) \<Rightarrow> timelines \<Rightarrow> 'a list" where
  "on_named tn f ts = (case lookup_named timeline_name tn ts of None \<Rightarrow> [] | Some t \<Rightarrow> f t)"

text \<open>The records under a timeline name and a list name, of the three kinds.\<close>

definition stored_ranges :: "string \<Rightarrow> string \<Rightarrow> timelines \<Rightarrow> data_range list" where
  "stored_ranges tn name ts = on_named tn (range_list name) ts"

definition stored_str :: "string \<Rightarrow> string \<Rightarrow> timelines \<Rightarrow> event list" where
  "stored_str tn name ts = on_named tn (\<lambda>t. event_list name (event_str t)) ts"

definition stored_int :: "string \<Rightarrow> string \<Rightarrow> timelines \<Rightarrow> event list" where
  "stored_int tn name ts = on_named tn (\<lambda>t. event_list name (event_int t)) ts"

lemmas stored_defs = stored_ranges_def stored_str_def stored_int_def

lemma on_named_on_timeline:
  assumes "\<And>t. timeline_name (f t) = timeline_name t" and "g (new_timeline tn) = []"
    and "\<And>t. g (f t) = g t @ d"
  shows "on_named tn' g (on_timeline tn f ts) = on_named tn' g ts @ (if tn' = tn then d else [])"
proof -
  obtain us i where u: "get_or_create timeline_name new_timeline tn ts = (us, i)" by (cases "get_or_create timeline_name new_timeline tn ts")
  note e = timeline_registry.get_entry [OF u]
  have "lookup_named timeline_name tn' (us[i := f (us ! i)]) =
      (if tn' = tn then Some (f (us ! i)) else lookup_named timeline_name tn' ts)"
    using e(2) by (intro timeline_registry.lookup_update [OF u]) (simp add: assms(1))
  then show ?thesis
    using e assms(2,3) by (auto simp: on_named_def on_timeline_def timelines_get_def u split: option.splits)
qed

lemma on_range_list:
  "range_list name' (on_range name r t) = range_list name' t @ (if name' = name then [r] else [])"
proof -
  obtain us i where u: "get_or_create range_name new_range name (tl_ranges t) = (us, i)"
    by (cases "get_or_create range_name new_range name (tl_ranges t)")
  note e = range_registry.get_entry [OF u]
  have "lookup_named range_name name' (us[i := add_range r (us ! i)]) =
      (if name' = name then Some (add_range r (us ! i)) else lookup_named range_name name' (tl_ranges t))"
    using e(2) by (intro range_registry.lookup_update [OF u]) (simp add: add_range_def)
  then show ?thesis
    using e by (auto simp: range_list_def on_range_def get_range_def u add_range_def new_range_def
        split: option.splits)
qed

lemma event_list_update:
  assumes u: "get_or_create event_name new_event name es = (us, i)"
  shows "event_list name' (us[i := add_event e (us ! i)]) =
    event_list name' es @ (if name' = name then [e] else [])"
proof -
  note g = event_registry.get_entry [OF u]
  have "lookup_named event_name name' (us[i := add_event e (us ! i)]) =
      (if name' = name then Some (add_event e (us ! i)) else lookup_named event_name name' es)"
    using g(2) by (intro event_registry.lookup_update [OF u]) (simp add: add_event_def)
  then show ?thesis
    using g by (auto simp: event_list_def add_event_def new_event_def split: option.splits)
qed

lemma on_event_str_list:
  "event_list name' (event_str (on_event_str name e t)) =
    event_list name' (event_str t) @ (if name' = name then [e] else [])"
  using event_list_update [of name "event_str t" _ _ name' e]
  by (cases "get_or_create event_name new_event name (event_str t)")
    (simp add: on_event_str_def get_event_str_def)

lemma on_event_int_list:
  "event_list name' (event_int (on_event_int name e t)) =
    event_list name' (event_int t) @ (if name' = name then [e] else [])"
  using event_list_update [of name "event_int t" _ _ name' e]
  by (cases "get_or_create event_name new_event name (event_int t)")
    (simp add: on_event_int_def get_event_int_def)

text \<open>An operation on one kind of record leaves the name and the other kinds alone.\<close>

lemma on_range_frame [simp]:
  "timeline_name (on_range name r t) = timeline_name t"
  "event_str (on_range name r t) = event_str t" "event_int (on_range name r t) = event_int t"
  by (simp_all add: on_range_def get_range_def split: prod.split)

lemma on_event_str_frame [simp]:
  "timeline_name (on_event_str name e t) = timeline_name t"
  "tl_ranges (on_event_str name e t) = tl_ranges t" "event_int (on_event_str name e t) = event_int t"
  by (simp_all add: on_event_str_def get_event_str_def split: prod.split)

lemma on_event_int_frame [simp]:
  "timeline_name (on_event_int name e t) = timeline_name t"
  "tl_ranges (on_event_int name e t) = tl_ranges t" "event_str (on_event_int name e t) = event_str t"
  by (simp_all add: on_event_int_def get_event_int_def split: prod.split)

lemma new_timeline_lists [simp]:
  "range_list name (new_timeline tn) = []"
  "event_str (new_timeline tn) = []" "event_int (new_timeline tn) = []" "event_list name [] = []"
  by (simp_all add: range_list_def new_timeline_def event_list_def)

lemma range_list_cong: "tl_ranges t = tl_ranges t' \<Longrightarrow> range_list name t = range_list name t'"
  by (simp add: range_list_def)

lemmas stored_update = stored_defs on_named_on_timeline on_range_list on_event_str_list on_event_int_list
  range_list_cong [OF on_event_str_frame(2)] range_list_cong [OF on_event_int_frame(2)]

text \<open>The records that the lines of a file describe.\<close>

definition selected :: "string \<Rightarrow> string \<Rightarrow> (string \<times> string \<times> 'a) option \<Rightarrow> 'a list" where
  "selected tn name m =
     (case m of None \<Rightarrow> [] | Some (g1, g2, x) \<Rightarrow> if g1 = tn \<and> g2 = name then [x] else [])"

lemma match_prefix:
  "match_range line = Some r \<Longrightarrow> \<exists>s. line = ''range '' @ s"
  "match_event_str line = Some e \<Longrightarrow> \<exists>s. line = ''event-str '' @ s"
  "match_event_int line = Some e \<Longrightarrow> \<exists>s. line = ''event-int '' @ s"
  by (auto simp: match_range_def match_event_str_def match_event_int_def bind_eq_Some_conv re_lit_prefix)

lemma match_exclusive:
  "match_range line = Some r \<Longrightarrow> match_event_str line = None"
  "match_range line = Some r \<Longrightarrow> match_event_int line = None"
  "match_event_str line = Some e \<Longrightarrow> match_event_int line = None"
proof -
  show "match_range line = Some r \<Longrightarrow> match_event_str line = None"
    by (cases "match_event_str line") (auto dest!: match_prefix)
  show "match_range line = Some r \<Longrightarrow> match_event_int line = None"
    by (cases "match_event_int line") (auto dest!: match_prefix)
  show "match_event_str line = Some e \<Longrightarrow> match_event_int line = None"
    by (cases "match_event_int line") (auto dest!: match_prefix)
qed

lemma read_line_stored:
  assumes "read_line line (ts, cs) = (ts', cs')"
  shows "stored_ranges tn name ts' = stored_ranges tn name ts @ selected tn name (match_range line)"
    and "stored_str tn name ts' = stored_str tn name ts @ selected tn name (match_event_str line)"
    and "stored_int tn name ts' = stored_int tn name ts @ selected tn name (match_event_int line)"
proof -
  consider r where "match_range line = Some r"
    | e where "match_range line = None" "match_event_str line = Some e"
    | e where "match_range line = None" "match_event_str line = None" "match_event_int line = Some e"
    | "match_range line = None" "match_event_str line = None" "match_event_int line = None"
    by (cases "match_range line"; cases "match_event_str line"; cases "match_event_int line") auto
  note cs = this
  show "stored_ranges tn name ts' = stored_ranges tn name ts @ selected tn name (match_range line)"
    using cs assms
    by cases (auto simp: read_line_def selected_def stored_update split: option.splits prod.splits)
  show "stored_str tn name ts' = stored_str tn name ts @ selected tn name (match_event_str line)"
    using cs assms match_exclusive
    by cases (auto simp: read_line_def selected_def stored_update split: option.splits prod.splits)
  show "stored_int tn name ts' = stored_int tn name ts @ selected tn name (match_event_int line)"
    using cs assms match_exclusive
    by cases (auto simp: read_line_def selected_def stored_update split: option.splits prod.splits)
qed


lemma fold_read_stored:
  assumes "fold read_line lines (ts, cs) = (ts', cs')"
  shows "stored_ranges tn name ts' =
      stored_ranges tn name ts @ concat (map (\<lambda>l. selected tn name (match_range l)) lines) \<and>
    stored_str tn name ts' =
      stored_str tn name ts @ concat (map (\<lambda>l. selected tn name (match_event_str l)) lines) \<and>
    stored_int tn name ts' =
      stored_int tn name ts @ concat (map (\<lambda>l. selected tn name (match_event_int l)) lines)"
  using assms
proof (induction lines arbitrary: ts cs)
  case (Cons l ls)
  obtain us ds where u: "read_line l (ts, cs) = (us, ds)" by fastforce
  with Cons.prems have "fold read_line ls (us, ds) = (ts', cs')" by simp
  from Cons.IH [OF this] show ?case by (simp add: read_line_stored [OF u])
qed simp

section \<open>Sorting\<close>

lemma insert_cmp_key:
  "(\<And>a b. cmp a b \<le> 0 \<longleftrightarrow> key a \<le> (key b :: int)) \<Longrightarrow> insert_cmp cmp x xs = insort_key key x xs"
  by (induction xs) auto

lemma sort_cmp_key:
  "(\<And>a b. cmp a b \<le> 0 \<longleftrightarrow> key a \<le> (key b :: int)) \<Longrightarrow> sort_cmp cmp xs = sort_key key xs"
  by (induction xs) (simp_all add: sort_cmp_def insert_cmp_key sort_key_def)

lemma tdr_sort_ranges: "ranges (tdr_sort t) = sort_key start (ranges t)"
  by (simp add: tdr_sort_def sort_cmp_key [of _ start] ranges_cmp_def Let_def)

lemma te_sort_events: "events (te_sort t) = sort_key ev_at (events t)"
  by (simp add: te_sort_def sort_cmp_key [of _ ev_at] events_cmp_def Let_def)

lemma stored_sort:
  "stored_ranges tn name (timelines_sort ts) = sort_key start (stored_ranges tn name ts)"
  "stored_str tn name (timelines_sort ts) = sort_key ev_at (stored_str tn name ts)"
  "stored_int tn name (timelines_sort ts) = sort_key ev_at (stored_int tn name ts)"
proof -
  have n: "timeline_name (timeline_sort t) = timeline_name t"
    "range_name (tdr_sort r) = range_name r" "event_name (te_sort e) = event_name e" for t r e
    by (simp_all add: timeline_sort_def tdr_sort_def te_sort_def)
  show "stored_ranges tn name (timelines_sort ts) = sort_key start (stored_ranges tn name ts)"
    by (auto simp: stored_defs on_named_def timelines_sort_def lookup_named_map n range_list_def
        timeline_sort_def tdr_sort_ranges split: option.split)
  show "stored_str tn name (timelines_sort ts) = sort_key ev_at (stored_str tn name ts)"
    by (auto simp: stored_defs on_named_def timelines_sort_def lookup_named_map n event_list_def
        timeline_sort_def te_sort_events split: option.split)
  show "stored_int tn name (timelines_sort ts) = sort_key ev_at (stored_int tn name ts)"
    by (auto simp: stored_defs on_named_def timelines_sort_def lookup_named_map n event_list_def
        timeline_sort_def te_sort_events split: option.split)
qed

text \<open>
  C16. After \<open>read_data\<close> the list of a timeline under a name holds exactly the records
  of the lines that give these two names, ordered by time, equal times in the order of the
  lines; ranges, string events and integer events alike.
\<close>

theorem read_data_records:
  "stored_ranges tn name (snd (read_data content)) =
     sort_key start (concat (map (\<lambda>l. selected tn name (match_range l)) (readlines content))) \<and>
   stored_str tn name (snd (read_data content)) =
     sort_key ev_at (concat (map (\<lambda>l. selected tn name (match_event_str l)) (readlines content))) \<and>
   stored_int tn name (snd (read_data content)) =
     sort_key ev_at (concat (map (\<lambda>l. selected tn name (match_event_int l)) (readlines content)))"
proof -
  obtain ts cs where f: "fold read_line (readlines content) ([], new_colors) = (ts, cs)" by fastforce
  have nil: "stored_ranges tn name [] = []" "stored_str tn name [] = []" "stored_int tn name [] = []"
    by (simp_all add: stored_defs on_named_def)
  from fold_read_stored [OF f, of tn name] show ?thesis
    by (simp add: read_data_def f stored_sort nil)
qed


section \<open>Well-formed timelines\<close>

definition names_ok :: "timeline \<Rightarrow> bool" where
  "names_ok t \<longleftrightarrow> distinct (map range_name (tl_ranges t)) \<and>
     distinct (map event_name (event_str t)) \<and> distinct (map event_name (event_int t))"

definition times_ok :: "timeline \<Rightarrow> bool" where
  "times_ok t \<longleftrightarrow> (\<forall>r\<in>set (tl_ranges t). sorted (map start (ranges r))) \<and>
     (\<forall>e\<in>set (event_str t) \<union> set (event_int t). sorted (map ev_at (events e)))"

definition timelines_named :: "timelines \<Rightarrow> bool" where
  "timelines_named ts \<longleftrightarrow> distinct (map timeline_name ts) \<and> (\<forall>t\<in>set ts. names_ok t)"

definition timelines_ok :: "timelines \<Rightarrow> bool" where
  "timelines_ok ts \<longleftrightarrow> timelines_named ts \<and> (\<forall>t\<in>set ts. times_ok t)"

lemma on_range_names: "names_ok t \<Longrightarrow> names_ok (on_range name r t)"
  using range_registry.names_update [of name "tl_ranges t"] range_registry.get_entry(2) [of name "tl_ranges t"]
  by (auto simp: names_ok_def) (auto simp: on_range_def get_range_def add_range_def split: prod.split)

lemma on_event_str_names: "names_ok t \<Longrightarrow> names_ok (on_event_str name e t)"
  using event_registry.names_update [of name "event_str t"] event_registry.get_entry(2) [of name "event_str t"]
  by (auto simp: names_ok_def) (auto simp: on_event_str_def get_event_str_def add_event_def split: prod.split)

lemma on_event_int_names: "names_ok t \<Longrightarrow> names_ok (on_event_int name e t)"
  using event_registry.names_update [of name "event_int t"] event_registry.get_entry(2) [of name "event_int t"]
  by (auto simp: names_ok_def) (auto simp: on_event_int_def get_event_int_def add_event_def split: prod.split)

lemma on_timeline_named:
  assumes "timelines_named ts" and "\<And>t. timeline_name (f t) = timeline_name t"
    and "\<And>t. names_ok t \<Longrightarrow> names_ok (f t)"
  shows "timelines_named (on_timeline tn f ts)"
proof -
  obtain us i where u: "get_or_create timeline_name new_timeline tn ts = (us, i)"
    by (cases "get_or_create timeline_name new_timeline tn ts")
  have "set us \<subseteq> insert (new_timeline tn) (set ts)"
    using u by (cases rule: timeline_registry.get_cases [of ts tn]) auto
  moreover have "names_ok (new_timeline tn)" by (simp add: names_ok_def new_timeline_def)
  ultimately have ok: "\<forall>t\<in>set us. names_ok t" using assms(1) by (auto simp: timelines_named_def)
  note e = timeline_registry.get_entry [OF u]
  have "distinct (map timeline_name (us[i := f (us ! i)]))"
    using assms(1) e(2) by (intro timeline_registry.names_update [OF u]) (simp_all add: assms(2) timelines_named_def)
  moreover have "\<forall>t\<in>set (us[i := f (us ! i)]). names_ok t"
    using ok e(1) assms(3) by (auto dest!: subsetD [OF set_update_subset_insert])
  ultimately show ?thesis by (simp add: timelines_named_def on_timeline_def timelines_get_def u)
qed

lemma read_line_named:
  "timelines_named ts \<Longrightarrow> read_line line (ts, cs) = (ts', cs') \<Longrightarrow> timelines_named ts'"
  by (auto simp: read_line_def split: option.splits prod.splits
      intro!: on_timeline_named on_range_names on_event_str_names on_event_int_names)

lemma fold_read_named:
  "timelines_named ts \<Longrightarrow> fold read_line lines (ts, cs) = (ts', cs') \<Longrightarrow> timelines_named ts'"
proof (induction lines arbitrary: ts cs)
  case (Cons l ls)
  obtain us ds where u: "read_line l (ts, cs) = (us, ds)" by fastforce
  with Cons.prems have "fold read_line ls (us, ds) = (ts', cs')" by simp
  then show ?case using Cons.IH read_line_named [OF Cons.prems(1) u] by blast
qed simp

lemma timeline_sort_ok:
  "names_ok t \<Longrightarrow> names_ok (timeline_sort t)" "times_ok (timeline_sort t)"
  "timeline_name (timeline_sort t) = timeline_name t"
proof -
  have n: "range_name (tdr_sort r) = range_name r" "event_name (te_sort e) = event_name e" for r e
    by (simp_all add: tdr_sort_def te_sort_def)
  show "names_ok t \<Longrightarrow> names_ok (timeline_sort t)"
    by (simp add: names_ok_def timeline_sort_def o_def n)
  show "times_ok (timeline_sort t)"
    by (auto simp: times_ok_def timeline_sort_def tdr_sort_ranges te_sort_events)
  show "timeline_name (timeline_sort t) = timeline_name t" by (simp add: timeline_sort_def)
qed

text \<open>
  \<open>read_data\<close> returns well-formed timelines whatever the file contains: timeline
  names are distinct, so are the names of the lists of one kind inside a timeline, and
  every list is in time order.
\<close>

theorem read_data_wellformed: "timelines_ok (snd (read_data content))"
proof -
  obtain ts cs where f: "fold read_line (readlines content) ([], new_colors) = (ts, cs)" by fastforce
  have "timelines_named ts" by (rule fold_read_named [OF _ f]) (simp add: timelines_named_def)
  then show ?thesis
    by (auto simp: read_data_def f timelines_ok_def timelines_named_def timelines_sort_def o_def timeline_sort_ok)
qed

section \<open>Bounds\<close>

lemma fold_widen:
  assumes "fold widen bs acc = (lo, hi)"
  shows "lo \<le> fst acc \<and> snd acc \<le> hi \<and> (\<forall>b\<in>set bs. lo \<le> fst b \<and> snd b \<le> hi)"
  using assms
proof (induction bs arbitrary: acc)
  case (Cons b bs)
  then have "fold widen bs (widen b acc) = (lo, hi)" by simp
  from Cons.IH [OF this] show ?case
    by (cases b; cases acc) (auto simp: widen_def split: if_splits)
qed simp

lemma sorted_hd: "sorted (map f xs) \<Longrightarrow> x \<in> set xs \<Longrightarrow> f (hd xs) \<le> (f x :: int)"
  by (cases xs) auto

lemma sorted_last: "sorted (map f xs) \<Longrightarrow> x \<in> set xs \<Longrightarrow> f x \<le> (f (last xs) :: int)"
  by (cases xs rule: rev_cases) (auto simp: sorted_append)

lemma te_bounds_enclose:
  "sorted (map ev_at (events t)) \<Longrightarrow> e \<in> set (events t) \<Longrightarrow>
   fst (te_bounds t) \<le> ev_at e \<and> ev_at e \<le> snd (te_bounds t)"
  by (auto simp: te_bounds_def sorted_hd sorted_last)

lemma tdr_bounds_start:
  "sorted (map start (ranges t)) \<Longrightarrow> r \<in> set (ranges t) \<Longrightarrow> fst (tdr_bounds t) \<le> start r"
  by (auto simp: tdr_bounds_def sorted_hd)

lemma tdr_bounds_stop:
  assumes "ranges_ordered (ranges t)" and "r \<in> set (ranges t)"
  shows "stop r \<le> snd (tdr_bounds t)"
proof -
  have "stop r \<le> stop (last (ranges t))"
    using assms by (cases "ranges t" rule: rev_cases)
      (fastforce simp: ranges_ordered_def sorted_wrt_append)+
  with assms(2) show ?thesis by (auto simp: tdr_bounds_def)
qed

lemma timeline_bounds_lists:
  assumes "timeline_bounds t = (lo, hi)"
  shows "lo \<le> 0" and "0 \<le> hi"
    and "r \<in> set (tl_ranges t) \<Longrightarrow> lo \<le> fst (tdr_bounds r) \<and> snd (tdr_bounds r) \<le> hi"
    and "e \<in> set (event_str t) \<union> set (event_int t) \<Longrightarrow> lo \<le> fst (te_bounds e) \<and> snd (te_bounds e) \<le> hi"
proof -
  obtain lo1 hi1 where b1: "fold widen (map tdr_bounds (tl_ranges t)) (0, 0) = (lo1, hi1)" by fastforce
  obtain lo2 hi2 where b2: "fold widen (map te_bounds (event_str t)) (lo1, hi1) = (lo2, hi2)" by fastforce
  have b3: "fold widen (map te_bounds (event_int t)) (lo2, hi2) = (lo, hi)"
    using assms b1 b2 by (simp add: timeline_bounds_def)
  note w = fold_widen [OF b1] fold_widen [OF b2] fold_widen [OF b3]
  show "lo \<le> 0" "0 \<le> hi" using w by auto
  show "r \<in> set (tl_ranges t) \<Longrightarrow> lo \<le> fst (tdr_bounds r) \<and> snd (tdr_bounds r) \<le> hi"
    using w by fastforce
  show "e \<in> set (event_str t) \<union> set (event_int t) \<Longrightarrow> lo \<le> fst (te_bounds e) \<and> snd (te_bounds e) \<le> hi"
    using w by fastforce
qed

lemma timelines_bounds_lists:
  assumes "timelines_bounds ts = (lo, hi)" and "t \<in> set ts"
  shows "r \<in> set (tl_ranges t) \<Longrightarrow> lo \<le> fst (tdr_bounds r) \<and> snd (tdr_bounds r) \<le> hi"
    and "e \<in> set (event_str t) \<union> set (event_int t) \<Longrightarrow> lo \<le> fst (te_bounds e) \<and> snd (te_bounds e) \<le> hi"
proof -
  obtain l h where b: "timeline_bounds t = (l, h)" by fastforce
  have "lo \<le> l" "h \<le> hi"
    using fold_widen [of "map timeline_bounds ts" "(0, 0)" lo hi] assms b
    by (force simp: timelines_bounds_def)+
  then show "r \<in> set (tl_ranges t) \<Longrightarrow> lo \<le> fst (tdr_bounds r) \<and> snd (tdr_bounds r) \<le> hi"
    and "e \<in> set (event_str t) \<union> set (event_int t) \<Longrightarrow> lo \<le> fst (te_bounds e) \<and> snd (te_bounds e) \<le> hi"
    using timeline_bounds_lists(3) [OF b, of r] timeline_bounds_lists(4) [OF b, of e] by force+
qed

text \<open>
  The bounds of well-formed timelines enclose every event and the start of every
  range, and the end of every range of a list whose ranges do not overlap.
\<close>

theorem timelines_bounds_enclose:
  assumes "timelines_ok ts" and "timelines_bounds ts = (lo, hi)" and "t \<in> set ts"
  shows "(\<forall>es\<in>set (event_str t) \<union> set (event_int t). \<forall>e\<in>set (events es). lo \<le> ev_at e \<and> ev_at e \<le> hi) \<and>
    (\<forall>rs\<in>set (tl_ranges t). \<forall>r\<in>set (ranges rs).
       lo \<le> start r \<and> (ranges_ordered (ranges rs) \<longrightarrow> stop r \<le> hi))"
proof (intro conjI ballI impI)
  have ok: "times_ok t" using assms by (simp add: timelines_ok_def)
  { fix es e assume e: "es \<in> set (event_str t) \<union> set (event_int t)" "e \<in> set (events es)"
    then have "sorted (map ev_at (events es))" using ok by (auto simp: times_ok_def)
    from te_bounds_enclose [OF this e(2)] timelines_bounds_lists(2) [OF assms(2,3) e(1)]
    show "lo \<le> ev_at e" "ev_at e \<le> hi" by auto }
  { fix rs r assume r: "rs \<in> set (tl_ranges t)" "r \<in> set (ranges rs)"
    then have "sorted (map start (ranges rs))" using ok by (auto simp: times_ok_def)
    from tdr_bounds_start [OF this r(2)] timelines_bounds_lists(1) [OF assms(2,3) r(1)]
    show "lo \<le> start r" by auto
    assume "ranges_ordered (ranges rs)"
    from tdr_bounds_stop [OF this r(2)] timelines_bounds_lists(1) [OF assms(2,3) r(1)]
    show "stop r \<le> hi" by auto }
qed

definition sample_timeline :: timeline where
  "sample_timeline = \<lparr>timeline_name = ''n0'', tl_ranges = [sample_ranges], event_str = [], event_int = [sample_events]\<rparr>"

theorem timelines_bounds_enclose_witness:
  "timelines_bounds [sample_timeline] = (0, 12) \<and>
   list_all (\<lambda>e. 0 \<le> ev_at e \<and> ev_at e \<le> 12) (events sample_events)"
proof -
  have b: "timelines_bounds [sample_timeline] = (0, 12)"
    by (simp add: timelines_bounds_def timeline_bounds_def widen_def te_bounds_def tdr_bounds_def
        sample_timeline_def sample_events_def sample_ranges_def)
  have "timelines_ok [sample_timeline]"
    by (simp add: timelines_ok_def timelines_named_def names_ok_def times_ok_def
        sample_timeline_def sample_events_def sample_ranges_def)
  from timelines_bounds_enclose [OF this b] b show ?thesis by (simp add: sample_timeline_def list_all_iff)
qed

text \<open>
  The proviso on the end of a range is needed: \<open>get_bounds\<close> of a list reads the end of its
  last range only, so a range that is nested in an earlier one hides the end of that one.
\<close>

lemma tdr_bounds_nested:
  "tdr_bounds \<lparr>range_name = ''r'', ranges = [\<lparr>start = 0, stop = 9, range_value = ''a''\<rparr>,
     \<lparr>start = 1, stop = 2, range_value = ''b''\<rparr>]\<rparr> = (0, 2)"
  by (simp add: tdr_bounds_def)

section \<open>Colours\<close>

text \<open>
  A colour channel is divided by 255 as an integer, so every value but 255 becomes 0.
\<close>

lemma channel_values: "0 \<le> r \<Longrightarrow> r < 255 \<Longrightarrow> channel r = PInt 0" "channel 255 = PInt 1"
  by (simp_all add: channel_def)

fun append_color :: "string \<Rightarrow> color list \<times> colors \<Rightarrow> (color list \<times> colors) res" where
  "append_color name (acc, cs) =
     res_bind (colors_lookup name cs) (\<lambda>(c, cs'). Inr (acc @ [c], cs'))"

definition lookup_all :: "string list \<Rightarrow> colors \<Rightarrow> (color list \<times> colors) res" where
  "lookup_all names cs = res_fold append_color names ([], cs)"

lemma colors_lookup_cases:
  assumes "dict_ok (color_table cs)"
  obtains (known) c where "dict_find (color_table cs) name = Some c" "colors_lookup name cs = Inr (c, cs)"
  | (fresh) c cs' where "dict_find (color_table cs) name = None" "default_colors cs \<noteq> []"
      "colors_lookup name cs = Inr (c, cs')" "dict_ok (color_table cs')"
      "default_colors cs' = butlast (default_colors cs)"
      "\<And>n. dict_find (color_table cs') n = (if n = name then Some c else dict_find (color_table cs) n)"
  | (out) "dict_find (color_table cs) name = None" "default_colors cs = []"
      "colors_lookup name cs = Inl IndexError"
proof (cases "dict_find (color_table cs) name")
  case None
  let ?c = "last (default_colors cs)"
  let ?cs = "colors_add name ?c (cs\<lparr>default_colors := butlast (default_colors cs)\<rparr>)"
  show thesis
  proof (cases "default_colors cs = []")
    case False
    with None assms show thesis
      by (intro fresh [of ?c ?cs]) (simp_all add: colors_lookup_def colors_add_def dict_simps Let_def)
  qed (use None out in \<open>simp add: colors_lookup_def\<close>)
qed (use known in \<open>simp add: colors_lookup_def\<close>)

definition unnamed :: "colors \<Rightarrow> string list \<Rightarrow> string list" where
  "unnamed cs names = filter (\<lambda>n. dict_find (color_table cs) n = None) names"

lemma lookup_all_ok:
  assumes "distinct names" and "dict_ok (color_table cs)"
    and "length (unnamed cs names) \<le> length (default_colors cs)"
  shows "\<exists>cl cs'. res_fold append_color names (acc, cs) = Inr (acc @ cl, cs') \<and> length cl = length names \<and>
      (\<forall>i<length names. dict_find (color_table cs') (names ! i) = Some (cl ! i)) \<and>
      (\<forall>n c. dict_find (color_table cs) n = Some c \<longrightarrow> dict_find (color_table cs') n = Some c) \<and>
      length (default_colors cs') = length (default_colors cs) - length (unnamed cs names)"
  using assms
proof (induction names arbitrary: acc cs)
  case Nil
  then show ?case by (simp add: unnamed_def)
next
  case (Cons n ns)
  show ?case
  proof (cases rule: colors_lookup_cases [OF Cons.prems(2), of n])
    case (1 c)
    then have u: "unnamed cs (n # ns) = unnamed cs ns" by (simp add: unnamed_def)
    obtain cl cs' where r: "res_fold append_color ns (acc @ [c], cs) = Inr ((acc @ [c]) @ cl, cs')"
      "length cl = length ns" "\<forall>i<length ns. dict_find (color_table cs') (ns ! i) = Some (cl ! i)"
      "\<forall>m d. dict_find (color_table cs) m = Some d \<longrightarrow> dict_find (color_table cs') m = Some d"
      "length (default_colors cs') = length (default_colors cs) - length (unnamed cs ns)"
      using Cons.IH [of cs "acc @ [c]"] Cons.prems u by auto
    show ?thesis
      by (intro exI [of _ "c # cl"] exI [of _ cs']) (use 1 r u in \<open>simp add: nth_Cons split: nat.split\<close>)
  next
    case (2 c ds)
    have u: "unnamed cs (n # ns) = n # unnamed ds ns"
      using 2(1,6) Cons.prems(1) by (auto simp: unnamed_def intro!: filter_cong)
    then have "length (unnamed ds ns) \<le> length (default_colors ds)" using Cons.prems(3) 2(5) by simp
    then obtain cl cs' where r: "res_fold append_color ns (acc @ [c], ds) = Inr ((acc @ [c]) @ cl, cs')"
      "length cl = length ns" "\<forall>i<length ns. dict_find (color_table cs') (ns ! i) = Some (cl ! i)"
      "\<forall>m d. dict_find (color_table ds) m = Some d \<longrightarrow> dict_find (color_table cs') m = Some d"
      "length (default_colors cs') = length (default_colors ds) - length (unnamed ds ns)"
      using Cons.IH [of ds "acc @ [c]"] Cons.prems(1) 2(4) by auto
    have "dict_find (color_table cs') n = Some c" using r(4) 2(6) by simp
    moreover have "dict_find (color_table cs') m = Some d" if "dict_find (color_table cs) m = Some d" for m d
      using r(4) 2(1,6) that by (cases "m = n") auto
    ultimately show ?thesis
      by (intro exI [of _ "c # cl"] exI [of _ cs'])
        (use 2(3,5) r(1,2,3,5) u in \<open>simp add: nth_Cons split: nat.split\<close>)
  next
    case 3
    then show ?thesis using Cons.prems(3) by (simp add: unnamed_def)
  qed
qed

lemma lookup_all_exhausted:
  assumes "distinct names" and "dict_ok (color_table cs)"
    and "length (default_colors cs) < length (unnamed cs names)"
  shows "res_fold append_color names (acc, cs) = Inl IndexError"
  using assms
proof (induction names arbitrary: acc cs)
  case Nil
  then show ?case by (simp add: unnamed_def)
next
  case (Cons n ns)
  show ?case
  proof (cases rule: colors_lookup_cases [OF Cons.prems(2), of n])
    case (1 c)
    then show ?thesis using Cons.IH [of cs "acc @ [c]"] Cons.prems by (simp add: unnamed_def)
  next
    case (2 c ds)
    have u: "unnamed cs (n # ns) = n # unnamed ds ns"
      using 2(1,6) Cons.prems(1) by (auto simp: unnamed_def intro!: filter_cong)
    then have "length (default_colors ds) < length (unnamed ds ns)"
      using Cons.prems(3) 2(2,5) by (cases "default_colors cs") auto
    then show ?thesis using Cons.IH [of ds "acc @ [c]"] Cons.prems(1) 2(3,4) by simp
  next
    case 3
    then show ?thesis by simp
  qed
qed

text \<open>
  Looking up the colours of distinct names, as \<open>main\<close> does for the legend: it
  succeeds exactly when there are default colours left for all names without a colour
  (six in a fresh program), each name then keeps the colour it was given and named colours
  are not changed; otherwise the default colours run out and \<open>IndexError\<close> is raised.
\<close>

theorem lookup_all_colors:
  assumes "distinct names" and "dict_ok (color_table cs)"
  shows "if length (unnamed cs names) \<le> length (default_colors cs)
    then \<exists>cl cs'. lookup_all names cs = Inr (cl, cs') \<and> length cl = length names \<and>
      (\<forall>i<length names. dict_find (color_table cs') (names ! i) = Some (cl ! i)) \<and>
      (\<forall>n c. dict_find (color_table cs) n = Some c \<longrightarrow> dict_find (color_table cs') n = Some c) \<and>
      length (default_colors cs') = length (default_colors cs) - length (unnamed cs names)
    else lookup_all names cs = Inl IndexError"
  using lookup_all_ok [OF assms, of "[]"] lookup_all_exhausted [OF assms, of "[]"]
  by (simp add: lookup_all_def)

theorem lookup_all_colors_witness:
  "lookup_all [''a'', ''b'', ''c'', ''d'', ''e'', ''f'', ''g''] new_colors = Inl IndexError"
  using lookup_all_colors [of "[''a'', ''b'', ''c'', ''d'', ''e'', ''f'', ''g'']" new_colors]
  by (simp add: new_colors_def unnamed_def initial_default_colors_def)

end
