(* ===== verification/Grid_Render.thy ===== *)
theory Grid_Render
  imports Grid_Read
begin

text \<open>
  The renderers of \<open>src/utils/grid.py\<close>: legend, timelines, scales and the graphic that
  lays them out.  Drawing is modelled by the sequence of calls on the cairo context.

  Cairo is not part of the program.  All that the layout needs of it is the extents of a
  text, the argument \<open>ext\<close>; every context of the program has the default font, so one
  function serves for the layout and for the drawing.  The numbers are \<open>int\<close>s and
  \<open>float\<close>s as they are in the program, since \<open>/\<close> depends on it.  An attribute that a
  method other than \<open>__init__\<close> assigns first is an \<open>option\<close>.
\<close>

section \<open>The cairo context\<close>

record extents =
  y_bearing :: rat
  t_width :: rat
  t_height :: rat

datatype cairo_op =
    MoveTo pynum pynum
  | LineTo pynum pynum
  | RelLineTo pynum pynum
  | ClosePath
  | Rectangle pynum pynum pynum pynum
  | SetSourceRgb pynum pynum pynum
  | SetLineWidth pynum
  | SetOperatorSource
  | SetDash "pynum list" pynum
  | Stroke
  | StrokePreserve
  | Fill
  | ShowText string
  | Translate pynum pynum
  | Save
  | Restore
  | Clip
  | SetSourceSurface "cairo_op list"
  | Paint

type_synonym text_measure = "string \<Rightarrow> extents"

abbreviation black :: cairo_op where
  "black \<equiv> SetSourceRgb 0 0 0"

abbreviation grey :: cairo_op where
  "grey \<equiv> SetSourceRgb (PFlt (9/10)) (PFlt (9/10)) (PFlt (9/10))"

section \<open>TopLegendRenderer\<close>

record top_legend =
  lg_padding :: pynum
  lg_legends :: "(string list \<times> color list) option"
  lg_width :: "pynum option"
  lg_height :: "pynum option"

definition new_legend :: top_legend where
  "new_legend = \<lparr>lg_padding = 10, lg_legends = None, lg_width = None, lg_height = None\<rparr>"

definition legend_set_padding :: "pynum \<Rightarrow> top_legend \<Rightarrow> top_legend" where
  "legend_set_padding padding lg = lg\<lparr>lg_padding := padding\<rparr>"

definition set_legends :: "string list \<Rightarrow> color list \<Rightarrow> top_legend \<Rightarrow> top_legend" where
  "set_legends legends colors lg = lg\<lparr>lg_legends := Some (legends, colors)\<rparr>"

text \<open>The place of the next item: the loop that \<open>layout\<close> and \<open>draw\<close> have in common.\<close>

record legend_pos =
  line_height :: pynum
  total_height :: pynum
  line_used :: pynum

definition legend_item_width :: "text_measure \<Rightarrow> pynum \<Rightarrow> string \<Rightarrow> pynum" where
  "legend_item_width ext padding legend = padding + padding + PFlt (t_width (ext legend)) + padding"

definition legend_item_height :: "text_measure \<Rightarrow> pynum \<Rightarrow> string \<Rightarrow> pynum" where
  "legend_item_height ext padding legend = PFlt (t_height (ext legend)) + padding"

definition legend_place :: "text_measure \<Rightarrow> pynum \<Rightarrow> pynum \<Rightarrow> string \<Rightarrow> legend_pos \<Rightarrow> legend_pos" where
  "legend_place ext padding width legend p =
     (let item_width = legend_item_width ext padding legend;
          item_height = legend_item_height ext padding legend;
          lh = (if line_height p < item_height then item_height else line_height p)
      in if width < line_used p + item_width
         then \<lparr>line_height = lh, total_height = total_height p + lh, line_used = padding + item_width\<rparr>
         else \<lparr>line_height = lh, total_height = total_height p, line_used = line_used p + item_width\<rparr>)"

definition legend_start :: "pynum \<Rightarrow> legend_pos" where
  "legend_start padding = \<lparr>line_height = 0, total_height = padding, line_used = padding\<rparr>"

definition legend_layout :: "text_measure \<Rightarrow> pynum \<Rightarrow> (top_legend, unit) act" where
  "legend_layout ext width =
     act_then (act_upd (\<lambda>lg. lg\<lparr>lg_width := Some width\<rparr>))
       (act_bind (act_read (\<lambda>lg. attr (lg_legends lg))) (\<lambda>(legends, _).
          act_upd (\<lambda>lg.
            let p = fold (legend_place ext (lg_padding lg) width) legends (legend_start (lg_padding lg))
            in lg\<lparr>lg_height := Some (total_height p + line_height p)\<rparr>)))"

definition legend_item :: "text_measure \<Rightarrow> pynum \<Rightarrow> string \<Rightarrow> color \<Rightarrow> legend_pos \<Rightarrow> cairo_op list" where
  "legend_item ext padding legend c p =
     (let x = line_used p - legend_item_width ext padding legend
      in [Rectangle x (total_height p) padding padding, black, SetLineWidth 2, StrokePreserve,
          SetSourceRgb (red c) (green c) (blue c), Fill,
          MoveTo (x + padding * 2) (total_height p + PFlt (t_height (ext legend))), black, ShowText legend])"

fun legend_items ::
  "text_measure \<Rightarrow> pynum \<Rightarrow> pynum \<Rightarrow> color list \<Rightarrow> nat \<Rightarrow> string list \<Rightarrow> legend_pos \<Rightarrow> cairo_op list res" where
  "legend_items ext padding width cs i [] p = Inr []"
| "legend_items ext padding width cs i (legend # legends) p =
     (let p' = legend_place ext padding width legend p
      in res_bind (py_index cs (int i)) (\<lambda>c.
         res_bind (legend_items ext padding width cs (i + 1) legends p') (\<lambda>ops.
         Inr (legend_item ext padding legend c p' @ ops))))"

definition legend_draw :: "text_measure \<Rightarrow> top_legend \<Rightarrow> cairo_op list res" where
  "legend_draw ext lg =
     res_bind (attr (lg_legends lg)) (\<lambda>(legends, cs).
     if legends = [] then Inr []
     else res_bind (attr (lg_width lg)) (\<lambda>width.
       legend_items ext (lg_padding lg) width cs 0 legends (legend_start (lg_padding lg))))"

section \<open>TimelinesRenderer\<close>

record data_layout =
  left_width :: pynum
  right_width :: pynum
  max_text_height :: pynum
  data_width :: pynum
  data_height :: pynum

record timelines_renderer =
  tr_padding :: pynum
  tr_data :: "(timelines \<times> colors) option"
  tr_range :: "(pynum \<times> pynum) option"
  tr_layout :: "data_layout option"

definition new_timelines_renderer :: timelines_renderer where
  "new_timelines_renderer = \<lparr>tr_padding = 10, tr_data = None, tr_range = None, tr_layout = None\<rparr>"

definition set_timelines :: "timelines \<Rightarrow> colors \<Rightarrow> timelines_renderer \<Rightarrow> timelines_renderer" where
  "set_timelines ts cs d = d\<lparr>tr_data := Some (ts, cs)\<rparr>"

definition set_render_range :: "pynum \<Rightarrow> pynum \<Rightarrow> timelines_renderer \<Rightarrow> timelines_renderer" where
  "set_render_range lo hi d = d\<lparr>tr_range := Some (lo, hi)\<rparr>"

definition tr_get_height :: "timelines_renderer \<Rightarrow> pynum res" where
  "tr_get_height d = res_bind (attr (tr_layout d)) (\<lambda>l. Inr (data_height l))"

definition half :: "pynum \<Rightarrow> pynum" where
  "half x = num_quot x 2"

definition data_x_start :: "pynum \<Rightarrow> data_layout \<Rightarrow> pynum" where
  "data_x_start padding l = half padding + left_width l + padding + right_width l + half padding"

definition get_data_x_start :: "timelines_renderer \<Rightarrow> pynum res" where
  "get_data_x_start d = res_bind (attr (tr_layout d)) (\<lambda>l. Inr (data_x_start (tr_padding d) l))"

definition alphabet :: string where
  "alphabet = ''ABCDEFGHIJKLMNOPQRSTUVWXYZabcedefghijklmnopqrstuvwxyz0123456789''"

definition widest :: "text_measure \<Rightarrow> string list \<Rightarrow> pynum" where
  "widest ext names = fold (\<lambda>name m. num_max m (PFlt (t_width (ext name)))) names 0"

definition row_names :: "timeline \<Rightarrow> string list" where
  "row_names t = map range_name (tl_ranges t) @ map event_name (event_int t) @ map event_name (event_str t)"

definition tr_do_layout :: "text_measure \<Rightarrow> pynum \<Rightarrow> timelines_renderer \<Rightarrow> timelines_renderer res" where
  "tr_do_layout ext width d =
     res_bind (attr (tr_data d)) (\<lambda>(ts, _).
     let padding = tr_padding d;
         mth = PFlt (t_height (ext alphabet));
         left_n_lines = PInt (int (length ts));
         range_n = PInt (int (length (concat (map tl_ranges ts))));
         eventint_n = PInt (int (length (concat (map event_int ts))));
         eventstr_n = PInt (int (length (concat (map event_str ts))));
         left_height = left_n_lines * mth + (left_n_lines - 1) * padding;
         right_n_lines = range_n + eventint_n + eventstr_n;
         right_height = (right_n_lines - 1) * padding + right_n_lines * mth;
         right_data_height = (eventint_n + eventstr_n) * (mth + 5) + range_n * 10
           + (right_n_lines - 1) * padding;
         height = num_max (num_max left_height right_height) right_data_height
     in Inr (d\<lparr>tr_layout := Some
          \<lparr>left_width = widest ext (map timeline_name ts),
           right_width = widest ext (concat (map row_names ts)),
           max_text_height = mth, data_width = width, data_height = height + padding\<rparr>\<rparr>))"

definition draw_line :: "pynum \<Rightarrow> pynum \<Rightarrow> pynum \<Rightarrow> pynum \<Rightarrow> cairo_op list" where
  "draw_line x y width height =
     [MoveTo x y, RelLineTo width height, ClosePath, SetOperatorSource, SetLineWidth (PFlt 1), black, Stroke]"

text \<open>The pixel of a time: \<open>int(x + (t - start) * width / (end - start))\<close>.\<close>

definition time_pixel :: "pynum \<times> pynum \<Rightarrow> pynum \<Rightarrow> pynum \<Rightarrow> pynum \<Rightarrow> int res" where
  "time_pixel win x width t =
     res_bind (num_div ((t - fst win) * width) (snd win - fst win)) (\<lambda>q. Inr (num_int (x + q)))"

definition grey_rows :: "int \<Rightarrow> pynum \<Rightarrow> pynum \<Rightarrow> pynum \<Rightarrow> pynum \<Rightarrow> pynum \<Rightarrow> cairo_op list" where
  "grey_rows background padding x y width height =
     (if background mod 2 = 0
      then [Rectangle x (y - half padding) width (height + padding), grey, Fill] else [])"

fun value_str :: "event_value \<Rightarrow> string" where
  "value_str (StrVal s) = s"
| "value_str (IntVal i) = str_int i"

fun draw_event_list ::
  "pynum \<times> pynum \<Rightarrow> pynum \<Rightarrow> pynum \<Rightarrow> pynum \<Rightarrow> pynum \<Rightarrow> event list \<Rightarrow> int \<Rightarrow> cairo_op list res" where
  "draw_event_list win mth x y width [] last_x_drawn = Inr []"
| "draw_event_list win mth x y width (ev # evs) last_x_drawn =
     res_bind (time_pixel win x width (PInt (ev_at ev))) (\<lambda>real_x.
     if last_x_drawn + 2 < real_x
     then res_bind (draw_event_list win mth x y width evs real_x) (\<lambda>ops.
       Inr ([Rectangle (PInt real_x) y 1 1, SetSourceRgb 1 0 0, Stroke,
             MoveTo (PInt real_x) (y + mth), black, ShowText (value_str (event_value ev))] @ ops))
     else draw_event_list win mth x y width evs last_x_drawn)"

definition draw_events ::
  "pynum \<Rightarrow> (pynum \<times> pynum) option \<Rightarrow> pynum \<Rightarrow> timeline_event \<Rightarrow> pynum \<Rightarrow> pynum \<Rightarrow> pynum \<Rightarrow> pynum \<Rightarrow> int \<Rightarrow> cairo_op list res" where
  "draw_events padding render_range mth evs x y width height background =
     res_bind (attr render_range) (\<lambda>win.
      case get_events_bounds evs (num_val (fst win)) (num_val (snd win)) of (lo, hi) \<Rightarrow>
      res_bind (draw_event_list win mth x y width (slice (events evs) lo hi) (num_int x)) (\<lambda>ops.
      Inr (grey_rows background padding x y width height @ ops)))"

fun draw_range_list ::
  "pynum \<times> pynum \<Rightarrow> pynum \<Rightarrow> pynum \<Rightarrow> pynum \<Rightarrow> data_range list \<Rightarrow> int \<Rightarrow> colors \<Rightarrow> (cairo_op list \<times> colors) res" where
  "draw_range_list win x y width [] last_x_drawn cs = Inr ([], cs)"
| "draw_range_list win x y width (r # rs) last_x_drawn cs =
     (let s = num_max (PInt (start r)) (fst win); e = num_min (PInt (stop r)) (snd win)
      in res_bind (time_pixel win x width s) (\<lambda>x_start.
         res_bind (time_pixel win x width e) (\<lambda>x_end.
         if last_x_drawn < x_end
         then res_bind (colors_lookup (range_value r) cs) (\<lambda>(c, cs').
           res_bind (draw_range_list win x y width rs x_end cs') (\<lambda>(ops, cs'').
           Inr ([Rectangle (PInt x_start) y (PInt (x_end - x_start)) 10, black, StrokePreserve,
                 SetSourceRgb (red c) (green c) (blue c), Fill] @ ops, cs'')))
         else draw_range_list win x y width rs last_x_drawn cs)))"

definition draw_ranges ::
  "pynum \<Rightarrow> (pynum \<times> pynum) option \<Rightarrow> timeline_data_range \<Rightarrow> pynum \<Rightarrow> pynum \<Rightarrow> pynum \<Rightarrow> pynum \<Rightarrow> int \<Rightarrow> colors
     \<Rightarrow> (cairo_op list \<times> colors) res" where
  "draw_ranges padding render_range rs x y width height background cs =
     res_bind (attr render_range) (\<lambda>win.
      case get_ranges_bounds rs (num_val (fst win)) (num_val (snd win)) of (lo, hi) \<Rightarrow>
      res_bind (draw_range_list win x y width (slice (ranges rs) lo hi) (num_int (x - 1)) cs) (\<lambda>(ops, cs').
      Inr (grey_rows background padding x y width height @ ops, cs')))"

text \<open>\<open>draw\<close>: what the rows change is the height reached, the row colour and the colour table.\<close>

record draw_state =
  cur_y :: pynum
  background :: int
  row_colors :: colors

definition row_label :: "text_measure \<Rightarrow> string \<Rightarrow> pynum \<Rightarrow> pynum \<Rightarrow> pynum \<Rightarrow> cairo_op list" where
  "row_label ext name x y mth =
     [MoveTo x (y + mth - (PFlt (t_height (ext name)) + PFlt (y_bearing (ext name)))), ShowText name]"

text \<open>A loop that draws.\<close>

definition draw_each :: "('x \<Rightarrow> 's \<Rightarrow> (cairo_op list \<times> 's) res) \<Rightarrow> 'x list \<Rightarrow> 's \<Rightarrow> (cairo_op list \<times> 's) res" where
  "draw_each f xs s =
     res_fold (\<lambda>x (ops, s). res_bind (f x s) (\<lambda>(ops', s'). Inr (ops @ ops', s'))) xs ([], s)"

definition right_x_start :: "pynum \<Rightarrow> data_layout \<Rightarrow> pynum" where
  "right_x_start padding l = half padding + left_width l + padding"

definition row_end :: "pynum \<Rightarrow> data_layout \<Rightarrow> pynum \<Rightarrow> cairo_op list" where
  "row_end padding l y =
     draw_line (right_x_start padding l - half padding) (y - half padding) (right_width l + padding) 0"

definition draw_event_row ::
  "text_measure \<Rightarrow> pynum \<Rightarrow> (pynum \<times> pynum) option \<Rightarrow> data_layout \<Rightarrow> timeline_event \<Rightarrow> draw_state
     \<Rightarrow> (cairo_op list \<times> draw_state) res" where
  "draw_event_row ext padding win l evs st =
     (let mth = max_text_height l; x = data_x_start padding l; y = cur_y st;
          y' = y + (mth + 5 + padding)
      in res_bind (draw_events padding win mth evs x y (data_width l - x) (mth + 5) (background st)) (\<lambda>ops.
         Inr (row_label ext (event_name evs) (right_x_start padding l) y mth @ ops @ row_end padding l y',
              st\<lparr>cur_y := y', background := background st + 1\<rparr>)))"

definition draw_range_row ::
  "text_measure \<Rightarrow> pynum \<Rightarrow> (pynum \<times> pynum) option \<Rightarrow> data_layout \<Rightarrow> timeline_data_range \<Rightarrow> draw_state
     \<Rightarrow> (cairo_op list \<times> draw_state) res" where
  "draw_range_row ext padding win l rs st =
     (let mth = max_text_height l; x = data_x_start padding l; y = cur_y st;
          y' = y + (mth + padding)
      in res_bind (draw_ranges padding win rs x y (data_width l - x) 10 (background st) (row_colors st)) (\<lambda>(ops, cs).
         Inr (row_label ext (range_name rs) (right_x_start padding l) y mth @ ops @ row_end padding l y',
              st\<lparr>cur_y := y', background := background st + 1, row_colors := cs\<rparr>)))"

definition draw_timeline ::
  "text_measure \<Rightarrow> pynum \<Rightarrow> (pynum \<times> pynum) option \<Rightarrow> data_layout \<Rightarrow> timeline \<Rightarrow> draw_state
     \<Rightarrow> (cairo_op list \<times> draw_state) res" where
  "draw_timeline ext padding win l t st =
     res_bind (draw_each (draw_event_row ext padding win l) (event_int t) st) (\<lambda>(ops1, st1).
     res_bind (draw_each (draw_event_row ext padding win l) (event_str t) st1) (\<lambda>(ops2, st2).
     res_bind (draw_each (draw_range_row ext padding win l) (tl_ranges t) st2) (\<lambda>(ops3, st3).
     Inr (row_label ext (timeline_name t) (half padding) (cur_y st) (max_text_height l) @ ops1 @ ops2 @ ops3 @
          draw_line 0 (cur_y st3 - half padding) (data_width l) 0, st3))))"

definition tr_draw :: "text_measure \<Rightarrow> timelines_renderer \<Rightarrow> (cairo_op list \<times> timelines_renderer) res" where
  "tr_draw ext d =
     res_bind (attr (tr_layout d)) (\<lambda>l.
     res_bind (attr (tr_data d)) (\<lambda>(ts, cs).
     let padding = tr_padding d;
         left_x_end = half padding + left_width l;
         right_x_end = right_x_start padding l + right_width l
     in res_bind (draw_each (draw_timeline ext padding (tr_range d) l) ts
            \<lparr>cur_y = half padding, background = 1, row_colors = cs\<rparr>) (\<lambda>(ops, st).
        let bot_y = cur_y st - half padding
        in Inr (draw_line 0 0 (data_width l) 0 @ ops @
                draw_line (left_x_end + half padding) 0 0 bot_y @
                draw_line (right_x_end + half padding) 0 0 bot_y,
                d\<lparr>tr_data := Some (ts, row_colors st)\<rparr>))))"

section \<open>ScaleRenderer\<close>

record scale_layout =
  delta :: int
  scale_width :: pynum
  scale_text_height :: pynum
  scale_height :: pynum

record scale_renderer =
  sc_top :: int
  sc_bounds :: "(pynum \<times> pynum) option"
  sc_layout :: "scale_layout option"

definition new_scale :: scale_renderer where
  "new_scale = \<lparr>sc_top = 0, sc_bounds = None, sc_layout = None\<rparr>"

definition set_bounds :: "pynum \<Rightarrow> pynum \<Rightarrow> scale_renderer \<Rightarrow> scale_renderer" where
  "set_bounds lo hi sc = sc\<lparr>sc_bounds := Some (lo, hi)\<rparr>"

definition set_top :: "scale_renderer \<Rightarrow> scale_renderer" where
  "set_top sc = sc\<lparr>sc_top := 1\<rparr>"

definition set_bot :: "scale_renderer \<Rightarrow> scale_renderer" where
  "set_bot sc = sc\<lparr>sc_top := 0\<rparr>"

definition scale_pixel :: "pynum \<times> pynum \<Rightarrow> pynum \<Rightarrow> pynum \<Rightarrow> pynum res" where
  "scale_pixel bounds width x = num_div ((x - fst bounds) * width) (snd bounds - fst bounds)"

definition get_position :: "pynum \<Rightarrow> scale_renderer \<Rightarrow> pynum res" where
  "get_position x sc =
     res_bind (attr (sc_bounds sc)) (\<lambda>b. res_bind (attr (sc_layout sc)) (\<lambda>l. scale_pixel b (scale_width l) x))"

text \<open>The loop that multiplies \<open>closest\<close> by ten; it starts at 1, so \<open>closest\<close> is positive.\<close>

function closest_loop :: "rat \<Rightarrow> int \<Rightarrow> int" where
  "closest_loop data_delta closest =
     (if 0 < closest \<and> of_int (closest * 10) < data_delta then closest_loop data_delta (closest * 10)
      else closest)"
  by pat_completeness auto
termination
proof (relation "measure (\<lambda>(d, c). nat (\<lceil>d\<rceil> - c))")
  fix d :: rat and c :: int
  assume a: "0 < c \<and> of_int (c * 10) < d"
  then have "c * 10 < \<lceil>d\<rceil>" by (simp add: less_ceiling_iff)
  with a show "((d, c * 10), d, c) \<in> measure (\<lambda>(d, c). nat (\<lceil>d\<rceil> - c))" by simp
qed simp

declare closest_loop.simps [simp del]

definition scale_delta :: "pynum \<Rightarrow> int" where
  "scale_delta data_delta =
     (let closest = closest_loop (num_val data_delta) 1;
          q = num_val (num_quot data_delta (PInt closest))
      in if q = 0 then closest else if q = 1 then closest div 10 else closest)"

text \<open>The first and the last multiple of \<open>delta\<close> that the scale shows.\<close>

definition tick_start :: "pynum \<times> pynum \<Rightarrow> int \<Rightarrow> pynum res" where
  "tick_start b d = res_bind (num_mod (fst b) (PInt d)) (\<lambda>m. Inr (fst b - m + PInt d))"

definition tick_end :: "pynum \<times> pynum \<Rightarrow> int \<Rightarrow> pynum res" where
  "tick_end b d = res_bind (num_mod (snd b) (PInt d)) (\<lambda>m. Inr (snd b - m))"

definition scale_do_layout :: "text_measure \<Rightarrow> pynum \<Rightarrow> scale_renderer \<Rightarrow> scale_renderer res" where
  "scale_do_layout ext width sc =
     res_bind (attr (sc_bounds sc)) (\<lambda>b.
     let d = scale_delta (snd b - fst b) in
     res_bind (tick_start b d) (\<lambda>_.
     res_bind (tick_end b d) (\<lambda>_.
     let mth = PFlt (t_height (ext alphabet)) in
     Inr (sc\<lparr>sc_layout := Some \<lparr>delta = d, scale_width = width, scale_text_height = mth, scale_height = mth + 10\<rparr>\<rparr>))))"

definition scale_get_height :: "scale_renderer \<Rightarrow> pynum res" where
  "scale_get_height sc = res_bind (attr (sc_layout sc)) (\<lambda>l. Inr (scale_height l))"

text \<open>\<open>range(int(start), int(end + delta), int(delta))\<close>.\<close>

definition scale_ticks :: "pynum \<times> pynum \<Rightarrow> int \<Rightarrow> int list res" where
  "scale_ticks b d =
     res_bind (tick_start b d) (\<lambda>s. res_bind (tick_end b d) (\<lambda>e. py_range (num_int s) (num_int (e + PInt d)) d))"

definition draw_tick :: "text_measure \<Rightarrow> scale_renderer \<Rightarrow> pynum \<times> pynum \<Rightarrow> pynum \<Rightarrow> int \<Rightarrow> int \<Rightarrow> cairo_op list res" where
  "draw_tick ext sc b width s x =
     res_bind (scale_pixel b width (PInt x)) (\<lambda>real_x.
     let e = ext (str_int x);
         text_delta = (if sc_top sc \<noteq> 0 then PFlt (t_height e) + PFlt (y_bearing e) else - PFlt (y_bearing e))
     in Inr [MoveTo real_x 0, LineTo real_x (PInt (5 * s)), ClosePath, Stroke,
             MoveTo (real_x - half (PFlt (t_width e))) ((5 + 5 + text_delta) * PInt s), ShowText (str_int x)])"

definition draw_subtick :: "pynum \<times> pynum \<Rightarrow> pynum \<Rightarrow> int \<Rightarrow> int \<Rightarrow> cairo_op list res" where
  "draw_subtick b width s x =
     res_bind (scale_pixel b width (PInt x)) (\<lambda>real_x.
     Inr [MoveTo real_x 0, LineTo real_x (PInt (3 * s)), ClosePath, Stroke])"

definition draw_all :: "('x \<Rightarrow> cairo_op list res) \<Rightarrow> 'x list \<Rightarrow> cairo_op list res" where
  "draw_all f xs = res_fold (\<lambda>x ops. res_bind (f x) (\<lambda>ops'. Inr (ops @ ops'))) xs []"

definition scale_draw :: "text_measure \<Rightarrow> scale_renderer \<Rightarrow> cairo_op list res" where
  "scale_draw ext sc =
     res_bind (attr (sc_layout sc)) (\<lambda>l.
     res_bind (attr (sc_bounds sc)) (\<lambda>b.
     let d = delta l; s = (if sc_top sc = 1 then - 1 else 1); d' = d div 10 in
     res_bind (scale_ticks b d) (\<lambda>ticks.
     res_bind (draw_all (draw_tick ext sc b (scale_width l) s) ticks) (\<lambda>ops.
     res_bind (if 0 < d' then res_bind (scale_ticks b d') (draw_all (draw_subtick b (scale_width l) s)) else Inr []) (\<lambda>subs.
     Inr ([black, SetLineWidth (PFlt 1)] @ ops @ subs))))))"

section \<open>The legend fits its height\<close>

lemma legend_place_mono:
  "num_val (line_height p) \<le> num_val (line_height (legend_place ext padding width l p))"
  "0 \<le> num_val (line_height p) \<Longrightarrow>
   num_val (total_height p) \<le> num_val (total_height (legend_place ext padding width l p))"
  "num_val (legend_item_height ext padding l) \<le> num_val (line_height (legend_place ext padding width l p))"
  "num_val padding \<le> num_val (line_used p) \<Longrightarrow>
   num_val padding + num_val (legend_item_width ext padding l)
     \<le> num_val (line_used (legend_place ext padding width l p))"
  by (auto simp: legend_place_def Let_def num_less_val)

lemma legend_fold_mono:
  "0 \<le> num_val (line_height p) \<Longrightarrow>
   num_val (line_height p) \<le> num_val (line_height (fold (legend_place ext padding width) ls p)) \<and>
   num_val (total_height p) \<le> num_val (total_height (fold (legend_place ext padding width) ls p))"
proof (induction ls arbitrary: p)
  case (Cons l ls)
  have "0 \<le> num_val (line_height (legend_place ext padding width l p))"
    using Cons.prems legend_place_mono(1) by (rule order_trans)
  from Cons.IH [OF this] show ?case
    using legend_place_mono(1,2) [of p ext padding width l] Cons.prems by auto
qed simp

text \<open>The boxes of the items, as far as the height that \<open>layout\<close> computes.\<close>

lemma legend_items_boxes:
  assumes "legend_items ext padding width cs i ls p = Inr ops"
    and "0 \<le> num_val (line_height p)" and "num_val padding \<le> num_val (line_used p)"
    and "num_val padding \<le> num_val (total_height p)"
    and "\<And>s. 0 \<le> t_height (ext s) \<and> 0 \<le> t_width (ext s)" and "0 \<le> num_val padding"
    and "Rectangle x y w h \<in> set ops"
  defines "q \<equiv> fold (legend_place ext padding width) ls p"
  shows "num_val padding \<le> num_val x \<and> num_val padding \<le> num_val y \<and>
    num_val y + num_val h \<le> num_val (total_height q) + num_val (line_height q)"
  using assms(1-4,7) unfolding q_def
proof (induction ls arbitrary: i p ops)
  case (Cons l ls)
  let ?p = "legend_place ext padding width l p"
  obtain c rest where r: "legend_items ext padding width cs (i + 1) ls ?p = Inr rest"
    "ops = legend_item ext padding l c ?p @ rest"
    using Cons.prems(1) by (auto simp: Let_def res_simps)
  have iw: "0 \<le> num_val (legend_item_width ext padding l)"
    using assms(5) [of l] assms(6) by (simp add: legend_item_width_def)
  have inv: "0 \<le> num_val (line_height ?p)" "num_val padding \<le> num_val (total_height ?p)"
    "num_val padding + num_val (legend_item_width ext padding l) \<le> num_val (line_used ?p)"
    using legend_place_mono(1,2) [of p ext padding width l] legend_place_mono(4) [OF Cons.prems(3)]
      Cons.prems(2,4) by auto
  show ?case
  proof (cases "Rectangle x y w h \<in> set rest")
    case True
    from Cons.IH [OF r(1) inv(1) _ inv(2) True] iw inv(3) show ?thesis by simp
  next
    case False
    then have rect: "x = line_used ?p - legend_item_width ext padding l" "y = total_height ?p" "h = padding"
      using Cons.prems(5) r(2) by (auto simp: legend_item_def Let_def)
    have "num_val padding \<le> num_val (line_height ?p)"
      using legend_place_mono(3) [of ext padding l width p] assms(5) [of l] by (simp add: legend_item_height_def)
    with rect inv legend_fold_mono [OF inv(1), of ext padding width ls] show ?thesis by auto
  qed
qed simp

lemma legend_items_total:
  "i + length ls \<le> length cs \<Longrightarrow> \<exists>ops. legend_items ext padding width cs i ls p = Inr ops"
proof (induction ls arbitrary: i p)
  case (Cons l ls)
  then obtain ops where "legend_items ext padding width cs (i + 1) ls (legend_place ext padding width l p) = Inr ops"
    by fastforce
  then show ?case using Cons.prems by (simp add: Let_def)
qed simp

text \<open>
  A legend that has a colour for each text is drawn completely, and every box lies
  inside the margin on the left and at the top and inside the height that \<open>layout\<close>
  computed, however the items are broken into lines.
\<close>

theorem legend_fits:
  assumes "lg_legends lg = Some (legends, cs)" and "length legends \<le> length cs"
    and "0 \<le> num_val (lg_padding lg)" and "\<And>s. 0 \<le> t_height (ext s) \<and> 0 \<le> t_width (ext s)"
  shows "\<exists>lg' height ops. legend_layout ext width lg = (lg', Inr ()) \<and> lg_height lg' = Some height \<and>
    legend_draw ext lg' = Inr ops \<and>
    (\<forall>x y w h. Rectangle x y w h \<in> set ops \<longrightarrow>
       num_val (lg_padding lg) \<le> num_val x \<and> num_val (lg_padding lg) \<le> num_val y \<and>
       num_val y + num_val h \<le> num_val height)"
proof -
  let ?p = "fold (legend_place ext (lg_padding lg) width) legends (legend_start (lg_padding lg))"
  let ?lg = "lg\<lparr>lg_width := Some width, lg_height := Some (total_height ?p + line_height ?p)\<rparr>"
  obtain ops where ops: "legend_items ext (lg_padding lg) width cs 0 legends (legend_start (lg_padding lg)) = Inr ops"
    using legend_items_total [of 0 legends cs ext "lg_padding lg" width "legend_start (lg_padding lg)"] assms(2)
    by auto
  have "legend_layout ext width lg = (?lg, Inr ())"
    by (simp add: legend_layout_def act_simps assms(1) Let_def)
  moreover have "legend_draw ext ?lg = Inr ops"
    using ops by (auto simp: legend_draw_def assms(1))
  moreover have "num_val (lg_padding lg) \<le> num_val x \<and> num_val (lg_padding lg) \<le> num_val y \<and>
      num_val y + num_val h \<le> num_val (total_height ?p) + num_val (line_height ?p)"
    if "Rectangle x y w h \<in> set ops" for x y w h
    using that by (intro legend_items_boxes [OF ops]) (simp_all add: legend_start_def assms(3,4))
  ultimately show ?thesis by (intro exI [of _ ?lg]) simp
qed

definition sample_ext :: text_measure where
  "sample_ext s = \<lparr>y_bearing = - 7, t_width = 6 * of_nat (length s), t_height = 7\<rparr>"

definition sample_legend :: top_legend where
  "sample_legend = set_legends [''tx'', ''rx''] initial_default_colors new_legend"

theorem legend_fits_witness:
  "\<exists>lg' height ops. legend_layout sample_ext 60 sample_legend = (lg', Inr ()) \<and>
    legend_draw sample_ext lg' = Inr ops \<and> lg_height lg' = Some height"
  using legend_fits [of sample_legend "[''tx'', ''rx'']" initial_default_colors sample_ext 60]
  by (auto simp: sample_legend_def set_legends_def new_legend_def sample_ext_def initial_default_colors_def)

section \<open>Scales\<close>

lemma closest_bounds:
  assumes "0 < c"
  shows "0 < closest_loop d c \<and> d \<le> of_int (closest_loop d c * 10) \<and>
    (closest_loop d c = c \<or> of_int (closest_loop d c) < d) \<and> (\<exists>k. closest_loop d c = c * 10 ^ k)"
  using assms
proof (induction d c rule: closest_loop.induct)
  case (1 d c)
  show ?case
  proof (cases "of_int (c * 10) < d")
    case False
    then have "closest_loop d c = c" by (subst closest_loop.simps) simp
    then show ?thesis using False 1(2) by (auto intro: exI [of _ 0])
  next
    case True
    then have step: "closest_loop d c = closest_loop d (c * 10)"
      using 1(2) by (subst closest_loop.simps) simp
    from 1 True have IH: "0 < closest_loop d (c * 10)" "d \<le> of_int (closest_loop d (c * 10) * 10)"
      "closest_loop d (c * 10) = c * 10 \<or> of_int (closest_loop d (c * 10)) < d"
      and "\<exists>k. closest_loop d (c * 10) = c * 10 * 10 ^ k" by auto
    then obtain k where "closest_loop d (c * 10) = c * 10 ^ Suc k" by (auto simp: mult.assoc)
    moreover from IH(3) True have "of_int (closest_loop d (c * 10)) < d" by (elim disjE) (simp_all only:)
    ultimately show ?thesis unfolding step using IH by blast
  qed
qed

text \<open>
  The step of a scale over a positive distance: at least one and less than twenty steps
  to the distance, except that a distance of exactly one gives the step zero.
\<close>

lemma scale_delta_bounds:
  assumes "0 < num_val dd" and "num_val dd \<noteq> 1"
  shows "0 < scale_delta dd \<and> num_val dd < 20 * of_int (scale_delta dd)"
proof -
  define c where "c = closest_loop (num_val dd) 1"
  obtain k where c: "0 < c" "num_val dd \<le> of_int (c * 10)" "c = 1 \<or> of_int c < num_val dd" "c = 10 ^ k"
    using closest_bounds [of 1 "num_val dd"] by (auto simp: c_def)
  define q where "q = num_val (num_quot dd (PInt c))"
  have d: "scale_delta dd = (if q = 0 then c else if q = 1 then c div 10 else c)"
    by (simp add: scale_delta_def c_def q_def Let_def)
  show ?thesis
  proof (cases "q = 1")
    case False
    then show ?thesis using c(1,2) d by auto
  next
    case True
    have "num_val dd < 2 * of_int c \<and> k \<noteq> 0"
    proof (cases dd)
      case (PInt i)
      with True have i: "i div c = 1" by (simp add: q_def num_quot_def)
      have "c * 1 \<le> i" "i < c * 2"
        using div_mult_mod_eq [of i c] pos_mod_bound [OF c(1), of i] pos_mod_sign [OF c(1), of i]
        unfolding i by simp_all
      moreover have "k \<noteq> 0" using calculation i c(4) PInt assms(2) by (cases k) auto
      ultimately show ?thesis using PInt by simp
    next
      case (PFlt x)
      with True c(1) have "x = of_int c" by (simp add: q_def num_quot_def)
      with PFlt c(3) have "c = 1" by auto
      with PFlt \<open>x = of_int c\<close> assms(2) show ?thesis by simp
    qed
    then obtain j where "num_val dd < 2 * of_int c" "c = 10 * 10 ^ j" using c(4) by (cases k) auto
    then show ?thesis using True d by simp
  qed
qed

lemma scale_delta_one: "num_val dd = 1 \<Longrightarrow> scale_delta dd = 0"
proof -
  assume "num_val dd = 1"
  moreover from this have "dd = PInt 1 \<or> dd = PFlt 1" by (cases dd) auto
  moreover have "closest_loop 1 1 = 1" by (subst closest_loop.simps) simp
  ultimately show ?thesis by (auto simp: scale_delta_def num_quot_def)
qed

text \<open>
  The layout of a scale whose upper bound is above its lower one.  It succeeds with a
  positive step of which fewer than twenty fit between the bounds; but when the bounds
  are exactly one apart, the step is the integer quotient \<open>1 / 10\<close>, which is zero, and the
  layout raises \<open>ZeroDivisionError\<close>.
\<close>

theorem scale_layout_step:
  assumes "sc_bounds sc = Some (lo, hi)" and "num_val lo < num_val hi"
  shows "if num_val hi - num_val lo = 1 then scale_do_layout ext width sc = Inl ZeroDivisionError
    else \<exists>l. scale_do_layout ext width sc = Inr (sc\<lparr>sc_layout := Some l\<rparr>) \<and>
      0 < delta l \<and> num_val hi - num_val lo < 20 * of_int (delta l) \<and> scale_width l = width"
proof (cases "num_val hi - num_val lo = 1")
  case True
  then show ?thesis
    by (simp add: scale_do_layout_def assms(1) tick_start_def num_mod_def scale_delta_one)
next
  case False
  then have "0 < scale_delta (hi - lo) \<and> num_val (hi - lo) < 20 * of_int (scale_delta (hi - lo))"
    using assms(2) by (intro scale_delta_bounds) auto
  then show ?thesis
    using False by (auto simp: scale_do_layout_def assms(1) tick_start_def tick_end_def num_mod_def Let_def)
qed

theorem scale_layout_step_witness:
  "scale_do_layout sample_ext 100 (set_bounds 3 4 new_scale) = Inl ZeroDivisionError"
  using scale_layout_step [of "set_bounds 3 4 new_scale" 3 4 sample_ext 100] by (simp add: set_bounds_def)

lemma mod_tick:
  assumes "0 < d"
  shows "\<exists>m. num_mod x (PInt d) = Inr m \<and> num_val (x - m) = of_int (\<lfloor>num_val x / of_int d\<rfloor> * d)"
proof (cases x)
  case (PInt i)
  have "i - i mod d = \<lfloor>(of_int i :: rat) / of_int d\<rfloor> * d"
    using floor_divide_of_int_eq [of i d, where ?'a = rat] by (simp add: minus_mod_eq_div_mult)
  moreover have "num_mod x (PInt d) = Inr (PInt (i mod d))"
    using assms PInt by (simp add: num_mod_def)
  ultimately show ?thesis using PInt by (metis PInt_ops(2) num_val.simps(1))
next
  case (PFlt r)
  then show ?thesis using assms by (simp add: num_mod_def rat_mod_def)
qed

lemma num_int_of_int: "num_val x = of_int i \<Longrightarrow> num_int x = i"
  by (cases x) auto

text \<open>
  The ticks of a scale are exactly the multiples of its step above the lower bound
  and up to the upper bound, whether the bounds are integers or floats.
\<close>

theorem scale_ticks_multiples:
  assumes "0 < d"
  shows "\<exists>ticks. scale_ticks (lo, hi) d = Inr ticks \<and>
    set ticks = {x. d dvd x \<and> num_val lo < of_int x \<and> of_int x \<le> num_val hi}"
proof -
  define a where "a = \<lfloor>num_val lo / of_int d\<rfloor>"
  define b where "b = \<lfloor>num_val hi / of_int d\<rfloor>"
  obtain m where m: "num_mod lo (PInt d) = Inr m" "num_val (lo - m) = of_int (a * d)"
    using mod_tick [OF assms, of lo] by (auto simp: a_def)
  obtain n where n: "num_mod hi (PInt d) = Inr n" "num_val (hi - n) = of_int (b * d)"
    using mod_tick [OF assms, of hi] by (auto simp: b_def)
  have s: "num_int (lo - m + PInt d) = a * d + d" "num_int (hi - n + PInt d) = b * d + d"
    using m(2) n(2) by (auto intro!: num_int_of_int)
  obtain ticks where t: "py_range (a * d + d) (b * d + d) d = Inr ticks"
    using assms by (auto simp: py_range_def)
  have "scale_ticks (lo, hi) d = Inr ticks"
    by (simp add: scale_ticks_def tick_start_def tick_end_def m(1) n(1) s t)
  moreover have "x \<in> set ticks \<longleftrightarrow> d dvd x \<and> num_val lo < of_int x \<and> of_int x \<le> num_val hi" for x
  proof -
    have "x \<in> set ticks \<longleftrightarrow> a * d + d \<le> x \<and> x < b * d + d \<and> d dvd x"
      using set_py_range [OF assms t, of x] dvd_diff_left_iff [of d "a * d + d" x] by simp
    also have "\<dots> \<longleftrightarrow> d dvd x \<and> num_val lo < of_int x \<and> of_int x \<le> num_val hi"
    proof (cases "d dvd x")
      case True
      then obtain k where k: "x = k * d" by (metis dvd_def mult.commute)
      have "a * d + d \<le> x \<longleftrightarrow> (a + 1) * d \<le> k * d" by (simp add: k algebra_simps)
      also have "\<dots> \<longleftrightarrow> a + 1 \<le> k" using assms by simp
      also have "\<dots> \<longleftrightarrow> num_val lo / of_int d < of_int k" by (simp add: a_def add1_zle_eq floor_less_iff)
      also have "\<dots> \<longleftrightarrow> num_val lo < of_int x" using assms by (simp add: k pos_divide_less_eq)
      finally have 1: "a * d + d \<le> x \<longleftrightarrow> num_val lo < of_int x" .
      have "x < b * d + d \<longleftrightarrow> k * d < (b + 1) * d" by (simp add: k algebra_simps)
      also have "\<dots> \<longleftrightarrow> k \<le> b" using assms by simp
      also have "\<dots> \<longleftrightarrow> of_int k \<le> num_val hi / of_int d" by (simp add: b_def le_floor_iff)
      also have "\<dots> \<longleftrightarrow> of_int x \<le> num_val hi" using assms by (simp add: k pos_le_divide_eq)
      finally show ?thesis using 1 True by blast
    qed simp
    finally show ?thesis .
  qed
  ultimately show ?thesis by blast
qed

theorem scale_ticks_multiples_witness:
  "\<exists>ticks. scale_ticks (PFlt (5/2), 40) 10 = Inr ticks \<and> 10 \<in> set ticks \<and> 41 \<notin> set ticks"
  using scale_ticks_multiples [of 10 "PFlt (5/2)" 40] by auto

end
