(* ===== verification/Grid_Draw.thy ===== *)
theory Grid_Draw
  imports Grid_Render
begin

text \<open>
  What \<open>TimelinesRenderer\<close> of \<open>src/utils/grid.py\<close> draws: events keep a distance of more
  than two pixels, ranges stay inside the data area, and the rows fit the height that the
  layout computed as long as a text is not higher than a range row.
\<close>

section \<open>Pixels\<close>

lemma num_int_val: "num_int x = (if 0 \<le> num_val x then \<lfloor>num_val x\<rfloor> else \<lceil>num_val x\<rceil>)"
  by (cases x) auto

lemma num_int_mono: "num_val a \<le> num_val b \<Longrightarrow> num_int a \<le> num_int b"
  by (auto simp: num_int_val floor_mono ceiling_mono) (metis ceiling_le_zero floor_less_zero not_le order_trans zero_le_floor le_less_linear linorder_le_cases)

lemma num_div_bounds:
  assumes "num_div a b = Inr q" and "0 < num_val b"
  shows "num_val q \<le> num_val a / num_val b" and "0 \<le> num_val a \<Longrightarrow> 0 \<le> num_val q"
proof -
  have q: "q = num_lift (div) (/) a b" using assms by (simp add: num_div_def split: if_splits)
  have fl: "(of_int (i div j) :: rat) \<le> of_int i / of_int j" for i j
    by (metis floor_divide_of_int_eq of_int_floor_le)
  show "num_val q \<le> num_val a / num_val b"
    using fl by (cases a; cases b) (simp_all add: q)
  show "0 \<le> num_val a \<Longrightarrow> 0 \<le> num_val q"
    using assms(2) by (cases a; cases b) (simp_all add: q pos_imp_zdiv_nonneg_iff)
qed

lemma time_pixel_total:
  assumes "num_val (fst win) \<noteq> num_val (snd win)"
  shows "\<exists>p. time_pixel win x width t = Inr p"
proof -
  from assms have "num_val (snd win - fst win) \<noteq> 0" by simp
  from num_div_val(2) [OF this] obtain q where "num_div ((t - fst win) * width) (snd win - fst win) = Inr q"
    by blast
  then show ?thesis by (simp add: time_pixel_def)
qed

lemma time_pixel_bounds:
  assumes "time_pixel win x width t = Inr p" and "num_val (fst win) < num_val (snd win)" and "0 \<le> num_val width"
  shows "num_val (fst win) \<le> num_val t \<Longrightarrow> num_int x \<le> p"
    and "num_val t \<le> num_val (snd win) \<Longrightarrow> p \<le> num_int (x + width)"
proof -
  obtain q where q: "num_div ((t - fst win) * width) (snd win - fst win) = Inr q" "p = num_int (x + q)"
    using assms(1) by (auto simp: time_pixel_def res_simps)
  have pos: "0 < num_val (snd win - fst win)" using assms(2) by simp
  note b = num_div_bounds [OF q(1) pos]
  { assume "num_val (fst win) \<le> num_val t"
    then have "0 \<le> num_val q" using assms(3) b(2) by simp
    then show "num_int x \<le> p" unfolding q(2) by (intro num_int_mono) simp }
  { assume "num_val t \<le> num_val (snd win)"
    then have "num_val ((t - fst win) * width) \<le> num_val width * num_val (snd win - fst win)"
      using assms(3) by (simp add: mult.commute mult_left_mono)
    then have "num_val ((t - fst win) * width) / num_val (snd win - fst win) \<le> num_val width"
      using pos by (simp only: pos_divide_le_eq)
    with b(1) have "num_val q \<le> num_val width" by (rule order_trans)
    then show "p \<le> num_int (x + width)" unfolding q(2) by (intro num_int_mono) simp }
qed

section \<open>Events\<close>

definition rect_positions :: "cairo_op list \<Rightarrow> int list" where
  "rect_positions ops = concat (map (\<lambda>op. case op of Rectangle x y w h \<Rightarrow> [num_int x] | _ \<Rightarrow> []) ops)"

text \<open>
  In a window of some length every event is placed, the events that are drawn are more
  than two pixels apart, and an event that is not drawn lies no more than two pixels to
  the right of one that is, or of the left edge.
\<close>

theorem draw_events_spacing:
  assumes "num_val (fst win) \<noteq> num_val (snd win)"
  shows "\<exists>ops. draw_event_list win mth x y width evs last_x = Inr ops \<and>
    sorted_wrt (\<lambda>a b. a + 2 < b) (last_x # rect_positions ops) \<and>
    (\<forall>e\<in>set evs. \<exists>p. time_pixel win x width (PInt (ev_at e)) = Inr p \<and>
       (\<exists>q\<in>set (last_x # rect_positions ops). p \<le> q + 2))"
proof (induction evs arbitrary: last_x)
  case Nil
  then show ?case by (simp add: rect_positions_def)
next
  case (Cons e evs)
  obtain p where p: "time_pixel win x width (PInt (ev_at e)) = Inr p"
    using time_pixel_total [OF assms] by blast
  show ?case
  proof (cases "last_x + 2 < p")
    case True
    obtain ops where ops: "draw_event_list win mth x y width evs p = Inr ops"
      "sorted_wrt (\<lambda>a b. a + 2 < b) (p # rect_positions ops)"
      "\<forall>e\<in>set evs. \<exists>q. time_pixel win x width (PInt (ev_at e)) = Inr q \<and>
         (\<exists>r\<in>set (p # rect_positions ops). q \<le> r + 2)"
      using Cons.IH [of p] by blast
    let ?new = "[Rectangle (PInt p) y 1 1, SetSourceRgb 1 0 0, Stroke,
      MoveTo (PInt p) (y + mth), black, ShowText (value_str (event_value e))] @ ops"
    have r: "rect_positions ?new = p # rect_positions ops" by (simp add: rect_positions_def)
    have "draw_event_list win mth x y width (e # evs) last_x = Inr ?new"
      using True p ops(1) by simp
    moreover have "sorted_wrt (\<lambda>a b. a + 2 < b) (last_x # rect_positions ?new)"
      unfolding r using ops(2) True by fastforce
    moreover have "\<forall>e'\<in>set (e # evs). \<exists>q. time_pixel win x width (PInt (ev_at e')) = Inr q \<and>
         (\<exists>r\<in>set (last_x # rect_positions ?new). q \<le> r + 2)"
      unfolding r using ops(3) p by auto
    ultimately show ?thesis by blast
  next
    case False
    obtain ops where ops: "draw_event_list win mth x y width evs last_x = Inr ops"
      "sorted_wrt (\<lambda>a b. a + 2 < b) (last_x # rect_positions ops)"
      "\<forall>e\<in>set evs. \<exists>q. time_pixel win x width (PInt (ev_at e)) = Inr q \<and>
         (\<exists>r\<in>set (last_x # rect_positions ops). q \<le> r + 2)"
      using Cons.IH [of last_x] by blast
    then show ?thesis using False p by auto
  qed
qed

lemma draw_event_list_total:
  "num_val (fst win) \<noteq> num_val (snd win) \<Longrightarrow>
   \<exists>ops. draw_event_list win mth x y width evs last_x = Inr ops"
proof (induction evs arbitrary: last_x)
  case (Cons e evs)
  obtain p where "time_pixel win x width (PInt (ev_at e)) = Inr p"
    using time_pixel_total [OF Cons.prems] by blast
  then show ?case using Cons.IH [OF Cons.prems, of p] Cons.IH [OF Cons.prems, of last_x] by auto
qed simp

theorem draw_events_spacing_witness:
  "\<exists>ops. draw_event_list (0, 10) 9 50 5 100 (events sample_events) 50 = Inr ops \<and>
    sorted_wrt (\<lambda>a b. a + 2 < b) (50 # rect_positions ops)"
  using draw_events_spacing [of "(0, 10)" 9 50 5 100 "events sample_events" 50] by auto

section \<open>Ranges\<close>

definition colors_known :: "colors \<Rightarrow> data_range list \<Rightarrow> bool" where
  "colors_known cs rs \<longleftrightarrow> (\<forall>r\<in>set rs. dict_find (color_table cs) (range_value r) \<noteq> None)"

lemma colors_lookup_known:
  "dict_find (color_table cs) name = Some c \<Longrightarrow> colors_lookup name cs = Inr (c, cs)"
  by (simp add: colors_lookup_def)

text \<open>When the values have colours, drawing succeeds and leaves the colour table alone.\<close>

lemma draw_range_list_total:
  assumes "num_val (fst win) \<noteq> num_val (snd win)" and "colors_known cs rs"
  shows "\<exists>ops. draw_range_list win x y width rs last_x cs = Inr (ops, cs)"
  using assms(2)
proof (induction rs arbitrary: last_x)
  case (Cons r rs)
  obtain c where c: "dict_find (color_table cs) (range_value r) = Some c"
    using Cons.prems by (auto simp: colors_known_def)
  have IH: "\<exists>ops. draw_range_list win x y width rs l cs = Inr (ops, cs)" for l
    using Cons by (simp add: colors_known_def)
  obtain p where p: "time_pixel win x width (num_max (PInt (start r)) (fst win)) = Inr p"
    using time_pixel_total [OF assms(1)] by blast
  obtain q where q: "time_pixel win x width (num_min (PInt (stop r)) (snd win)) = Inr q"
    using time_pixel_total [OF assms(1)] by blast
  show ?case
  proof (cases "last_x < q")
    case True
    then show ?thesis using IH [of q] p q colors_lookup_known [OF c] by auto
  next
    case False
    then show ?thesis using IH [of last_x] p q by auto
  qed
qed simp

text \<open>
  In a window from a lower to a higher time every box of a range starts at or right
  of the left edge of the data area and ends at or left of its right edge.
\<close>

theorem draw_ranges_inside:
  assumes "draw_range_list win x y width rs last_x cs = Inr (ops, cs')"
    and "num_val (fst win) < num_val (snd win)" and "0 \<le> num_val width"
    and "Rectangle a b w h \<in> set ops"
  shows "num_int x \<le> num_int a \<and> num_int a + num_int w \<le> num_int (x + width)"
  using assms(1,4)
proof (induction rs arbitrary: last_x cs ops)
  case (Cons r rs)
  obtain p q where p: "time_pixel win x width (num_max (PInt (start r)) (fst win)) = Inr p"
    and q: "time_pixel win x width (num_min (PInt (stop r)) (snd win)) = Inr q"
    using Cons.prems(1) by (auto simp: Let_def res_simps)
  have box: "num_int x \<le> p" "q \<le> num_int (x + width)"
    using time_pixel_bounds(1) [OF p assms(2,3)] time_pixel_bounds(2) [OF q assms(2,3)]
    by (simp_all add: num_simps)
  show ?case
  proof (cases "last_x < q")
    case False
    then have "draw_range_list win x y width rs last_x cs = Inr (ops, cs')"
      using Cons.prems(1) p q by simp
    then show ?thesis using Cons.IH Cons.prems(2) by blast
  next
    case True
    obtain c ds where c: "colors_lookup (range_value r) cs = Inr (c, ds)"
      using Cons.prems(1) p q True by (cases "colors_lookup (range_value r) cs") auto
    obtain rest where r: "draw_range_list win x y width rs q ds = Inr (rest, cs')"
      "ops = [Rectangle (PInt p) y (PInt (q - p)) 10, black, StrokePreserve,
              SetSourceRgb (red c) (green c) (blue c), Fill] @ rest"
      using Cons.prems(1) p q True c by (auto simp: res_simps)
    show ?thesis
    proof (cases "Rectangle a b w h \<in> set rest")
      case True
      then show ?thesis using Cons.IH [OF r(1)] by blast
    next
      case False
      then have "a = PInt p" "w = PInt (q - p)" using Cons.prems(2) r(2) by auto
      then show ?thesis using box by simp
    qed
  qed
qed simp

theorem draw_ranges_inside_witness:
  "\<exists>ops. draw_range_list (0, 10) 50 5 100 [\<lparr>start = 2, stop = 30, range_value = ''a''\<rparr>] 49 new_colors = Inr ops \<and>
    (\<forall>a b w h. Rectangle a b w h \<in> set (fst ops) \<longrightarrow> 50 \<le> num_int a \<and> num_int a + num_int w \<le> 150)"
proof -
  let ?rs = "[\<lparr>start = 2, stop = 30, range_value = ''a''\<rparr>]"
  obtain ops cs where o: "draw_range_list (0, 10) 50 5 100 ?rs 49 new_colors = Inr (ops, cs)"
    by (simp add: time_pixel_def num_div_def num_max_def num_min_def num_lt_def PInt_ops colors_lookup_def
        new_colors_def initial_default_colors_def Let_def)
  have "50 \<le> num_int a \<and> num_int a + num_int w \<le> 150" if "Rectangle a b w h \<in> set ops" for a b w h
    using draw_ranges_inside [OF o _ _ that] by (simp add: PInt_ops)
  with o show ?thesis by (intro exI [of _ "(ops, cs)"]) auto
qed

section \<open>Rows\<close>

lemma draw_each_rows:
  fixes s :: draw_state
  assumes "\<And>x s. x \<in> set xs \<Longrightarrow> row_colors s = cs \<Longrightarrow>
      \<exists>ops s'. f x s = Inr (ops, s') \<and> row_colors s' = cs \<and> num_val (cur_y s') = num_val (cur_y s) + h x"
    and "row_colors s = cs"
  shows "\<exists>ops s'. draw_each f xs s = Inr (ops, s') \<and> row_colors s' = cs \<and>
      num_val (cur_y s') = num_val (cur_y s) + sum_list (map h xs)"
proof -
  let ?g = "\<lambda>x (ops, s). res_bind (f x s) (\<lambda>(ops', s'). Inr (ops @ ops', s'))"
  have "\<exists>ops' s'. res_fold ?g xs (ops, s) = Inr (ops', s') \<and> row_colors s' = cs \<and>
      num_val (cur_y s') = num_val (cur_y s) + sum_list (map h xs)" for ops
    using assms
  proof (induction xs arbitrary: ops s)
    case (Cons x xs)
    obtain o1 s1 where s1: "f x s = Inr (o1, s1)" "row_colors s1 = cs" "num_val (cur_y s1) = num_val (cur_y s) + h x"
      using Cons.prems(1) [OF _ Cons.prems(2), of x] by auto
    have "\<exists>ops' s'. res_fold ?g xs (ops @ o1, s1) = Inr (ops', s') \<and> row_colors s' = cs \<and>
        num_val (cur_y s') = num_val (cur_y s1) + sum_list (map h xs)"
      by (rule Cons.IH [OF Cons.prems(1) s1(2)]) simp
    then show ?case using s1 by (simp add: add.assoc)
  qed simp
  then show ?thesis by (simp add: draw_each_def)
qed

lemma draw_event_row_total:
  assumes "num_val (fst win) \<noteq> num_val (snd win)"
  shows "\<exists>ops. draw_event_row ext padding (Some win) l evs st =
    Inr (ops, st\<lparr>cur_y := cur_y st + (max_text_height l + 5 + padding), background := background st + 1\<rparr>)"
proof -
  obtain lo hi where b: "get_events_bounds evs (num_val (fst win)) (num_val (snd win)) = (lo, hi)" by fastforce
  let ?x = "data_x_start padding l"
  obtain ops where "draw_event_list win (max_text_height l) ?x (cur_y st) (data_width l - ?x)
      (slice (events evs) lo hi) (num_int ?x) = Inr ops"
    using draw_event_list_total [OF assms] by blast
  then show ?thesis by (simp add: draw_event_row_def draw_events_def b Let_def)
qed

lemma set_slice: "set (slice xs i j) \<subseteq> set xs"
  unfolding slice_def by (meson in_set_dropD in_set_takeD subsetI)

lemma draw_range_row_total:
  assumes "num_val (fst win) \<noteq> num_val (snd win)" and "colors_known (row_colors st) (ranges rs)"
  shows "\<exists>ops. draw_range_row ext padding (Some win) l rs st =
    Inr (ops, st\<lparr>cur_y := cur_y st + (max_text_height l + padding), background := background st + 1\<rparr>)"
proof -
  obtain lo hi where b: "get_ranges_bounds rs (num_val (fst win)) (num_val (snd win)) = (lo, hi)" by fastforce
  let ?x = "data_x_start padding l"
  have "colors_known (row_colors st) (slice (ranges rs) lo hi)"
    using assms(2) set_slice [of "ranges rs" lo hi] by (auto simp: colors_known_def)
  then obtain ops where "draw_range_list win ?x (cur_y st) (data_width l - ?x)
      (slice (ranges rs) lo hi) (num_int (?x - 1)) (row_colors st) = Inr (ops, row_colors st)"
    using draw_range_list_total [OF assms(1)] by blast
  then show ?thesis by (auto simp: draw_range_row_def draw_ranges_def b Let_def)
qed

definition values_known :: "colors \<Rightarrow> timelines \<Rightarrow> bool" where
  "values_known cs ts \<longleftrightarrow> (\<forall>t\<in>set ts. \<forall>rs\<in>set (tl_ranges t). colors_known cs (ranges rs))"

definition rows_height :: "rat \<Rightarrow> rat \<Rightarrow> timeline \<Rightarrow> rat" where
  "rows_height mth padding t =
     of_nat (length (event_int t) + length (event_str t)) * (mth + 5 + padding) +
     of_nat (length (tl_ranges t)) * (mth + padding)"

lemma sum_list_const: "sum_list (map (\<lambda>_. c) xs) = of_nat (length xs) * (c :: rat)"
  by (induction xs) (simp_all add: algebra_simps)

lemma draw_timeline_total:
  assumes "num_val (fst win) \<noteq> num_val (snd win)" and "row_colors st = cs"
    and "\<forall>rs\<in>set (tl_ranges t). colors_known cs (ranges rs)"
  shows "\<exists>ops st'. draw_timeline ext padding (Some win) l t st = Inr (ops, st') \<and> row_colors st' = cs \<and>
    num_val (cur_y st') = num_val (cur_y st) + rows_height (num_val (max_text_height l)) (num_val padding) t"
proof -
  let ?e = "\<lambda>_. num_val (max_text_height l) + 5 + num_val padding"
  have ev: "\<exists>ops st'. draw_each (draw_event_row ext padding (Some win) l) es s = Inr (ops, st') \<and>
      row_colors st' = cs \<and> num_val (cur_y st') = num_val (cur_y s) + sum_list (map ?e es)"
    if "row_colors s = cs" for es s
    using that
  proof (rule draw_each_rows [rotated])
    fix x and st :: draw_state assume "row_colors st = cs"
    then show "\<exists>ops st'. draw_event_row ext padding (Some win) l x st = Inr (ops, st') \<and> row_colors st' = cs \<and>
        num_val (cur_y st') = num_val (cur_y st) + ?e x"
      using draw_event_row_total [OF assms(1), of ext padding l x st] by auto
  qed
  obtain o1 s1 where 1: "draw_each (draw_event_row ext padding (Some win) l) (event_int t) st = Inr (o1, s1)"
    "row_colors s1 = cs" "num_val (cur_y s1) = num_val (cur_y st) + sum_list (map ?e (event_int t))"
    using ev [OF assms(2)] by blast
  obtain o2 s2 where 2: "draw_each (draw_event_row ext padding (Some win) l) (event_str t) s1 = Inr (o2, s2)"
    "row_colors s2 = cs" "num_val (cur_y s2) = num_val (cur_y s1) + sum_list (map ?e (event_str t))"
    using ev [OF 1(2)] by blast
  obtain o3 s3 where 3: "draw_each (draw_range_row ext padding (Some win) l) (tl_ranges t) s2 = Inr (o3, s3)"
    "row_colors s3 = cs"
    "num_val (cur_y s3) = num_val (cur_y s2) + sum_list (map (\<lambda>_. num_val (max_text_height l) + num_val padding) (tl_ranges t))"
  proof -
    have "\<exists>ops st'. draw_each (draw_range_row ext padding (Some win) l) (tl_ranges t) s2 = Inr (ops, st') \<and>
      row_colors st' = cs \<and> num_val (cur_y st') =
      num_val (cur_y s2) + sum_list (map (\<lambda>_. num_val (max_text_height l) + num_val padding) (tl_ranges t))"
      using 2(2)
    proof (rule draw_each_rows [rotated])
      fix x and st :: draw_state assume "x \<in> set (tl_ranges t)" "row_colors st = cs"
      then show "\<exists>ops st'. draw_range_row ext padding (Some win) l x st = Inr (ops, st') \<and> row_colors st' = cs \<and>
          num_val (cur_y st') = num_val (cur_y st) + (num_val (max_text_height l) + num_val padding)"
        using draw_range_row_total [OF assms(1), of st x ext padding l] assms(3) by auto
    qed
    then show thesis using that by blast
  qed
  show ?thesis
    using 1 2 3 by (simp add: draw_timeline_def rows_height_def sum_list_const algebra_simps)
qed

lemma length_concat_map: "length (concat (map f xs)) = sum_list (map (\<lambda>x. length (f x)) xs)"
  by (simp add: length_concat o_def)

lemma rows_height_sum:
  "sum_list (map (rows_height mth padding) ts) =
     of_nat (length (concat (map event_int ts)) + length (concat (map event_str ts))) * (mth + 5 + padding) +
     of_nat (length (concat (map tl_ranges ts))) * (mth + padding)"
  by (induction ts) (simp_all add: rows_height_def algebra_simps)

text \<open>
  C35. When the layout has succeeded and data are set, in a window of some length and with a colour for every value, the timelines are drawn
  completely and without a change of the colour table.  The vertical lines end at the foot
  of the last row, and, when the text is at most ten pixels high, inside the height
  that the layout computed.
\<close>

theorem data_draw_fits:
  assumes "tr_do_layout ext width d = Inr d'" and "tr_data d = Some (ts, cs)"
    and "tr_range d = Some win" and "num_val (fst win) \<noteq> num_val (snd win)" and "values_known cs ts"
    and "t_height (ext alphabet) \<le> 10"
  shows "\<exists>ops x bot_y height. tr_draw ext d' = Inr (ops @ draw_line x 0 0 bot_y, d') \<and>
    tr_get_height d' = Inr height \<and>
    num_val bot_y = sum_list (map (rows_height (t_height (ext alphabet)) (num_val (tr_padding d))) ts) \<and>
    num_val bot_y \<le> num_val height"
proof -
  define l where "l = the (tr_layout d')"
  have l: "d' = d\<lparr>tr_layout := Some l\<rparr>" "max_text_height l = PFlt (t_height (ext alphabet))"
    using assms(1) by (auto simp: l_def tr_do_layout_def assms(2) Let_def)
  let ?mth = "t_height (ext alphabet)" and ?pad = "num_val (tr_padding d)"
  let ?st = "\<lparr>cur_y = half (tr_padding d), background = 1, row_colors = cs\<rparr>"
  have "\<exists>ops st. draw_each (draw_timeline ext (tr_padding d) (Some win) l) ts ?st = Inr (ops, st) \<and>
    row_colors st = cs \<and> num_val (cur_y st) = num_val (cur_y ?st) + sum_list (map (rows_height ?mth ?pad) ts)"
  proof (rule draw_each_rows)
    fix t and s :: draw_state assume "t \<in> set ts" "row_colors s = cs"
    then show "\<exists>ops s'. draw_timeline ext (tr_padding d) (Some win) l t s = Inr (ops, s') \<and> row_colors s' = cs \<and>
        num_val (cur_y s') = num_val (cur_y s) + rows_height ?mth ?pad t"
      using draw_timeline_total [OF assms(4), of s cs t ext "tr_padding d" l] assms(5) l(2)
      by (auto simp: values_known_def)
  qed simp
  then obtain ops st where st: "draw_each (draw_timeline ext (tr_padding d) (Some win) l) ts ?st = Inr (ops, st)"
    "row_colors st = cs" "num_val (cur_y st) = num_val (half (tr_padding d)) + sum_list (map (rows_height ?mth ?pad) ts)"
    by auto
  let ?bot = "cur_y st - half (tr_padding d)"
  have bot: "num_val ?bot = sum_list (map (rows_height ?mth ?pad) ts)" using st(3) by simp
  have "tr_draw ext d' = Inr ((draw_line 0 0 (data_width l) 0 @ ops @
      draw_line (half (tr_padding d) + left_width l + half (tr_padding d)) 0 0 ?bot) @
      draw_line (right_x_start (tr_padding d) l + right_width l + half (tr_padding d)) 0 0 ?bot, d')"
    using st(1,2) assms(2,3) by (simp add: tr_draw_def l(1) Let_def)
  then have "\<exists>ops x. tr_draw ext d' = Inr (ops @ draw_line x 0 0 ?bot, d')" by blast
  moreover have "num_val ?bot \<le> num_val (data_height l)"
  proof -
    let ?e = "rat_of_nat (length (concat (map event_int ts)) + length (concat (map event_str ts)))"
    let ?r = "rat_of_nat (length (concat (map tl_ranges ts)))"
    have "num_val (data_height l) \<ge> ?e * (?mth + 5) + ?r * 10 + (?r + ?e) * ?pad"
      using assms(1) by (auto simp: l_def tr_do_layout_def assms(2) Let_def num_simps algebra_simps)
    moreover have "?r * ?mth \<le> ?r * 10" using assms(6) by (intro mult_left_mono) auto
    ultimately show ?thesis unfolding bot rows_height_sum by (simp only: distrib_left distrib_right)
  qed
  moreover have "tr_get_height d' = Inr (data_height l)" by (simp add: tr_get_height_def l(1))
  ultimately show ?thesis using bot by blast
qed

definition sample_colors :: colors where
  "sample_colors = fold (\<lambda>(n, c). colors_add n c)
     [(''a'', mk_color 1 0 0), (''b'', mk_color 0 1 0), (''c'', mk_color 0 0 1)] new_colors"

definition sample_renderer :: timelines_renderer where
  "sample_renderer = set_render_range 2 9 (set_timelines [sample_timeline] sample_colors new_timelines_renderer)"

theorem data_draw_fits_witness:
  "\<exists>d ops. tr_do_layout sample_ext 300 sample_renderer = Inr d \<and> tr_draw sample_ext d = Inr (ops, d)"
proof -
  obtain d where d: "tr_do_layout sample_ext 300 sample_renderer = Inr d"
    by (simp add: tr_do_layout_def sample_renderer_def set_timelines_def set_render_range_def Let_def)
  have "values_known sample_colors [sample_timeline]"
    by (simp add: values_known_def colors_known_def sample_timeline_def sample_ranges_def sample_colors_def
        colors_add_def new_colors_def dict_set_def dict_find_def)
  then show ?thesis
    using data_draw_fits [OF d, of "[sample_timeline]" sample_colors "(2, 9)"] d
    by (auto simp: sample_renderer_def set_timelines_def set_render_range_def sample_ext_def)
qed

text \<open>
  The bound on the text height is needed: \<open>layout\<close> counts ten pixels for a row of ranges,
  but \<open>draw\<close> moves on by the text height.  With one row of each kind and a text of twelve
  pixels the rows end two pixels below the computed height.
\<close>

lemma data_draw_overflow:
  "sum_list (map (rows_height 12 10) [sample_timeline]) = 49"
  "\<exists>d. tr_do_layout (\<lambda>s. \<lparr>y_bearing = - 12, t_width = 6, t_height = 12\<rparr>) 300 sample_renderer = Inr d \<and>
     (\<exists>height. tr_get_height d = Inr height \<and> num_val height = 47)"
  by (simp_all add: rows_height_def sample_timeline_def tr_do_layout_def sample_renderer_def set_timelines_def
      set_render_range_def new_timelines_renderer_def Let_def tr_get_height_def num_simps)

end
