(* ===== verification/Grid_Graphic.thy ===== *)
theory Grid_Graphic
  imports Grid_Draw
begin

text \<open>
  \<open>GraphicRenderer\<close> of \<open>src/utils/grid.py\<close>, which lays out and draws the parts, and \<open>main\<close>,
  which builds it from a trace file.
\<close>

section \<open>GraphicRenderer\<close>

record graphic =
  g_start :: pynum
  g_end :: pynum
  mid_scale :: scale_renderer
  bot_scale :: scale_renderer
  g_width :: pynum
  g_height :: pynum
  g_range :: "(pynum \<times> pynum) option"
  g_data :: "timelines_renderer option"
  g_legend :: "top_legend option"

definition new_graphic :: "int \<Rightarrow> int \<Rightarrow> graphic" where
  "new_graphic lo hi =
     \<lparr>g_start = PFlt (of_int lo), g_end = PFlt (of_int hi), mid_scale = set_top new_scale,
      bot_scale = set_bot (set_bounds (PInt lo) (PInt hi) new_scale), g_width = 1, g_height = 1,
      g_range = None, g_data = None, g_legend = None\<rparr>"

definition set_data :: "timelines_renderer \<Rightarrow> graphic \<Rightarrow> graphic" where
  "set_data d g = g\<lparr>g_data := Some d\<rparr>"

definition set_top_legend :: "top_legend \<Rightarrow> graphic \<Rightarrow> graphic" where
  "set_top_legend lg g = g\<lparr>g_legend := Some lg\<rparr>"

text \<open>Attributes of the parts: \<open>self.__data.get_height()\<close> and so on.\<close>

definition legend_height_of :: "graphic \<Rightarrow> pynum res" where
  "legend_height_of g = res_bind (attr (g_legend g)) (\<lambda>lg. attr (lg_height lg))"

definition data_height_of :: "graphic \<Rightarrow> pynum res" where
  "data_height_of g = res_bind (attr (g_data g)) tr_get_height"

definition data_x_start_of :: "graphic \<Rightarrow> pynum res" where
  "data_x_start_of g = res_bind (attr (g_data g)) get_data_x_start"

definition get_data_rectangle :: "graphic \<Rightarrow> (pynum \<times> pynum \<times> pynum \<times> pynum) res" where
  "get_data_rectangle g =
     res_bind (legend_height_of g) (\<lambda>y_start.
     res_bind (data_x_start_of g) (\<lambda>x_start.
     res_bind (data_height_of g) (\<lambda>height.
     Inr (x_start, y_start, g_width g - x_start, height))))"

definition scale_data :: "pynum \<Rightarrow> graphic \<Rightarrow> pynum res" where
  "scale_data x g =
     res_bind (data_x_start_of g) (\<lambda>x_start.
     res_bind (num_div x (g_width g - x_start)) (\<lambda>q.
     res_bind (attr (g_range g)) (\<lambda>(r_start, r_end). Inr (q * (r_end - r_start)))))"

definition get_selection_rectangle :: "graphic \<Rightarrow> (pynum \<times> pynum \<times> pynum \<times> pynum) res" where
  "get_selection_rectangle g =
     res_bind (legend_height_of g) (\<lambda>lh.
     res_bind (data_height_of g) (\<lambda>dh.
     res_bind (scale_get_height (mid_scale g)) (\<lambda>mh.
     res_bind (scale_get_height (bot_scale g)) (\<lambda>bh.
     res_bind (attr (g_range g)) (\<lambda>(r_start, r_end).
     res_bind (get_position r_start (bot_scale g)) (\<lambda>x_start.
     res_bind (get_position r_end (bot_scale g)) (\<lambda>x_end.
     Inr (x_start, lh + dh + mh + 20, x_end - x_start, bh + 20))))))))"

definition scale_selection :: "pynum \<Rightarrow> graphic \<Rightarrow> pynum res" where
  "scale_selection x g = res_bind (num_div x (g_width g)) (\<lambda>q. Inr (q * (g_end g - g_start g)))"

text \<open>Calls on the parts.\<close>

definition on_legend :: "(top_legend, unit) act \<Rightarrow> (graphic, unit) act" where
  "on_legend m g =
     (case g_legend g of None \<Rightarrow> (g, Inl AttributeError)
      | Some lg \<Rightarrow> (case m lg of (lg', r) \<Rightarrow> (g\<lparr>g_legend := Some lg'\<rparr>, r)))"

definition on_data :: "(timelines_renderer \<Rightarrow> timelines_renderer res) \<Rightarrow> (graphic, unit) act" where
  "on_data f = act_bind (act_read (\<lambda>g. res_bind (attr (g_data g)) f)) (\<lambda>d. act_upd (\<lambda>g. g\<lparr>g_data := Some d\<rparr>))"

definition graphic_layout :: "text_measure \<Rightarrow> pynum \<Rightarrow> pynum \<Rightarrow> (graphic, unit) act" where
  "graphic_layout ext width height =
     act_then (act_upd (\<lambda>g. g\<lparr>g_width := width, g_height := height\<rparr>))
    (act_then (on_legend (legend_layout ext width))
    (act_then (act_read legend_height_of)
    (act_then (on_data (tr_do_layout ext width))
    (act_bind (act_read data_x_start_of) (\<lambda>x.
     act_bind (act_read (\<lambda>g. scale_do_layout ext (width - x) (mid_scale g))) (\<lambda>sc.
     act_then (act_upd (\<lambda>g. g\<lparr>mid_scale := sc\<rparr>))
    (act_bind (act_read (\<lambda>g. scale_do_layout ext width (bot_scale g))) (\<lambda>sc.
     act_upd (\<lambda>g. g\<lparr>bot_scale := sc\<rparr>)))))))))"

text \<open>\<open>set_range\<close> clamps the window to the bounds, then lays everything out again.\<close>

definition clamp_range :: "pynum \<Rightarrow> pynum \<Rightarrow> graphic \<Rightarrow> pynum \<times> pynum" where
  "clamp_range lo hi g =
     (let s = num_min lo hi; e = num_max lo hi in (num_max (g_start g) s, num_min (g_end g) e))"

definition set_range :: "text_measure \<Rightarrow> pynum \<Rightarrow> pynum \<Rightarrow> (graphic, unit) act" where
  "set_range ext lo hi g =
     (case clamp_range lo hi g of (r_start, r_end) \<Rightarrow>
      act_then (act_upd (\<lambda>g. g\<lparr>g_range := Some (r_start, r_end)\<rparr>))
     (act_then (on_data (\<lambda>d. Inr (set_render_range r_start r_end d)))
     (act_then (act_upd (\<lambda>g. g\<lparr>mid_scale := set_bounds r_start r_end (mid_scale g)\<rparr>))
               (graphic_layout ext (g_width g) (g_height g)))) g)"

definition get_graphic_range :: "graphic \<Rightarrow> (pynum \<times> pynum) res" where
  "get_graphic_range g = attr (g_range g)"

text \<open>The stages of \<open>draw\<close>, in order.\<close>

definition draw_background :: "graphic \<Rightarrow> cairo_op list" where
  "draw_background g =
     [Save, SetSourceRgb 1 1 1, SetOperatorSource, Rectangle 0 0 (g_width g) (g_height g), Fill]"

definition separation_line :: "pynum \<Rightarrow> pynum \<Rightarrow> cairo_op list" where
  "separation_line width y = [MoveTo 0 y, LineTo width y, ClosePath, SetLineWidth 2, black, Stroke]"

definition draw_connections :: "pynum \<Rightarrow> pynum \<Rightarrow> pynum \<Rightarrow> pynum \<Rightarrow> pynum \<Rightarrow> cairo_op list" where
  "draw_connections width x_start height_used select_start select_end =
     [MoveTo 0 height_used, LineTo x_start height_used, LineTo select_start (height_used + 20),
      LineTo 0 (height_used + 20), LineTo 0 height_used, black, SetLineWidth 1, StrokePreserve, grey, Fill,
      MoveTo width height_used, LineTo width (height_used + 20), LineTo select_end (height_used + 20),
      LineTo width height_used, black, SetLineWidth 1, StrokePreserve, grey, Fill]"

definition draw_unused :: "pynum \<Rightarrow> pynum \<Rightarrow> pynum \<Rightarrow> pynum \<Rightarrow> pynum \<Rightarrow> cairo_op list" where
  "draw_unused width height_used unused_start unused_end unused_height =
     [Rectangle 0 height_used unused_start unused_height,
      Rectangle unused_end height_used (width - unused_end) unused_height, grey, Fill,
      MoveTo unused_end height_used, LineTo width height_used, LineTo width (height_used + unused_height),
      LineTo 0 (height_used + unused_height), LineTo 0 height_used, LineTo unused_start height_used,
      ClosePath, SetLineWidth 2, black, Stroke,
      MoveTo unused_start height_used, LineTo unused_end height_used, ClosePath, SetLineWidth 1, grey, Stroke,
      Save, MoveTo (num_max unused_start 2) height_used, RelLineTo 0 unused_height,
      MoveTo (num_min unused_end (width - 2)) height_used, RelLineTo 0 unused_height,
      SetDash [5] 0, black, SetLineWidth 1, Stroke, Restore]"

definition graphic_draw :: "text_measure \<Rightarrow> graphic \<Rightarrow> (cairo_op list \<times> graphic) res" where
  "graphic_draw ext g =
     res_bind (attr (g_legend g)) (\<lambda>lg.
     res_bind (legend_draw ext lg) (\<lambda>legend_ops.
     res_bind (attr (lg_height lg)) (\<lambda>lh.
     res_bind (attr (g_data g)) (\<lambda>d.
     res_bind (tr_draw ext d) (\<lambda>(data_ops, d').
     res_bind (get_data_x_start d') (\<lambda>x_start.
     res_bind (tr_get_height d') (\<lambda>dh.
     res_bind (scale_get_height (mid_scale g)) (\<lambda>mh.
     res_bind (scale_draw ext (mid_scale g)) (\<lambda>mid_ops.
     res_bind (attr (g_range g)) (\<lambda>(r_start, r_end).
     res_bind (get_position r_start (bot_scale g)) (\<lambda>select_start.
     res_bind (get_position r_end (bot_scale g)) (\<lambda>select_end.
     res_bind (scale_get_height (bot_scale g)) (\<lambda>bh.
     res_bind (scale_draw ext (bot_scale g)) (\<lambda>bot_ops.
     let width = g_width g; height_used = lh + dh + mh; below = height_used + 20
     in Inr (draw_background g @
             [Save] @ legend_ops @ [Restore] @
             separation_line width lh @
             [Save, Translate 0 lh] @ data_ops @ [Restore] @
             [Save, Translate x_start height_used] @ mid_ops @ [Restore] @
             [MoveTo x_start height_used, RelLineTo 0 (- mh), ClosePath, black, SetLineWidth 2, Stroke] @
             separation_line width height_used @
             draw_connections width x_start height_used select_start select_end @
             draw_unused width below select_start select_end (bh + 20) @
             [Save, Translate 0 below] @ bot_ops @ [Restore],
             g\<lparr>g_data := Some d'\<rparr>)))))))))))))))"

section \<open>main\<close>

definition initial_range :: "int \<Rightarrow> int \<Rightarrow> pynum \<times> pynum" where
  "initial_range lower_bound upper_bound =
     (let range_mid = PInt ((upper_bound - lower_bound) div 2);
          range_width = PInt ((upper_bound - lower_bound) div 10)
      in (range_mid - half range_width, range_mid + half range_width))"

text \<open>\<open>main\<close> up to the start of the window: the graphic it hands to the window.\<close>

definition main_graphic :: "text_measure \<Rightarrow> (string list \<Rightarrow> string list) \<Rightarrow> string \<Rightarrow> graphic res" where
  "main_graphic ext key_order content =
     (case read_data content of (cs, ts) \<Rightarrow>
      case timelines_bounds ts of (lower_bound, upper_bound) \<Rightarrow>
      let range_values = all_range_values key_order ts in
      res_bind (lookup_all range_values cs) (\<lambda>(range_colors, cs').
      let g = set_data (set_timelines ts cs' new_timelines_renderer)
               (set_top_legend (set_legends range_values range_colors new_legend)
                 (new_graphic lower_bound upper_bound));
          (lo, hi) = initial_range lower_bound upper_bound
      in case set_range ext lo hi g of (g', Inl e) \<Rightarrow> Inl e | (g', Inr _) \<Rightarrow> Inr g'))"

section \<open>The window stays inside the bounds\<close>

lemma on_legend_frame:
  "g_start (fst (on_legend m g)) = g_start g" "g_end (fst (on_legend m g)) = g_end g"
  "g_range (fst (on_legend m g)) = g_range g" "g_width (fst (on_legend m g)) = g_width g"
  "bot_scale (fst (on_legend m g)) = bot_scale g"
  by (simp_all add: on_legend_def split: option.split prod.split)

lemma graphic_layout_frame:
  "g_start (fst (graphic_layout ext w h g)) = g_start g"
  "g_end (fst (graphic_layout ext w h g)) = g_end g"
  "g_range (fst (graphic_layout ext w h g)) = g_range g"
  using on_legend_frame [of "legend_layout ext w" "g\<lparr>g_width := w, g_height := h\<rparr>"]
  by (auto simp: graphic_layout_def act_simps on_data_def split: prod.splits sum.splits)

lemma set_range_frame:
  "g_start (fst (set_range ext lo hi g)) = g_start g"
  "g_end (fst (set_range ext lo hi g)) = g_end g"
  "g_range (fst (set_range ext lo hi g)) = Some (clamp_range lo hi g)"
  by (auto simp: set_range_def act_simps on_data_def graphic_layout_frame split: prod.splits sum.splits)

text \<open>
  \<open>set_range\<close> assigns the window also when the layout that follows raises.  The window
  never begins before the start of the data or ends after its end; a window inside the data is
  taken as it is, with its edges in order; and a window that meets the data stays in order.
\<close>

theorem set_range_clamps:
  "\<exists>r_start r_end. g_range (fst (set_range ext lo hi g)) = Some (r_start, r_end) \<and>
    num_val (g_start g) \<le> num_val r_start \<and> num_val r_end \<le> num_val (g_end g) \<and>
    (num_val (g_start g) \<le> min (num_val lo) (num_val hi) \<and> max (num_val lo) (num_val hi) \<le> num_val (g_end g) \<longrightarrow>
       num_val r_start = min (num_val lo) (num_val hi) \<and> num_val r_end = max (num_val lo) (num_val hi)) \<and>
    (num_val (g_start g) \<le> num_val (g_end g) \<and> min (num_val lo) (num_val hi) \<le> num_val (g_end g) \<and>
       num_val (g_start g) \<le> max (num_val lo) (num_val hi) \<longrightarrow> num_val r_start \<le> num_val r_end)"
  by (auto simp: set_range_frame clamp_range_def Let_def num_simps)

theorem set_range_clamps_witness:
  "\<exists>a b. g_range (fst (set_range sample_ext 3 8 (new_graphic 0 12))) = Some (a, b) \<and> num_val a = 3 \<and> num_val b = 8"
  using set_range_clamps [of sample_ext 3 8 "new_graphic 0 12"] by (auto simp: new_graphic_def)

text \<open>
  A window that lies wholly beyond the end of the data ends up with its edges exchanged.
\<close>

lemma set_range_beyond:
  "g_range (fst (set_range sample_ext 15 20 (new_graphic 0 12))) = Some (15, PFlt 12)"
  by (simp add: set_range_frame clamp_range_def new_graphic_def num_min_def num_max_def num_lt_def)

section \<open>A laid out graphic can be drawn\<close>

definition legend_ready :: "top_legend \<Rightarrow> bool" where
  "legend_ready lg \<longleftrightarrow> (\<exists>legends cs. lg_legends lg = Some (legends, cs) \<and> length legends \<le> length cs)"

definition data_ready :: "timelines_renderer \<Rightarrow> bool" where
  "data_ready d \<longleftrightarrow> (\<exists>ts cs. tr_data d = Some (ts, cs) \<and> values_known cs ts)"

definition scale_ready :: "scale_renderer \<Rightarrow> bool" where
  "scale_ready sc \<longleftrightarrow>
     (\<exists>lo hi l. sc_bounds sc = Some (lo, hi) \<and> num_val lo < num_val hi \<and> sc_layout sc = Some l \<and> 0 < delta l)"

definition drawable :: "graphic \<Rightarrow> bool" where
  "drawable g \<longleftrightarrow>
     (\<exists>lg. g_legend g = Some lg \<and> legend_ready lg \<and> lg_width lg \<noteq> None \<and> lg_height lg \<noteq> None) \<and>
     (\<exists>d win. g_data g = Some d \<and> data_ready d \<and> tr_range d = Some win \<and>
        num_val (fst win) < num_val (snd win) \<and> tr_layout d \<noteq> None) \<and>
     scale_ready (mid_scale g) \<and> scale_ready (bot_scale g) \<and> g_range g \<noteq> None"

lemma draw_all_total:
  assumes "\<And>x. x \<in> set xs \<Longrightarrow> \<exists>ops. f x = Inr ops"
  shows "\<exists>ops. draw_all f xs = Inr ops"
proof -
  have "\<exists>ops. res_fold (\<lambda>x ops. res_bind (f x) (\<lambda>ops'. Inr (ops @ ops'))) xs [] = Inr ops \<and> True"
    using assms by (intro res_fold_total) fastforce+
  then show ?thesis by (simp add: draw_all_def)
qed

lemma scale_pixel_total:
  assumes "num_val (fst b) < num_val (snd b)"
  shows "\<exists>p. scale_pixel b width x = Inr p"
proof -
  from assms have "num_val (snd b - fst b) \<noteq> 0" by simp
  from num_div_val(2) [OF this] show ?thesis by (simp add: scale_pixel_def)
qed

lemma scale_ticks_total: "0 < d \<Longrightarrow> \<exists>ticks. scale_ticks b d = Inr ticks"
  by (simp add: scale_ticks_def tick_start_def tick_end_def num_mod_def py_range_def)

lemma scale_ready_draws:
  assumes "scale_ready sc"
  shows "\<exists>ops. scale_draw ext sc = Inr ops" and "\<exists>x. get_position t sc = Inr x"
    and "\<exists>h. scale_get_height sc = Inr h"
proof -
  obtain lo hi l where sc: "sc_bounds sc = Some (lo, hi)" "num_val lo < num_val hi" "sc_layout sc = Some l" "0 < delta l"
    using assms by (auto simp: scale_ready_def)
  have px: "\<exists>p. scale_pixel (lo, hi) width x = Inr p" for width x
    using scale_pixel_total [of "(lo, hi)"] sc(2) by simp
  show "\<exists>x. get_position t sc = Inr x" using px sc by (simp add: get_position_def)
  show "\<exists>h. scale_get_height sc = Inr h" using sc by (simp add: scale_get_height_def)
  define s where "s = (if sc_top sc = 1 then - 1 else 1 :: int)"
  obtain ticks where ticks: "scale_ticks (lo, hi) (delta l) = Inr ticks" using scale_ticks_total [OF sc(4)] by blast
  have "\<exists>ops. draw_tick ext sc (lo, hi) (scale_width l) s x = Inr ops" for x
    using px [of "scale_width l" "PInt x"] by (auto simp: draw_tick_def Let_def)
  then obtain ops where ops: "draw_all (draw_tick ext sc (lo, hi) (scale_width l) s) ticks = Inr ops"
    using draw_all_total [of ticks "draw_tick ext sc (lo, hi) (scale_width l) s"] by blast
  have sub: "\<exists>ops. draw_all (draw_subtick (lo, hi) (scale_width l) s) xs = Inr ops" for xs
    using px [of "scale_width l"] by (intro draw_all_total) (auto simp: draw_subtick_def, metis res_bind_simps(2))
  have "\<exists>subs. (if 0 < delta l div 10
      then res_bind (scale_ticks (lo, hi) (delta l div 10)) (draw_all (draw_subtick (lo, hi) (scale_width l) s))
      else Inr []) = Inr subs"
    using sub scale_ticks_total [of "delta l div 10" "(lo, hi)"] by auto
  then show "\<exists>ops. scale_draw ext sc = Inr ops"
    using sc ticks ops by (auto simp: scale_draw_def Let_def s_def)
qed

lemma tr_draw_ready:
  assumes "data_ready d" and "tr_range d = Some win" and "num_val (fst win) < num_val (snd win)" and "tr_layout d = Some l"
  shows "\<exists>ops. tr_draw ext d = Inr (ops, d)"
proof -
  obtain ts cs where d: "tr_data d = Some (ts, cs)" "values_known cs ts" using assms(1) by (auto simp: data_ready_def)
  let ?st = "\<lparr>cur_y = half (tr_padding d), background = 1, row_colors = cs\<rparr>"
  have ne: "num_val (fst win) \<noteq> num_val (snd win)" using assms(3) by simp
  have "\<exists>ops st. draw_each (draw_timeline ext (tr_padding d) (Some win) l) ts ?st = Inr (ops, st) \<and>
    row_colors st = cs \<and> num_val (cur_y st) = num_val (cur_y ?st) +
      sum_list (map (rows_height (num_val (max_text_height l)) (num_val (tr_padding d))) ts)"
  proof (rule draw_each_rows)
    fix t and s :: draw_state assume "t \<in> set ts" "row_colors s = cs"
    then show "\<exists>ops s'. draw_timeline ext (tr_padding d) (Some win) l t s = Inr (ops, s') \<and> row_colors s' = cs \<and>
        num_val (cur_y s') = num_val (cur_y s) + rows_height (num_val (max_text_height l)) (num_val (tr_padding d)) t"
      using draw_timeline_total [OF ne, of s cs t ext "tr_padding d" l] d(2) by (auto simp: values_known_def)
  qed simp
  then show ?thesis using d(1) assms(2,4) by (auto simp: tr_draw_def Let_def)
qed

lemma drawable_total:
  assumes "drawable g"
  shows "\<exists>ops. graphic_draw ext g = Inr (ops, g)"
proof -
  obtain lg legends lcs w lh where lg: "g_legend g = Some lg" "lg_legends lg = Some (legends, lcs)"
    "length legends \<le> length lcs" "lg_width lg = Some w" "lg_height lg = Some lh"
    using assms by (auto simp: drawable_def legend_ready_def)
  obtain d win l where d: "g_data g = Some d" "data_ready d" "tr_range d = Some win"
    "num_val (fst win) < num_val (snd win)" "tr_layout d = Some l"
    using assms by (auto simp: drawable_def)
  obtain a b where r: "g_range g = Some (a, b)" using assms by (auto simp: drawable_def)
  have sc: "scale_ready (mid_scale g)" "scale_ready (bot_scale g)" using assms by (auto simp: drawable_def)
  obtain lops where "legend_draw ext lg = Inr lops"
    using legend_items_total [of 0 legends lcs ext "lg_padding lg" w "legend_start (lg_padding lg)"] lg(2-4)
    by (cases "legends = []") (auto simp: legend_draw_def)
  moreover obtain dops where "tr_draw ext d = Inr (dops, d)" using tr_draw_ready [OF d(2-5)] by blast
  moreover obtain mops where "scale_draw ext (mid_scale g) = Inr mops" using scale_ready_draws(1) [OF sc(1)] by blast
  moreover obtain bops where "scale_draw ext (bot_scale g) = Inr bops" using scale_ready_draws(1) [OF sc(2)] by blast
  moreover obtain p where "get_position a (bot_scale g) = Inr p" using scale_ready_draws(2) [OF sc(2)] by blast
  moreover obtain q where "get_position b (bot_scale g) = Inr q" using scale_ready_draws(2) [OF sc(2)] by blast
  moreover obtain mh where "scale_get_height (mid_scale g) = Inr mh" using scale_ready_draws(3) [OF sc(1)] by blast
  moreover obtain bh where "scale_get_height (bot_scale g) = Inr bh" using scale_ready_draws(3) [OF sc(2)] by blast
  ultimately show ?thesis
    using lg d r by (simp add: graphic_draw_def get_data_x_start_def tr_get_height_def Let_def)
qed

lemma scale_layout_total:
  assumes "sc_bounds sc = Some (lo, hi)" and "num_val lo < num_val hi" and "num_val hi - num_val lo \<noteq> 1"
  obtains sc' where "scale_do_layout ext width sc = Inr sc'" "scale_ready sc'"
proof -
  have "0 < scale_delta (hi - lo)" using scale_delta_bounds [of "hi - lo"] assms by simp
  then show thesis
    using assms that by (auto simp: scale_do_layout_def tick_start_def tick_end_def num_mod_def Let_def scale_ready_def)
qed

text \<open>What \<open>set_range\<close> needs besides the new window.\<close>

definition configured :: "graphic \<Rightarrow> bool" where
  "configured g \<longleftrightarrow>
     (\<exists>lg. g_legend g = Some lg \<and> legend_ready lg) \<and> (\<exists>d. g_data g = Some d \<and> data_ready d) \<and>
     (\<exists>lo hi. sc_bounds (bot_scale g) = Some (lo, hi) \<and> num_val lo < num_val hi \<and> num_val hi - num_val lo \<noteq> 1)"

lemma tr_do_layout_total:
  "data_ready d \<Longrightarrow> \<exists>l. tr_do_layout ext width d = Inr (d\<lparr>tr_layout := Some l\<rparr>)"
  by (auto simp: data_ready_def tr_do_layout_def Let_def)

lemma legend_layout_total:
  "legend_ready lg \<Longrightarrow> \<exists>h. legend_layout ext width lg = (lg\<lparr>lg_width := Some width, lg_height := Some h\<rparr>, Inr ())"
  by (auto simp: legend_ready_def legend_layout_def act_simps Let_def)

lemma set_range_drawable:
  assumes "configured g" and "clamp_range lo hi g = (a, b)"
    and "num_val a < num_val b" and "num_val b - num_val a \<noteq> 1"
  shows "\<exists>g'. set_range ext lo hi g = (g', Inr ()) \<and> drawable g' \<and> configured g'"
proof -
  obtain lg where lg: "g_legend g = Some lg" "legend_ready lg" using assms(1) by (auto simp: configured_def)
  obtain d where d: "g_data g = Some d" "data_ready d" using assms(1) by (auto simp: configured_def)
  let ?d = "set_render_range a b d"
  have rd: "data_ready ?d" using d(2) by (simp add: data_ready_def set_render_range_def)
  obtain h where h: "legend_layout ext (g_width g) lg =
      (lg\<lparr>lg_width := Some (g_width g), lg_height := Some h\<rparr>, Inr ())"
    using legend_layout_total [OF lg(2)] by blast
  obtain l where l: "tr_do_layout ext (g_width g) ?d = Inr (?d\<lparr>tr_layout := Some l\<rparr>)"
    using tr_do_layout_total [OF rd] by blast
  obtain mid where mid: "scale_do_layout ext (g_width g - data_x_start (tr_padding ?d) l)
      (set_bounds a b (mid_scale g)) = Inr mid" "scale_ready mid"
    using scale_layout_total [of "set_bounds a b (mid_scale g)" a b] assms(3,4) by (auto simp: set_bounds_def)
  obtain blo bhi where bb: "sc_bounds (bot_scale g) = Some (blo, bhi)" "num_val blo < num_val bhi" "num_val bhi - num_val blo \<noteq> 1"
    using assms(1) by (auto simp: configured_def)
  obtain bot where bot: "scale_do_layout ext (g_width g) (bot_scale g) = Inr bot" "scale_ready bot"
    using scale_layout_total [OF bb] by blast
  let ?g = "g\<lparr>g_range := Some (a, b), g_data := Some (?d\<lparr>tr_layout := Some l\<rparr>), mid_scale := mid, bot_scale := bot,
      g_legend := Some (lg\<lparr>lg_width := Some (g_width g), lg_height := Some h\<rparr>)\<rparr>"
  have "set_range ext lo hi g = (?g, Inr ())"
    by (simp add: set_range_def assms(2) act_simps on_data_def d(1) graphic_layout_def on_legend_def lg(1) h
        legend_height_of_def l data_x_start_of_def get_data_x_start_def mid(1) bot(1))
  moreover have "drawable ?g"
    using lg d mid(2) bot(2) assms(3) by (simp add: drawable_def legend_ready_def data_ready_def set_render_range_def)
  moreover have "configured ?g"
    using bot(1) bb lg d
    by (auto simp: configured_def legend_ready_def data_ready_def set_render_range_def scale_do_layout_def res_simps Let_def)
  ultimately show ?thesis by blast
qed

section \<open>main\<close>

lemma lookup_named_distinct:
  "distinct (map f xs) \<Longrightarrow> x \<in> set xs \<Longrightarrow> lookup_named f (f x) xs = Some x"
  by (induction xs) auto

lemma match_nonneg:
  "match_range line = Some (t, n, r) \<Longrightarrow> 0 \<le> start r"
  "match_event_str line = Some (t, n, e) \<Longrightarrow> 0 \<le> ev_at e"
  "match_event_int line = Some (t, n, e) \<Longrightarrow> 0 \<le> ev_at e"
  by (auto simp: match_range_def match_event_str_def match_event_int_def bind_eq_Some_conv)

lemma selected_nonneg:
  "r \<in> set (selected tn name (match_range line)) \<Longrightarrow> 0 \<le> start r"
  "e \<in> set (selected tn name (match_event_str line)) \<Longrightarrow> 0 \<le> ev_at e"
  "e \<in> set (selected tn name (match_event_int line)) \<Longrightarrow> 0 \<le> ev_at e"
  by (auto simp: selected_def dest: match_nonneg [OF sym] split: option.splits if_splits)

lemma stored_distinct:
  assumes "timelines_named ts" and "t \<in> set ts"
  shows "rs \<in> set (tl_ranges t) \<Longrightarrow> stored_ranges (timeline_name t) (range_name rs) ts = ranges rs"
    and "es \<in> set (event_str t) \<Longrightarrow> stored_str (timeline_name t) (event_name es) ts = events es"
    and "es \<in> set (event_int t) \<Longrightarrow> stored_int (timeline_name t) (event_name es) ts = events es"
proof -
  have t: "lookup_named timeline_name (timeline_name t) ts = Some t" "names_ok t"
    using assms by (auto simp: timelines_named_def lookup_named_distinct)
  show "rs \<in> set (tl_ranges t) \<Longrightarrow> stored_ranges (timeline_name t) (range_name rs) ts = ranges rs"
    using t by (simp add: stored_defs on_named_def range_list_def names_ok_def lookup_named_distinct)
  show "es \<in> set (event_str t) \<Longrightarrow> stored_str (timeline_name t) (event_name es) ts = events es"
    using t by (simp add: stored_defs on_named_def event_list_def names_ok_def lookup_named_distinct)
  show "es \<in> set (event_int t) \<Longrightarrow> stored_int (timeline_name t) (event_name es) ts = events es"
    using t by (simp add: stored_defs on_named_def event_list_def names_ok_def lookup_named_distinct)
qed

definition times_nonneg :: "timelines \<Rightarrow> bool" where
  "times_nonneg ts \<longleftrightarrow>
     (\<forall>t\<in>set ts. (\<forall>rs\<in>set (tl_ranges t). \<forall>r\<in>set (ranges rs). 0 \<le> start r) \<and>
        (\<forall>es\<in>set (event_str t) \<union> set (event_int t). \<forall>e\<in>set (events es). 0 \<le> ev_at e))"

lemma fold_read_nonneg:
  assumes "fold read_line lines ([], new_colors) = (ts, cs)"
  shows "times_nonneg ts"
proof -
  have named: "timelines_named ts"
    by (rule fold_read_named [OF _ assms]) (simp add: timelines_named_def)
  have nil: "stored_ranges a b [] = []" "stored_str a b [] = []" "stored_int a b [] = []" for a b
    by (simp_all add: stored_defs on_named_def)
  have st: "r \<in> set (stored_ranges a b ts) \<Longrightarrow> 0 \<le> start r" "e \<in> set (stored_str a b ts) \<Longrightarrow> 0 \<le> ev_at e"
    "e \<in> set (stored_int a b ts) \<Longrightarrow> 0 \<le> ev_at e" for r e a b
    using fold_read_stored [OF assms, of a b] by (auto simp: nil dest: selected_nonneg)
  show ?thesis
    unfolding times_nonneg_def
  proof (intro ballI conjI)
    fix t rs r assume "t \<in> set ts" "rs \<in> set (tl_ranges t)" "r \<in> set (ranges rs)"
    then show "0 \<le> start r" using st(1) stored_distinct(1) [OF named] by metis
  next
    fix t es e assume "t \<in> set ts" "es \<in> set (event_str t) \<union> set (event_int t)" "e \<in> set (events es)"
    then show "0 \<le> ev_at e" using st(2,3) stored_distinct(2,3) [OF named] by (metis Un_iff)
  qed
qed

lemma times_nonneg_sort: "times_nonneg ts \<Longrightarrow> times_nonneg (timelines_sort ts)"
  by (auto simp: times_nonneg_def timelines_sort_def timeline_sort_def tdr_sort_ranges te_sort_events ball_Un)

lemma fold_widen_zero:
  "\<forall>b\<in>set bs. 0 \<le> fst b \<Longrightarrow> fst acc = 0 \<Longrightarrow> fst (fold widen bs acc) = 0"
  by (induction bs arbitrary: acc) (auto simp: widen_def split: prod.splits)

lemma list_bounds_nonneg:
  "\<forall>e\<in>set (events es). 0 \<le> ev_at e \<Longrightarrow> 0 \<le> fst (te_bounds es)"
  "\<forall>r\<in>set (ranges rs). 0 \<le> start r \<Longrightarrow> 0 \<le> fst (tdr_bounds rs)"
  by (auto simp: te_bounds_def tdr_bounds_def)

lemma bounds_nonneg:
  assumes "times_nonneg ts"
  shows "fst (timelines_bounds ts) = 0"
proof -
  have "fst (timeline_bounds t) = 0" if "t \<in> set ts" for t
  proof -
    have "\<forall>b\<in>set (map tdr_bounds (tl_ranges t)). 0 \<le> fst b"
      "\<forall>b\<in>set (map te_bounds (event_str t)). 0 \<le> fst b" "\<forall>b\<in>set (map te_bounds (event_int t)). 0 \<le> fst b"
      using assms that by (auto simp: times_nonneg_def ball_Un intro!: list_bounds_nonneg)
    then show ?thesis unfolding timeline_bounds_def by (intro fold_widen_zero) simp_all
  qed
  then show ?thesis unfolding timelines_bounds_def by (intro fold_widen_zero) auto
qed

lemma read_data_lower_bound: "fst (timelines_bounds (snd (read_data content))) = 0"
proof -
  obtain ts cs where f: "fold read_line (readlines content) ([], new_colors) = (ts, cs)" by fastforce
  show ?thesis
    using bounds_nonneg [OF times_nonneg_sort [OF fold_read_nonneg [OF f]]] by (simp add: read_data_def f)
qed

lemma fold_read_colors:
  "fold read_line lines (ts, cs) = (ts', cs') \<Longrightarrow> dict_ok (color_table cs) \<Longrightarrow>
   dict_ok (color_table cs') \<and> default_colors cs' = default_colors cs"
proof (induction lines arbitrary: ts cs)
  case (Cons l ls)
  obtain us ds where u: "read_line l (ts, cs) = (us, ds)" by fastforce
  have "dict_ok (color_table ds)" "default_colors ds = default_colors cs"
    using u Cons.prems(2) by (auto simp: read_line_def colors_add_def dict_simps split: option.splits)
  then show ?case using Cons.IH [of us ds] Cons.prems(1) u by simp
qed simp

lemma read_data_colors:
  "dict_ok (color_table (fst (read_data content)))"
  "default_colors (fst (read_data content)) = initial_default_colors"
proof -
  obtain ts cs where f: "fold read_line (readlines content) ([], new_colors) = (ts, cs)" by fastforce
  have "dict_ok (color_table new_colors)" "default_colors new_colors = initial_default_colors"
    by (simp_all add: new_colors_def)
  with fold_read_colors [OF f] show "dict_ok (color_table (fst (read_data content)))"
    "default_colors (fst (read_data content)) = initial_default_colors"
    by (simp_all add: read_data_def f)
qed

lemma fold_keys:
  "dict_ok d \<Longrightarrow> dict_ok (fold (\<lambda>r d. dict_set (range_value r) (1::int) d) rs d) \<and>
   set (map fst (fold (\<lambda>r d. dict_set (range_value r) (1::int) d) rs d)) = set (map fst d) \<union> range_value ` set rs"
proof (induction rs arbitrary: d)
  case (Cons r rs)
  have "set (map fst (dict_set (range_value r) (1::int) d)) = insert (range_value r) (set (map fst d))"
    by (auto simp: keys_dict_find dict_ops Cons.prems simp del: set_map split: if_splits)
  then show ?case using Cons.IH [of "dict_set (range_value r) 1 d"] Cons.prems by (auto simp: dict_ops)
qed simp

lemma all_range_values_spec:
  assumes "permutes_keys key_order"
  shows "distinct (all_range_values key_order ts)"
    and "set (all_range_values key_order ts) =
      range_value ` set (concat (map (\<lambda>t. concat (map ranges (tl_ranges t))) ts))"
  using fold_keys [of "[]" "concat (map (\<lambda>t. concat (map ranges (tl_ranges t))) ts)"] assms
  by (auto simp: all_range_values_def permutes_keys_distinct permutes_keys_set dict_ok_def)

lemma initial_range_inside:
  assumes "20 \<le> hi" and "initial_range 0 hi = (a, b)"
  shows "0 \<le> num_val a" and "num_val b \<le> of_int hi" and "num_val a < num_val b" and "num_val b - num_val a \<noteq> 1"
proof -
  let ?w = "hi div 10 div 2"
  have ab: "num_val a = of_int (hi div 2 - ?w)" "num_val b = of_int (hi div 2 + ?w)"
    using assms(2) by (auto simp: initial_range_def half_def num_quot_def PInt_ops Let_def)
  have w: "1 \<le> ?w" "?w \<le> hi div 2" "hi div 2 + ?w \<le> hi" using assms(1) by auto
  show "0 \<le> num_val a" "num_val b \<le> of_int hi" "num_val a < num_val b" unfolding ab using w by simp_all
  have "num_val b - num_val a = of_int (2 * ?w)" unfolding ab by simp
  moreover have "2 * ?w \<noteq> 1" by presburger
  ultimately show "num_val b - num_val a \<noteq> 1" by (metis of_int_eq_1_iff)
qed

lemma main_graphic_ready:
  assumes "permutes_keys key_order"
    and "20 \<le> snd (timelines_bounds (snd (read_data content)))"
    and "length (unnamed (fst (read_data content)) (all_range_values key_order (snd (read_data content)))) \<le> 6"
  shows "\<exists>g. main_graphic ext key_order content = Inr g \<and> drawable g"
proof -
  obtain cs ts where rd: "read_data content = (cs, ts)" by fastforce
  obtain hi where b: "timelines_bounds ts = (0, hi)" "20 \<le> hi"
    using read_data_lower_bound [of content] assms(2) by (cases "timelines_bounds ts") (simp add: rd)
  let ?vs = "all_range_values key_order ts"
  have "length (unnamed cs ?vs) \<le> length (default_colors cs)"
    using assms(3) read_data_colors(2) [of content] by (simp add: rd initial_default_colors_def)
  then obtain cl cs' where lk: "lookup_all ?vs cs = Inr (cl, cs')" "length cl = length ?vs"
    "\<forall>i<length ?vs. dict_find (color_table cs') (?vs ! i) = Some (cl ! i)"
    using lookup_all_ok [OF all_range_values_spec(1) [OF assms(1), of ts], of cs "[]"] read_data_colors(1) [of content]
    by (auto simp: rd lookup_all_def)
  have "values_known cs' ts"
    unfolding values_known_def colors_known_def
  proof (intro ballI)
    fix t rs r assume "t \<in> set ts" "rs \<in> set (tl_ranges t)" "r \<in> set (ranges rs)"
    then have "range_value r \<in> set ?vs" by (auto simp: all_range_values_spec(2) [OF assms(1)])
    then obtain i where "i < length ?vs" "range_value r = ?vs ! i" by (metis in_set_conv_nth)
    then show "dict_find (color_table cs') (range_value r) \<noteq> None" using lk(3) by simp
  qed
  then have d: "data_ready (set_timelines ts cs' new_timelines_renderer)"
    by (simp add: data_ready_def set_timelines_def)
  let ?g = "set_data (set_timelines ts cs' new_timelines_renderer)
      (set_top_legend (set_legends ?vs cl new_legend) (new_graphic 0 hi))"
  obtain lo up where r: "initial_range 0 hi = (lo, up)" by fastforce
  note i = initial_range_inside [OF b(2) r]
  obtain p q where c: "clamp_range lo up ?g = (p, q)" by fastforce
  have pq: "num_val p = num_val lo" "num_val q = num_val up"
    using c i by (auto simp: clamp_range_def set_data_def set_top_legend_def new_graphic_def Let_def num_simps)
  have "configured ?g"
    using d lk(2) b(2) by (auto simp: configured_def set_data_def set_top_legend_def new_graphic_def set_legends_def
        legend_ready_def set_bot_def set_bounds_def)
  from set_range_drawable [OF this c] i(3,4) obtain g' where g': "set_range ext lo up ?g = (g', Inr ())" "drawable g'"
    by (auto simp: pq)
  have "main_graphic ext key_order content = Inr g'"
    using g'(1) by (simp add: main_graphic_def rd b(1) Let_def lk(1) r)
  with g'(2) show ?thesis by blast
qed

text \<open>
  C14. From the file to the picture: for a trace that spans at least twenty time units and
  needs no more default colours than there are, \<open>main\<close> builds a graphic without an
  exception, and the graphic is drawn without one, whatever the sizes of the texts and
  the order in which the dictionary yields the values.
\<close>

theorem main_draws:
  assumes "permutes_keys key_order"
    and "20 \<le> snd (timelines_bounds (snd (read_data content)))"
    and "length (unnamed (fst (read_data content)) (all_range_values key_order (snd (read_data content)))) \<le> 6"
  shows "\<exists>g ops. main_graphic ext key_order content = Inr g \<and> graphic_draw ext g = Inr (ops, g)"
  using main_graphic_ready [OF assms] drawable_total by blast

definition sample_trace :: string where
  "sample_trace = ''range n0 state idle 0 50'' @ [CHR 0x0A] @ ''event-int n0 tx 7 30'' @ [CHR 0x0A]"

lemma sample_trace_facts:
  "timelines_bounds (snd (read_data sample_trace)) = (0, 50)"
  "unnamed (fst (read_data sample_trace)) (all_range_values rev (snd (read_data sample_trace))) = [''idle'']"
  by code_simp+

theorem main_draws_witness:
  "\<exists>g ops. main_graphic sample_ext rev sample_trace = Inr g \<and> graphic_draw sample_ext g = Inr (ops, g)"
  by (rule main_draws [OF permutes_keys_rev]) (simp_all add: sample_trace_facts)

text \<open>
  A trace shorter than twenty time units gets an empty initial window, and one without any
  record has equal bounds.  The positions on the scale then divide by zero.
\<close>

lemma initial_range_empty:
  "0 \<le> hi \<Longrightarrow> hi < 20 \<Longrightarrow> fst (initial_range 0 hi) = snd (initial_range 0 hi)"
proof -
  assume "0 \<le> hi" "hi < 20"
  then have "hi div 10 div 2 = 0" by simp
  then show ?thesis by (simp add: initial_range_def half_def num_quot_def PInt_ops Let_def)
qed

lemma scale_pixel_empty: "num_val lo = num_val hi \<Longrightarrow> scale_pixel (lo, hi) width x = Inl ZeroDivisionError"
  by (simp add: scale_pixel_def num_div_def)

end
