(* ===== verification/Grid_Gui.thy ===== *)
theory Grid_Gui
  imports Grid_Graphic
begin

text \<open>
  \<open>GtkGraphicRenderer\<close> and \<open>MainWindow\<close> of \<open>src/utils/grid.py\<close>: the handlers of the
  window events as actions on the widget, the events of a session as a step relation, and
  the invariant of its reachable states.

  A Python exception in a GTK callback is printed and the main loop goes on, so a
  step takes the state a handler leaves also when it raises.  The widget's calls of GTK that
  change nothing in the program (redraw requests, the cursor) are kept as fields.
\<close>

section \<open>The widget\<close>

datatype cursor_shape = SbHDoubleArrow | Fleur

datatype request = QueueDraw | QueueDrawArea int int int int

text \<open>
  \<open>moving_right\<close> is a number: one handler assigns the width to the flag, and \<open>False\<close>
  and \<open>True\<close> are the integers 0 and 1.
\<close>

record gtk_renderer =
  gfx :: graphic
  moving_left :: bool
  moving_right :: pynum
  moving_both :: bool
  moving_top :: bool
  force_full_redraw :: bool
  moving_left_cur :: "pynum option"
  moving_right_cur :: "pynum option"
  moving_both_start :: "pynum option"
  moving_both_cur :: "pynum option"
  moving_top_start :: "pynum option"
  moving_top_cur :: "pynum option"
  w_width :: "pynum option"
  w_height :: "pynum option"
  buffer_surface :: "cairo_op list option"
  requests :: "request list"
  cursor :: "cursor_shape option"

definition new_gtk :: "graphic \<Rightarrow> gtk_renderer" where
  "new_gtk g =
     \<lparr>gfx = g, moving_left = False, moving_right = 0, moving_both = False, moving_top = False,
      force_full_redraw = True, moving_left_cur = None, moving_right_cur = None, moving_both_start = None,
      moving_both_cur = None, moving_top_start = None, moving_top_cur = None, w_width = None, w_height = None,
      buffer_surface = None, requests = [], cursor = None\<rparr>"

definition on_gfx :: "(graphic, 'a) act \<Rightarrow> (gtk_renderer, 'a) act" where
  "on_gfx m w = (case m (gfx w) of (g, r) \<Rightarrow> (w\<lparr>gfx := g\<rparr>, r))"

definition ask_gfx :: "(graphic \<Rightarrow> 'a res) \<Rightarrow> (gtk_renderer, 'a) act" where
  "ask_gfx f = act_read (\<lambda>w. f (gfx w))"

definition get_attr :: "(gtk_renderer \<Rightarrow> 'a option) \<Rightarrow> (gtk_renderer, 'a) act" where
  "get_attr f = act_read (\<lambda>w. attr (f w))"

definition queue :: "request \<Rightarrow> (gtk_renderer, unit) act" where
  "queue r = act_upd (\<lambda>w. w\<lparr>requests := requests w @ [r]\<rparr>)"

definition full_redraw :: "(gtk_renderer, unit) act" where
  "full_redraw = act_then (act_upd (\<lambda>w. w\<lparr>force_full_redraw := True\<rparr>)) (queue QueueDraw)"

definition set_smaller_zoom :: "text_measure \<Rightarrow> (gtk_renderer, unit) act" where
  "set_smaller_zoom ext =
     act_bind (ask_gfx get_graphic_range) (\<lambda>(s, e).
     act_then (on_gfx (set_range ext s (s + (e - s) * 2))) full_redraw)"

definition set_bigger_zoom :: "text_measure \<Rightarrow> (gtk_renderer, unit) act" where
  "set_bigger_zoom ext =
     act_bind (ask_gfx get_graphic_range) (\<lambda>(s, e).
     act_then (on_gfx (set_range ext s (s + half (e - s)))) full_redraw)"

definition draw_gfx :: "text_measure \<Rightarrow> (gtk_renderer, cairo_op list) act" where
  "draw_gfx ext =
     act_bind (ask_gfx (graphic_draw ext)) (\<lambda>(ops, g). act_then (act_upd (\<lambda>w. w\<lparr>gfx := g\<rparr>)) (act_ret ops))"

text \<open>
  \<open>output_png\<close>: the result is what the new surface holds when it is written.  The
  drawing goes to the context of the buffer.
\<close>

definition output_png :: "text_measure \<Rightarrow> (gtk_renderer, cairo_op list) act" where
  "output_png ext =
     act_bind (get_attr buffer_surface) (\<lambda>old.
     act_bind (draw_gfx ext) (\<lambda>ops.
     act_then (act_upd (\<lambda>w. w\<lparr>buffer_surface := Some (old @ ops)\<rparr>)) (act_ret [])))"

definition near :: "pynum \<Rightarrow> pynum \<Rightarrow> bool" where
  "near a b \<longleftrightarrow> num_abs (a - b) < 5"

definition between :: "pynum \<Rightarrow> pynum \<Rightarrow> pynum \<Rightarrow> bool" where
  "between lo x hi \<longleftrightarrow> lo < x \<and> x < hi"

definition button_press :: "pynum \<Rightarrow> pynum \<Rightarrow> (gtk_renderer, bool) act" where
  "button_press ex ey =
     act_bind (ask_gfx get_selection_rectangle) (\<lambda>(x, y, width, height).
     act_bind (ask_gfx get_data_rectangle) (\<lambda>(d_x, d_y, d_width, d_height).
     if between y ey (y + height) \<and> near ex x
     then act_then (act_upd (\<lambda>w. w\<lparr>moving_left := True\<rparr>)) (act_ret True)
     else if between y ey (y + height) \<and> near ex (x + width)
     then act_then (act_upd (\<lambda>w. w\<lparr>moving_right := 1\<rparr>)) (act_ret True)
     else if between y ey (y + height) \<and> between x ex (x + width)
     then act_then (act_upd (\<lambda>w. w\<lparr>moving_both := True, moving_both_start := Some ex, moving_both_cur := Some ex\<rparr>))
            (act_ret True)
     else if between d_y ey (d_y + d_height) \<and> between d_x ex (d_x + d_width)
     then act_then (act_upd (\<lambda>w. w\<lparr>moving_top := True, moving_top_start := Some ex, moving_top_cur := Some ex\<rparr>))
            (act_ret True)
     else act_ret False))"

definition release_left :: "text_measure \<Rightarrow> (gtk_renderer, bool) act" where
  "release_left ext =
     act_then (act_upd (\<lambda>w. w\<lparr>moving_left := False\<rparr>))
    (act_bind (get_attr moving_left_cur) (\<lambda>cur.
     act_bind (ask_gfx (scale_selection cur)) (\<lambda>left.
     act_bind (ask_gfx get_graphic_range) (\<lambda>(_, right).
     act_then (on_gfx (set_range ext left right)) (act_then full_redraw (act_ret True))))))"

definition release_right :: "text_measure \<Rightarrow> (gtk_renderer, bool) act" where
  "release_right ext =
     act_then (act_upd (\<lambda>w. w\<lparr>moving_right := 0\<rparr>))
    (act_bind (get_attr moving_right_cur) (\<lambda>cur.
     act_bind (ask_gfx (scale_selection cur)) (\<lambda>right.
     act_bind (ask_gfx get_graphic_range) (\<lambda>(left, _).
     act_then (on_gfx (set_range ext left right)) (act_then full_redraw (act_ret True))))))"

definition release_both :: "text_measure \<Rightarrow> (gtk_renderer, bool) act" where
  "release_both ext =
     act_then (act_upd (\<lambda>w. w\<lparr>moving_both := False\<rparr>))
    (act_bind (get_attr moving_both_cur) (\<lambda>cur.
     act_bind (get_attr moving_both_start) (\<lambda>first.
     act_bind (ask_gfx (scale_selection (cur - first))) (\<lambda>d.
     act_bind (ask_gfx get_graphic_range) (\<lambda>(left, right).
     act_then (on_gfx (set_range ext (left + d) (right + d))) (act_then full_redraw (act_ret True)))))))"

definition button_release :: "text_measure \<Rightarrow> (gtk_renderer, bool) act" where
  "button_release ext w =
     (if moving_left w then release_left ext w
      else if num_val (moving_right w) \<noteq> 0 then release_right ext w
      else if moving_both w then release_both ext w
      else (w\<lparr>moving_top := False\<rparr>, Inr False))"

definition redraw_selection :: "pynum \<Rightarrow> pynum \<Rightarrow> (gtk_renderer, bool) act" where
  "redraw_selection y height =
     act_bind (get_attr w_width) (\<lambda>width.
     act_then (queue (QueueDrawArea 0 (num_int y) (num_int width) (num_int height))) (act_ret True))"

definition motion_left :: "pynum \<Rightarrow> pynum \<times> pynum \<times> pynum \<times> pynum \<Rightarrow> (gtk_renderer, bool) act" where
  "motion_left ex rect =
     (case rect of (x, y, width, height) \<Rightarrow>
      act_then (act_upd (\<lambda>w. w\<lparr>moving_left_cur :=
          Some (if ex \<le> 0 then 0 else if x + width \<le> ex then x + width else ex)\<rparr>))
        (redraw_selection y height))"

text \<open>At or beyond the right border the flag is assigned and not the position.\<close>

definition motion_right :: "pynum \<Rightarrow> pynum \<times> pynum \<times> pynum \<times> pynum \<Rightarrow> (gtk_renderer, bool) act" where
  "motion_right ex rect =
     (case rect of (x, y, width, height) \<Rightarrow>
      act_bind (get_attr w_width) (\<lambda>right.
      act_then (act_upd (\<lambda>w.
          if right \<le> ex then w\<lparr>moving_right := right\<rparr>
          else if ex < x then w\<lparr>moving_right_cur := Some x\<rparr>
          else w\<lparr>moving_right_cur := Some ex\<rparr>))
        (redraw_selection y height)))"

definition motion_both :: "pynum \<Rightarrow> pynum \<times> pynum \<times> pynum \<times> pynum \<Rightarrow> (gtk_renderer, bool) act" where
  "motion_both ex rect =
     (case rect of (x, y, width, height) \<Rightarrow>
      act_bind (get_attr w_width) (\<lambda>right.
      act_bind (get_attr moving_both_start) (\<lambda>first.
      let cur_e = right - (x + width - first); cur_s = first - x
      in act_then (act_upd (\<lambda>w. w\<lparr>moving_both_cur :=
             Some (if ex < cur_s then cur_s else if cur_e < ex then cur_e else ex)\<rparr>))
           (redraw_selection y height))))"

definition motion_top :: "text_measure \<Rightarrow> pynum \<Rightarrow> (gtk_renderer, bool) act" where
  "motion_top ext ex =
     act_then (act_upd (\<lambda>w. w\<lparr>moving_top_cur := Some ex\<rparr>))
    (act_bind (get_attr moving_top_start) (\<lambda>first.
     act_bind (ask_gfx (scale_data (first - ex))) (\<lambda>d.
     act_bind (ask_gfx get_graphic_range) (\<lambda>(left, right).
     act_then (on_gfx (set_range ext (left + d) (right + d)))
    (act_then (act_upd (\<lambda>w. w\<lparr>force_full_redraw := True, moving_top_start := Some ex\<rparr>))
    (act_then (queue QueueDraw) (act_ret True)))))))"

definition set_cursor :: "cursor_shape option \<Rightarrow> (gtk_renderer, unit) act" where
  "set_cursor c = act_upd (\<lambda>w. w\<lparr>cursor := c\<rparr>)"

definition motion_hover :: "pynum \<Rightarrow> pynum \<Rightarrow> pynum \<times> pynum \<times> pynum \<times> pynum \<Rightarrow> (gtk_renderer, bool) act" where
  "motion_hover ex ey rect =
     (case rect of (x, y, width, height) \<Rightarrow>
      act_bind (ask_gfx get_data_rectangle) (\<lambda>(d_x, d_y, d_width, d_height).
      if between y ey (y + height) \<and> (near ex x \<or> near ex (x + width))
      then act_then (set_cursor (Some SbHDoubleArrow)) (act_ret True)
      else if between y ey (y + height) \<and> between x ex (x + width)
      then act_then (set_cursor (Some Fleur)) (act_ret True)
      else if between d_y ey (d_y + d_height) \<and> between d_x ex (d_x + d_width)
      then act_then (set_cursor (Some Fleur)) (act_ret True)
      else act_then (set_cursor None) (act_ret False)))"

definition motion_notify :: "text_measure \<Rightarrow> pynum \<Rightarrow> pynum \<Rightarrow> (gtk_renderer, bool) act" where
  "motion_notify ext ex ey =
     act_bind (ask_gfx get_selection_rectangle) (\<lambda>rect w.
     if moving_left w then motion_left ex rect w
     else if num_val (moving_right w) \<noteq> 0 then motion_right ex rect w
     else if moving_both w then motion_both ex rect w
     else if moving_top w then motion_top ext ex w
     else motion_hover ex ey rect w)"

definition size_allocate :: "text_measure \<Rightarrow> int \<Rightarrow> int \<Rightarrow> (gtk_renderer, unit) act" where
  "size_allocate ext width height =
     act_then (act_upd (\<lambda>w. w\<lparr>w_width := Some (PInt width), w_height := Some (PInt height)\<rparr>))
    (act_then (on_gfx (graphic_layout ext (PInt width) (PInt height))) full_redraw)"

definition edge_line :: "pynum \<Rightarrow> pynum \<Rightarrow> pynum \<Rightarrow> cairo_op list" where
  "edge_line x y height = [MoveTo x y, RelLineTo 0 height, ClosePath]"

definition drag_marks :: "pynum \<times> pynum \<times> pynum \<times> pynum \<Rightarrow> gtk_renderer \<Rightarrow> cairo_op list res" where
  "drag_marks rect w =
     (case rect of (x, y, width, height) \<Rightarrow>
      res_bind (if moving_left w then res_bind (attr (moving_left_cur w)) (\<lambda>c.
          Inr (edge_line (num_max c 2) y height @ [SetLineWidth 1, black, Stroke])) else Inr []) (\<lambda>ops1.
      res_bind (if num_val (moving_right w) \<noteq> 0 then res_bind (attr (moving_right_cur w)) (\<lambda>c.
          res_bind (attr (w_width w)) (\<lambda>right.
          Inr (edge_line (num_min c (right - 2)) y height @ [SetLineWidth 1, black, Stroke]))) else Inr []) (\<lambda>ops2.
      res_bind (if moving_both w then res_bind (attr (moving_both_cur w)) (\<lambda>c.
          res_bind (attr (moving_both_start w)) (\<lambda>s. let delta_x = c - s in
          Inr (edge_line (x + delta_x) y height @ edge_line (x + width + delta_x) y height @
               [black, SetLineWidth 1, Stroke]))) else Inr []) (\<lambda>ops3.
      Inr (ops1 @ ops2 @ ops3)))))"

text \<open>
  \<open>expose\<close>, with what it draws in the window as its result.  A drawing that raises leaves a
  new buffer, whose partial content is not modelled.
\<close>

definition expose :: "text_measure \<Rightarrow> int \<times> int \<times> int \<times> int \<Rightarrow> (gtk_renderer, cairo_op list) act" where
  "expose ext area =
     act_then (\<lambda>w. if force_full_redraw w
       then act_then (act_upd (\<lambda>w. w\<lparr>buffer_surface := Some []\<rparr>)) (act_bind (draw_gfx ext) (\<lambda>ops.
              act_upd (\<lambda>w. w\<lparr>buffer_surface := Some ops, force_full_redraw := False\<rparr>))) w
       else act_ret () w)
    (act_bind (get_attr buffer_surface) (\<lambda>buf.
     act_bind (ask_gfx get_selection_rectangle) (\<lambda>rect.
     act_bind (act_read (drag_marks rect)) (\<lambda>marks.
     case area of (ax, ay, aw, ah) \<Rightarrow>
     act_ret ([Rectangle (PInt ax) (PInt ay) (PInt aw) (PInt ah), Clip, SetSourceSurface buf, Paint] @ marks)))))"

section \<open>MainWindow and its events\<close>

datatype gui_event =
    ButtonPress pynum pynum
  | ButtonRelease
  | MotionNotify pynum pynum
  | SizeAllocate int int
  | Expose "int \<times> int \<times> int \<times> int"
  | ZoomOutClicked
  | ZoomInClicked
  | DialogResponse int

text \<open>The handler that \<open>run\<close> connects to an event, and the state it leaves.\<close>

definition dialog_response_cb :: "text_measure \<Rightarrow> int \<Rightarrow> (gtk_renderer, cairo_op list option) act" where
  "dialog_response_cb ext response =
     (if response = 1 then act_bind (output_png ext) (\<lambda>png. act_ret (Some png)) else act_ret None)"

fun handle :: "text_measure \<Rightarrow> gui_event \<Rightarrow> gtk_renderer \<Rightarrow> gtk_renderer" where
  "handle ext (ButtonPress x y) w = fst (button_press x y w)"
| "handle ext ButtonRelease w = fst (button_release ext w)"
| "handle ext (MotionNotify x y) w = fst (motion_notify ext x y w)"
| "handle ext (SizeAllocate width height) w = fst (size_allocate ext width height w)"
| "handle ext (Expose area) w = fst (expose ext area w)"
| "handle ext ZoomOutClicked w = fst (set_smaller_zoom ext w)"
| "handle ext ZoomInClicked w = fst (set_bigger_zoom ext w)"
| "handle ext (DialogResponse response) w = fst (dialog_response_cb ext response w)"

inductive gui_step :: "text_measure \<Rightarrow> gtk_renderer \<Rightarrow> gtk_renderer \<Rightarrow> bool" for ext where
  event: "gui_step ext w (handle ext ev w)"

inductive_cases gui_stepE: "gui_step ext w w'"

section \<open>The window in a session\<close>

text \<open>
  The edges of the window: the left one is not before the data and the right one not behind.  Either they
  are in order, and the window lies inside the data, or the range that was asked for lies wholly beside
  the data; then the edge on that side is not clamped and the other one is the end of the data.
\<close>

definition window_edges :: "rat \<Rightarrow> rat \<Rightarrow> rat \<Rightarrow> rat \<Rightarrow> bool" where
  "window_edges lo hi a b \<longleftrightarrow> lo \<le> a \<and> b \<le> hi \<and> (a \<le> b \<or> hi < a \<and> b = hi \<or> b < lo \<and> a = lo)"

lemma max_min_edges:
  assumes "lo \<le> hi" and "x \<le> y"
  shows "window_edges lo hi (max lo x) (min hi y)"
proof -
  consider "x \<le> hi" "lo \<le> y" | "hi < x" | "y < lo" by linarith
  then show ?thesis using assms by cases (auto simp: window_edges_def max_def min_def)
qed

lemma clamped_edges:
  "clamp_range x y g = (a, b) \<Longrightarrow> num_val (g_start g) \<le> num_val (g_end g) \<Longrightarrow>
   window_edges (num_val (g_start g)) (num_val (g_end g)) (num_val a) (num_val b)"
  using max_min_edges [of "num_val (g_start g)" "num_val (g_end g)" "min (num_val x) (num_val y)" "max (num_val x) (num_val y)"]
  by (auto simp: clamp_range_def Let_def num_simps)

definition window_ok :: "pynum \<Rightarrow> pynum \<Rightarrow> gtk_renderer \<Rightarrow> bool" where
  "window_ok lo hi w \<longleftrightarrow> g_start (gfx w) = lo \<and> g_end (gfx w) = hi \<and> num_val lo \<le> num_val hi \<and>
     (\<exists>a b. g_range (gfx w) = Some (a, b) \<and> window_edges (num_val lo) (num_val hi) (num_val a) (num_val b))"

lemma window_ok_cong: "gfx w = gfx w' \<Longrightarrow> window_ok lo hi w \<longleftrightarrow> window_ok lo hi w'"
  by (simp add: window_ok_def)

lemma keeps_upd_gui: "(\<And>w. gfx (f w) = gfx w) \<Longrightarrow> act_keeps (window_ok lo hi) (act_upd f)"
  by (rule act_keeps_upd) (metis window_ok_cong)

lemma keeps_ask [keeps_intros]:
  "act_keeps P (ask_gfx f)" "act_keeps P (get_attr g)"
  by (simp_all add: ask_gfx_def get_attr_def keeps_intros)

lemma keeps_set_range [keeps_intros]: "act_keeps (window_ok lo hi) (on_gfx (set_range ext a b))"
proof -
  have "window_ok lo hi (fst (on_gfx (set_range ext a b) w))" if "window_ok lo hi w" for w
    using that set_range_frame [of ext a b "gfx w"] clamped_edges [of a b "gfx w"]
    by (cases "set_range ext a b (gfx w)"; cases "clamp_range a b (gfx w)") (auto simp: window_ok_def on_gfx_def)
  then show ?thesis by (simp add: act_keeps_def)
qed

lemma keeps_layout [keeps_intros]: "act_keeps (window_ok lo hi) (on_gfx (graphic_layout ext a b))"
proof -
  have "window_ok lo hi (fst (on_gfx (graphic_layout ext a b) w))" if "window_ok lo hi w" for w
    using that graphic_layout_frame [of ext a b "gfx w"]
    by (cases "graphic_layout ext a b (gfx w)") (auto simp: window_ok_def on_gfx_def)
  then show ?thesis by (simp add: act_keeps_def)
qed

lemma graphic_draw_frame:
  "graphic_draw ext g = Inr (ops, g') \<Longrightarrow>
   g_start g' = g_start g \<and> g_end g' = g_end g \<and> g_range g' = g_range g"
  by (auto simp: graphic_draw_def res_simps Let_def)

lemma keeps_draw [keeps_intros]: "act_keeps (window_ok lo hi) (draw_gfx ext)"
proof -
  have "window_ok lo hi (fst (draw_gfx ext w))" if "window_ok lo hi w" for w
    using that graphic_draw_frame [of ext "gfx w"]
    by (cases "graphic_draw ext (gfx w)") (auto simp: window_ok_def draw_gfx_def ask_gfx_def act_simps)
  then show ?thesis by (simp add: act_keeps_def)
qed

lemma keeps_small [keeps_intros]:
  "act_keeps (window_ok lo hi) full_redraw" "act_keeps (window_ok lo hi) (queue r)"
  "act_keeps (window_ok lo hi) (set_cursor c)" "act_keeps (window_ok lo hi) (redraw_selection y h)"
  unfolding full_redraw_def queue_def set_cursor_def redraw_selection_def
  by (intro keeps_intros keeps_upd_gui; simp)+

lemma keeps_zoom:
  "act_keeps (window_ok lo hi) (set_smaller_zoom ext)" "act_keeps (window_ok lo hi) (set_bigger_zoom ext)"
  unfolding set_smaller_zoom_def set_bigger_zoom_def by (intro keeps_intros)+

lemma keeps_press: "act_keeps (window_ok lo hi) (button_press x y)"
  unfolding button_press_def by (intro keeps_intros keeps_upd_gui; simp)

lemma keeps_release: "act_keeps (window_ok lo hi) (button_release ext)"
proof -
  have "act_keeps (window_ok lo hi) (release_left ext)" "act_keeps (window_ok lo hi) (release_right ext)"
    "act_keeps (window_ok lo hi) (release_both ext)"
    unfolding release_left_def release_right_def release_both_def
    by (intro keeps_intros keeps_upd_gui; simp)+
  then show ?thesis
    by (auto simp: act_keeps_def button_release_def) (simp add: window_ok_def)
qed

lemma keeps_motion: "act_keeps (window_ok lo hi) (motion_notify ext x y)"
  unfolding motion_notify_def motion_left_def motion_right_def motion_both_def motion_top_def motion_hover_def Let_def
  by (intro keeps_intros keeps_upd_gui; simp)

lemma keeps_expose: "act_keeps (window_ok lo hi) (expose ext area)"
  unfolding expose_def by (intro keeps_intros keeps_upd_gui act_keeps_state_if; simp)

lemma keeps_allocate: "act_keeps (window_ok lo hi) (size_allocate ext width height)"
  unfolding size_allocate_def by (intro keeps_intros keeps_upd_gui; simp)

lemma keeps_dialog: "act_keeps (window_ok lo hi) (dialog_response_cb ext response)"
  unfolding dialog_response_cb_def output_png_def by (intro keeps_intros keeps_upd_gui; simp)

lemma handle_window_ok: "window_ok lo hi w \<Longrightarrow> window_ok lo hi (handle ext ev w)"
  by (cases ev)
    (simp_all add: act_keepsD keeps_zoom keeps_press keeps_release keeps_motion keeps_expose keeps_allocate keeps_dialog)

definition gui_reachable :: "text_measure \<Rightarrow> graphic \<Rightarrow> gtk_renderer \<Rightarrow> bool" where
  "gui_reachable ext g w \<longleftrightarrow> rtranclp (gui_step ext) (new_gtk g) w"

lemma reachable_window_ok:
  assumes "gui_reachable ext g w" and "window_ok lo hi (new_gtk g)"
  shows "window_ok lo hi w"
  using assms unfolding gui_reachable_def
  by (induction rule: rtranclp_induct) (auto elim!: gui_stepE simp: handle_window_ok)

lemma bounds_ordered: "timelines_bounds ts = (lo, hi) \<Longrightarrow> lo \<le> hi"
proof -
  have "fst (fold widen bs p) \<le> snd (fold widen bs p)" if "fst p \<le> snd p" for bs p
    using that by (induction bs arbitrary: p) (auto simp: widen_def)
  from this [of "(0, 0)" "map timeline_bounds ts"] show "timelines_bounds ts = (lo, hi) \<Longrightarrow> lo \<le> hi"
    by (simp add: timelines_bounds_def)
qed

lemma main_graphic_window:
  assumes "main_graphic ext key_order content = Inr g"
    and "timelines_bounds (snd (read_data content)) = (lo, hi)"
  shows "window_ok (PFlt (of_int lo)) (PFlt (of_int hi)) (new_gtk g)"
proof -
  obtain cs ts where rd: "read_data content = (cs, ts)" by fastforce
  obtain a b where r: "initial_range lo hi = (a, b)" by fastforce
  obtain cl cs' where "lookup_all (all_range_values key_order ts) cs = Inr (cl, cs')"
    using assms by (cases "lookup_all (all_range_values key_order ts) cs") (auto simp: main_graphic_def rd Let_def)
  then have "\<exists>g0. g_start g0 = PFlt (of_int lo) \<and> g_end g0 = PFlt (of_int hi) \<and> set_range ext a b g0 = (g, Inr ())"
    using assms r by (intro exI [of _ "set_data (set_timelines ts cs' new_timelines_renderer)
        (set_top_legend (set_legends (all_range_values key_order ts) cl new_legend) (new_graphic lo hi))"])
      (auto simp: main_graphic_def rd Let_def set_data_def set_top_legend_def new_graphic_def
        split: prod.splits sum.splits)
  then obtain g0 where g0: "g_start g0 = PFlt (of_int lo)" "g_end g0 = PFlt (of_int hi)"
    "set_range ext a b g0 = (g, Inr ())" by blast
  moreover have "num_val (g_start g0) \<le> num_val (g_end g0)" using g0(1,2) bounds_ordered [OF assms(2)] by simp
  ultimately show ?thesis
    using set_range_frame [of ext a b g0] clamped_edges [of a b g0]
    by (cases "clamp_range a b g0") (auto simp: window_ok_def new_gtk_def)
qed

text \<open>
  C13. In every state that a session of the program can reach by presses, releases and
  motions of the pointer, resizing, exposing, zooming and saving, also after handlers
  that raised, the window begins no earlier than the start of the data and ends no later
  than its end, and these bounds are those of the trace.  If its edges are in order it lies
  inside the data; otherwise the range that was asked for lay wholly beside the data, and one edge is
  the end of the data and the other one outside.
\<close>

theorem session_window:
  assumes "main_graphic ext key_order content = Inr g"
    and "timelines_bounds (snd (read_data content)) = (lo, hi)"
    and "gui_reachable ext g w"
  shows "\<exists>r_start r_end. g_range (gfx w) = Some (r_start, r_end) \<and>
    of_int lo \<le> num_val r_start \<and> num_val r_end \<le> of_int hi \<and>
    (num_val r_start \<le> num_val r_end \<or>
     of_int hi < num_val r_start \<and> num_val r_end = of_int hi \<or>
     num_val r_end < of_int lo \<and> num_val r_start = of_int lo)"
  using reachable_window_ok [OF assms(3) main_graphic_window [OF assms(1,2)]] by (auto simp: window_ok_def window_edges_def)

theorem session_window_witness:
  "\<exists>g r_start r_end. main_graphic sample_ext rev sample_trace = Inr g \<and>
    g_range (gfx (handle sample_ext ZoomOutClicked (new_gtk g))) = Some (r_start, r_end) \<and> num_val r_end \<le> 50"
proof -
  obtain g where g: "main_graphic sample_ext rev sample_trace = Inr g"
    using main_graphic_ready [OF permutes_keys_rev, of sample_trace sample_ext] by (auto simp: sample_trace_facts)
  have "gui_reachable sample_ext g (handle sample_ext ZoomOutClicked (new_gtk g))"
    unfolding gui_reachable_def by (rule r_into_rtranclp) (rule gui_step.event)
  from session_window [OF g sample_trace_facts(1) this] g show ?thesis by auto
qed

section \<open>Dragging the edges of the window\<close>

definition sample_gui :: gtk_renderer where
  "sample_gui = fst (size_allocate sample_ext 200 100
     (new_gtk (case main_graphic sample_ext rev sample_trace of Inr g \<Rightarrow> g | Inl _ \<Rightarrow> new_graphic 0 0)))"

lemma sample_gui_facts:
  "get_selection_rectangle (gfx sample_gui) = Inr (PInt 92, PFlt 106, PInt 16, PFlt 37)"
  "g_range (gfx sample_gui) = Some (PInt 23, PInt 27)"
  "scale_selection (PFlt 40) (gfx sample_gui) = Inr (PFlt 10)"
  "clamp_range (PFlt 10) (PInt 27) (gfx sample_gui) = (PFlt 10, PInt 27)"
  "w_width sample_gui = Some (PInt 200)" "moving_left_cur sample_gui = None"
  "moving_right_cur sample_gui = None" "\<not> moving_left sample_gui"
  by code_simp+

text \<open>
  Dragging the left edge.  While the flag of the left edge is set, a motion to a position
  inside the selection followed by the release of the button sets the window to begin at the
  time under the pointer and to end where it did, within the bounds; the flag is reset and
  the picture is drawn anew.
\<close>

theorem drag_left_edge:
  assumes "moving_left w" and "get_selection_rectangle (gfx w) = Inr (x, y, width, height)"
    and "w_width w = Some pixels" and "0 < ex" and "ex < x + width"
    and "scale_selection ex (gfx w) = Inr t" and "g_range (gfx w) = Some (left, right)"
    and "motion_notify ext ex ey w = (w1, r1)" and "button_release ext w1 = (w2, r2)"
  shows "r1 = Inr True \<and> \<not> moving_left w2 \<and> g_range (gfx w2) = Some (clamp_range t right (gfx w)) \<and>
    (snd (set_range ext t right (gfx w)) = Inr () \<longrightarrow> r2 = Inr True \<and> force_full_redraw w2)"
proof -
  have cur: "\<not> ex \<le> 0" "\<not> x + width \<le> ex" using assms(4,5) by (simp_all add: num_less_val)
  have w1: "w1 = w\<lparr>moving_left_cur := Some ex,
      requests := requests w @ [QueueDrawArea 0 (num_int y) (num_int pixels) (num_int height)]\<rparr>" "r1 = Inr True"
    using assms(1-3,8) cur
    by (auto simp: motion_notify_def motion_left_def redraw_selection_def queue_def act_simps ask_gfx_def get_attr_def)
  obtain g' r' where g': "set_range ext t right (gfx w) = (g', r')" by fastforce
  have rng: "g_range g' = Some (clamp_range t right (gfx w))" using set_range_frame(3) [of ext t right "gfx w"] g' by simp
  show ?thesis
    using assms(1,6,7,9) g' rng
    by (cases r') (auto simp: w1 button_release_def release_left_def act_simps ask_gfx_def get_attr_def get_graphic_range_def
        on_gfx_def full_redraw_def queue_def)
qed

theorem drag_left_edge_witness:
  "\<exists>w1 r1 w2 r2. motion_notify sample_ext (PFlt 40) (PFlt 110) (sample_gui\<lparr>moving_left := True\<rparr>) = (w1, r1) \<and>
    button_release sample_ext w1 = (w2, r2) \<and> g_range (gfx w2) = Some (PFlt 10, PInt 27)"
proof -
  let ?w = "sample_gui\<lparr>moving_left := True\<rparr>"
  obtain w1 r1 where 1: "motion_notify sample_ext (PFlt 40) (PFlt 110) ?w = (w1, r1)" by fastforce
  obtain w2 r2 where 2: "button_release sample_ext w1 = (w2, r2)" by fastforce
  have "g_range (gfx w2) = Some (clamp_range (PFlt 10) (PInt 27) (gfx ?w))"
    using drag_left_edge [OF _ _ _ _ _ _ _ 1 2, of "PInt 92" "PFlt 106" "PInt 16" "PFlt 37" "PInt 200" "PFlt 10" "PInt 23" "PInt 27"]
    by (simp add: sample_gui_facts num_less_val)
  with 1 2 show ?thesis by (simp add: sample_gui_facts)
qed

text \<open>
  Releasing the button over an edge without a motion before.  The position is read
  before any handler assigned it, and \<open>AttributeError\<close> is raised; the flag has been reset
  and the window is unchanged.  The same happens on the right edge after a motion to the right
  border, which assigns the width to the flag \<open>moving_right\<close> and not to the position.
\<close>

theorem release_without_position:
  assumes "moving_left_cur w = None" and "moving_right_cur w = None" and "\<not> moving_left w"
    and "get_selection_rectangle (gfx w) = Inr rect" and "w_width w = Some pixels"
    and "0 < num_val pixels" and "pixels \<le> ex"
  shows "button_release ext (w\<lparr>moving_left := True\<rparr>) = (w, Inl AttributeError) \<and>
    (\<exists>w1. motion_notify ext ex ey (w\<lparr>moving_right := 1\<rparr>) = (w1, Inr True) \<and> moving_right w1 = pixels \<and>
       moving_right_cur w1 = None \<and> snd (button_release ext w1) = Inl AttributeError \<and> gfx w1 = gfx w)"
proof -
  obtain x y width height where rect: "rect = (x, y, width, height)" by (cases rect)
  have "button_release ext (w\<lparr>moving_left := True\<rparr>) = (w\<lparr>moving_left := False\<rparr>, Inl AttributeError)"
    using assms(1) by (simp add: button_release_def release_left_def act_simps get_attr_def)
  moreover have "w\<lparr>moving_left := False\<rparr> = w" using assms(3) by simp
  moreover have "motion_notify ext ex ey (w\<lparr>moving_right := 1\<rparr>) =
      (w\<lparr>moving_right := pixels,
         requests := requests w @ [QueueDrawArea 0 (num_int y) (num_int pixels) (num_int height)]\<rparr>, Inr True)"
    using assms(3-5,7)
    by (simp add: motion_notify_def motion_right_def redraw_selection_def queue_def act_simps ask_gfx_def get_attr_def rect)
  ultimately show ?thesis
    using assms(2,3,6) by (simp add: button_release_def release_right_def act_simps get_attr_def)
qed

theorem release_without_position_witness:
  "button_release sample_ext (sample_gui\<lparr>moving_left := True\<rparr>) = (sample_gui, Inl AttributeError)"
  using release_without_position [OF sample_gui_facts(6-8,1,5), of "PFlt 200" sample_ext 0]
  by (simp add: num_less_val)

text \<open>The picture that is saved is the new surface, on which nothing was drawn.\<close>

lemma output_png_blank: "snd (output_png ext w) = Inr png \<Longrightarrow> png = []"
  by (auto simp: output_png_def act_simps split: prod.splits sum.splits)

end
