(* ===== verification/Check_Run.thy ===== *)
theory Check_Run
  imports Check_Style
begin

text \<open>
  What a run of \<open>src/utils/check-style.py\<close> over a list of files returns and leaves behind, in terms
  of what the external programs make of one file.
\<close>

definition tmp_fresh :: "tools \<Rightarrow> world \<Rightarrow> bool" where
  "tmp_fresh tool w \<longleftrightarrow> inj (tmp_name tool) \<and> dict_ok (files w) \<and>
     (\<forall>n\<ge>tmp_count w. dict_find (files w) (tmp_name tool n) = None)"

text \<open>What \<open>indent\<close> makes of the content of a file.\<close>

definition outcome :: "tools \<Rightarrow> bool \<Rightarrow> int \<Rightarrow> string \<Rightarrow> string \<Rightarrow> string \<Rightarrow> string option" where
  "outcome tool debug level source output s =
     (case uncrustify tool (config_text level) s of
        None \<Rightarrow> None
      | Some (_, _, d) \<Rightarrow>
          (case final_diff_text level
                 (if debug then [] else unified_diff tool (readlines s) (readlines d) source output) of
             Inl _ \<Rightarrow> None
           | Inr text \<Rightarrow> map_option (\<lambda>(_, _, r). r) (patch_tool tool text s)))"

lemma indent_outcome:
  assumes "tmp_fresh tool w" and "dict_find (files w) source = Some s"
    and "outcome tool debug level source (tmp_name tool (tmp_count w)) s = Some r"
  shows "\<exists>w'. indent tool source debug level w = (w', Inr (tmp_name tool (tmp_count w))) \<and> tmp_fresh tool w' \<and>
    tmp_count w < tmp_count w' \<and> dict_find (files w') (tmp_name tool (tmp_count w)) = Some r \<and>
    (\<forall>f. (\<forall>n\<ge>tmp_count w. f \<noteq> tmp_name tool n) \<longrightarrow> dict_find (files w') f = dict_find (files w) f)"
proof -
  obtain o1 e1 d where u: "uncrustify tool (config_text level) s = Some (o1, e1, d)"
    using assms(3) by (auto simp: outcome_def split: option.splits)
  obtain dtext where t: "final_diff_text level (if debug then []
      else unified_diff tool (readlines s) (readlines d) source (tmp_name tool (tmp_count w))) = Inr dtext"
    using assms(3) u by (auto simp: outcome_def split: sum.splits)
  obtain o2 e2 where p: "patch_tool tool dtext s = Some (o2, e2, r)"
    using assms(3) u t by (auto simp: outcome_def)
  have ok: "dict_ok (files w)" and inj: "tmp_name tool a = tmp_name tool b \<longleftrightarrow> a = b" for a b
    using assms(1) by (auto simp: tmp_fresh_def inj_eq)
  have src: "source \<noteq> tmp_name tool n" "tmp_name tool n \<noteq> source" if "tmp_count w \<le> n" for n
    using assms(1,2) that by (auto simp: tmp_fresh_def)
  note run = act_simps mkstemp_def uncrustify_config_file_def run_uncrustify_def run_patch_def copyfile_def
    read_file_def write_file_def act_when_def debug_line_def err_write_def dict_ops ok inj src u p assms(2) Let_def
  show ?thesis
  proof (cases debug)
    case False
    show ?thesis
      using t assms(1) unfolding indent_def
      by (simp add: run False tmp_fresh_def)
  next
    case True
    show ?thesis
      using t assms(1) unfolding indent_def
      by (simp add: run True tmp_fresh_def)
  qed
qed

text \<open>The result of a run over several files: one temporary file each, in order.\<close>

lemma indent_all:
  assumes "tmp_fresh tool w" and "\<forall>f\<in>set fs. dict_find (files w) f = Some (content f)"
    and "\<And>f n. f \<in> set fs \<Longrightarrow> outcome tool debug level f (tmp_name tool n) (content f) = Some (result f)"
  shows "\<exists>w' ns. act_map (\<lambda>f. act_bind (indent tool f debug level) (\<lambda>dst. act_ret (f, dst))) fs w =
      (w', Inr (zip fs (map (tmp_name tool) ns))) \<and> length ns = length fs \<and> sorted_wrt (<) ns \<and>
    (\<forall>n\<in>set ns. tmp_count w \<le> n) \<and> tmp_fresh tool w' \<and>
    (\<forall>i<length fs. dict_find (files w') (tmp_name tool (ns ! i)) = Some (result (fs ! i))) \<and>
    (\<forall>f. (\<forall>n\<ge>tmp_count w. f \<noteq> tmp_name tool n) \<longrightarrow> dict_find (files w') f = dict_find (files w) f)"
  using assms
proof (induction fs arbitrary: w)
  case Nil
  then show ?case by (auto simp: act_simps)
next
  case (Cons f fs)
  have f: "dict_find (files w) f = Some (content f)" using Cons.prems(2) by simp
  have "outcome tool debug level f (tmp_name tool (tmp_count w)) (content f) = Some (result f)"
    using Cons.prems(3) by simp
  from indent_outcome [OF Cons.prems(1) f this] obtain w1 where w1:
    "indent tool f debug level w = (w1, Inr (tmp_name tool (tmp_count w)))" "tmp_fresh tool w1" "tmp_count w < tmp_count w1"
    "dict_find (files w1) (tmp_name tool (tmp_count w)) = Some (result f)"
    "\<forall>g. (\<forall>n\<ge>tmp_count w. g \<noteq> tmp_name tool n) \<longrightarrow> dict_find (files w1) g = dict_find (files w) g" by blast
  have notmp: "\<forall>n\<ge>tmp_count w. g \<noteq> tmp_name tool n" if "dict_find (files w) g = Some c" for g c
    using Cons.prems(1) that by (auto simp: tmp_fresh_def)
  have "\<forall>g\<in>set fs. dict_find (files w1) g = Some (content g)"
    using Cons.prems(2) w1(5) notmp by (metis list.set_intros(2))
  from Cons.IH [OF w1(2) this Cons.prems(3)] obtain w' ns where IH:
    "act_map (\<lambda>f. act_bind (indent tool f debug level) (\<lambda>dst. act_ret (f, dst))) fs w1 =
      (w', Inr (zip fs (map (tmp_name tool) ns)))" "length ns = length fs" "sorted_wrt (<) ns"
    "\<forall>n\<in>set ns. tmp_count w1 \<le> n" "tmp_fresh tool w'"
    "\<forall>i<length fs. dict_find (files w') (tmp_name tool (ns ! i)) = Some (result (fs ! i))"
    "\<forall>f. (\<forall>n\<ge>tmp_count w1. f \<noteq> tmp_name tool n) \<longrightarrow> dict_find (files w') f = dict_find (files w1) f"
    by auto
  have "inj (tmp_name tool)" using Cons.prems(1) by (simp add: tmp_fresh_def)
  then have first: "dict_find (files w') (tmp_name tool (tmp_count w)) = Some (result f)"
    using IH(7) w1(3,4) by (auto simp: inj_eq)
  show ?case
  proof (intro exI [of _ w'] exI [of _ "tmp_count w # ns"] conjI allI impI)
    show "act_map (\<lambda>f. act_bind (indent tool f debug level) (\<lambda>dst. act_ret (f, dst))) (f # fs) w =
        (w', Inr (zip (f # fs) (map (tmp_name tool) (tmp_count w # ns))))"
      using w1(1) IH(1) by (simp add: act_simps)
    show "length (tmp_count w # ns) = length (f # fs)" using IH(2) by simp
    show "sorted_wrt (<) (tmp_count w # ns)" using IH(3,4) w1(3) by auto
    show "\<forall>n\<in>set (tmp_count w # ns). tmp_count w \<le> n" using IH(4) w1(3) by auto
    show "tmp_fresh tool w'" by fact
    show "dict_find (files w') (tmp_name tool ((tmp_count w # ns) ! i)) = Some (result ((f # fs) ! i))"
      if "i < length (f # fs)" for i using that first IH(6) by (cases i) auto
    show "dict_find (files w') g = dict_find (files w) g" if "\<forall>n\<ge>tmp_count w. g \<noteq> tmp_name tool n" for g
      using that IH(7) w1(3,5) by auto
  qed
qed

lemma compare_all:
  assumes "\<forall>(a, b)\<in>set ps. dict_find (files w) a \<noteq> None \<and> dict_find (files w) b \<noteq> None"
  shows "\<exists>fails. act_map compare ps w = (w, Inr fails) \<and> set (concat fails) \<subseteq> set ps \<and>
    (concat fails = [] \<longleftrightarrow> (\<forall>(a, b)\<in>set ps. dict_find (files w) a = dict_find (files w) b))"
  using assms
proof (induction ps)
  case (Cons p ps)
  obtain a b where p: "p = (a, b)" by fastforce
  obtain c d where cd: "dict_find (files w) a = Some c" "dict_find (files w) b = Some d" using Cons.prems p by auto
  obtain fails where f: "act_map compare ps w = (w, Inr fails)" "set (concat fails) \<subseteq> set ps"
    "concat fails = [] \<longleftrightarrow> (\<forall>(a, b)\<in>set ps. dict_find (files w) a = dict_find (files w) b)"
    using Cons by auto
  let ?new = "if c = d then [] else [(a, b)]"
  have "compare p w = (w, Inr ?new)" using p cd by (simp add: act_simps compare_def read_file_def)
  with f(1) have "act_map compare (p # ps) w = (w, Inr (?new # fails))" by (simp add: act_simps)
  moreover have "set (concat (?new # fails)) \<subseteq> set (p # ps)" using f(2) p by auto
  moreover have "concat (?new # fails) = [] \<longleftrightarrow> (\<forall>(a, b)\<in>set (p # ps). dict_find (files w) a = dict_find (files w) b)"
    using f(3) p cd by simp
  ultimately show ?case by blast
qed (simp add: act_simps)

text \<open>Reporting does not raise.\<close>

lemma report_names: "\<exists>w' us. act_map (\<lambda>(src, dst). out_write (h src)) ps w = (w', Inr us) \<and> files w' = files w"
proof (induction ps arbitrary: w)
  case (Cons p ps)
  obtain w' us where "act_map (\<lambda>(src, dst). out_write (h src)) ps (w\<lparr>stdout := stdout w @ h (fst p)\<rparr>) = (w', Inr us)"
    "files w' = files w"
    using Cons.IH [of "w\<lparr>stdout := stdout w @ h (fst p)\<rparr>"] by auto
  moreover have "(case p of (src, dst) \<Rightarrow> out_write (h src)) w = (w\<lparr>stdout := stdout w @ h (fst p)\<rparr>, Inr ())"
    by (cases p) (simp add: out_write_def act_simps)
  ultimately show ?case by (simp add: act_simps)
qed (simp add: act_simps)

lemma report_diffs:
  "\<forall>(a, b)\<in>set ps. dict_find (files w) a \<noteq> None \<and> dict_find (files w) b \<noteq> None \<Longrightarrow>
   \<exists>w' us. act_map (report_diff tool) ps w = (w', Inr us) \<and> files w' = files w"
proof (induction ps arbitrary: w)
  case (Cons p ps)
  obtain a b where p: "p = (a, b)" by fastforce
  obtain c d where cd: "dict_find (files w) a = Some c" "dict_find (files w) b = Some d" using Cons.prems p by auto
  let ?w = "w\<lparr>stdout := stdout w @ concat (unified_diff tool (readlines c) (readlines d) a b)\<rparr>"
  obtain w' us where "act_map (report_diff tool) ps ?w = (w', Inr us)" "files w' = files w"
    using Cons.IH [of ?w] Cons.prems by auto
  moreover have "report_diff tool p w = (?w, Inr ())"
    using p cd by (simp add: act_simps report_diff_def read_file_def out_write_def)
  ultimately show ?case by (simp add: act_simps)
qed (simp add: act_simps)

lemma copy_back:
  assumes "dict_ok (files w)" and "\<forall>(a, b)\<in>set ps. dict_find (files w) b = Some (result a) \<and> b \<notin> fst ` set ps"
  shows "\<exists>w' us. act_map (\<lambda>(src, dst). copyfile dst src) ps w = (w', Inr us) \<and>
    (\<forall>f. dict_find (files w') f = (if f \<in> fst ` set ps then Some (result f) else dict_find (files w) f))"
  using assms
proof (induction ps arbitrary: w)
  case (Cons p ps)
  obtain a b where p: "p = (a, b)" by fastforce
  let ?w = "w\<lparr>files := dict_set a (result a) (files w)\<rparr>"
  have b: "dict_find (files w) b = Some (result a)" using Cons.prems(2) p by auto
  have ok: "dict_ok (files ?w)" using Cons.prems(1) by (simp add: dict_ops)
  have "\<forall>(a, b)\<in>set ps. dict_find (files ?w) b = Some (result a) \<and> b \<notin> fst ` set ps"
    using Cons.prems p by (auto simp: dict_ops)
  from Cons.IH [OF ok this] obtain w' us where
    w': "act_map (\<lambda>(src, dst). copyfile dst src) ps ?w = (w', Inr us)"
    "\<forall>f. dict_find (files w') f = (if f \<in> fst ` set ps then Some (result f) else dict_find (files ?w) f)" by blast
  have "(case p of (src, dst) \<Rightarrow> copyfile dst src) w = (?w, Inr ())"
    using p b by (simp add: copyfile_def read_file_def write_file_def act_simps)
  with w'(1) have "act_map (\<lambda>(src, dst). copyfile dst src) (p # ps) w = (w', Inr (() # us))" by (simp add: act_simps)
  moreover have "\<forall>f. dict_find (files w') f = (if f \<in> fst ` set (p # ps) then Some (result f) else dict_find (files w) f)"
    using w'(2) Cons.prems(1) p by (auto simp: dict_ops)
  ultimately show ?case by blast
qed (simp add: act_simps)

lemma indent_files_run:
  assumes "tmp_fresh tool w" and "\<forall>f\<in>set fs. dict_find (files w) f = Some (content f)"
    and "\<And>f n. f \<in> set fs \<Longrightarrow> outcome tool debug level f (tmp_name tool n) (content f) = Some (result f)"
    and "indent_files tool fs diff debug level inplace w = (w', r)"
  shows "r = Inr (inplace \<or> (\<forall>f\<in>set fs. result f = content f)) \<and>
    (\<forall>f\<in>set fs. dict_find (files w') f = Some (if inplace then result f else content f))"
proof -
  obtain w1 ns where 1: "act_map (\<lambda>f. act_bind (indent tool f debug level) (\<lambda>dst. act_ret (f, dst))) fs w =
      (w1, Inr (zip fs (map (tmp_name tool) ns)))" "length ns = length fs" "sorted_wrt (<) ns"
    "\<forall>n\<in>set ns. tmp_count w \<le> n" "tmp_fresh tool w1"
    "\<forall>i<length fs. dict_find (files w1) (tmp_name tool (ns ! i)) = Some (result (fs ! i))"
    "\<forall>f. (\<forall>n\<ge>tmp_count w. f \<noteq> tmp_name tool n) \<longrightarrow> dict_find (files w1) f = dict_find (files w) f"
    using indent_all [OF assms(1-3)] by blast
  let ?ps = "zip fs (map (tmp_name tool) ns)"
  have notmp: "\<forall>n\<ge>tmp_count w. f \<noteq> tmp_name tool n" if "f \<in> set fs" for f
    using assms(1,2) that by (auto simp: tmp_fresh_def)
  have src: "dict_find (files w1) f = Some (content f)" if "f \<in> set fs" for f
    using 1(7) notmp [OF that] assms(2) that by simp
  have dst: "dict_find (files w1) b = Some (result a) \<and> a \<in> set fs \<and> b \<notin> set fs" if ab: "(a, b) \<in> set ?ps" for a b
  proof -
    obtain i where i: "i < length fs" "a = fs ! i" "b = tmp_name tool (ns ! i)"
      using ab 1(2) by (auto simp: in_set_zip)
    have "b \<notin> set fs" using notmp i(1,3) 1(2,4) by (metis nth_mem)
    then show ?thesis using 1(6) i by simp
  qed
  have fst: "fst ` set ?ps = set fs" using 1(2) by (metis length_map map_fst_zip set_map)
  show ?thesis
  proof (cases inplace)
    case True
    have "\<forall>(a, b)\<in>set ?ps. dict_find (files w1) b = Some (result a) \<and> b \<notin> fst ` set ?ps"
      using dst unfolding fst by blast
    from copy_back [OF _ this] obtain w2 us where
      "act_map (\<lambda>(src, dst). copyfile dst src) ?ps w1 = (w2, Inr us)"
      "\<forall>f. dict_find (files w2) f = (if f \<in> fst ` set ?ps then Some (result f) else dict_find (files w1) f)"
      using 1(5) by (auto simp: tmp_fresh_def)
    then show ?thesis using assms(4) 1(1) True fst by (auto simp: indent_files_def act_simps)
  next
    case False
    have there: "\<forall>(a, b)\<in>set ?ps. dict_find (files w1) a \<noteq> None \<and> dict_find (files w1) b \<noteq> None"
      using dst src by fastforce
    from compare_all [OF this] obtain fails where f: "act_map compare ?ps w1 = (w1, Inr fails)"
      "set (concat fails) \<subseteq> set ?ps"
      "concat fails = [] \<longleftrightarrow> (\<forall>(a, b)\<in>set ?ps. dict_find (files w1) a = dict_find (files w1) b)" by blast
    have eq: "dict_find (files w1) a = dict_find (files w1) b \<longleftrightarrow> result a = content a" if "(a, b) \<in> set ?ps" for a b
      using dst [OF that] src by auto
    have "concat fails = [] \<longleftrightarrow> (\<forall>a\<in>fst ` set ?ps. result a = content a)"
      unfolding f(3) using eq by (auto simp: image_iff split: prod.splits)
    then have same: "concat fails = [] \<longleftrightarrow> (\<forall>f\<in>set fs. result f = content f)" unfolding fst .
    obtain u1 us1 where n1: "act_map (\<lambda>(src, dst). out_write (''  '' @ src @ [CHR 0x0A])) (concat fails)
        (w1\<lparr>stdout := stdout w1 @ ''Found '' @ str_int (int (length (concat fails))) @
          '' badly indented files:'' @ [CHR 0x0A]\<rparr>) = (u1, Inr us1)"
      "files u1 = files w1"
      using report_names [of "\<lambda>src. ''  '' @ src @ [CHR 0x0A]" "concat fails"
        "w1\<lparr>stdout := stdout w1 @ ''Found '' @ str_int (int (length (concat fails))) @
          '' badly indented files:'' @ [CHR 0x0A]\<rparr>"] by auto
    have "\<forall>(a, b)\<in>set (concat fails). dict_find (files w1) a \<noteq> None \<and> dict_find (files w1) b \<noteq> None"
      using there f(2) by blast
    from report_diffs [OF this] obtain u2 us2 where n2: "act_map (report_diff tool) (concat fails) w1 = (u2, Inr us2)"
      "files u2 = files w1" by blast
    have "r = Inr (concat fails = []) \<and> files w' = files w1"
    proof -
      have ow: "out_write x v = (v\<lparr>stdout := stdout v @ x\<rparr>, Inr ())" for x v by (simp add: out_write_def act_simps)
      note run = indent_files_def act_simps 1(1) f(1) False Let_def
      consider "concat fails = []" | "concat fails \<noteq> []" "diff" | "concat fails \<noteq> []" "\<not> diff" by blast
      then show ?thesis
      proof cases
        case 1
        then show ?thesis using assms(4) by (simp add: run del: concat_eq_Nil_conv)
      next
        case 2
        then show ?thesis using assms(4) n2(2) by (auto simp: run n2(1) simp del: concat_eq_Nil_conv)
      next
        case 3
        then show ?thesis using assms(4) n1(2) by (auto simp: run ow n1(1) simp del: concat_eq_Nil_conv append_Cons append_Nil append_assoc)
      qed
    qed
    then show ?thesis using same False src by simp
  qed
qed





definition sample_tools :: tools where
  "sample_tools =
     \<lparr>uncrustify = \<lambda>c s. Some ([], [], filter (\<lambda>x. x \<noteq> CHR 0x09) s),
      patch_tool = \<lambda>d s. Some ([], [], if d = [] then s else d),
      unified_diff = \<lambda>a b src dst. if a = b then [] else b,
      tmp_name = \<lambda>n. ''/tmp/'' @ str_nat n\<rparr>"

definition sample_world :: world where
  "sample_world = \<lparr>files = [(''a.cc'', ''int'' @ [CHR 0x09] @ ''x;'')], tmp_count = 0, stdout = [], stderr = []\<rparr>"

lemma sample_world_fresh: "tmp_fresh sample_tools sample_world"
proof -
  have "inj str_nat" by (rule inj_on_inverseI [of _ dec_val]) simp
  then have "inj (\<lambda>n. ''/tmp/'' @ str_nat n)" by (auto simp: inj_def)
  then show ?thesis
    by (simp add: tmp_fresh_def sample_tools_def sample_world_def dict_ok_def dict_find_def)
qed


text \<open>
  With \<open>--debug\<close> the difference is written to a file first, which uses up the generator;
  what is applied afterwards is empty.  So every file is found to be in order, whatever the
  tools would change, provided an empty patch leaves a file as it is.
\<close>

theorem debug_accepts_all:
  assumes "tmp_fresh tool w" and "\<forall>f\<in>set fs. dict_find (files w) f \<noteq> None"
    and "\<And>c s. uncrustify tool c s \<noteq> None" and "\<And>s. \<exists>out err. patch_tool tool [] s = Some (out, err, s)"
  shows "snd (indent_files tool fs diff True level False w) = Inr True"
proof -
  obtain w' r where r: "indent_files tool fs diff True level False w = (w', r)" by fastforce
  define content where "content f = the (dict_find (files w) f)" for f
  have c: "\<forall>f\<in>set fs. dict_find (files w) f = Some (content f)" using assms(2) by (auto simp: content_def)
  have "final_diff_text level [] = Inr []"
    by (simp add: final_diff_text_def remove_trailing_whitespace_changes_def parse_patchset_def)
  then have "outcome tool True level f (tmp_name tool n) s = Some s" for f n s
    using assms(3) [of "config_text level" s] assms(4) [of s] by (auto simp: outcome_def)
  from indent_files_run [OF assms(1) c this r] r show ?thesis by simp
qed

theorem debug_accepts_all_witness:
  "snd (indent_files sample_tools [''a.cc''] False True 3 False sample_world) = Inr True"
  by (rule debug_accepts_all [OF sample_world_fresh])
    (simp_all add: sample_tools_def sample_world_def dict_find_def)

end
