(* ===== verification/Module_Templates.thy ===== *)
theory Module_Templates
  imports Py_Prelude
begin

text \<open>
  The nine templates of \<open>src/utils/create-module.py\<close> and \<open>str.format\<close>, which fills them.

  \<open>fmt_parse\<close> is the reading of a format string: doubled braces stand for one brace, and
  between single braces stands a field.  The fields that occur are plain names; they are looked
  up in the keyword arguments.
\<close>

section \<open>\<open>str.format\<close>\<close>

datatype piece = Lit char | Field string

function fmt_parse :: "string \<Rightarrow> piece list res" where
  "fmt_parse s =
     (case s of
        [] \<Rightarrow> Inr []
      | c # cs \<Rightarrow>
          if c = CHR ''{'' then
            (if cs \<noteq> [] \<and> hd cs = CHR ''{''
             then res_bind (fmt_parse (tl cs)) (\<lambda>ps. Inr (Lit c # ps))
             else if cs = [] then Inl (ValueError ''Single '{' encountered in format string'')
             else (case dropWhile (\<lambda>x. x \<noteq> CHR ''}'') cs of
                     [] \<Rightarrow> Inl (ValueError ''expected '}' before end of string'')
                   | _ # rest \<Rightarrow>
                       res_bind (fmt_parse rest) (\<lambda>ps.
                         Inr (Field (takeWhile (\<lambda>x. x \<noteq> CHR ''}'') cs) # ps))))
          else if c = CHR ''}'' then
            (if cs \<noteq> [] \<and> hd cs = CHR ''}''
             then res_bind (fmt_parse (tl cs)) (\<lambda>ps. Inr (Lit c # ps))
             else Inl (ValueError ''Single '}' encountered in format string''))
          else res_bind (fmt_parse cs) (\<lambda>ps. Inr (Lit c # ps)))"
  by pat_completeness auto
termination
proof (relation "measure length", simp_all)
  fix c :: char and cs rest :: string and x
  assume "dropWhile (\<lambda>x. x \<noteq> CHR ''}'') cs = x # rest"
  then show "length rest < Suc (length cs)"
    using length_dropWhile_le [of "\<lambda>x. x \<noteq> CHR ''}''" cs] by simp
qed

declare fmt_parse.simps [simp del]

fun fmt_piece :: "(string, string) dict \<Rightarrow> piece \<Rightarrow> string res" where
  "fmt_piece kwargs (Lit c) = Inr [c]"
| "fmt_piece kwargs (Field name) = dict_get kwargs name"

definition fmt_pieces :: "(string, string) dict \<Rightarrow> piece list \<Rightarrow> string res" where
  "fmt_pieces kwargs ps =
     res_fold (\<lambda>p acc. res_bind (fmt_piece kwargs p) (\<lambda>t. Inr (acc @ t))) ps []"

definition str_format :: "string \<Rightarrow> (string, string) dict \<Rightarrow> string res" where
  "str_format template kwargs = res_bind (fmt_parse template) (fmt_pieces kwargs)"

section \<open>The templates\<close>

definition cmakelists_template :: string where
  \<open>cmakelists_template = unlines
     [''check_include_file_cxx(stdint.h HAVE_STDINT_H)'', ''if(HAVE_STDINT_H)'',
      ''    add_definitions(-DHAVE_STDINT_H)'', ''endif()'', [], ''set(examples_as_tests_sources)'',
      ''if(${{ENABLE_EXAMPLES}})'', ''    set(examples_as_tests_sources    '',
      ''        #test/{MODULE}-examples-test-suite.cc'', ''        )'', ''endif()    '', [],
      ''build_lib('', ''    LIBNAME {MODULE}'', ''    SOURCE_FILES model/{MODULE}.cc'',
      ''                 helper/{MODULE}-helper.cc '', ''    HEADER_FILES model/{MODULE}.h'',
      ''                 helper/{MODULE}-helper.h'', ''    LIBRARIES_TO_LINK ${{libcore}}'',
      ''    TEST_SOURCES test/{MODULE}-test-suite.cc'',
      ''                 ${{examples_as_tests_sources}}'', '')'', ''    '']\<close>

definition model_cc_template :: string where
  \<open>model_cc_template = unlines
     [''/* -*- Mode:C++; c-file-style:"gnu"; indent-tabs-mode:nil; -*- */'', [],
      ''#include "{MODULE}.h"'', [], ''namespace ns3 {{'', [], ''/* ... */'', [], [], ''}}'',
      []]\<close>

definition model_h_template :: string where
  \<open>model_h_template = unlines
     [''/* -*- Mode:C++; c-file-style:"gnu"; indent-tabs-mode:nil; -*- */'',
      ''#ifndef {INCLUDE_GUARD}'', ''#define {INCLUDE_GUARD}'', [], ''namespace ns3 {{'', [],
      ''/* ... */'', [], ''}}'', [], ''#endif /* {INCLUDE_GUARD} */'', []]\<close>

definition helper_cc_template :: string where
  \<open>helper_cc_template = unlines
     [''/* -*- Mode:C++; c-file-style:"gnu"; indent-tabs-mode:nil; -*- */'', [],
      ''#include "{MODULE}-helper.h"'', [], ''namespace ns3 {{'', [], ''/* ... */'', [], [], ''}}'',
      []]\<close>

definition helper_h_template :: string where
  \<open>helper_h_template = unlines
     [''/* -*- Mode:C++; c-file-style:"gnu"; indent-tabs-mode:nil; -*- */'',
      ''#ifndef {INCLUDE_GUARD}'', ''#define {INCLUDE_GUARD}'', [], ''#include "ns3/{MODULE}.h"'',
      [], ''namespace ns3 {{'', [], ''/* ... */'', [], ''}}'', [], ''#endif /* {INCLUDE_GUARD} */'',
      []]\<close>

definition examples_cmakelists_template :: string where
  \<open>examples_cmakelists_template = unlines
     [''build_lib_example('', ''    NAME {MODULE}-example'',
      ''    SOURCE_FILES {MODULE}-example.cc'', ''    LIBRARIES_TO_LINK ${{lib{MODULE}}}'', '')'',
      []]\<close>

definition example_cc_template :: string where
  \<open>example_cc_template = unlines
     [''/* -*- Mode:C++; c-file-style:"gnu"; indent-tabs-mode:nil; -*- */'', [],
      ''#include "ns3/core-module.h"'', ''#include "ns3/{MODULE}-helper.h"'', [],
      ''using namespace ns3;'', [], [], ''int '', ''main (int argc, char *argv[])'', ''{{'',
      ''  bool verbose = true;'', [], ''  CommandLine cmd (__FILE__);'',
      ''  cmd.AddValue ("verbose", "Tell application to log if true", verbose);'', [],
      ''  cmd.Parse (argc,argv);'', [], ''  /* ... */'', [], ''  Simulator::Run ();'',
      ''  Simulator::Destroy ();'', ''  return 0;'', ''}}'', [], []]\<close>

definition test_cc_template :: string where
  \<open>test_cc_template = unlines
     [''/* -*- Mode:C++; c-file-style:"gnu"; indent-tabs-mode:nil; -*- */'', [],
      ''// Include a header file from your module to test.'', ''#include "ns3/{MODULE}.h"'', [],
      ''// An essential include is test.h'', ''#include "ns3/test.h"'', [],
      ''// Do not put your test classes in namespace ns3.  You may find it useful'',
      ''// to use the using directive to access the ns3 namespace directly'',
      ''using namespace ns3;'', [], ''// This is an example TestCase.'',
      ''class {CAPITALIZED}TestCase1 : public TestCase'', ''{{'', ''public:'',
      ''  {CAPITALIZED}TestCase1 ();'', ''  virtual ~{CAPITALIZED}TestCase1 ();'', [], ''private:'',
      ''  virtual void DoRun (void);'', ''}};'', [],
      ''// Add some help text to this case to describe what it is intended to test'',
      ''{CAPITALIZED}TestCase1::{CAPITALIZED}TestCase1 ()'',
      ''  : TestCase ("{CAPITALIZED} test case (does nothing)")'', ''{{'', ''}}'', [],
      ''// This destructor does nothing but we include it as a reminder that'',
      ''// the test case should clean up after itself'',
      ''{CAPITALIZED}TestCase1::~{CAPITALIZED}TestCase1 ()'', ''{{'', ''}}'', [], ''//'',
      ''// This method is the pure virtual method from class TestCase that every'',
      ''// TestCase must implement'', ''//'', ''void'', ''{CAPITALIZED}TestCase1::DoRun (void)'',
      ''{{'', ''  // A wide variety of test macros are available in src/core/test.h'',
      ''  NS_TEST_ASSERT_MSG_EQ (true, true, "true doesn't equal true for some reason");'',
      ''  // Use this one for floating point comparisons'',
      ''  NS_TEST_ASSERT_MSG_EQ_TOL (0.01, 0.01, 0.001, "Numbers are not equal within tolerance");'',
      ''}}'', [],
      ''// The TestSuite class names the TestSuite, identifies what type of TestSuite,'',
      ''// and enables the TestCases to be run.  Typically, only the constructor for'',
      ''// this class must be defined'', ''//'',
      ''class {CAPITALIZED}TestSuite : public TestSuite'', ''{{'', ''public:'',
      ''  {CAPITALIZED}TestSuite ();'', ''}};'', [],
      ''{CAPITALIZED}TestSuite::{CAPITALIZED}TestSuite ()'', ''  : TestSuite ("{MODULE}", UNIT)'',
      ''{{'', ''  // TestDuration for TestCase can be QUICK, EXTENSIVE or TAKES_FOREVER'',
      ''  AddTestCase (new {CAPITALIZED}TestCase1, TestCase::QUICK);'', ''}}'', [],
      ''// Do not forget to allocate an instance of this TestSuite'',
      ''static {CAPITALIZED}TestSuite s{COMPOUND}TestSuite;'', []]\<close>

definition doc_rst_template :: string where
  \<open>doc_rst_template = unlines
     [''Example Module Documentation'', ''----------------------------'', [],
      ''.. include:: replace.txt'', ''.. highlight:: cpp'', [], ''.. heading hierarchy:'',
      ''   ------------- Chapter'', ''   ************* Section (#.#)'',
      ''   ============= Subsection (#.#.#)'', ''   ############# Paragraph (no number)'', [],
      ''This is a suggested outline for adding new module documentation to |ns3|.'',
      ''See ``src/click/doc/click.rst`` for an example.'', [],
      ''The introductory paragraph is for describing what this code is trying to'', ''model.'', [],
      ''For consistency (italicized formatting), please use |ns3| to refer to'',
      ''ns-3 in the documentation (and likewise, |ns2| for ns-2).  These macros'',
      ''are defined in the file ``replace.txt``.'', [], ''Model Description'',
      ''*****************'', [],
      ''The source code for the new module lives in the directory ``{MODULE_DIR}``.'', [],
      ''Add here a basic description of what is being modeled.'', [], ''Design'', ''======'', [],
      ''Briefly describe the software design of the model and how it fits into '',
      ''the existing ns-3 architecture. '', [], ''Scope and Limitations'',
      ''====================='', [],
      ''What can the model do?  What can it not do?  Please use this section to'',
      ''describe the scope and limitations of the model.'', [], ''References'', ''=========='', [],
      ''Add academic citations here, such as if you published a paper on this'',
      ''model, or if readers should read a particular specification or other work.'', [], ''Usage'',
      ''*****'', [], ''This section is principally concerned with the usage of your model, using'',
      ''the public API.  Focus first on most common usage patterns, then go'',
      ''into more advanced topics.'', [], ''Building New Module'', ''==================='', [],
      ''Include this subsection only if there are special build instructions or'',
      ''platform limitations.'', [], ''Helpers'', ''======='', [],
      ''What helper API will users typically use?  Describe it here.'', [], ''Attributes'',
      ''=========='', [],
      ''What classes hold attributes, and what are the key ones worth mentioning?'', [], ''Output'',
      ''======'', [], ''What kind of data does the model generate?  What are the key trace'',
      ''sources?   What kind of logging output can be enabled?'', [], ''Advanced Usage'',
      ''=============='', [],
      ''Go into further details (such as using the API outside of the helpers)'',
      ''in additional sections, as needed.'', [], ''Examples'', ''========'', [],
      ''What examples using this new code are available?  Describe them here.'', [],
      ''Troubleshooting'', ''==============='', [], ''Add any tips for avoiding pitfalls, etc.'',
      [], ''Validation'', ''**********'', [],
      ''Describe how the model has been tested/validated.  What tests run in the'',
      ''test suite?  How much API and code is covered by the tests?  Again, '',
      ''references to outside published work may help here.'']\<close>

section \<open>Formatting with the keyword arguments\<close>

text \<open>The fields of a format string, when it can be read.\<close>

definition fields_of :: "piece list \<Rightarrow> string list" where
  "fields_of ps = concat (map (\<lambda>p. case p of Lit c \<Rightarrow> [] | Field f \<Rightarrow> [f]) ps)"

definition well_formed_template :: "string \<Rightarrow> string list \<Rightarrow> bool" where
  "well_formed_template template names \<longleftrightarrow>
     (case fmt_parse template of Inl e \<Rightarrow> False | Inr ps \<Rightarrow> list_all (\<lambda>f. f \<in> set names) (fields_of ps))"

lemma fmt_pieces_total:
  assumes "\<forall>f\<in>set (fields_of ps). dict_find kwargs f \<noteq> None"
  shows "\<exists>t. fmt_pieces kwargs ps = Inr t"
proof -
  have "\<exists>t. res_fold (\<lambda>p acc. res_bind (fmt_piece kwargs p) (\<lambda>t. Inr (acc @ t))) ps a = Inr t" for a
    using assms
  proof (induction ps arbitrary: a)
    case (Cons p ps)
    then show ?case by (cases p) (auto simp: fields_of_def dict_get_find)
  qed simp
  then show ?thesis by (simp add: fmt_pieces_def)
qed

lemma str_format_total:
  assumes "well_formed_template template names" and "\<forall>f\<in>set names. dict_find kwargs f \<noteq> None"
  shows "\<exists>t. str_format template kwargs = Inr t"
proof -
  obtain ps where "fmt_parse template = Inr ps" "\<forall>f\<in>set (fields_of ps). f \<in> set names"
    using assms(1) by (auto simp: well_formed_template_def list_all_iff split: sum.splits)
  then show ?thesis using fmt_pieces_total [of ps kwargs] assms(2) by (simp add: str_format_def)
qed

text \<open>A format string can be read line by line.\<close>

lemma dropWhile_takeWhile_append:
  "dropWhile P a = x # r \<Longrightarrow> dropWhile P (a @ b) = x # r @ b \<and> takeWhile P (a @ b) = takeWhile P a"
  by (induction a) auto

lemma fmt_parse_append:
  "fmt_parse a = Inr ps \<Longrightarrow> fmt_parse (a @ b) = res_bind (fmt_parse b) (\<lambda>qs. Inr (ps @ qs))"
proof (induction "length a" arbitrary: a ps rule: less_induct)
  case less
  note run = less(2)
  have IH: "fmt_parse (r @ b) = res_bind (fmt_parse b) (\<lambda>qs. Inr (ps' @ qs))"
    if "length r < length a" "fmt_parse r = Inr ps'" for r ps' using less(1) that by blast
  show ?case
  proof (cases a)
    case Nil
    with run show ?thesis by (cases "fmt_parse b") (simp_all add: fmt_parse.simps [of "[]"])
  next
    case (Cons c cs)
    note step = run [unfolded Cons fmt_parse.simps [of "c # cs"]]
    have join: "a @ b = c # cs @ b" by (simp add: Cons)
    consider (brace) d r where "cs = d # r" "c = d" "c = CHR ''{'' \<or> c = CHR ''}''"
      | (field) x r where "c = CHR ''{''" "cs \<noteq> []" "hd cs \<noteq> CHR ''{''"
          "dropWhile (\<lambda>x. x \<noteq> CHR ''}'') cs = x # r"
      | (char) "c \<noteq> CHR ''{''" "c \<noteq> CHR ''}''"
      using step by (cases cs) (auto split: if_splits list.splits)
    then show ?thesis
    proof cases
      case brace
      with step obtain qs where qs: "fmt_parse r = Inr qs" "ps = Lit c # qs"
        by (auto simp: res_bind_eq_Inr)
      with brace Cons IH [of r qs] show ?thesis
        unfolding join fmt_parse.simps [of "c # cs @ b"] by (auto simp: res_bind_assoc)
    next
      case field
      with step obtain qs where qs: "fmt_parse r = Inr qs"
          "ps = Field (takeWhile (\<lambda>x. x \<noteq> CHR ''}'') cs) # qs"
        by (auto simp: res_bind_eq_Inr)
      have "length r < length a"
        using length_dropWhile_le [of "\<lambda>x. x \<noteq> CHR ''}''" cs] field(4) Cons by simp
      then show ?thesis using IH [OF _ qs(1)] qs(2) field Cons dropWhile_takeWhile_append [OF field(4), of b]
        unfolding join fmt_parse.simps [of "c # cs @ b"] by (auto simp: res_bind_assoc)
    next
      case char
      with step obtain qs where qs: "fmt_parse cs = Inr qs" "ps = Lit c # qs"
        by (auto simp: res_bind_eq_Inr)
      with char Cons IH [of cs qs] show ?thesis
        unfolding join fmt_parse.simps [of "c # cs @ b"] by (auto simp: res_bind_assoc)
    qed
  qed
qed

lemma fmt_parse_unlines:
  "list_all (\<lambda>l. well_formed_template l names) ls \<Longrightarrow> well_formed_template (unlines ls) names"
proof (induction ls)
  case Nil
  then show ?case by (simp add: unlines_def well_formed_template_def fmt_parse.simps [of "[]"] fields_of_def)
next
  case (Cons l ls)
  then obtain ps qs where p: "fmt_parse l = Inr ps" "list_all (\<lambda>f. f \<in> set names) (fields_of ps)"
    and q: "fmt_parse (unlines ls) = Inr qs" "list_all (\<lambda>f. f \<in> set names) (fields_of qs)"
    by (auto simp: well_formed_template_def split: sum.splits)
  have "fmt_parse (CHR 0x0A # unlines ls) = Inr (Lit (CHR 0x0A) # qs)"
    by (subst fmt_parse.simps) (simp add: q)
  then have "fmt_parse (unlines (l # ls)) = Inr (ps @ Lit (CHR 0x0A) # qs)"
    using fmt_parse_append [OF p(1), of "CHR 0x0A # unlines ls"] by (simp add: unlines_def)
  then show ?case using p q by (simp add: well_formed_template_def fields_of_def)
qed

lemma templates_well_formed:
  "well_formed_template cmakelists_template [''MODULE'']"
  "well_formed_template model_cc_template [''MODULE'']"
  "well_formed_template model_h_template [''INCLUDE_GUARD'']"
  "well_formed_template helper_cc_template [''MODULE'']"
  "well_formed_template helper_h_template [''MODULE'', ''INCLUDE_GUARD'']"
  "well_formed_template examples_cmakelists_template [''MODULE'']"
  "well_formed_template example_cc_template [''MODULE'']"
  "well_formed_template test_cc_template [''MODULE'', ''CAPITALIZED'', ''COMPOUND'']"
  "well_formed_template doc_rst_template [''MODULE_DIR'']"
  unfolding cmakelists_template_def model_cc_template_def model_h_template_def helper_cc_template_def
    helper_h_template_def examples_cmakelists_template_def example_cc_template_def test_cc_template_def
    doc_rst_template_def
  by (rule fmt_parse_unlines, code_simp)+

end
