(* ===== verification/File_System.thy ===== *)
theory File_System
  imports Py_Prelude "HOL-Library.Sublist"
begin

text \<open>
  The file system as the Python programs of \<open>src/utils\<close> see it through \<open>pathlib\<close> and
  \<open>shutil\<close>.  A path is the list of its components below the root; the state maps paths to
  directories and files.  A path may contain \<open>..\<close>, which every operation resolves against the
  state, as the operating system does; the entries themselves never have that name.  Which
  entries the operating system refuses to create, to write or to remove (permissions, space) and
  in which order a directory lists its entries are arguments of the operations.  Symbolic links
  are not modelled.
\<close>

section \<open>Nodes and paths\<close>

type_synonym path = "string list"

datatype node = Dir | File string

record world =
  nodes :: "(path, node) dict"
  cwd :: path
  stdout :: string
  stderr :: string

record os =
  refuse_create :: "path \<Rightarrow> bool"
  refuse_write :: "path \<Rightarrow> bool"
  refuse_remove :: "path \<Rightarrow> bool"
  listing :: "path list \<Rightarrow> path list"

definition node_at :: "world \<Rightarrow> path \<Rightarrow> node option" where
  "node_at w p = (if p = [] then Some Dir else dict_find (nodes w) p)"

definition plain :: "path \<Rightarrow> bool" where
  "plain p \<longleftrightarrow> ''..'' \<notin> set p"

definition fs_ok :: "world \<Rightarrow> bool" where
  "fs_ok w \<longleftrightarrow> dict_ok (nodes w) \<and> [] \<notin> set (map fst (nodes w)) \<and>
     list_all (\<lambda>p. node_at w (butlast p) = Some Dir) (map fst (nodes w)) \<and> list_all plain (map fst (nodes w))"

text \<open>
  The entry that a path stands for: every component but the last has to be a directory, and
  \<open>..\<close> is the directory above (above the root, the root).
\<close>

fun resolve_from :: "world \<Rightarrow> path \<Rightarrow> path \<Rightarrow> path option" where
  "resolve_from w cur [] = Some cur"
| "resolve_from w cur (c # cs) =
     (if node_at w cur \<noteq> Some Dir then None
      else resolve_from w (if c = ''..'' then butlast cur else cur @ [c]) cs)"

definition resolve :: "world \<Rightarrow> path \<Rightarrow> path option" where
  "resolve w p = resolve_from w [] p"

definition entry_at :: "world \<Rightarrow> path \<Rightarrow> node option" where
  "entry_at w p = (case resolve w p of None \<Rightarrow> None | Some q \<Rightarrow> node_at w q)"

definition path_exists :: "path \<Rightarrow> world \<Rightarrow> bool" where
  "path_exists p w \<longleftrightarrow> entry_at w p \<noteq> None"

definition is_dir :: "path \<Rightarrow> world \<Rightarrow> bool" where
  "is_dir p w \<longleftrightarrow> entry_at w p = Some Dir"

definition path_str :: "path \<Rightarrow> string" where
  "path_str p = CHR ''/'' # str_join ''/'' p"

text \<open>\<open>Path(s).parts\<close>: empty components and single dots are dropped.\<close>

definition path_parts :: "string \<Rightarrow> string list" where
  "path_parts s = filter (\<lambda>c. c \<noteq> [] \<and> c \<noteq> ''.'') (str_split (CHR ''/'') s)"

text \<open>\<open>with_suffix\<close> of a last component: the suffix starts at the last dot inside the name.\<close>

definition with_suffix :: "string \<Rightarrow> string \<Rightarrow> string" where
  "with_suffix name suf =
     (let tail = rev (takeWhile (\<lambda>c. c \<noteq> CHR ''.'') (rev name));
          stem = take (length name - length tail - 1) name
      in if CHR ''.'' \<in> set name \<and> stem \<noteq> [] \<and> tail \<noteq> [] then stem @ suf else name @ suf)"

text \<open>\<open>os.path.relpath\<close> of a path from a directory; \<open>..\<close> is removed from the text of the path.\<close>

definition normpath :: "path \<Rightarrow> path" where
  "normpath p = fold (\<lambda>c cur. if c = ''..'' then butlast cur else cur @ [c]) p []"

definition relpath :: "path \<Rightarrow> path \<Rightarrow> string" where
  "relpath path from =
     (let p = normpath path;
          k = length (longest_common_prefix p from);
          r = replicate (length from - k) ''..'' @ drop k p
      in if r = [] then ''.'' else str_join ''/'' r)"

section \<open>Operations\<close>

definition set_node :: "path \<Rightarrow> node \<Rightarrow> world \<Rightarrow> world" where
  "set_node p n w = w\<lparr>nodes := dict_set p n (nodes w)\<rparr>"

text \<open>An operation on the entry that a path stands for.\<close>

definition at_entry :: "path \<Rightarrow> (path \<Rightarrow> (world, unit) act) \<Rightarrow> (world, unit) act" where
  "at_entry p m w = (case resolve w p of None \<Rightarrow> (w, Inl OSError) | Some q \<Rightarrow> m q w)"

text \<open>\<open>os.mkdir\<close> where the parent exists.\<close>

definition mkdir_entry :: "os \<Rightarrow> path \<Rightarrow> (world, unit) act" where
  "mkdir_entry sys p w =
     (if p = [] \<or> node_at w (butlast p) \<noteq> Some Dir \<or> node_at w p \<noteq> None \<or> refuse_create sys p
      then (w, Inl OSError) else (set_node p Dir w, Inr ()))"

definition os_mkdir :: "os \<Rightarrow> path \<Rightarrow> (world, unit) act" where
  "os_mkdir sys p = at_entry p (mkdir_entry sys)"

text \<open>\<open>mkdir(exist_ok=...)\<close>.\<close>

definition mkdir_one :: "os \<Rightarrow> path \<Rightarrow> bool \<Rightarrow> (world, unit) act" where
  "mkdir_one sys p exist_ok w = (if exist_ok \<and> is_dir p w then (w, Inr ()) else os_mkdir sys p w)"

text \<open>
  \<open>mkdir(parents=True, exist_ok=...)\<close>, on the components from the last one: when the parent is
  missing it is made first.
\<close>

fun mkdir_up :: "os \<Rightarrow> string list \<Rightarrow> bool \<Rightarrow> (world, unit) act" where
  "mkdir_up sys [] exist_ok = (if exist_ok then act_ret () else act_fail OSError)"
| "mkdir_up sys (c # up) exist_ok =
     (\<lambda>w. if \<not> path_exists (rev up) w
          then act_then (mkdir_up sys up True) (mkdir_one sys (rev (c # up)) exist_ok) w
          else mkdir_one sys (rev (c # up)) exist_ok w)"

definition mkdir_parents :: "os \<Rightarrow> path \<Rightarrow> (world, unit) act" where
  "mkdir_parents sys p = mkdir_up sys (rev p) False"

text \<open>\<open>open("wt")\<close> creates or empties the file; then the text is written to
  the entry, if it is still there.\<close>

definition open_entry :: "os \<Rightarrow> path \<Rightarrow> (world, unit) act" where
  "open_entry sys p w =
     (if p = [] \<or> node_at w (butlast p) \<noteq> Some Dir \<or> node_at w p = Some Dir \<or> refuse_create sys p
      then (w, Inl OSError) else (set_node p (File []) w, Inr ()))"

definition open_wt :: "os \<Rightarrow> path \<Rightarrow> (world, unit) act" where
  "open_wt sys p = at_entry p (open_entry sys)"

definition write_entry :: "os \<Rightarrow> string \<Rightarrow> path \<Rightarrow> (world, unit) act" where
  "write_entry sys t p w =
     (if refuse_write sys p then (w, Inl OSError)
      else (case node_at w p of Some (File _) \<Rightarrow> (set_node p (File t) w, Inr ()) | _ \<Rightarrow> (w, Inr ())))"

definition write_open :: "os \<Rightarrow> path \<Rightarrow> string \<Rightarrow> (world, unit) act" where
  "write_open sys p t = at_entry p (write_entry sys t)"

text \<open>
  \<open>shutil.rmtree\<close>: the entries of a directory are removed, in the order in which they are listed and each
  with what is below it, and then the directory.  The first removal that is refused raises, and
  the rest stays.
\<close>

definition entries_in :: "path list \<Rightarrow> path \<Rightarrow> path list" where
  "entries_in ks p = filter (\<lambda>q. q \<noteq> [] \<and> butlast q = p) ks"

function removal_order :: "path list \<Rightarrow> path \<Rightarrow> path list" where
  "removal_order ks p = concat (map (removal_order ks) (entries_in ks p)) @ [p]"
  by pat_completeness auto
termination
proof (relation "measure (\<lambda>(ks, p). sum_list (map length ks) - length p)")
  fix ks :: "path list" and p q :: path
  assume "q \<in> set (entries_in ks p)"
  then have "q \<in> set ks" "length p < length q" by (auto simp: entries_in_def)
  moreover from this(1) have "length q \<le> sum_list (map length ks)" by (simp add: member_le_sum_list)
  ultimately show "((ks, q), (ks, p)) \<in> measure (\<lambda>(ks, p). sum_list (map length ks) - length p)" by simp
qed simp

declare removal_order.simps [simp del]

definition remove_entry :: "os \<Rightarrow> path \<Rightarrow> (world, unit) act" where
  "remove_entry sys p w =
     (if node_at w p = None \<or> refuse_remove sys p \<or> list_ex (\<lambda>q. strict_prefix p q) (map fst (nodes w))
      then (w, Inl OSError) else (w\<lparr>nodes := filter (\<lambda>(q, n). q \<noteq> p) (nodes w)\<rparr>, Inr ()))"

definition rmtree_entry :: "os \<Rightarrow> path \<Rightarrow> (world, unit) act" where
  "rmtree_entry sys p w =
     (if node_at w p \<noteq> Some Dir then (w, Inl OSError)
      else act_each (remove_entry sys) (removal_order (listing sys (map fst (nodes w))) p) w)"

definition rmtree :: "os \<Rightarrow> path \<Rightarrow> (world, unit) act" where
  "rmtree sys p = at_entry p (rmtree_entry sys)"

definition print :: "string \<Rightarrow> (world, unit) act" where
  "print s = act_upd (\<lambda>w. w\<lparr>stdout := stdout w @ s @ [CHR 0x0A]\<rparr>)"

definition print_err :: "string \<Rightarrow> (world, unit) act" where
  "print_err s = act_upd (\<lambda>w. w\<lparr>stderr := stderr w @ s @ [CHR 0x0A]\<rparr>)"

section \<open>Facts\<close>

lemma node_at_root [simp]: "node_at w [] = Some Dir"
  by (simp add: node_at_def)

lemma node_at_output [simp]:
  "node_at (w\<lparr>stdout := s\<rparr>) p = node_at w p"
  "node_at (w\<lparr>stderr := s\<rparr>) p = node_at w p"
  by (simp_all add: node_at_def)

lemma fs_ok_output [simp]:
  "fs_ok (w\<lparr>stdout := s\<rparr>) = fs_ok w"
  "fs_ok (w\<lparr>stderr := s\<rparr>) = fs_ok w"
  by (simp_all add: fs_ok_def)

lemma node_at_set_node:
  "dict_ok (nodes w) \<Longrightarrow> p \<noteq> [] \<Longrightarrow> node_at (set_node p n w) q = (if q = p then Some n else node_at w q)"
  by (auto simp: node_at_def set_node_def dict_ops)

lemma fs_ok_dict [simp]: "fs_ok w \<Longrightarrow> dict_ok (nodes w)"
  by (simp add: fs_ok_def)

lemma fs_ok_iff:
  "fs_ok w \<longleftrightarrow> dict_ok (nodes w) \<and> dict_find (nodes w) [] = None \<and>
     (\<forall>p. dict_find (nodes w) p \<noteq> None \<longrightarrow> node_at w (butlast p) = Some Dir \<and> plain p)"
  unfolding fs_ok_def list_all_iff by (simp only: keys_dict_find Ball_def not_not) blast

lemma fs_ok_parent: "fs_ok w \<Longrightarrow> node_at w p \<noteq> None \<Longrightarrow> node_at w (butlast p) = Some Dir"
  by (cases "p = []") (simp, unfold fs_ok_iff, simp add: node_at_def [of w p])

text \<open>Every proper prefix of an existing path is a directory.\<close>

lemma fs_ok_prefix:
  assumes "fs_ok w" and "node_at w (p @ q) \<noteq> None" and "q \<noteq> []"
  shows "node_at w p = Some Dir"
  using assms(2,3)
proof (induction q rule: rev_induct)
  case (snoc c q)
  from fs_ok_parent [OF assms(1) snoc(2)] have d: "node_at w (p @ q) = Some Dir" by (simp add: butlast_append)
  then show ?case using snoc(1) by (cases "q = []") simp_all
qed simp

lemma fs_ok_absent:
  assumes "fs_ok w" and "node_at w p = None" and "prefix p q"
  shows "node_at w q = None"
proof (rule ccontr)
  assume ex: "node_at w q \<noteq> None"
  obtain t where t: "q = p @ t" using assms(3) by (auto simp: prefix_def)
  show False
  proof (cases "t = []")
    case True
    then show False using ex t assms(2) by simp
  next
    case False
    from fs_ok_prefix [OF assms(1) ex [unfolded t] False] assms(2) show False by simp
  qed
qed

lemma fs_ok_set_node:
  assumes "fs_ok w" and "p \<noteq> []" and "node_at w (butlast p) = Some Dir"
    and "node_at w p = Some Dir \<longrightarrow> n = Dir" and "plain p"
  shows "fs_ok (set_node p n w)"
proof -
  have d: "dict_ok (nodes w)" using assms(1) by simp
  have n: "nodes (set_node p n w) = dict_set p n (nodes w)" by (simp add: set_node_def)
  have "node_at (set_node p n w) (butlast q) = Some Dir" if "dict_find (dict_set p n (nodes w)) q \<noteq> None" for q
  proof -
    have "node_at w (butlast q) = Some Dir"
      using that assms fs_ok_parent [OF assms(1), of q] d
      by (cases "q = p") (auto simp: dict_ops node_at_def split: if_splits)
    then show ?thesis using node_at_set_node [OF d assms(2), of n "butlast q"] assms(4) by auto
  qed
  then show ?thesis using assms(1,2,5) d by (simp add: fs_ok_iff [of "set_node p n w"] n dict_ops) (simp add: fs_ok_iff)
qed

lemma dict_find_filter:
  "dict_find (filter (\<lambda>(q, n). P q) d) k = (if P k then dict_find d k else None)"
  by (induction d) (auto simp: dict_find_def)

section \<open>Resolution\<close>

lemma resolve_append:
  "resolve_from w cur (p @ q) = Option.bind (resolve_from w cur p) (\<lambda>c. resolve_from w c q)"
  by (induction p arbitrary: cur) auto

lemma plain_append [simp]: "plain (p @ q) \<longleftrightarrow> plain p \<and> plain q" "plain []" "plain (c # p) \<longleftrightarrow> c \<noteq> ''..'' \<and> plain p"
  by (auto simp: plain_def)

lemma plain_prefix: "plain p \<Longrightarrow> prefix q p \<Longrightarrow> plain q"
  by (auto simp: prefix_def)

text \<open>A path without \<open>..\<close> stands for itself.\<close>

lemma resolve_plain:
  assumes "fs_ok w" and "plain p"
  shows "resolve w p = (if p = [] \<or> node_at w (butlast p) = Some Dir then Some p else None)"
  using assms(2)
proof (induction p rule: rev_induct)
  case (snoc c p)
  have "resolve w (p @ [c]) = Option.bind (resolve w p) (\<lambda>q. if node_at w q \<noteq> Some Dir then None else Some (q @ [c]))"
    using snoc.prems by (cases "resolve_from w [] p") (auto simp: resolve_def resolve_append)
  then show ?case using snoc fs_ok_parent [OF assms(1), of p] by auto
qed (simp add: resolve_def)

lemma entry_at_plain: "fs_ok w \<Longrightarrow> plain p \<Longrightarrow> entry_at w p = node_at w p"
  using fs_ok_parent [of w p] by (cases "node_at w p") (auto simp: entry_at_def resolve_plain)

lemma exists_plain:
  "fs_ok w \<Longrightarrow> plain p \<Longrightarrow> path_exists p w \<longleftrightarrow> node_at w p \<noteq> None"
  "fs_ok w \<Longrightarrow> plain p \<Longrightarrow> is_dir p w \<longleftrightarrow> node_at w p = Some Dir"
  by (simp_all add: path_exists_def is_dir_def entry_at_plain)

lemma operations_plain:
  assumes "fs_ok w" and "plain p"
  shows "os_mkdir sys p w = mkdir_entry sys p w" "open_wt sys p w = open_entry sys p w"
    "node_at w (butlast p) = Some Dir \<Longrightarrow> write_open sys p t w = write_entry sys t p w"
    "node_at w p = Some Dir \<Longrightarrow> rmtree sys p w = rmtree_entry sys p w"
  using resolve_plain [OF assms] fs_ok_parent [OF assms(1), of p]
  by (auto simp: os_mkdir_def open_wt_def write_open_def rmtree_def at_entry_def mkdir_entry_def open_entry_def)

lemma write_plain:
  assumes "fs_ok w" and "plain p"
  shows "write_open sys p t w = (w, Inl OSError) \<or> write_open sys p t w = write_entry sys t p w"
  using resolve_plain [OF assms] by (simp add: write_open_def at_entry_def)

section \<open>Removal\<close>

lemma removal_below: "q \<in> set (removal_order ks p) \<Longrightarrow> prefix p q"
proof (induction ks p arbitrary: q rule: removal_order.induct)
  case (1 ks p)
  from 1(2) consider "q = p" | a where "a \<in> set (entries_in ks p)" "q \<in> set (removal_order ks a)"
    by (subst (asm) removal_order.simps) auto
  then show ?case
  proof cases
    case 2
    then have "prefix p a" by (auto simp: entries_in_def prefixeq_butlast)
    then show ?thesis using 1(1) [OF 2] by (rule prefix_order.trans)
  qed simp
qed

lemma removal_within: "q \<in> set (removal_order ks p) \<Longrightarrow> q = p \<or> q \<in> set ks"
proof (induction ks p arbitrary: q rule: removal_order.induct)
  case (1 ks p)
  from 1(2) consider "q = p" | a where "a \<in> set (entries_in ks p)" "q \<in> set (removal_order ks a)"
    by (subst (asm) removal_order.simps) auto
  then show ?case
  proof cases
    case 2
    then show ?thesis using 1(1) [OF 2] by (auto simp: entries_in_def)
  qed simp
qed

text \<open>Everything below the directory is removed, once, and what is below an entry before the entry.\<close>

lemma removal_complete:
  assumes "\<And>r. prefix p r \<Longrightarrow> prefix r q \<Longrightarrow> r \<noteq> p \<Longrightarrow> r \<in> set ks" and "prefix p q"
  shows "q \<in> set (removal_order ks p)"
  using assms
proof (induction ks p rule: removal_order.induct)
  case (1 ks p)
  show ?case
  proof (cases "q = p")
    case True
    then show ?thesis by (subst removal_order.simps) simp
  next
    case False
    obtain zs where zs: "q = p @ zs" using 1(3) by (auto simp: prefix_def)
    with False obtain c t where "zs = c # t" by (cases zs) auto
    with zs have q: "q = (p @ [c]) @ t" by simp
    have c: "p @ [c] \<in> set (entries_in ks p)" using 1(2) [of "p @ [c]"] by (simp add: q entries_in_def)
    have "q \<in> set (removal_order ks (p @ [c]))"
    proof (rule 1(1) [OF c])
      fix r assume "prefix (p @ [c]) r" "prefix r q" "r \<noteq> p @ [c]"
      moreover from this(1) have "prefix p r" "r \<noteq> p" by (auto simp: prefix_def)
      ultimately show "r \<in> set ks" using 1(2) by blast
    qed (simp add: q)
    with c show ?thesis by (subst removal_order.simps) auto
  qed
qed

lemma entries_length: "a \<in> set (entries_in ks p) \<Longrightarrow> length a = Suc (length p)"
  by (cases a rule: rev_cases) (auto simp: entries_in_def)

lemma siblings_apart:
  assumes "a \<in> set (entries_in ks p)" and "b \<in> set (entries_in ks p)" and "prefix a x" and "prefix b x"
  shows "a = b"
proof -
  have "length a = length b" using entries_length [OF assms(1)] entries_length [OF assms(2)] by simp
  with assms(3,4) show ?thesis by (auto simp: prefix_def append_eq_append_conv)
qed

lemma sorted_wrt_concat:
  assumes "\<And>x. x \<in> set xs \<Longrightarrow> sorted_wrt P (f x)"
    and "\<And>x y u v. x \<in> set xs \<Longrightarrow> y \<in> set xs \<Longrightarrow> x \<noteq> y \<Longrightarrow> u \<in> set (f x) \<Longrightarrow> v \<in> set (f y) \<Longrightarrow> P u v" and "distinct xs"
  shows "sorted_wrt P (concat (map f xs))"
  using assms
proof (induction xs)
  case (Cons a xs)
  have "sorted_wrt P (concat (map f xs))"
  proof (rule Cons.IH)
    show "sorted_wrt P (f x)" if "x \<in> set xs" for x using Cons.prems(1) that by simp
    show "P u v" if "x \<in> set xs" "y \<in> set xs" "x \<noteq> y" "u \<in> set (f x)" "v \<in> set (f y)" for x y u v
      using Cons.prems(2) [of x y u v] that by simp
  qed (use Cons.prems(3) in simp)
  moreover have "P u v" if "u \<in> set (f a)" "y \<in> set xs" "v \<in> set (f y)" for u v y
    using Cons.prems(2) [of a y u v] Cons.prems(3) that by auto
  ultimately show ?case using Cons.prems(1) by (auto simp: sorted_wrt_append)
qed simp

lemma removal_bottom_up:
  "distinct ks \<Longrightarrow> sorted_wrt (\<lambda>x y. x \<noteq> y \<and> \<not> strict_prefix x y) (removal_order ks p)"
proof (induction ks p rule: removal_order.induct)
  case (1 ks p)
  let ?P = "\<lambda>x y :: path. x \<noteq> y \<and> \<not> strict_prefix x y"
  have "sorted_wrt ?P (concat (map (removal_order ks) (entries_in ks p)))"
  proof (rule sorted_wrt_concat)
    show "sorted_wrt ?P (removal_order ks x)" if "x \<in> set (entries_in ks p)" for x using 1 that by blast
    show "distinct (entries_in ks p)" using 1(2) by (simp add: entries_in_def)
    fix x y u v
    assume *: "x \<in> set (entries_in ks p)" "y \<in> set (entries_in ks p)" "x \<noteq> y" "u \<in> set (removal_order ks x)" "v \<in> set (removal_order ks y)"
    from removal_below [OF *(4)] removal_below [OF *(5)] have "prefix x u" "prefix y v" .
    with siblings_apart [OF *(1,2), of v] *(3) show "u \<noteq> v \<and> \<not> strict_prefix u v"
      by (auto simp: strict_prefix_def dest: prefix_order.trans)
  qed
  moreover have "?P x p" if "x \<in> set (concat (map (removal_order ks) (entries_in ks p)))" for x
  proof -
    from that obtain a where a: "a \<in> set (entries_in ks p)" "prefix a x" by (auto dest: removal_below)
    then have "strict_prefix p a" by (auto simp: entries_in_def strict_prefix_def prefixeq_butlast) (metis append_butlast_last_id append_self_conv not_Cons_self2)
    then have "strict_prefix p x" using a(2) by (rule prefix_order.less_le_trans)
    then show ?thesis by auto
  qed
  ultimately show ?case by (subst removal_order.simps) (auto simp: sorted_wrt_append)
qed

lemma remove_entry_cases:
  "remove_entry sys p w = (w, Inl OSError) \<or>
   (node_at w p \<noteq> None \<and> remove_entry sys p w = (w\<lparr>nodes := filter (\<lambda>(q, n). q \<noteq> p) (nodes w)\<rparr>, Inr ()))"
  by (simp add: remove_entry_def)

lemma key_node: "q \<noteq> [] \<Longrightarrow> q \<in> set (map fst (nodes w)) \<longleftrightarrow> node_at w q \<noteq> None"
  unfolding keys_dict_find node_at_def by simp

lemma remove_entry_node:
  assumes "remove_entry sys p w = (w', Inr ())" and "p \<noteq> []"
  shows "node_at w' q = (if q = p then None else node_at w q)" "\<And>q. strict_prefix p q \<Longrightarrow> node_at w q = None" "cwd w' = cwd w"
proof -
  from assms(1) have w': "w' = w\<lparr>nodes := filter (\<lambda>(q, n). q \<noteq> p) (nodes w)\<rparr>"
    and no: "\<not> list_ex (\<lambda>q. strict_prefix p q) (map fst (nodes w))" by (auto simp: remove_entry_def split: if_splits)
  show "node_at w' q = (if q = p then None else node_at w q)"
    using assms(2) dict_find_filter [of "\<lambda>q. q \<noteq> p" "nodes w" q] by (auto simp: w' node_at_def)
  show "cwd w' = cwd w" by (simp add: w')
  fix q assume q: "strict_prefix p q"
  with no have "q \<notin> set (map fst (nodes w))" by (auto simp: list_ex_iff)
  moreover have "q \<noteq> []" using q by auto
  ultimately show "node_at w q = None" using key_node by blast
qed

lemma fs_ok_remove_entry:
  assumes "fs_ok w" and "remove_entry sys p w = (w', Inr ())" and "p \<noteq> []"
  shows "fs_ok w'"
proof -
  note at = remove_entry_node [OF assms(2,3)]
  have find: "dict_find (nodes w') q = (if q = p then None else dict_find (nodes w) q)" for q
    using assms(2) dict_find_filter [of "\<lambda>q. q \<noteq> p" "nodes w" q] by (auto simp: remove_entry_def split: if_splits)
  have "dict_ok (nodes w')"
    using assms(1,2) by (auto simp: remove_entry_def fs_ok_def dict_ok_def distinct_map_filter split: if_splits)
  moreover have "node_at w' (butlast q) = Some Dir \<and> plain q" if "dict_find (nodes w') q \<noteq> None" for q
  proof -
    have q: "q \<noteq> p" "dict_find (nodes w) q \<noteq> None" using that by (auto simp: find split: if_splits)
    with assms(1) have d: "node_at w (butlast q) = Some Dir \<and> plain q" "q \<noteq> []" by (auto simp: fs_ok_iff)
    have "butlast q \<noteq> p"
    proof
      assume "butlast q = p"
      then have "strict_prefix p q" using d(2) by (metis prefixeq_butlast strict_prefix_def q(1))
      from at(2) [OF this] q(2) d(2) show False by (simp add: node_at_def)
    qed
    with d(1) show ?thesis by (simp add: at(1))
  qed
  moreover have "dict_find (nodes w') [] = None" using assms(1) by (simp add: find fs_ok_iff [of w])
  ultimately show ?thesis unfolding fs_ok_iff [of w'] by blast
qed

text \<open>A sequence of removals keeps what each of them keeps.\<close>

lemma removals_keep:
  assumes "\<And>q w w'. q \<in> set qs \<Longrightarrow> P w \<Longrightarrow> remove_entry sys q w = (w', Inr ()) \<Longrightarrow> P w'"
  shows "act_keeps P (act_each (remove_entry sys) qs)"
proof (rule act_keeps_each)
  fix q assume "q \<in> set qs"
  then show "act_keeps P (remove_entry sys q)"
    using assms remove_entry_cases [of sys q] unfolding act_keeps_def by (metis fst_conv)
qed

lemma rmtree_keeps:
  assumes "\<And>w. P w \<Longrightarrow> fs_ok w" and "plain p"
    and "\<And>q w w'. prefix p q \<Longrightarrow> P w \<Longrightarrow> remove_entry sys q w = (w', Inr ()) \<Longrightarrow> P w'"
  shows "act_keeps P (rmtree sys p)"
  unfolding act_keeps_def
proof (intro allI impI)
  fix w assume w: "P w"
  have "act_keeps P (act_each (remove_entry sys) (removal_order ks p))" for ks
    by (rule removals_keep) (blast intro: assms(3) removal_below)
  then show "P (fst (rmtree sys p w))"
    using w resolve_plain [OF assms(1) [OF w] assms(2)]
    by (auto simp: rmtree_def at_entry_def rmtree_entry_def act_keeps_def)
qed

lemma removals_effect:
  assumes "fs_ok w" and "sorted_wrt (\<lambda>x y. x \<noteq> y \<and> \<not> strict_prefix x y) qs"
    and "\<And>q. q \<in> set qs \<Longrightarrow> q \<noteq> [] \<and> node_at w q \<noteq> None"
    and "\<And>q r. q \<in> set qs \<Longrightarrow> prefix q r \<Longrightarrow> node_at w r \<noteq> None \<Longrightarrow> r \<in> set qs"
    and "act_each (remove_entry sys) qs w = (w', r)"
  shows "(r = Inr () \<and> (\<forall>q \<in> set qs. node_at w' q = None)) \<or>
    (r = Inl OSError \<and> (\<exists>q \<in> set qs. refuse_remove sys q \<and> node_at w' q \<noteq> None))"
  using assms
proof (induction qs arbitrary: w)
  case Nil
  then show ?case by (simp add: act_simps)
next
  case (Cons p qs)
  have p: "p \<noteq> []" "node_at w p \<noteq> None" using Cons.prems(3) by auto
  have "node_at w q = None" if "strict_prefix p q" for q
    using Cons.prems(2) Cons.prems(4) [of p q] that by (cases "node_at w q") (auto simp: strict_prefix_def)
  then have none: "\<not> list_ex (\<lambda>q. strict_prefix p q) (map fst (nodes w))"
    using key_node [of _ w] unfolding list_ex_iff by (metis prefix_bot.not_less_bot)
  show ?case
  proof (cases "refuse_remove sys p")
    case True
    then have "remove_entry sys p w = (w, Inl OSError)" by (simp add: remove_entry_def)
    with Cons.prems(5) True p show ?thesis by (auto simp: act_simps)
  next
    case False
    obtain w1 where w1: "remove_entry sys p w = (w1, Inr ())" using False none p by (simp add: remove_entry_def)
    note at = remove_entry_node [OF w1 p(1)]
    have run: "act_each (remove_entry sys) qs w1 = (w', r)" using Cons.prems(5) w1 by (simp add: act_simps)
    have "r = Inr () \<and> (\<forall>q \<in> set qs. node_at w' q = None) \<or>
      r = Inl OSError \<and> (\<exists>q \<in> set qs. refuse_remove sys q \<and> node_at w' q \<noteq> None)"
    proof (rule Cons.IH [OF fs_ok_remove_entry [OF Cons.prems(1) w1 p(1)] _ _ _ run])
      show "sorted_wrt (\<lambda>x y. x \<noteq> y \<and> \<not> strict_prefix x y) qs" using Cons.prems(2) by simp
      show "q \<noteq> [] \<and> node_at w1 q \<noteq> None" if "q \<in> set qs" for q
        using Cons.prems(2) Cons.prems(3) [of q] that by (auto simp: at(1))
      show "r \<in> set qs" if "q \<in> set qs" "prefix q r" "node_at w1 r \<noteq> None" for q r
        using Cons.prems(4) [of q r] that by (auto simp: at(1) split: if_splits)
    qed
    moreover have "node_at w' p = None"
    proof -
      have "act_keeps (\<lambda>s. node_at s p = None) (act_each (remove_entry sys) qs)"
      proof (rule removals_keep)
        fix q s s' assume "q \<in> set qs" "node_at s p = None" "remove_entry sys q s = (s', Inr ())"
        moreover have "q \<noteq> []" using Cons.prems(3) [of q] \<open>q \<in> set qs\<close> by simp
        ultimately show "node_at s' p = None" using remove_entry_node(1) [of sys q s s' p] by simp
      qed
      from act_keepsD [OF this, of w1] show ?thesis by (simp add: run at(1))
    qed
    ultimately show ?thesis by auto
  qed
qed

text \<open>
  The removal of a directory removes everything below it, or raises because an entry there is
  refused.
\<close>

lemma rmtree_effect:
  assumes "fs_ok w" and "plain p" and "p \<noteq> []" and "node_at w p = Some Dir" and "permutes_keys (listing sys)"
    and "rmtree sys p w = (w', r)"
  shows "(r = Inr () \<and> (\<forall>q. prefix p q \<longrightarrow> node_at w' q = None)) \<or>
    (r = Inl OSError \<and> (\<exists>q. prefix p q \<and> refuse_remove sys q \<and> node_at w' q \<noteq> None))"
proof -
  let ?ks = "listing sys (map fst (nodes w))"
  have ks: "q \<in> set ?ks \<longleftrightarrow> q \<noteq> [] \<and> node_at w q \<noteq> None" for q
    unfolding permutes_keys_set [OF assms(5)] using assms(1) key_node [of q w] by (cases "q = []") (simp_all add: fs_ok_def)
  have "distinct ?ks" using assms(1) by (simp add: permutes_keys_distinct [OF assms(5)] fs_ok_def dict_ok_def)
  note order = removal_bottom_up [OF this]
  have mem: "q \<in> set (removal_order ?ks p) \<longleftrightarrow> prefix p q \<and> node_at w q \<noteq> None" for q
  proof
    assume q: "prefix p q \<and> node_at w q \<noteq> None"
    have "r \<in> set ?ks" if "prefix p r" "prefix r q" "r \<noteq> p" for r
      using fs_ok_absent [OF assms(1) _ that(2)] q that by (auto simp: ks)
    with q show "q \<in> set (removal_order ?ks p)" by (intro removal_complete) auto
  next
    assume q: "q \<in> set (removal_order ?ks p)"
    from removal_within [OF q] removal_below [OF q] assms(4) show "prefix p q \<and> node_at w q \<noteq> None" by (auto simp: ks)
  qed
  have run: "act_each (remove_entry sys) (removal_order ?ks p) w = (w', r)"
    using assms(6) operations_plain(4) [OF assms(1,2,4)] assms(4) by (simp add: rmtree_entry_def)
  have "(r = Inr () \<and> (\<forall>q \<in> set (removal_order ?ks p). node_at w' q = None)) \<or>
    (r = Inl OSError \<and> (\<exists>q \<in> set (removal_order ?ks p). refuse_remove sys q \<and> node_at w' q \<noteq> None))"
  proof (rule removals_effect [OF assms(1) order _ _ run])
    show "q \<noteq> [] \<and> node_at w q \<noteq> None" if "q \<in> set (removal_order ?ks p)" for q using that assms(3) by (auto simp: mem)
    show "q' \<in> set (removal_order ?ks p)" if "q \<in> set (removal_order ?ks p)" "prefix q q'" "node_at w q' \<noteq> None" for q q'
      using that by (auto simp: mem dest: prefix_order.trans)
  qed
  moreover have "node_at w' q = None" if "node_at w q = None" for q
  proof -
    have "act_keeps (\<lambda>s. fs_ok s \<and> node_at s q = None) (rmtree sys p)"
    proof (rule rmtree_keeps [OF _ assms(2)])
      fix q' s s' assume *: "prefix p q'" "fs_ok s \<and> node_at s q = None" "remove_entry sys q' s = (s', Inr ())"
      have "q' \<noteq> []" using *(1) assms(3) by auto
      with * show "fs_ok s' \<and> node_at s' q = None"
        using fs_ok_remove_entry [of s sys q' s'] remove_entry_node(1) [of sys q' s s' q] by simp
    qed simp
    from act_keepsD [OF this, of w] show ?thesis using assms(1,6) that by simp
  qed
  ultimately show ?thesis by (auto simp: mem)
qed

end
