(* ===== verification/Py_Strings.thy ===== *)
theory Py_Strings
  imports Py_Prelude
begin

text \<open>
  More methods of Python's strings, for ASCII text: \<open>upper\<close> and \<open>lower\<close>, \<open>replace\<close>, \<open>split\<close> at blanks, \<open>int\<close> of
  a string, and the split at the last occurrence of a character that a greedy \<open>.*\<close> makes.
\<close>

section \<open>Case\<close>

definition upper_char :: "char \<Rightarrow> char" where
  "upper_char c = (if 97 \<le> (of_char c :: nat) \<and> (of_char c :: nat) \<le> 122 then char_of (of_char c - 32 :: nat) else c)"

definition lower_char :: "char \<Rightarrow> char" where
  "lower_char c = (if 65 \<le> (of_char c :: nat) \<and> (of_char c :: nat) \<le> 90 then char_of (of_char c + 32 :: nat) else c)"

definition str_lower :: "string \<Rightarrow> string" where
  "str_lower s = map lower_char s"

section \<open>\<open>replace\<close>\<close>

text \<open>\<open>s.replace(old, new)\<close> for a text \<open>old\<close> that is not empty.\<close>

function str_replace :: "string \<Rightarrow> string \<Rightarrow> string \<Rightarrow> string" where
  "str_replace old new [] = []"
| "str_replace old new (c # cs) =
     (if old \<noteq> [] \<and> str_startswith (c # cs) old then new @ str_replace old new (drop (length old) (c # cs))
      else c # str_replace old new cs)"
  by pat_completeness auto
termination
  by (relation "measure (\<lambda>(old, new, s). length s)") (auto simp: neq_Nil_conv)

lemma startswith_iff: "str_startswith s p \<longleftrightarrow> (\<exists>t. s = p @ t)"
  by (metis append_eq_conv_conj str_startswith_def)

lemma str_replace_absent: "\<not> is_substring old s \<Longrightarrow> str_replace old new s = s"
  by (induction s) auto

lemma str_replace_prefix: "old \<noteq> [] \<Longrightarrow> str_replace old new (old @ s) = new @ str_replace old new s"
  by (cases old) (simp_all add: str_startswith_def)

text \<open>The first occurrence of \<open>old\<close>, if no occurrence starts earlier.\<close>

lemma str_replace_skip:
  assumes "old \<noteq> []" and "\<And>i. i < length s \<Longrightarrow> \<not> str_startswith (drop i (s @ t)) old"
  shows "str_replace old new (s @ t) = s @ str_replace old new t"
  using assms(2)
proof (induction s)
  case (Cons c s)
  have "\<not> str_startswith (c # s @ t) old" using Cons.prems [of 0] by simp
  moreover have "str_replace old new (s @ t) = s @ str_replace old new t"
  proof (rule Cons.IH)
    fix i
    assume "i < length s"
    then show "\<not> str_startswith (drop i (s @ t)) old" using Cons.prems [of "Suc i"] by simp
  qed
  ultimately show ?case by simp
qed simp

section \<open>Words\<close>

text \<open>\<open>s.split()\<close>\<close>

function str_words :: "string \<Rightarrow> string list" where
  "str_words s =
     (case dropWhile is_space s of
        [] \<Rightarrow> []
      | c # t \<Rightarrow> (c # takeWhile (\<lambda>x. \<not> is_space x) t) # str_words (dropWhile (\<lambda>x. \<not> is_space x) t))"
  by pat_completeness auto
termination
proof (relation "measure length")
  fix s :: string and c t
  assume "dropWhile is_space s = c # t"
  then have "length (c # t) \<le> length s" by (metis length_dropWhile_le)
  then show "(dropWhile (\<lambda>x. \<not> is_space x) t, s) \<in> measure length"
    using length_dropWhile_le [of "\<lambda>x. \<not> is_space x" t] by simp
qed simp

declare str_words.simps [simp del]

definition is_word :: "string \<Rightarrow> bool" where
  "is_word w \<longleftrightarrow> w \<noteq> [] \<and> list_all (\<lambda>c. \<not> is_space c) w"

lemma str_words_Nil [simp]: "str_words [] = []"
  by (simp add: str_words.simps)

lemma str_words_blank: "str_words (CHR '' '' # s) = str_words s"
  by (simp add: str_words.simps [of "CHR '' '' # s"] str_words.simps [of s] is_space_def)

lemma str_words_word:
  assumes "is_word w" and "s = [] \<or> is_space (hd s)"
  shows "str_words (w @ s) = w # str_words s"
proof -
  obtain c t where w: "w = c # t" "\<not> is_space c" "list_all (\<lambda>c. \<not> is_space c) t"
    using assms(1) by (cases w) (auto simp: is_word_def)
  have "takeWhile (\<lambda>x. \<not> is_space x) (t @ s) = t" "dropWhile (\<lambda>x. \<not> is_space x) (t @ s) = s"
    using w(3) assms(2) by (induction t) (cases s; simp)+
  then show ?thesis using w(1,2) by (simp add: str_words.simps [of "c # t @ s"])
qed

lemma str_words_join: "list_all is_word ws \<Longrightarrow> str_words (str_join '' '' ws) = ws"
proof (induction "'' '' :: string" ws rule: str_join.induct)
  case (2 w)
  then show ?case using str_words_word [of w "[]"] by simp
next
  case (3 w v ws)
  then show ?case using str_words_word [of w "CHR '' '' # str_join '' '' (v # ws)"]
    by (simp add: is_space_def str_words_blank)
qed simp

section \<open>Integers\<close>

text \<open>\<open>int(s)\<close>: blanks, a sign and digits; underscores between digits are not modelled.\<close>

definition py_int :: "string \<Rightarrow> int res" where
  "py_int s =
     (let t = str_strip s; neg = str_startswith t ''-'';
          d = (if neg \<or> str_startswith t ''+'' then tl t else t)
      in if d \<noteq> [] \<and> list_all is_digit d then Inr (if neg then - int (dec_val d) else int (dec_val d))
         else Inl (ValueError ''invalid literal for int() with base 10''))"

section \<open>Floats\<close>

text \<open>
  \<open>float(s)\<close>: blanks, a sign, digits with at most one point, and an exponent.  The value is
  exact; underscores and the names of the infinities and of \<open>nan\<close> are not modelled.
\<close>

definition float_mantissa :: "string \<Rightarrow> (rat \<times> string) option" where
  "float_mantissa s =
     (let i = takeWhile is_digit s; r = dropWhile is_digit s;
          f = (if str_startswith r ''.'' then takeWhile is_digit (tl r) else []);
          rest = (if str_startswith r ''.'' then dropWhile is_digit (tl r) else r)
      in if i = [] \<and> f = [] then None
         else Some (of_nat (dec_val (i @ f)) / 10 ^ length f, rest))"

definition float_exponent :: "string \<Rightarrow> rat option" where
  "float_exponent s =
     (if s = [] then Some 1
      else if hd s = CHR ''e'' \<or> hd s = CHR ''E''
      then (case py_int (tl s) of Inl e \<Rightarrow> None
            | Inr n \<Rightarrow> if list_ex is_space s then None
                       else Some (if 0 \<le> n then 10 ^ nat n else 1 / 10 ^ nat (- n)))
      else None)"

definition py_float :: "string \<Rightarrow> rat res" where
  "py_float s =
     (let t = str_strip s; neg = str_startswith t ''-'';
          d = (if neg \<or> str_startswith t ''+'' then tl t else t)
      in case float_mantissa d of None \<Rightarrow> Inl (ValueError ''could not convert string to float'')
         | Some (m, r) \<Rightarrow>
             (case float_exponent r of None \<Rightarrow> Inl (ValueError ''could not convert string to float'')
              | Some x \<Rightarrow> Inr (if neg then - (m * x) else m * x)))"

text \<open>\<open>"%.2f" % x\<close>: two digits after the point, ties to the even digit.\<close>

definition round_even :: "rat \<Rightarrow> int" where
  "round_even x =
     (let n = \<lfloor>x\<rfloor>; d = x - of_int n
      in if d < 1 / 2 \<or> d = 1 / 2 \<and> even n then n else n + 1)"

definition fixed2 :: "rat \<Rightarrow> string" where
  "fixed2 x =
     (let n = nat (round_even (\<bar>x\<bar> * 100))
      in (if x < 0 then ''-'' else []) @ str_nat (n div 100) @ ''.'' @
         [digit_char (n mod 100 div 10), digit_char (n mod 10)])"

lemma round_even_close: "\<bar>of_int (round_even x) - x\<bar> \<le> 1 / 2"
proof -
  define n where "n = \<lfloor>x\<rfloor>"
  have n: "of_int n \<le> x" "x < of_int n + 1" by (simp_all add: n_def) linarith
  show ?thesis
  proof (cases "x - of_int n < 1 / 2 \<or> x - of_int n = 1 / 2 \<and> even n")
    case True
    then have "round_even x = n" by (simp add: round_even_def Let_def n_def)
    with True n show ?thesis by auto
  next
    case False
    then have "round_even x = n + 1" by (simp add: round_even_def Let_def n_def)
    with False n show ?thesis by (auto simp: abs_if)
  qed
qed

lemma py_float_nat: "py_float (str_nat n) = Inr (of_nat n)"
proof -
  have d: "list_all is_digit (str_nat n)" using str_nat_digits by (simp add: list_all_iff)
  obtain c cs where s: "str_nat n = c # cs" by (cases "str_nat n") auto
  from d s have c: "is_digit c" "is_digit (last (str_nat n))" by (auto simp: list_all_iff)
  have sp: "\<not> is_space x" "x \<noteq> CHR ''-''" "x \<noteq> CHR ''+''" if "is_digit x" for x
    using that by (auto simp: is_digit_def is_space_def)
  have "dropWhile is_space (rev (str_nat n)) = rev (str_nat n)"
    using sp(1) [OF c(2)] by (simp add: dropWhile_eq_self_iff hd_rev)
  moreover have "dropWhile is_space (str_nat n) = str_nat n"
    using sp(1) [OF c(1)] s by simp
  ultimately have "str_strip (str_nat n) = str_nat n" by (simp add: str_strip_def str_strip_chars_def)
  moreover have "takeWhile is_digit (str_nat n) = str_nat n" "dropWhile is_digit (str_nat n) = []"
    using d by (auto simp: list_all_iff)
  ultimately show ?thesis using s sp(2,3) [OF c(1)] dec_val_str_nat [of n]
    by (simp add: py_float_def float_mantissa_def float_exponent_def str_startswith_def)
qed

section \<open>The last occurrence of a character\<close>

text \<open>What is before and after the last occurrence.\<close>

definition split_last :: "char \<Rightarrow> string \<Rightarrow> (string \<times> string) option" where
  "split_last c s =
     (if c \<in> set s
      then Some (rev (tl (dropWhile (\<lambda>x. x \<noteq> c) (rev s))), rev (takeWhile (\<lambda>x. x \<noteq> c) (rev s)))
      else None)"

lemma split_last_append: "c \<notin> set v \<Longrightarrow> split_last c (u @ c # v) = Some (u, v)"
proof -
  assume v: "c \<notin> set v"
  have "takeWhile (\<lambda>x. x \<noteq> c) (rev v @ c # rev u) = rev v" "dropWhile (\<lambda>x. x \<noteq> c) (rev v @ c # rev u) = c # rev u"
    using v by (auto simp: takeWhile_append2 dropWhile_append2 takeWhile_append dropWhile_append)
  then show ?thesis by (simp add: split_last_def)
qed

lemma split_last_Some: "split_last c s = Some (u, v) \<Longrightarrow> s = u @ c # v \<and> c \<notin> set v"
proof -
  assume a: "split_last c s = Some (u, v)"
  then have "c \<in> set s" by (simp add: split_last_def split: if_splits)
  then obtain x y where "s = x @ c # y" "c \<notin> set y" by (meson split_list_last)
  then show ?thesis using a split_last_append [of c y x] by simp
qed

lemma split_last_None: "split_last c s = None \<longleftrightarrow> c \<notin> set s"
  by (simp add: split_last_def)

end
