(* ===== verification/Create_Module.thy ===== *)
theory Create_Module
  imports Module_Templates File_System Py_Strings
begin

text \<open>
  \<open>src/utils/create-module.py\<close>: the generator of module scaffolds.  The operations are actions
  on the file system of \<open>File_System\<close>; an exception inside \<open>make_module\<close> is caught there and
  the module directory is removed again, which may raise in its turn.

  The texts of \<open>argparse\<close> (usage line) and of exceptions are arguments in the record \<open>script\<close>.
  Strings are over the characters up to 255; \<open>\w\<close> is read as the ASCII word characters.
\<close>

section \<open>String operations\<close>

fun capitalize :: "string \<Rightarrow> string" where
  "capitalize [] = []"
| "capitalize (c # cs) = upper_char c # map lower_char cs"

definition guard_name :: "string \<Rightarrow> string" where
  "guard_name modname = map upper_char (map (\<lambda>c. if c = CHR ''-'' then CHR ''_'' else c) modname)"

text \<open>\<open>repr\<close> of a string whose only special character may be a line feed.\<close>

definition repr_str :: "string \<Rightarrow> string" where
  "repr_str s = [CHR 0x27] @ concat (map (\<lambda>c. if c = CHR 0x0A then [CHR 0x5C, CHR ''n''] else [c]) s) @ [CHR 0x27]"

section \<open>Files of a module\<close>

definition create_file :: "os \<Rightarrow> path \<Rightarrow> string \<Rightarrow> (string, string) dict \<Rightarrow> (world, unit) act" where
  "create_file sys artifact_path template kwargs =
     act_then (open_wt sys artifact_path)
       (act_bind (act_lift (str_format template kwargs)) (write_open sys artifact_path))"

definition make_cmakelists :: "os \<Rightarrow> path \<Rightarrow> string \<Rightarrow> (world, bool) act" where
  "make_cmakelists sys moduledir modname =
     act_then (create_file sys (moduledir @ [''CMakeLists.txt'']) cmakelists_template [(''MODULE'', modname)])
       (act_ret True)"

definition make_model :: "os \<Rightarrow> path \<Rightarrow> string \<Rightarrow> (world, bool) act" where
  "make_model sys moduledir modname =
     (let modelpath = moduledir @ [''model'']; guard = guard_name modname @ ''_H''
      in act_then (mkdir_parents sys modelpath)
        (act_then (create_file sys (modelpath @ [with_suffix modname ''.cc'']) model_cc_template [(''MODULE'', modname)])
        (act_then (create_file sys (modelpath @ [with_suffix modname ''.h'']) model_h_template
                     [(''MODULE'', modname), (''INCLUDE_GUARD'', guard)])
          (act_ret True))))"

definition capitalized :: "string \<Rightarrow> string" where
  "capitalized modname = concat (map capitalize (str_split (CHR ''-'') modname))"

definition compound :: "string \<Rightarrow> string" where
  "compound modname =
     (case str_split (CHR ''-'') modname of [] \<Rightarrow> [] | word # words \<Rightarrow> word @ concat (map capitalize words))"

definition make_test :: "os \<Rightarrow> path \<Rightarrow> string \<Rightarrow> (world, bool) act" where
  "make_test sys moduledir modname =
     (let testpath = moduledir @ [''test'']
      in act_then (mkdir_parents sys testpath)
        (act_then (create_file sys (testpath @ [with_suffix (modname @ ''-test-suite'') ''.cc'']) test_cc_template
                     [(''MODULE'', modname), (''CAPITALIZED'', capitalized modname), (''COMPOUND'', compound modname)])
          (act_ret True)))"

definition make_helper :: "os \<Rightarrow> path \<Rightarrow> string \<Rightarrow> (world, bool) act" where
  "make_helper sys moduledir modname =
     (let helperpath = moduledir @ [''helper'']; guard = guard_name modname @ ''_HELPER_H''
      in act_then (mkdir_parents sys helperpath)
        (act_then (create_file sys (helperpath @ [with_suffix (modname @ ''-helper'') ''.cc'']) helper_cc_template
                     [(''MODULE'', modname)])
        (act_then (create_file sys (helperpath @ [with_suffix (modname @ ''-helper'') ''.h'']) helper_h_template
                     [(''MODULE'', modname), (''INCLUDE_GUARD'', guard)])
          (act_ret True))))"

definition make_examples :: "os \<Rightarrow> path \<Rightarrow> string \<Rightarrow> (world, bool) act" where
  "make_examples sys moduledir modname =
     (let examplespath = moduledir @ [''examples'']
      in act_then (mkdir_parents sys examplespath)
        (act_then (create_file sys (examplespath @ [''CMakeLists.txt'']) examples_cmakelists_template
                     [(''MODULE'', modname)])
        (act_then (create_file sys (examplespath @ [with_suffix (modname @ ''-example'') ''.cc'']) example_cc_template
                     [(''MODULE'', modname)])
          (act_ret True))))"

definition make_doc :: "os \<Rightarrow> path \<Rightarrow> string \<Rightarrow> (world, bool) act" where
  "make_doc sys moduledir modname =
     (let docpath = moduledir @ [''doc'']
      in act_then (mkdir_parents sys docpath)
        (act_bind (act_read (\<lambda>w. Inr (relpath moduledir (cwd w)))) (\<lambda>mod_relpath.
         act_then (create_file sys (docpath @ [modname @ ''.rst'']) doc_rst_template
                     [(''MODULE'', modname), (''MODULE_DIR'', mod_relpath)])
          (act_ret True))))"

definition artifact_makers :: "(os \<Rightarrow> path \<Rightarrow> string \<Rightarrow> (world, bool) act) list" where
  "artifact_makers = [make_cmakelists, make_model, make_test, make_helper, make_examples, make_doc]"

section \<open>make\_module\<close>

record script =
  usage :: string
  prog :: string
  exc_text :: "py_error \<Rightarrow> string"

definition make_module :: "script \<Rightarrow> os \<Rightarrow> path \<times> string \<Rightarrow> (world, bool) act" where
  "make_module sc sys pm =
     (case pm of (modpath, modname) \<Rightarrow>
      let modulepath = modpath @ [modname]
      in act_bind (act_read (\<lambda>w. Inr (path_exists modulepath w))) (\<lambda>ex.
         if ex
         then act_then (print_err (''Module '' @ repr_str modname @ '' already exists'')) (act_ret False)
         else act_then (print (''Creating module '' @ path_str modulepath))
           (act_catch
             (act_then (mkdir_parents sys modulepath)
               (act_bind (act_all (\<lambda>func. func sys modulepath modname) artifact_makers) (\<lambda>success.
                if \<not> success then act_fail (ValueError ''Generating module artifacts failed'')
                else act_ret True)))
             (\<lambda>e. act_bind (act_read (\<lambda>w. Inr (path_exists modulepath w))) (\<lambda>ex.
                act_then (act_when ex (rmtree sys modulepath))
               (act_then (print_err (''Creating module '' @ repr_str modname @ '' failed: '' @ exc_text sc e))
                         (act_ret False)))))))"

section \<open>main\<close>

definition is_word_char :: "char \<Rightarrow> bool" where
  "is_word_char c \<longleftrightarrow> (let n = of_char c :: nat in
     48 \<le> n \<and> n \<le> 57 \<or> 65 \<le> n \<and> n \<le> 90 \<or> 97 \<le> n \<and> n \<le> 122 \<or> c = CHR ''_'')"

text \<open>\<open>^(\w|-)+$\<close>: the dollar also matches before a line feed at the end.\<close>

definition allowed_name :: "string \<Rightarrow> bool" where
  "allowed_name s \<longleftrightarrow>
     (let t = (if s \<noteq> [] \<and> last s = CHR 0x0A then butlast s else s)
      in t \<noteq> [] \<and> list_all (\<lambda>c. is_word_char c \<or> c = CHR ''-'') t)"

definition parser_error :: "script \<Rightarrow> string \<Rightarrow> (world, 'a) act" where
  "parser_error sc msg = act_then (print_err (usage sc @ prog sc @ '': error: '' @ msg)) (act_fail (SystemExit 2))"

text \<open>
  The parts of the project path.  A path that starts with exactly two separators has the root
  \<open>//\<close>, and \<open>relative_to('/')\<close> raises.
\<close>

definition project_parts :: "string \<Rightarrow> string list res" where
  "project_parts project =
     (if str_startswith project ''//'' \<and> \<not> str_startswith project ''///''
      then Inl (ValueError []) else Inr (path_parts project))"

definition check_dirs :: "script \<Rightarrow> path \<Rightarrow> (world, unit) act" where
  "check_dirs sc p =
     act_bind (act_read (\<lambda>w. Inr (is_dir p w))) (\<lambda>d.
     if d then act_ret ()
     else parser_error sc (''Cannot find the directory '' @ [CHR 0x27] @ path_str p @ [CHR 0x27] @ ''.'' @ [CHR 0x0A] @
       ''Please run this script from the top level of the ns3 directory''))"

definition check_project :: "script \<Rightarrow> string \<Rightarrow> (world, string list) act" where
  "check_project sc project =
     (if project = [] then act_ret []
      else act_bind (act_lift (project_parts project)) (\<lambda>parts.
        if list_all allowed_name parts then act_ret parts
        else parser_error sc ''Project path may only contain the characters [a-zA-Z0-9_-].''))"

text \<open>One round of the loop over the names; \<open>None\<close> is \<open>continue\<close>.\<close>

definition module_target ::
  "script \<Rightarrow> path \<Rightarrow> string \<Rightarrow> string list \<Rightarrow> string \<Rightarrow> (world, (path \<times> string) option) act" where
  "module_target sc base project project_path arg =
     (let name = str_strip_chars (\<lambda>c. c = CHR ''/'') arg; parts = path_parts name in
      if name = [] then act_ret None
      else if 2 < length parts
      then act_then (print (''Skipping '' @ name @ '': module name can not be a path'')) (act_ret None)
      else act_bind (act_lift (py_index parts 0)) (\<lambda>first.
        act_bind
          (if first = ''src''
           then (if project \<noteq> []
                 then parser_error sc (name @ '': Cannot specify src/ in a module name when --project option is used'')
                 else act_ret (base @ [''src''], tl parts))
           else if first = ''contrib'' then act_ret (base @ [''contrib''], tl parts)
           else act_ret (base @ [''contrib''], parts)) (\<lambda>(modpath, name_path).
        let modpath = (if project \<noteq> [] then base @ [''contrib''] @ project_path else modpath) in
        act_bind (act_lift (py_index name_path 0)) (\<lambda>modname.
        if \<not> allowed_name modname
        then act_then (print (''Skipping '' @ modname @ '': module name may only contain the characters [a-zA-Z0-9_-]''))
               (act_ret None)
        else act_ret (Some (modpath, modname))))))"

definition report_created :: "(world, unit) act" where
  "report_created =
     act_then (print [])
    (act_then (print ''Successfully created new modules'')
              (print (''Run '' @ [CHR 0x27] @ ''./ns3 configure'' @ [CHR 0x27] @ '' to include them in the build'')))"

text \<open>The second part of \<open>main\<close>, from the check of the project path on.\<close>

definition create_modules :: "script \<Rightarrow> os \<Rightarrow> string \<Rightarrow> string list \<Rightarrow> path \<Rightarrow> (world, int) act" where
  "create_modules sc sys project modnames base =
     act_bind (check_project sc project) (\<lambda>project_path.
     act_bind (act_map (module_target sc base project project_path) modnames) (\<lambda>targets.
     act_bind (act_all (make_module sc sys) (map the (filter (\<lambda>t. t \<noteq> None) targets))) (\<lambda>success.
     act_then (act_when success report_created) (act_ret 0))))"

definition main :: "script \<Rightarrow> os \<Rightarrow> string \<Rightarrow> string list \<Rightarrow> (world, int) act" where
  "main sc sys project modnames =
     act_bind (act_read (\<lambda>w. Inr (cwd w))) (\<lambda>base.
     act_then (check_dirs sc (base @ [''src'']))
    (act_then (check_dirs sc (base @ [''contrib'']))
              (create_modules sc sys project modnames base)))"

text \<open>The script itself: the exit status.\<close>

definition run_script :: "script \<Rightarrow> os \<Rightarrow> string \<Rightarrow> string list \<Rightarrow> (world, int) act" where
  "run_script sc sys project modnames =
     act_catch (main sc sys project modnames)
       (\<lambda>e. act_then (print_err (''Exception: '' @ [CHR 0x27] @ exc_text sc e @ [CHR 0x27])) (act_ret 1))"

end
