(* ===== verification/Module_Scope.thy ===== *)
theory Module_Scope
  imports Create_Module
begin

text \<open>
  What the module generator leaves alone.

  The locale \<open>guarded_tree\<close> states what a property of the file system has to withstand: output,
  and the creation and removal of entries in a part of the tree.  Inside it the operations of
  the generator are shown to keep the property.  It is interpreted twice: for the part below
  one module directory (which gives the clean-up after a failure) and for the part below \<open>src\<close>
  and \<open>contrib\<close> (which gives the confinement of the whole program).
\<close>

section \<open>Making directories\<close>

lemma mkdir_up_keeps:
  assumes "\<And>s. Q s \<Longrightarrow> fs_ok s" and "plain (rev up)"
    and "\<And>q s. prefix q (rev up) \<Longrightarrow> q \<noteq> [] \<Longrightarrow> Q s \<Longrightarrow> node_at s q = None \<Longrightarrow>
      node_at s (butlast q) = Some Dir \<Longrightarrow> Q (set_node q Dir s)"
  shows "act_keeps Q (mkdir_up sys up exist_ok)"
  using assms(2,3)
proof (induction up arbitrary: exist_ok)
  case (Cons c up)
  have mk: "act_keeps Q (mkdir_one sys (rev (c # up)) b)" for b
    unfolding act_keeps_def
  proof (intro allI impI)
    fix s assume s: "Q s"
    note os = operations_plain(1) [OF assms(1) [OF s] Cons.prems(1), of sys]
    show "Q (fst (mkdir_one sys (rev (c # up)) b s))"
      using s Cons.prems(2) [of "rev up @ [c]" s] os by (auto simp: mkdir_one_def mkdir_entry_def)
  qed
  have below: "prefix q (rev (c # up))" if "prefix q (rev up)" for q
    using that by (simp add: prefix_append)
  have "act_keeps Q (mkdir_up sys up True)"
    using Cons.prems(1) by (intro Cons.IH) (auto intro: Cons.prems(2) below)
  then have "act_keeps Q (act_then (mkdir_up sys up True) (mkdir_one sys (rev (c # up)) exist_ok))"
    using mk by (rule act_keeps_then)
  then show ?case using mk by (simp add: act_keeps_def)
qed (simp add: keeps_intros)

text \<open>The names of the generated files are never \<open>..\<close>.\<close>

lemma artifact_not_up [simp]:
  "x @ ''.rst'' \<noteq> ''..''" "with_suffix n ''.cc'' \<noteq> ''..''" "with_suffix n ''.h'' \<noteq> ''..''"
proof -
  have l: "t @ suf \<noteq> ''..''" if "suf \<noteq> []" "last suf \<noteq> CHR ''.''" for t suf :: string
  proof
    assume "t @ suf = ''..''"
    then have "last (t @ suf) = CHR ''.''" by simp
    with that show False by simp
  qed
  show "x @ ''.rst'' \<noteq> ''..''" by (rule l) simp_all
  have "with_suffix n suf = take (length n - length (rev (takeWhile (\<lambda>c. c \<noteq> CHR ''.'') (rev n))) - 1) n @ suf \<or> with_suffix n suf = n @ suf"
    for suf by (simp add: with_suffix_def Let_def)
  then have w: "with_suffix n suf \<noteq> ''..''" if "suf \<noteq> []" "last suf \<noteq> CHR ''.''" for suf using l [OF that] by metis
  show "with_suffix n ''.cc'' \<noteq> ''..''" "with_suffix n ''.h'' \<noteq> ''..''" by (rule w; simp)+
qed

section \<open>A guarded part of the tree\<close>

locale guarded_tree =
  fixes P :: "world \<Rightarrow> bool" and scope :: "path \<Rightarrow> bool"
  assumes keeps_stdout: "P w \<Longrightarrow> P (w\<lparr>stdout := s\<rparr>)"
    and keeps_stderr: "P w \<Longrightarrow> P (w\<lparr>stderr := s\<rparr>)"
    and keeps_mkdir: "scope p \<Longrightarrow> act_keeps P (mkdir_parents sys p)"
    and keeps_open: "scope p \<Longrightarrow> c \<noteq> ''..'' \<Longrightarrow> act_keeps P (open_wt sys (p @ [c]))"
    and keeps_write: "scope p \<Longrightarrow> c \<noteq> ''..'' \<Longrightarrow> act_keeps P (write_open sys (p @ [c]) t)"
    and keeps_rmtree: "scope p \<Longrightarrow> act_keeps P (rmtree sys p)"
    and scope_below: "scope p \<Longrightarrow> plain q \<Longrightarrow> scope (p @ q)"
begin

lemma keeps_print: "act_keeps P (print s)" "act_keeps P (print_err s)"
  by (simp_all add: print_def print_err_def act_keeps_upd keeps_stdout keeps_stderr)

lemma keeps_create_file: "scope p \<Longrightarrow> c \<noteq> ''..'' \<Longrightarrow> act_keeps P (create_file sys (p @ [c]) template kwargs)"
  by (auto simp: create_file_def intro!: keeps_intros keeps_open keeps_write)

lemma keeps_create_below:
  "scope p \<Longrightarrow> d \<noteq> ''..'' \<Longrightarrow> c \<noteq> ''..'' \<Longrightarrow> act_keeps P (create_file sys (p @ [d, c]) template kwargs)"
  using keeps_create_file [of "p @ [d]" c] scope_below [of p "[d]"] by simp

lemma keeps_makers:
  assumes "scope moduledir" and "f \<in> set artifact_makers"
  shows "act_keeps P (f sys moduledir modname)"
  using assms scope_below [OF assms(1)] unfolding artifact_makers_def
  by (auto simp: make_cmakelists_def make_model_def make_test_def make_helper_def make_examples_def
      make_doc_def Let_def intro!: keeps_intros keeps_create_file keeps_create_below keeps_mkdir)

lemma keeps_make_module:
  assumes "scope (modpath @ [modname])"
  shows "act_keeps P (make_module sc sys (modpath, modname))"
  unfolding make_module_def Let_def prod.case
  by (intro keeps_intros keeps_print keeps_makers keeps_mkdir keeps_rmtree assms)

end

section \<open>Below one module directory\<close>

text \<open>
  Outside the directory \<open>m\<close> the tree is the one of \<open>w0\<close>, except that missing directories on the
  way to \<open>m\<close> may have been made, and \<open>m\<close> itself has not become a file.
\<close>

definition grown :: "path \<Rightarrow> world \<Rightarrow> world \<Rightarrow> bool" where
  "grown m w0 w \<longleftrightarrow> fs_ok w \<and> cwd w = cwd w0 \<and>
     (\<forall>q. \<not> prefix m q \<longrightarrow> node_at w q = node_at w0 q \<or>
        (strict_prefix q m \<and> node_at w0 q = None \<and> node_at w q = Some Dir)) \<and>
     (node_at w m = node_at w0 m \<or> node_at w m = None \<or> node_at w m = Some Dir)"

lemma cwd_set_node [simp]: "cwd (set_node p n w) = cwd w"
  by (simp add: set_node_def)

lemma grown_set_node:
  assumes "grown m w0 w" and "p \<noteq> []" and "node_at w (butlast p) = Some Dir"
    and "node_at w p = Some Dir \<longrightarrow> n = Dir"
    and "strict_prefix m p \<or> (prefix p m \<and> node_at w p = None \<and> n = Dir)" and "plain p"
  shows "grown m w0 (set_node p n w)"
proof -
  have ok: "fs_ok w" using assms(1) by (simp add: grown_def)
  have at: "node_at (set_node p n w) q = (if q = p then Some n else node_at w q)" for q
    using node_at_set_node [OF fs_ok_dict [OF ok] assms(2)] .
  have "node_at w0 p = None" if "\<not> prefix m p"
    using that assms(1,5) unfolding grown_def strict_prefix_def by force
  then show ?thesis
    using assms(1,5) fs_ok_set_node [OF ok assms(2-4,6)] unfolding grown_def at by auto
qed

lemma grown_ok: "grown m w0 w \<Longrightarrow> fs_ok w"
  by (simp add: grown_def)

lemma grown_mkdir: "prefix m p \<Longrightarrow> plain p \<Longrightarrow> act_keeps (grown m w0) (mkdir_parents sys p)"
  unfolding mkdir_parents_def
proof (rule mkdir_up_keeps [OF grown_ok])
  fix q s assume *: "prefix m p" "plain p" "prefix q (rev (rev p))" "q \<noteq> []" "grown m w0 s" "node_at s q = None"
    "node_at s (butlast q) = Some Dir"
  then have "strict_prefix m q \<or> prefix q m"
    using prefix_same_cases [of m p q] by (auto simp: strict_prefix_def)
  with * show "grown m w0 (set_node q Dir s)" by (intro grown_set_node) (auto dest: plain_prefix)
qed simp_all

lemma grown_remove:
  assumes "m \<noteq> []" and "prefix m q" and "grown m w0 w" and "remove_entry sys q w = (w', Inr ())"
  shows "grown m w0 w'"
proof -
  have q: "q \<noteq> []" using assms(1,2) by auto
  have "node_at w' r = node_at w r" if "\<not> prefix m r" for r
    using remove_entry_node(1) [OF assms(4) q, of r] assms(2) that by auto
  moreover have "node_at w' m = node_at w m \<or> node_at w' m = None"
    using remove_entry_node(1) [OF assms(4) q, of m] by auto
  ultimately show ?thesis using
    fs_ok_remove_entry [OF grown_ok [OF assms(3)] assms(4) q] remove_entry_node(3) [OF assms(4) q] assms(3)
    by (auto simp: grown_def)
qed

interpretation module_scope: guarded_tree "grown m w0" "\<lambda>p. m \<noteq> [] \<and> prefix m p \<and> plain p" for m w0
proof (unfold_locales, goal_cases)
  case 3
  then show ?case by (simp add: grown_mkdir)
next
  case (4 p c sys)
  then have p: "strict_prefix m (p @ [c])" "plain (p @ [c])" by (auto simp: strict_prefix_def prefix_def)
  have "grown m w0 (fst (open_wt sys (p @ [c]) w))" if "grown m w0 w" for w
    using p that operations_plain(2) [OF grown_ok [OF that] p(2), of sys] by (auto simp: open_entry_def intro!: grown_set_node)
  then show ?case by (simp add: act_keeps_def)
next
  case (5 p c sys t)
  then have p: "strict_prefix m (p @ [c])" "plain (p @ [c])" by (auto simp: strict_prefix_def prefix_def)
  have "grown m w0 (set_node (p @ [c]) (File t) w)" if "grown m w0 w" "node_at w (p @ [c]) = Some (File u)" for w u
    using p that fs_ok_parent [of w "p @ [c]"] by (intro grown_set_node) (auto simp: grown_def)
  then have "grown m w0 (fst (write_open sys (p @ [c]) t w))" if "grown m w0 w" for w
    using write_plain [OF grown_ok [OF that] p(2), of sys t] that by (auto simp: write_entry_def split: option.splits node.splits)
  then show ?case by (simp add: act_keeps_def)
next
  case (6 p sys)
  show ?case
  proof (rule rmtree_keeps [OF grown_ok])
    fix q w w' assume "prefix p q" "grown m w0 w" "remove_entry sys q w = (w', Inr ())"
    with 6 show "grown m w0 w'" using grown_remove [of m q w0 w sys w'] by (auto dest: prefix_order.trans)
  qed (use 6 in simp_all)
qed (auto simp: grown_def)

section \<open>Failure and clean-up\<close>

text \<open>Nothing the generator does raises \<open>SystemExit\<close>.\<close>

definition plain_error :: "py_error \<Rightarrow> bool" where
  "plain_error e \<longleftrightarrow> (\<forall>c. e \<noteq> SystemExit c)"

lemma fmt_parse_error: "fmt_parse s = Inl e \<Longrightarrow> plain_error e"
proof (induction "length s" arbitrary: s rule: less_induct)
  case less
  have IH: "plain_error e" if "length r < length s" "fmt_parse r = Inl e" for r using less(1) that by blast
  show ?case
  proof (cases s)
    case Nil
    with less(2) show ?thesis by (simp add: fmt_parse.simps [of "[]"])
  next
    case (Cons c cs)
    have tl: "length (tl cs) < length s" "length cs < length s" by (simp_all add: Cons)
    have rest: "length r < length s" if "dropWhile (\<lambda>x. x \<noteq> CHR ''}'') cs = x # r" for x r
      using length_dropWhile_le [of "\<lambda>x. x \<noteq> CHR ''}''" cs] that Cons by simp
    note step = less(2) [unfolded Cons fmt_parse.simps [of "c # cs"]]
    then show ?thesis using IH [OF tl(1)] IH [OF tl(2)] IH [OF rest]
      by (auto simp: res_bind_eq_Inl plain_error_def split: if_splits list.splits)
  qed
qed

lemma str_format_error: "str_format template kwargs = Inl e \<Longrightarrow> plain_error e"
proof -
  assume e: "str_format template kwargs = Inl e"
  have "plain_error e" if "fmt_pieces kwargs ps = Inl e" for ps
  proof -
    have "plain_error e" if "res_fold (\<lambda>p acc. res_bind (fmt_piece kwargs p) (\<lambda>t. Inr (acc @ t))) ps a = Inl e" for a
      using that
    proof (induction ps arbitrary: a)
      case (Cons p ps)
      then show ?case
        by (cases p) (auto simp: dict_get_find res_bind_eq_Inl plain_error_def split: option.splits)
    qed simp
    with that show ?thesis by (simp add: fmt_pieces_def)
  qed
  then show ?thesis using e fmt_parse_error by (auto simp: str_format_def res_bind_eq_Inl)
qed

lemma os_gives:
  "act_gives plain_error (\<lambda>_. True) (os_mkdir sys p)"
  "act_gives plain_error (\<lambda>_. True) (open_wt sys p)"
  "act_gives plain_error (\<lambda>_. True) (write_open sys p t)"
  by (simp_all add: act_gives_def os_mkdir_def open_wt_def write_open_def at_entry_def mkdir_entry_def open_entry_def
      write_entry_def plain_error_def split: option.splits node.splits)

lemma mkdir_one_gives: "act_gives plain_error (\<lambda>_. True) (mkdir_one sys p b)"
  using os_gives(1) [of sys p] by (simp add: act_gives_def mkdir_one_def)

lemma mkdir_up_gives: "act_gives plain_error (\<lambda>_. True) (mkdir_up sys up b)"
proof (induction up arbitrary: b)
  case (Cons c up)
  have "act_gives plain_error (\<lambda>_. True) (act_then (mkdir_up sys up True) (mkdir_one sys (rev (c # up)) b))"
    by (intro gives_intros Cons mkdir_one_gives)
  then show ?case using mkdir_one_gives [of sys "rev (c # up)" b] by (simp add: act_gives_def)
qed (simp add: gives_intros plain_error_def)

lemma mkdir_gives: "act_gives plain_error (\<lambda>_. True) (mkdir_parents sys p)"
  unfolding mkdir_parents_def by (rule mkdir_up_gives)

lemma create_file_gives: "act_gives plain_error (\<lambda>_. True) (create_file sys p template kwargs)"
  unfolding create_file_def
  by (intro gives_intros os_gives) (auto dest: str_format_error)

lemma maker_gives:
  assumes "f \<in> set artifact_makers"
  shows "act_gives plain_error (\<lambda>_. True) (f sys moduledir modname)"
  using assms unfolding artifact_makers_def
  by (auto simp: make_cmakelists_def make_model_def make_test_def make_helper_def make_examples_def
      make_doc_def Let_def intro!: gives_intros create_file_gives mkdir_gives)

text \<open>The body of the \<open>try\<close>.\<close>

definition module_body :: "os \<Rightarrow> path \<Rightarrow> string \<Rightarrow> (world, bool) act" where
  "module_body sys modulepath modname =
     act_then (mkdir_parents sys modulepath)
       (act_bind (act_all (\<lambda>func. func sys modulepath modname) artifact_makers) (\<lambda>success.
        if \<not> success then act_fail (ValueError ''Generating module artifacts failed'')
        else act_ret True))"

context guarded_tree
begin

lemma keeps_module_body: "scope m \<Longrightarrow> act_keeps P (module_body sys m modname)"
  unfolding module_body_def by (intro keeps_intros keeps_mkdir keeps_makers)

end

lemma module_body_gives: "act_gives plain_error (\<lambda>b. b) (module_body sys m modname)"
  unfolding module_body_def
  by (intro gives_intros mkdir_gives maker_gives) (auto simp: plain_error_def)

lemma make_module_exists:
  "path_exists (modpath @ [modname]) w \<Longrightarrow> make_module sc sys (modpath, modname) w =
     (w\<lparr>stderr := stderr w @ (''Module '' @ repr_str modname @ '' already exists'') @ [CHR 0x0A]\<rparr>, Inr False)"
  by (simp add: make_module_def Let_def act_simps print_err_def)

lemma make_module_cases:
  assumes "\<not> path_exists (modpath @ [modname]) w"
    and "module_body sys (modpath @ [modname]) modname
      (w\<lparr>stdout := stdout w @ (''Creating module '' @ path_str (modpath @ [modname])) @ [CHR 0x0A]\<rparr>) = (w1, r)"
  shows "make_module sc sys (modpath, modname) w =
    (case r of Inr b \<Rightarrow> (w1, Inr True)
     | Inl e \<Rightarrow>
        (case (if path_exists (modpath @ [modname]) w1 then rmtree sys (modpath @ [modname]) w1 else (w1, Inr ())) of
           (w2, Inl e') \<Rightarrow> (w2, Inl e')
         | (w2, Inr u) \<Rightarrow> (w2\<lparr>stderr := stderr w2 @
              (''Creating module '' @ repr_str modname @ '' failed: '' @ exc_text sc e) @ [CHR 0x0A]\<rparr>, Inr False)))"
proof -
  have "case r of Inl e \<Rightarrow> plain_error e | Inr b \<Rightarrow> b"
    using module_body_gives [of sys "modpath @ [modname]" modname] assms(2) unfolding act_gives_def by (metis snd_conv)
  then show ?thesis using assms
    by (cases r)
      (auto simp: make_module_def Let_def act_simps print_def print_err_def act_catch_def act_when_def
        module_body_def [symmetric] plain_error_def split: py_error.splits sum.splits prod.splits)
qed

text \<open>
  C37. \<open>make_module\<close> on a path without \<open>..\<close>, whatever the operating system refuses to create, write or
  remove: outside the module directory it changes nothing but to make missing directories on
  the way to it.  When it returns \<open>False\<close> the entries below the module directory are those from
  before (none, unless the module existed).  It raises only \<open>OSError\<close>, from the clean-up, and then
  an entry below the module directory whose removal was refused is left.
\<close>

theorem make_module_atomic:
  assumes "fs_ok w" and "plain (modpath @ [modname])" and "permutes_keys (listing sys)"
    and "make_module sc sys (modpath, modname) w = (w', r)"
  shows "fs_ok w' \<and>
    (\<forall>q. \<not> prefix (modpath @ [modname]) q \<longrightarrow> node_at w' q = node_at w q \<or>
       (strict_prefix q (modpath @ [modname]) \<and> node_at w q = None \<and> node_at w' q = Some Dir)) \<and>
    (r = Inr True \<or>
     r = Inr False \<and> (\<forall>q. prefix (modpath @ [modname]) q \<longrightarrow> node_at w' q = node_at w q) \<or>
     r = Inl OSError \<and> (\<exists>q. prefix (modpath @ [modname]) q \<and> refuse_remove sys q \<and> node_at w' q \<noteq> None))"
proof -
  let ?m = "modpath @ [modname]"
  let ?w = "w\<lparr>stdout := stdout w @ (''Creating module '' @ path_str ?m) @ [CHR 0x0A]\<rparr>"
  have start: "grown ?m w w" "grown ?m w ?w" using assms(1) by (simp_all add: grown_def)
  have "act_keeps (grown ?m w) (make_module sc sys (modpath, modname))"
    using assms(2) by (intro module_scope.keeps_make_module) simp
  from act_keepsD [OF this, OF start(1)] have g: "grown ?m w w'" by (simp add: assms(4))
  have "r = Inr True \<or> r = Inr False \<and> (\<forall>q. prefix ?m q \<longrightarrow> node_at w' q = node_at w q) \<or>
     r = Inl OSError \<and> (\<exists>q. prefix ?m q \<and> refuse_remove sys q \<and> node_at w' q \<noteq> None)"
  proof (cases "path_exists ?m w")
    case True
    from make_module_exists [OF this, of sc sys] assms(4) show ?thesis by auto
  next
    case False
    obtain w1 r1 where b: "module_body sys ?m modname ?w = (w1, r1)" by fastforce
    note run = make_module_cases [OF False b, of sc]
    show ?thesis
    proof (cases r1)
      case (Inr b)
      with run assms(4) show ?thesis by auto
    next
      case (Inl e)
      have "act_keeps (grown ?m w) (module_body sys ?m modname)"
        using assms(2) by (intro module_scope.keeps_module_body) simp
      from act_keepsD [OF this, OF start(2)] have g1: "grown ?m w w1" by (simp only: b fst_conv)
      then have ok: "fs_ok w1" by (rule grown_ok)
      have before: "node_at w q = None" if "prefix ?m q" for q
        using fs_ok_absent [OF assms(1) _ that] False by (simp add: exists_plain [OF assms(1,2)])
      have ex: "path_exists ?m w1 \<longleftrightarrow> node_at w1 ?m = Some Dir"
        using g1 before [of ?m] by (auto simp: exists_plain(1) [OF ok assms(2)] grown_def)
      show ?thesis
      proof (cases "node_at w1 ?m = Some Dir")
        case True
        obtain w2 r2 where rm: "rmtree sys ?m w1 = (w2, r2)" by fastforce
        from rmtree_effect [OF ok assms(2) _ True assms(3) rm] show ?thesis
          using run assms(4) Inl ex True rm before by auto
      next
        case False
        then have "node_at w1 q = None" if "prefix ?m q" for q
          using ex fs_ok_absent [OF ok _ that] by (auto simp: exists_plain(1) [OF ok assms(2)])
        with False run assms(4) Inl ex before show ?thesis by auto
      qed
    qed
  qed
  then show ?thesis using g by (auto simp: grown_def)
qed

definition sample_world :: world where
  "sample_world = \<lparr>nodes = [([''ns3''], Dir), ([''ns3'', ''src''], Dir), ([''ns3'', ''contrib''], Dir)],
     cwd = [''ns3''], stdout = [], stderr = []\<rparr>"

definition sample_script :: script where
  "sample_script = \<lparr>usage = [], prog = ''create-module.py'', exc_text = (\<lambda>_. [])\<rparr>"

definition free_os :: os where
  "free_os = \<lparr>refuse_create = (\<lambda>_. False), refuse_write = (\<lambda>_. False), refuse_remove = (\<lambda>_. False), listing = (\<lambda>ks. ks)\<rparr>"

theorem make_module_atomic_witness:
  "\<exists>w'. make_module sample_script (free_os\<lparr>refuse_write := (\<lambda>q. last q = ''CMakeLists.txt'')\<rparr>)
      ([''ns3'', ''contrib''], ''m'') sample_world = (w', Inr False) \<and> node_at w' [''ns3'', ''contrib'', ''m''] = None"
proof -
  let ?sys = "free_os\<lparr>refuse_write := (\<lambda>q. last q = ''CMakeLists.txt'')\<rparr>"
  obtain w' r where run: "make_module sample_script ?sys ([''ns3'', ''contrib''], ''m'') sample_world = (w', r)" by fastforce
  have "snd (make_module sample_script ?sys ([''ns3'', ''contrib''], ''m'') sample_world) = Inr False" by code_simp
  then have r: "r = Inr False" using run by simp
  have ok: "fs_ok sample_world" "node_at sample_world [''ns3'', ''contrib'', ''m''] = None" by code_simp+
  have "node_at w' [''ns3'', ''contrib'', ''m''] = None"
    using make_module_atomic [OF ok(1) _ _ run] ok(2) r by (auto simp: free_os_def permutes_keys_id)
  with run r show ?thesis by blast
qed

section \<open>Below src and contrib\<close>

definition module_area :: "path \<Rightarrow> path \<Rightarrow> bool" where
  "module_area base q \<longleftrightarrow> prefix (base @ [''src'']) q \<or> prefix (base @ [''contrib'']) q"

definition module_place :: "path \<Rightarrow> path \<Rightarrow> bool" where
  "module_place base p \<longleftrightarrow> strict_prefix (base @ [''src'']) p \<or> strict_prefix (base @ [''contrib'']) p"

definition confined :: "path \<Rightarrow> world \<Rightarrow> world \<Rightarrow> bool" where
  "confined base w0 w \<longleftrightarrow> fs_ok w \<and> node_at w (base @ [''src'']) = Some Dir \<and>
     node_at w (base @ [''contrib'']) = Some Dir \<and> (\<forall>q. \<not> module_area base q \<longrightarrow> node_at w q = node_at w0 q)"

lemma confined_set_node:
  assumes "confined base w0 w" and "p \<noteq> []" and "node_at w (butlast p) = Some Dir"
    and "node_at w p = Some Dir \<longrightarrow> n = Dir" and "module_area base p" and "plain p"
  shows "confined base w0 (set_node p n w)"
proof -
  have ok: "fs_ok w" using assms(1) by (simp add: confined_def)
  have "node_at (set_node p n w) q = (if q = p then Some n else node_at w q)" for q
    using node_at_set_node [OF fs_ok_dict [OF ok] assms(2)] .
  then show ?thesis
    using assms(1,4,5) fs_ok_set_node [OF ok assms(2-4,6)] unfolding confined_def by auto
qed

lemma module_place_area: "module_place base p \<Longrightarrow> p \<noteq> [] \<and> module_area base p"
  by (auto simp: module_place_def module_area_def strict_prefix_def)

lemma module_place_split:
  assumes "module_place base p" and "prefix q p"
  shows "module_area base q \<or> prefix q (base @ [''src'']) \<or> prefix q (base @ [''contrib''])"
  using assms unfolding module_place_def module_area_def strict_prefix_def by (meson prefix_same_cases)

lemma module_place_below [simp]:
  "p \<noteq> [] \<Longrightarrow> module_place base (base @ ''src'' # p)"
  "p \<noteq> [] \<Longrightarrow> module_place base (base @ ''contrib'' # p)"
  by (auto simp: module_place_def strict_prefix_def prefix_def)

lemma confined_exists:
  "confined base w0 w \<Longrightarrow> prefix q (base @ [''src'']) \<or> prefix q (base @ [''contrib'']) \<Longrightarrow> node_at w q \<noteq> None"
  using fs_ok_absent [of w q] unfolding confined_def by (metis option.distinct(1))

lemma confined_ok: "confined base w0 w \<Longrightarrow> fs_ok w"
  by (simp add: confined_def)

lemma confined_remove:
  assumes "module_place base p" and "prefix p q" and "confined base w0 w" and "remove_entry sys q w = (w', Inr ())"
  shows "confined base w0 w'"
proof -
  have q: "q \<noteq> []" using assms(1,2) by (auto simp: module_place_def)
  have "q \<noteq> base @ [''src'']" "q \<noteq> base @ [''contrib'']" "module_area base q"
    using assms(1,2) by (auto simp: module_place_def module_area_def strict_prefix_def prefix_def)
  then show ?thesis
    using assms(3) fs_ok_remove_entry [OF confined_ok [OF assms(3)] assms(4) q] remove_entry_node(1) [OF assms(4) q]
    by (auto simp: confined_def)
qed

lemma confined_mkdir:
  assumes "module_place base p" and "plain p"
  shows "act_keeps (confined base w0) (mkdir_parents sys p)"
  unfolding mkdir_parents_def
proof (rule mkdir_up_keeps [OF confined_ok])
  fix q s assume *: "prefix q (rev (rev p))" "q \<noteq> []" "confined base w0 s" "node_at s q = None"
    "node_at s (butlast q) = Some Dir"
  then have "module_area base q"
    using module_place_split [OF assms(1), of q] confined_exists [of base w0 s q] by auto
  with * assms(2) show "confined base w0 (set_node q Dir s)" by (intro confined_set_node) (auto dest: plain_prefix)
qed (simp_all add: assms(2))

interpretation area_scope: guarded_tree "confined base w0" "\<lambda>p. module_place base p \<and> plain p" for base w0
proof (unfold_locales, goal_cases)
  case 3
  then show ?case by (simp add: confined_mkdir)
next
  case (4 p c sys)
  then have p: "module_area base (p @ [c])" "plain (p @ [c])" by (auto simp: module_place_def module_area_def strict_prefix_def prefix_def)
  have "confined base w0 (fst (open_wt sys (p @ [c]) w))" if "confined base w0 w" for w
    using p that operations_plain(2) [OF confined_ok [OF that] p(2), of sys]
    by (auto simp: open_entry_def intro!: confined_set_node)
  then show ?case by (simp add: act_keeps_def)
next
  case (5 p c sys t)
  then have p: "module_area base (p @ [c])" "plain (p @ [c])" by (auto simp: module_place_def module_area_def strict_prefix_def prefix_def)
  have "confined base w0 (set_node (p @ [c]) (File t) w)" if "confined base w0 w" "node_at w (p @ [c]) = Some (File u)" for w u
    using p that fs_ok_parent [of w "p @ [c]"] by (intro confined_set_node) (auto simp: confined_def)
  then have "confined base w0 (fst (write_open sys (p @ [c]) t w))" if "confined base w0 w" for w
    using write_plain [OF confined_ok [OF that] p(2), of sys t] that by (auto simp: write_entry_def split: option.splits node.splits)
  then show ?case by (simp add: act_keeps_def)
next
  case (6 p sys)
  then show ?case by (intro rmtree_keeps [OF confined_ok]) (auto intro: confined_remove)
next
  case (7 p q)
  then show ?case by (auto simp: module_place_def strict_prefix_def prefix_def)
qed (auto simp: confined_def)

lemma keeps_parser_error: "act_keeps (confined base w0) (parser_error sc msg)"
  unfolding parser_error_def by (intro keeps_intros area_scope.keeps_print)

lemma keeps_target: "act_keeps (confined base w0) (module_target sc b project parts arg)"
  unfolding module_target_def Let_def
  by (intro keeps_intros area_scope.keeps_print keeps_parser_error)

lemma gives_print:
  "act_gives E (\<lambda>_. True) (print s)"
  "act_gives (\<lambda>_. True) R (parser_error sc msg)"
  by (simp_all add: act_gives_def print_def print_err_def parser_error_def act_simps)

text \<open>The checks of the names: what passes them is no \<open>..\<close>.\<close>

lemma allowed_name_plain:
  assumes "allowed_name s"
  shows "CHR ''.'' \<notin> set s \<and> CHR ''/'' \<notin> set s \<and> s \<noteq> []"
proof -
  define ok where "ok c \<longleftrightarrow> is_word_char c \<or> c = CHR ''-''" for c
  have c: "\<not> ok (CHR ''.'')" "\<not> ok (CHR ''/'')" unfolding ok_def by code_simp+
  have a: "let t = (if s \<noteq> [] \<and> last s = CHR 0x0A then butlast s else s) in t \<noteq> [] \<and> list_all ok t"
    using assms unfolding allowed_name_def ok_def .
  show ?thesis
  proof (cases s rule: rev_cases)
    case (snoc t x)
    with a have "list_all ok t" "ok x \<or> x = CHR 0x0A" by (auto simp: Let_def split: if_splits)
    then show ?thesis using c by (auto simp: snoc list_all_iff)
  qed (use a in simp)
qed

lemma allowed_not_up: "allowed_name s \<Longrightarrow> s \<noteq> ''..''"
  by (drule allowed_name_plain) auto

lemma project_plain: "act_gives (\<lambda>_. True) plain (check_project sc project)"
  unfolding check_project_def
  by (intro gives_intros gives_print TrueI) (auto simp: plain_def list_all_iff dest: allowed_not_up)

definition target_ok :: "path \<Rightarrow> (path \<times> string) option \<Rightarrow> bool" where
  "target_ok base t = (case t of None \<Rightarrow> True | Some (mp, mn) \<Rightarrow> module_place base (mp @ [mn]) \<and> plain (mp @ [mn]))"

lemma target_place:
  assumes "plain base" and "plain parts"
  shows "act_gives (\<lambda>_. True) (target_ok base) (module_target sc base project parts arg)"
proof -
  define root where "root mp \<longleftrightarrow> mp = base @ [''src''] \<or> mp = base @ [''contrib'']" for mp
  have pick: "act_gives (\<lambda>_. True) (target_ok base) (act_bind m k)"
    if "act_gives (\<lambda>_. True) (\<lambda>p. root (fst p)) m" "\<And>mp np. root mp \<Longrightarrow> act_gives (\<lambda>_. True) (target_ok base) (k (mp, np))" for m k
    using that by (intro act_gives_bind [where R = "\<lambda>p. root (fst p)"]) auto
  have place: "target_ok base (Some (mp, mn))" if "root mp \<or> mp = base @ [''contrib''] @ parts" "allowed_name mn" for mp mn
    using that assms allowed_not_up [OF that(2)] by (auto simp: target_ok_def root_def)
  have none: "target_ok base None" by (simp add: target_ok_def)
  show ?thesis
    unfolding module_target_def Let_def
    by (intro act_gives_if act_gives_ret act_gives_then act_gives_bind_any [where m = "act_lift r" for r] pick
        act_gives_lift gives_print TrueI none)
      (auto simp: root_def intro!: gives_intros gives_print none place)
qed

lemma keeps_create_modules:
  assumes "plain base"
  shows "act_keeps (confined base w0) (create_modules sc sys project modnames base)"
  unfolding create_modules_def
proof (rule act_keeps_bind_gives [OF _ project_plain])
  show "act_keeps (confined base w0) (check_project sc project)"
    unfolding check_project_def by (intro keeps_intros keeps_parser_error)
  fix parts assume parts: "plain parts"
  show "act_keeps (confined base w0) (act_bind (act_map (module_target sc base project parts) modnames) (\<lambda>targets.
     act_bind (act_all (make_module sc sys) (map the (filter (\<lambda>t. t \<noteq> None) targets))) (\<lambda>success.
     act_then (act_when success report_created) (act_ret 0))))"
  proof (rule act_keeps_bind_gives [OF _ act_gives_map [OF target_place [OF assms parts]]])
    fix targets assume t: "list_all (target_ok base) targets"
    have "act_keeps (confined base w0) (make_module sc sys (mp, mn))" if "Some (mp, mn) \<in> set targets" for mp mn
      using t that by (intro area_scope.keeps_make_module) (auto simp: list_all_iff target_ok_def dest!: bspec)
    then have "act_keeps (confined base w0) (make_module sc sys x)"
      if "x \<in> set (map the (filter (\<lambda>t. t \<noteq> None) targets))" for x
      using that by (cases x) auto
    then show "act_keeps (confined base w0) (act_bind (act_all (make_module sc sys) (map the (filter (\<lambda>t. t \<noteq> None) targets)))
        (\<lambda>success. act_then (act_when success report_created) (act_ret 0)))"
      unfolding report_created_def by (intro keeps_intros area_scope.keeps_print)
  qed (intro keeps_intros keeps_target)
qed

lemma node_plain: "fs_ok w \<Longrightarrow> node_at w p = Some n \<Longrightarrow> plain p"
  unfolding fs_ok_iff node_at_def by (metis option.distinct(1) plain_append(2))

lemma main_dirs:
  "is_dir (cwd w @ [''src'']) w \<Longrightarrow> is_dir (cwd w @ [''contrib'']) w \<Longrightarrow>
     main sc sys project modnames w = create_modules sc sys project modnames (cwd w) w"
  "\<not> (is_dir (cwd w @ [''src'']) w \<and> is_dir (cwd w @ [''contrib'']) w) \<Longrightarrow>
     node_at (fst (main sc sys project modnames w)) q = node_at w q"
  by (auto simp: main_def check_dirs_def parser_error_def print_err_def act_simps)

text \<open>
  C40. Whatever the arguments, the names and the refusals of the operating system: the script
  changes no entry outside \<open>src\<close> and \<open>contrib\<close> of the directory it is run in.  Paths are resolved by the
  operating system, so this rests on the checks that keep \<open>..\<close> out of the names.
\<close>

theorem run_script_confined:
  assumes "fs_ok w" and "node_at w (cwd w) = Some Dir" and "\<not> module_area (cwd w) q"
  shows "node_at (fst (run_script sc sys project modnames w)) q = node_at w q"
proof -
  have catch: "node_at (fst (act_catch m (\<lambda>e. act_then (print_err (f e)) (act_ret 1)) w)) q = node_at (fst (m w)) q"
    for m :: "(world, int) act" and f
    by (auto simp: act_catch_def act_simps print_err_def split: prod.splits sum.splits py_error.splits)
  have base: "plain (cwd w)" using assms(1,2) by (rule node_plain)
  have "node_at (fst (main sc sys project modnames w)) q = node_at w q"
  proof (cases "is_dir (cwd w @ [''src'']) w \<and> is_dir (cwd w @ [''contrib'']) w")
    case True
    then have "confined (cwd w) w w" using assms(1) base by (simp add: confined_def exists_plain)
    from act_keepsD [OF keeps_create_modules [OF base], OF this] have "confined (cwd w) w (fst (main sc sys project modnames w))"
      using True by (simp add: main_dirs)
    then show ?thesis using assms(3) by (simp add: confined_def)
  next
    case False
    then show ?thesis by (rule main_dirs(2))
  qed
  then show ?thesis unfolding run_script_def catch .
qed

theorem run_script_confined_witness:
  "node_at (fst (run_script sample_script free_os ''../p'' [''src/a'', ''b''] sample_world)) [''ns3'', ''p''] = None"
proof -
  have "fs_ok sample_world" "node_at sample_world (cwd sample_world) = Some Dir" "\<not> module_area (cwd sample_world) [''ns3'', ''p'']"
      "node_at sample_world [''ns3'', ''p''] = None"
    by code_simp+
  then show ?thesis using run_script_confined [of sample_world "[''ns3'', ''p'']"] by simp
qed

text \<open>Without the checks a path with \<open>..\<close> would leave the directory: \<open>mkdir\<close> follows it.\<close>

lemma mkdir_follows:
  "node_at (fst (mkdir_parents free_os [''ns3'', ''contrib'', ''..'', ''p''] sample_world)) [''ns3'', ''p''] = Some Dir"
  by code_simp

text \<open>A removal that is refused in the clean-up leaves \<open>make_module\<close> as an exception, with the entry left.\<close>

lemma clean_up_raises:
  "let sys = free_os\<lparr>refuse_write := (\<lambda>q. last q = ''CMakeLists.txt''), refuse_remove := (\<lambda>q. last q = ''CMakeLists.txt'')\<rparr>;
       (w, r) = make_module sample_script sys ([''ns3'', ''contrib''], ''m'') sample_world
   in r = Inl OSError \<and> node_at w [''ns3'', ''contrib'', ''m'', ''CMakeLists.txt''] = Some (File [])"
  by code_simp

end
