(* ===== verification/Module_Layout.thy ===== *)
theory Module_Layout
  imports Module_Scope
begin

text \<open>
  What the module generator creates.  \<open>runs\<close> describes an action by the trees before and after
  it; the operations of \<open>Create_Module\<close> get one such description each, and their composition is
  the layout that the help text of the script documents.
\<close>

section \<open>Actions by their effect on the tree\<close>

type_synonym tree = "path \<Rightarrow> node option"

definition runs :: "path \<Rightarrow> tree \<Rightarrow> (world, 'a) act \<Rightarrow> 'a \<Rightarrow> tree \<Rightarrow> bool" where
  "runs c f m x g \<longleftrightarrow>
     (\<forall>s. fs_ok s \<and> node_at s = f \<and> cwd s = c \<longrightarrow>
        (\<exists>s'. m s = (s', Inr x) \<and> fs_ok s' \<and> node_at s' = g \<and> cwd s' = c))"

lemma runs_ret: "runs c f (act_ret x) x f"
  by (auto simp: runs_def act_simps)

lemma runs_then: "runs c f m u g \<Longrightarrow> runs c g n x h \<Longrightarrow> runs c f (act_then m n) x h"
  unfolding runs_def by (fastforce simp: act_simps)

lemma runs_bind: "runs c f m y g \<Longrightarrow> runs c g (k y) x h \<Longrightarrow> runs c f (act_bind m k) x h"
  unfolding runs_def by (fastforce simp: act_simps)

lemma runs_cwd: "runs c f (act_read (\<lambda>w. Inr (h (cwd w)))) (h c) f"
  by (auto simp: runs_def act_simps)

lemma tree_set_node:
  assumes "fs_ok s" and "p \<noteq> []"
  shows "node_at (set_node p n s) = (node_at s)(p \<mapsto> n)"
  using node_at_set_node [OF fs_ok_dict [OF assms(1)] assms(2)] by (auto simp: fun_eq_iff)

lemma butlast_neq: "p \<noteq> [] \<Longrightarrow> butlast p \<noteq> p"
  by (metis append_butlast_last_id append_self_conv not_Cons_self2)

lemma runs_mkdir:
  assumes "p \<noteq> []" and "f (butlast p) = Some Dir" and "f p = None" and "\<not> refuse_create sys p" and "plain p"
  shows "runs c f (mkdir_parents sys p) () (f(p \<mapsto> Dir))"
  unfolding runs_def
proof (intro allI impI, elim conjE)
  fix s assume s: "fs_ok s" "node_at s = f" "cwd s = c"
  obtain x up where p: "rev p = x # up" using assms(1) by (cases "rev p") auto
  then have b: "p = rev up @ [x]" by (metis rev.simps(2) rev_rev_ident)
  have e: "path_exists (rev up) s" using assms(2,5) s by (simp add: b exists_plain)
  have "mkdir_parents sys p s = os_mkdir sys p s" using e by (simp add: mkdir_parents_def b mkdir_one_def)
  also have "\<dots> = (set_node p Dir s, Inr ())"
    using assms s by (simp add: operations_plain mkdir_entry_def)
  finally have "mkdir_parents sys p s = (set_node p Dir s, Inr ())" .
  then show "\<exists>s'. mkdir_parents sys p s = (s', Inr ()) \<and> fs_ok s' \<and> node_at s' = f(p \<mapsto> Dir) \<and> cwd s' = c"
    using s assms fs_ok_set_node [of s p Dir] tree_set_node [of s p Dir] by auto
qed

text \<open>\<open>mkdir(parents=True)\<close> of a path whose ancestors are directories or missing.\<close>

definition with_parents :: "tree \<Rightarrow> path \<Rightarrow> tree" where
  "with_parents f p = (\<lambda>q. if prefix q p \<and> f q = None then Some Dir else f q)"

lemma with_parents_snoc:
  "f (p @ [x]) = None \<or> f (p @ [x]) = Some Dir \<Longrightarrow> with_parents f (p @ [x]) = (with_parents f p)(p @ [x] \<mapsto> Dir)"
  by (auto simp: with_parents_def fun_eq_iff prefix_snoc)

lemma with_parents_same:
  assumes "fs_ok s" and "node_at s p = Some Dir"
  shows "with_parents (node_at s) p = node_at s"
proof -
  have "node_at s q \<noteq> None" if "prefix q p" for q using fs_ok_absent [OF assms(1) _ that] assms(2) by auto
  then show ?thesis by (auto simp: with_parents_def fun_eq_iff)
qed

lemma runs_mkdir_up:
  assumes "\<And>q. prefix q (rev up) \<Longrightarrow> f q = None \<or> f q = Some Dir" and "\<And>q. \<not> refuse_create sys q"
    and "f [] = Some Dir" and "exist_ok \<or> f (rev up) = None" and "plain (rev up)"
  shows "runs c f (mkdir_up sys up exist_ok) () (with_parents f (rev up))"
  unfolding runs_def
proof (intro allI impI, elim conjE)
  fix s assume "fs_ok s" "node_at s = f" "cwd s = c"
  then show "\<exists>s'. mkdir_up sys up exist_ok s = (s', Inr ()) \<and> fs_ok s' \<and>
      node_at s' = with_parents f (rev up) \<and> cwd s' = c"
    using assms(1,4,5)
  proof (induction up arbitrary: exist_ok)
    case Nil
    with assms(3) show ?case by (auto simp: act_simps with_parents_def fun_eq_iff)
  next
    case (Cons x up)
    note s = Cons.prems(1-3)
    let ?p = "rev up @ [x]"
    have anc: "f q = None \<or> f q = Some Dir" if "prefix q (rev up)" for q
      using Cons.prems(4) [of q] that by (simp add: prefix_append)
    have pp: "f ?p = None \<or> f ?p = Some Dir" using Cons.prems(4) [of ?p] by simp
    note wp = with_parents_snoc [of f "rev up" x, OF pp]
    have pl: "plain ?p" "plain (rev up)" using Cons.prems(6) by simp_all
    have ex: "path_exists (rev up) s \<longleftrightarrow> f (rev up) \<noteq> None" using exists_plain(1) [OF s(1) pl(2)] s(2) by simp
    show ?case
    proof (cases "f (rev up)")
      case None
      obtain s1 where s1: "mkdir_up sys up True s = (s1, Inr ())" "fs_ok s1" "cwd s1 = c"
          "node_at s1 = with_parents f (rev up)"
        using Cons.IH [OF s anc, of True] pl(2) by auto
      have "f ?p = None" using fs_ok_absent [OF s(1), of "rev up" ?p] s(2) None by auto
      then have at: "node_at s1 (rev up) = Some Dir" "node_at s1 ?p = None"
        using None by (simp_all add: s1(4) with_parents_def)
      have "mkdir_up sys (x # up) exist_ok s = (set_node ?p Dir s1, Inr ())"
        using None ex s1(1) at assms(2) pl(1) exists_plain(2) [OF s1(2) pl(1)] operations_plain(1) [OF s1(2) pl(1), of sys]
        by (simp add: act_simps mkdir_one_def mkdir_entry_def)
      then show ?thesis
        using s1 at pl fs_ok_set_node [OF s1(2), of ?p Dir] tree_set_node [OF s1(2), of ?p Dir] wp by auto
    next
      case (Some d)
      with anc [of "rev up"] have d: "f (rev up) = Some Dir" by auto
      then have same: "with_parents f (rev up) = f" using with_parents_same [OF s(1)] s(2) by blast
      show ?thesis
      proof (cases "f ?p")
        case None
        then have "mkdir_up sys (x # up) exist_ok s = (set_node ?p Dir s, Inr ())"
          using d s(2) ex assms(2) pl(1) exists_plain(2) [OF s(1) pl(1)] operations_plain(1) [OF s(1) pl(1), of sys]
          by (simp add: mkdir_one_def mkdir_entry_def)
        then show ?thesis
          using s d None pl fs_ok_set_node [OF s(1), of ?p Dir] tree_set_node [OF s(1), of ?p Dir] wp same by auto
      next
        case (Some n)
        with pp have n: "f ?p = Some Dir" by simp
        with Cons.prems(5) have "exist_ok" by simp
        then have "mkdir_up sys (x # up) exist_ok s = (s, Inr ())"
          using d n s(2) ex exists_plain(2) [OF s(1) pl(1)] by (simp add: mkdir_one_def)
        then show ?thesis using s wp same n by (auto simp: fun_upd_idem)
      qed
    qed
  qed
qed

lemma runs_create_file:
  assumes "p \<noteq> []" and "f (butlast p) = Some Dir" and "f p \<noteq> Some Dir" and "\<not> refuse_create sys p"
    and "\<not> refuse_write sys p" and "str_format template kwargs = Inr t" and "plain p"
  shows "runs c f (create_file sys p template kwargs) () (f(p \<mapsto> File t))"
  unfolding runs_def
proof (intro allI impI, elim conjE)
  fix s assume s: "fs_ok s" "node_at s = f" "cwd s = c"
  let ?s = "set_node p (File []) s"
  have o: "fs_ok ?s" "node_at ?s = f(p \<mapsto> File [])"
    using s assms fs_ok_set_node [of s p "File []"] tree_set_node [of s p "File []"] by auto
  have "create_file sys p template kwargs s = (set_node p (File t) ?s, Inr ())"
    using assms s o operations_plain(2) [OF s(1) assms(7), of sys] operations_plain(3) [OF o(1) assms(7), of sys t]
    by (simp add: create_file_def act_simps open_entry_def write_entry_def butlast_neq)
  moreover have "fs_ok (set_node p (File t) ?s)"
    by (rule fs_ok_set_node [OF o(1) assms(1) _ _ assms(7)]) (use o assms in \<open>auto simp: butlast_neq\<close>)
  ultimately show "\<exists>s'. create_file sys p template kwargs s = (s', Inr ()) \<and> fs_ok s' \<and>
      node_at s' = f(p \<mapsto> File t) \<and> cwd s' = c"
    using s o tree_set_node [OF o(1) assms(1), of "File t"] by auto
qed

section \<open>The layout of a module\<close>

definition filled :: "string \<Rightarrow> (string, string) dict \<Rightarrow> node" where
  "filled template kwargs = (case str_format template kwargs of Inl e \<Rightarrow> File [] | Inr t \<Rightarrow> File t)"

text \<open>
  The tree that the help text of the script documents, with the contents of the files, as a map
  from the paths below the module directory.
\<close>

definition module_tree :: "string \<Rightarrow> string \<Rightarrow> tree" where
  "module_tree dir name =
     (let m = (''MODULE'', name) in
      [[] \<mapsto> Dir,
       [''CMakeLists.txt''] \<mapsto> filled cmakelists_template [m],
       [''model''] \<mapsto> Dir,
       [''model'', name @ ''.cc''] \<mapsto> filled model_cc_template [m],
       [''model'', name @ ''.h''] \<mapsto> filled model_h_template [m, (''INCLUDE_GUARD'', guard_name name @ ''_H'')],
       [''test''] \<mapsto> Dir,
       [''test'', name @ ''-test-suite.cc''] \<mapsto>
         filled test_cc_template [m, (''CAPITALIZED'', capitalized name), (''COMPOUND'', compound name)],
       [''helper''] \<mapsto> Dir,
       [''helper'', name @ ''-helper.cc''] \<mapsto> filled helper_cc_template [m],
       [''helper'', name @ ''-helper.h''] \<mapsto>
         filled helper_h_template [m, (''INCLUDE_GUARD'', guard_name name @ ''_HELPER_H'')],
       [''examples''] \<mapsto> Dir,
       [''examples'', ''CMakeLists.txt''] \<mapsto> filled examples_cmakelists_template [m],
       [''examples'', name @ ''-example.cc''] \<mapsto> filled example_cc_template [m],
       [''doc''] \<mapsto> Dir,
       [''doc'', name @ ''.rst''] \<mapsto> filled doc_rst_template [m, (''MODULE_DIR'', dir)]])"

lemma with_suffix_plain: "CHR ''.'' \<notin> set name \<Longrightarrow> with_suffix name suf = name @ suf"
  by (simp add: with_suffix_def Let_def)

lemma format_ok:
  "\<exists>t. str_format cmakelists_template [(''MODULE'', name)] = Inr t"
  "\<exists>t. str_format model_cc_template [(''MODULE'', name)] = Inr t"
  "\<exists>t. str_format model_h_template [(''MODULE'', name), (''INCLUDE_GUARD'', g)] = Inr t"
  "\<exists>t. str_format test_cc_template [(''MODULE'', name), (''CAPITALIZED'', a), (''COMPOUND'', b)] = Inr t"
  "\<exists>t. str_format helper_cc_template [(''MODULE'', name)] = Inr t"
  "\<exists>t. str_format helper_h_template [(''MODULE'', name), (''INCLUDE_GUARD'', g)] = Inr t"
  "\<exists>t. str_format examples_cmakelists_template [(''MODULE'', name)] = Inr t"
  "\<exists>t. str_format example_cc_template [(''MODULE'', name)] = Inr t"
  "\<exists>t. str_format doc_rst_template [(''MODULE'', name), (''MODULE_DIR'', d)] = Inr t"
  by (rule str_format_total, rule templates_well_formed, simp add: dict_find_def)+

lemma filled_not_dir [simp]: "filled template kwargs \<noteq> Dir"
  by (simp add: filled_def split: sum.splits)

lemma runs_filled:
  assumes "p \<noteq> []" and "f (butlast p) = Some Dir" and "f p \<noteq> Some Dir" and "\<And>q. \<not> refuse_create sys q"
    and "\<And>q. \<not> refuse_write sys q" and "\<exists>t. str_format template kwargs = Inr t" and "plain p"
  shows "runs c f (create_file sys p template kwargs) () (f(p \<mapsto> filled template kwargs))"
  using runs_create_file [of p f sys template kwargs] assms by (auto simp: filled_def)


lemma artifact_names:
  assumes "CHR ''.'' \<notin> set name"
  shows "with_suffix name ''.cc'' = name @ ''.cc''" "with_suffix name ''.h'' = name @ ''.h''"
    "with_suffix (name @ ''-test-suite'') ''.cc'' = name @ ''-test-suite.cc''"
    "with_suffix (name @ ''-helper'') ''.cc'' = name @ ''-helper.cc''"
    "with_suffix (name @ ''-helper'') ''.h'' = name @ ''-helper.h''"
    "with_suffix (name @ ''-example'') ''.cc'' = name @ ''-example.cc''"
  using assms by (simp_all add: with_suffix_plain)

text \<open>What the six functions add to a module directory that has none of their entries.\<close>

lemma runs_makers:
  assumes "CHR ''.'' \<notin> set name" and "\<And>q. \<not> refuse_create sys q" and "\<And>q. \<not> refuse_write sys q"
    and "f m = Some Dir" and "plain m"
  shows
    "f (m @ [''CMakeLists.txt'']) = None \<Longrightarrow> runs c f (make_cmakelists sys m name) True
       (f(m @ [''CMakeLists.txt''] \<mapsto> filled cmakelists_template [(''MODULE'', name)]))"
    "f (m @ [''model'']) = None \<Longrightarrow> (\<And>x. f (m @ [''model'', x]) = None) \<Longrightarrow> runs c f (make_model sys m name) True
       (f(m @ [''model''] \<mapsto> Dir,
          m @ [''model'', name @ ''.cc''] \<mapsto> filled model_cc_template [(''MODULE'', name)],
          m @ [''model'', name @ ''.h''] \<mapsto>
            filled model_h_template [(''MODULE'', name), (''INCLUDE_GUARD'', guard_name name @ ''_H'')]))"
    "f (m @ [''test'']) = None \<Longrightarrow> (\<And>x. f (m @ [''test'', x]) = None) \<Longrightarrow> runs c f (make_test sys m name) True
       (f(m @ [''test''] \<mapsto> Dir,
          m @ [''test'', name @ ''-test-suite.cc''] \<mapsto>
            filled test_cc_template [(''MODULE'', name), (''CAPITALIZED'', capitalized name), (''COMPOUND'', compound name)]))"
    "f (m @ [''helper'']) = None \<Longrightarrow> (\<And>x. f (m @ [''helper'', x]) = None) \<Longrightarrow> runs c f (make_helper sys m name) True
       (f(m @ [''helper''] \<mapsto> Dir,
          m @ [''helper'', name @ ''-helper.cc''] \<mapsto> filled helper_cc_template [(''MODULE'', name)],
          m @ [''helper'', name @ ''-helper.h''] \<mapsto>
            filled helper_h_template [(''MODULE'', name), (''INCLUDE_GUARD'', guard_name name @ ''_HELPER_H'')]))"
    "f (m @ [''examples'']) = None \<Longrightarrow> (\<And>x. f (m @ [''examples'', x]) = None) \<Longrightarrow> runs c f (make_examples sys m name) True
       (f(m @ [''examples''] \<mapsto> Dir,
          m @ [''examples'', ''CMakeLists.txt''] \<mapsto> filled examples_cmakelists_template [(''MODULE'', name)],
          m @ [''examples'', name @ ''-example.cc''] \<mapsto> filled example_cc_template [(''MODULE'', name)]))"
    "f (m @ [''doc'']) = None \<Longrightarrow> (\<And>x. f (m @ [''doc'', x]) = None) \<Longrightarrow> runs c f (make_doc sys m name) True
       (f(m @ [''doc''] \<mapsto> Dir,
          m @ [''doc'', name @ ''.rst''] \<mapsto>
            filled doc_rst_template [(''MODULE'', name), (''MODULE_DIR'', relpath m c)]))"
  unfolding make_cmakelists_def make_model_def make_test_def make_helper_def make_examples_def make_doc_def
    Let_def artifact_names [OF assms(1)] append_assoc append_Cons append_Nil
  by (rule runs_then runs_bind runs_mkdir runs_filled runs_cwd runs_ret
      | simp add: butlast_append assms format_ok)+

lemma runs_tree_eq: "runs c f m x g \<Longrightarrow> g = h \<Longrightarrow> runs c f m x h"
  by simp

lemma runs_and:
  "runs c f m True g \<Longrightarrow> runs c g n x h \<Longrightarrow> runs c f (act_bind m (\<lambda>b. if b then n else act_ret False)) x h"
  by (rule runs_bind [where y = True]) simp_all

lemma runs_module_body:
  assumes "CHR ''.'' \<notin> set name" and "\<And>q. \<not> refuse_create sys q" and "\<And>q. \<not> refuse_write sys q"
    and "\<And>q. prefix q m \<Longrightarrow> f q = None \<or> f q = Some Dir" and "f [] = Some Dir" and "\<And>r. f (m @ r) = None" and "plain m"
  shows "\<exists>g. runs c f (module_body sys m name) True g \<and>
    (\<forall>r. g (m @ r) = module_tree (relpath m c) name r) \<and>
    (\<forall>q. \<not> prefix m q \<longrightarrow> g q = with_parents f m q)"
proof -
  let ?f = "with_parents f m"
  have dir: "runs c f (mkdir_parents sys m) () ?f"
    using runs_mkdir_up [of "rev m" f sys False c] assms(2,4,5,7) assms(6) [of "[]"]
    by (simp add: mkdir_parents_def)
  have fresh: "?f (m @ r) = (if r = [] then Some Dir else None)" for r
    using assms(6) [of r] by (auto simp: with_parents_def prefix_def)
  have at: "?f m = Some Dir" using fresh [of "[]"] by simp
  define g where "g = (\<lambda>q. if prefix m q then module_tree (relpath m c) name (drop (length m) q) else ?f q)"
  have "runs c ?f (act_all (\<lambda>func. func sys m name) artifact_makers) True g"
    unfolding artifact_makers_def act_all.simps
    apply (rule runs_tree_eq)
     apply (rule runs_and runs_ret runs_makers assms(1-3,7) | simp add: at fresh)+
    apply (rule ext)
    subgoal for q
      apply (cases "prefix m q")
      apply (auto simp: g_def module_tree_def Let_def prefix_def fresh at)
      done
    done
  then have "runs c f (module_body sys m name) True g"
    unfolding module_body_def
    by (intro runs_then [OF dir] runs_bind [where y = True]) (assumption, simp, rule runs_ret)
  then show ?thesis by (auto simp: g_def)
qed

text \<open>
  C36. A new module, with an admissible name in a path without \<open>..\<close>, where nothing stands in its way: \<open>make_module\<close>
  succeeds, below the module directory stands exactly the documented layout, with every
  template filled in, and outside of it only the missing directories on the way are made.
\<close>

theorem make_module_creates:
  assumes "fs_ok w" and "plain modpath" and "node_at w (modpath @ [modname]) = None" and "allowed_name modname"
    and "\<And>q. \<not> refuse_create sys q" and "\<And>q. \<not> refuse_write sys q"
    and "\<And>q t. strict_prefix q (modpath @ [modname]) \<Longrightarrow> node_at w q \<noteq> Some (File t)"
  shows "\<exists>w'. make_module sc sys (modpath, modname) w = (w', Inr True) \<and>
    (\<forall>r. node_at w' ((modpath @ [modname]) @ r) = module_tree (relpath (modpath @ [modname]) (cwd w)) modname r) \<and>
    (\<forall>q. \<not> prefix (modpath @ [modname]) q \<longrightarrow>
       node_at w' q = (if prefix q (modpath @ [modname]) \<and> node_at w q = None then Some Dir else node_at w q))"
proof -
  let ?m = "modpath @ [modname]"
  let ?w = "w\<lparr>stdout := stdout w @ (''Creating module '' @ path_str ?m) @ [CHR 0x0A]\<rparr>"
  have same: "node_at ?w = node_at w" "fs_ok ?w" "cwd ?w = cwd w" using assms(1) by (auto simp: fun_eq_iff)
  have plain: "CHR ''.'' \<notin> set modname" using allowed_name_plain [OF assms(4)] by simp
  have pl: "plain ?m" using assms(2) allowed_not_up [OF assms(4)] by simp
  have anc: "node_at w q = None \<or> node_at w q = Some Dir" if "prefix q ?m" for q
    using assms(3) assms(7) [of q] that by (cases "node_at w q"; cases "q = ?m") (auto simp: strict_prefix_def intro: node.exhaust)
  have below: "node_at w (?m @ r) = None" for r using fs_ok_absent [OF assms(1,3)] by simp
  obtain g where g: "runs (cwd w) (node_at w) (module_body sys ?m modname) True g"
      "\<forall>r. g (?m @ r) = module_tree (relpath ?m (cwd w)) modname r"
      "\<forall>q. \<not> prefix ?m q \<longrightarrow> g q = with_parents (node_at w) ?m q"
    using runs_module_body [OF plain assms(5,6) anc node_at_root below pl, of "cwd w"] by blast
  obtain w1 where w1: "module_body sys ?m modname ?w = (w1, Inr True)" "node_at w1 = g"
    using g(1) same unfolding runs_def by blast
  have "\<not> path_exists ?m w" using assms(3) by (simp add: exists_plain [OF assms(1) pl])
  from make_module_cases [OF this w1(1), of sc] have "make_module sc sys (modpath, modname) w = (w1, Inr True)" by simp
  then show ?thesis using g(2,3) w1(2) by (auto simp: with_parents_def)
qed

theorem make_module_creates_witness:
  "\<exists>w'. make_module sample_script free_os ([''ns3'', ''contrib''], ''m'') sample_world = (w', Inr True) \<and>
    node_at w' [''ns3'', ''contrib'', ''m'', ''model'', ''m.cc''] = Some (filled model_cc_template [(''MODULE'', ''m'')])"
proof -
  have facts: "fs_ok sample_world" "plain [''ns3'', ''contrib'']" "node_at sample_world ([''ns3'', ''contrib''] @ [''m'']) = None" "allowed_name ''m''"
    by code_simp+
  have anc: "node_at sample_world q \<noteq> Some (File t)" for q t
    by (auto simp: node_at_def sample_world_def dict_find_def)
  have free: "\<not> refuse_create free_os q" "\<not> refuse_write free_os q" for q by (simp_all add: free_os_def)
  obtain w' where w': "make_module sample_script free_os ([''ns3'', ''contrib''], ''m'') sample_world = (w', Inr True)"
      "\<forall>r. node_at w' (([''ns3'', ''contrib''] @ [''m'']) @ r) =
         module_tree (relpath ([''ns3'', ''contrib''] @ [''m'']) (cwd sample_world)) ''m'' r"
    using make_module_creates [OF facts free anc, of sample_script] by blast
  from w'(2) [rule_format, of "[''model'', ''m.cc'']"]
  have "node_at w' [''ns3'', ''contrib'', ''m'', ''model'', ''m.cc''] = Some (filled model_cc_template [(''MODULE'', ''m'')])"
    by (simp add: module_tree_def Let_def)
  with w'(1) show ?thesis by blast
qed

section \<open>Behaviours at the edges\<close>

text \<open>
  A name that is only \<open>src\<close> or \<open>contrib\<close> has no further component and raises, and because the
  names are read before the modules are made no module is made at all.  Of a name with two
  components only the first one is used.  A name with a line feed at its end is admissible.
  When every name was skipped, success is reported.  After a failure the directories of the
  project path that were made stay.
\<close>

lemma name_without_module:
  "snd (run_script sample_script free_os [] [''a'', ''src''] sample_world) = Inr 1 \<and>
   nodes (fst (run_script sample_script free_os [] [''a'', ''src''] sample_world)) = nodes sample_world"
  by code_simp

lemma two_component_name:
  "module_target sample_script [''ns3''] [] [] ''foo/bar'' sample_world =
     (sample_world, Inr (Some ([''ns3'', ''contrib''], ''foo'')))"
  by code_simp

lemma line_feed_in_name: "allowed_name (''a'' @ [CHR 0x0A])"
  by code_simp

lemma success_without_modules:
  "run_script sample_script free_os [] [''a.b''] sample_world =
     (sample_world\<lparr>stdout := ''Skipping a.b: module name may only contain the characters [a-zA-Z0-9_-]'' @ [CHR 0x0A, CHR 0x0A] @
        ''Successfully created new modules'' @ [CHR 0x0A] @
        ''Run '' @ [CHR 0x27] @ ''./ns3 configure'' @ [CHR 0x27] @ '' to include them in the build'' @ [CHR 0x0A]\<rparr>, Inr 0)"
  by code_simp

lemma project_directories_stay:
  "map fst (nodes (fst (run_script sample_script (free_os\<lparr>refuse_create := (\<lambda>q. last q = ''m'')\<rparr>) ''p/q'' [''m''] sample_world))) =
     map fst (nodes sample_world) @ [[''ns3'', ''contrib'', ''p''], [''ns3'', ''contrib'', ''p'', ''q'']]"
  by code_simp

end
