(* ===== verification/Ns3_Utils.thy ===== *)
theory Ns3_Utils
  imports Py_Prelude
begin

text \<open>
  \<open>src/utils.py\<close>: lists and booleans that are read out of Python source files.

  A file is given by \<open>files\<close>, which has the text of every file that exists.  The value of an
  expression is given by \<open>ev\<close>, which stands for \<open>eval\<close>; it may raise.
\<close>

section \<open>Model\<close>

text \<open>\<open>s.split(c, 1)\<close>: the part before the first \<open>c\<close> and, if there is one, the part after it.\<close>

definition split_once :: "char \<Rightarrow> string \<Rightarrow> string \<times> string option" where
  "split_once c s =
     (takeWhile (\<lambda>x. x \<noteq> c) s,
      if c \<in> set s then Some (tl (dropWhile (\<lambda>x. x \<noteq> c) s)) else None)"

definition remove_comment :: "string \<Rightarrow> string" where
  "remove_comment line = (if CHR ''#'' \<in> set line then fst (split_once (CHR ''#'') line) else line)"

text \<open>\<open>eval(s.split('=', 1)[1].strip())\<close>\<close>

definition eval_right_side :: "(string \<Rightarrow> 'a res) \<Rightarrow> string \<Rightarrow> 'a res" where
  "eval_right_side ev s =
     (case snd (split_once (CHR ''='') s) of None \<Rightarrow> Inl IndexError | Some v \<Rightarrow> ev (str_strip v))"

fun find_list :: "(string \<Rightarrow> 'a list res) \<Rightarrow> string \<Rightarrow> string \<Rightarrow> bool \<Rightarrow> string list \<Rightarrow> 'a list res" where
  "find_list ev name list_string multiline [] = Inr []"
| "find_list ev name list_string multiline (l # ls) =
     (let line = remove_comment l; s = list_string @ line
      in if is_substring name line \<or> multiline
         then (if CHR '']'' \<notin> set s then find_list ev name s True ls else eval_right_side ev s)
         else find_list ev name list_string multiline ls)"

definition get_list_from_file ::
  "(string \<Rightarrow> string option) \<Rightarrow> (string \<Rightarrow> 'a list res) \<Rightarrow> string \<Rightarrow> string \<Rightarrow> 'a list res" where
  "get_list_from_file files ev file_path list_name =
     (case files file_path of None \<Rightarrow> Inr [] | Some s \<Rightarrow> find_list ev list_name [] False (readlines s))"

fun find_bool :: "(string \<Rightarrow> bool res) \<Rightarrow> string \<Rightarrow> bool \<Rightarrow> string list \<Rightarrow> bool res" where
  "find_bool ev name missing [] = Inr missing"
| "find_bool ev name missing (l # ls) =
     (let line = remove_comment l
      in if is_substring name line then eval_right_side ev line else find_bool ev name missing ls)"

text \<open>If the file does not exist, the variable \<open>bool_found\<close> has no value.\<close>

definition get_bool_from_file ::
  "(string \<Rightarrow> string option) \<Rightarrow> (string \<Rightarrow> bool res) \<Rightarrow> string \<Rightarrow> string \<Rightarrow> bool \<Rightarrow> bool res" where
  "get_bool_from_file files ev file_path bool_name value_if_missing =
     (case files file_path of
        None \<Rightarrow> Inl UnboundLocalError
      | Some s \<Rightarrow> find_bool ev bool_name value_if_missing (readlines s))"

text \<open>\<open>home\<close> is the value of \<open>os.path.expanduser('~/')\<close>.\<close>

definition read_config_file ::
  "(string \<Rightarrow> string option) \<Rightarrow> (string \<Rightarrow> string list res) \<Rightarrow> (string \<Rightarrow> bool res) \<Rightarrow> string \<Rightarrow>
    (bool \<times> string list \<times> bool \<times> bool) res" where
  "read_config_file files ev evb home =
     (let path = (if files ''.ns3rc'' \<noteq> None then ''.ns3rc'' else home @ ''.ns3rc'')
      in if files path = None then Inr (False, [''all_modules''], False, False)
         else res_bind (get_list_from_file files ev path ''modules_enabled'') (\<lambda>ms.
           let modules_enabled = (if ms = [] then [''all_modules''] else ms) in
           res_bind (get_bool_from_file files evb path ''examples_enabled'' False) (\<lambda>examples_enabled.
           res_bind (get_bool_from_file files evb path ''tests_enabled'' False) (\<lambda>tests_enabled.
           Inr (True, modules_enabled, examples_enabled, tests_enabled)))))"

section \<open>What is found\<close>

lemma split_once_None: "c \<notin> set s \<Longrightarrow> split_once c s = (s, None)"
  by (simp add: split_once_def takeWhile_eq_all_conv [THEN iffD2] Ball_def) (metis takeWhile_eq_all_conv)

lemma split_once_Some: "c \<notin> set u \<Longrightarrow> split_once c (u @ c # v) = (u, Some v)"
  by (simp add: split_once_def takeWhile_append dropWhile_append) 

lemma remove_comment_split: "CHR ''#'' \<notin> set u \<Longrightarrow> remove_comment (u @ CHR ''#'' # v) = u"
  by (simp add: remove_comment_def split_once_Some)

lemma remove_comment_none: "CHR ''#'' \<notin> set u \<Longrightarrow> remove_comment u = u"
  by (simp add: remove_comment_def)

lemma find_list_skip:
  "list_all (\<lambda>l. \<not> is_substring name (remove_comment l)) pre \<Longrightarrow>
   find_list ev name acc False (pre @ ls) = find_list ev name acc False ls"
  by (induction pre) (simp_all add: Let_def)

text \<open>A text without a closing bracket and without comments is collected, line by line.\<close>

lemma find_list_collect:
  assumes "CHR '']'' \<notin> set acc" "CHR '']'' \<notin> set t" "CHR ''#'' \<notin> set t"
  shows "find_list ev name acc True (readlines (t @ CHR '']'' # CHR 0x0A # post)) =
    eval_right_side ev (acc @ t @ [CHR '']'', CHR 0x0A])"
  using assms
proof (induction "length t" arbitrary: t acc rule: less_induct)
  case less
  show ?case
  proof (cases "CHR 0x0A \<in> set t")
    case False
    then have "readlines (t @ CHR '']'' # CHR 0x0A # post) = (t @ [CHR '']'', CHR 0x0A]) # readlines post"
      using readlines_line [of "t @ [CHR '']'']" post] by simp
    then show ?thesis using less.prems by (simp add: Let_def remove_comment_none)
  next
    case True
    then obtain u v where t: "t = u @ CHR 0x0A # v" "CHR 0x0A \<notin> set u" by (meson split_list_first)
    have "readlines (t @ CHR '']'' # CHR 0x0A # post) = (u @ [CHR 0x0A]) # readlines (v @ CHR '']'' # CHR 0x0A # post)"
      using readlines_line [OF t(2)] t(1) by simp
    then show ?thesis using less.hyps [of v "acc @ u @ [CHR 0x0A]"] less.prems t(1)
      by (simp add: Let_def remove_comment_none)
  qed
qed

lemma find_list_start:
  assumes "is_substring name name'" "CHR 0x0A \<notin> set name'"
    "CHR '']'' \<notin> set (name' @ t)" "CHR ''#'' \<notin> set (name' @ t)"
  shows "find_list ev name [] False (readlines (name' @ t @ CHR '']'' # CHR 0x0A # post)) =
    eval_right_side ev (name' @ t @ [CHR '']'', CHR 0x0A])"
proof -
  have sub: "is_substring name (name' @ w)" for w using assms(1) by (metis append.assoc is_substring_iff)
  show ?thesis
  proof (cases "CHR 0x0A \<in> set t")
    case False
    then have "readlines (name' @ t @ CHR '']'' # CHR 0x0A # post) = (name' @ t @ [CHR '']'', CHR 0x0A]) # readlines post"
      using readlines_line [of "name' @ t @ [CHR '']'']" post] assms(2) by simp
    then show ?thesis using assms sub by (simp add: Let_def remove_comment_none)
  next
    case True
    then obtain u v where t: "t = u @ CHR 0x0A # v" "CHR 0x0A \<notin> set u" by (meson split_list_first)
    have "readlines (name' @ t @ CHR '']'' # CHR 0x0A # post) =
        (name' @ u @ [CHR 0x0A]) # readlines (v @ CHR '']'' # CHR 0x0A # post)"
      using readlines_line [of "name' @ u" "v @ CHR '']'' # CHR 0x0A # post"] t assms(2) by simp
    then show ?thesis using find_list_collect [of "name' @ u @ [CHR 0x0A]" v ev name post] assms t(1) sub
      by (simp add: Let_def remove_comment_none)
  qed
qed

lemma readlines_append: "pre = [] \<or> last pre = CHR 0x0A \<Longrightarrow> readlines (pre @ s) = readlines pre @ readlines s"
proof (induction "length pre" arbitrary: pre rule: less_induct)
  case less
  show ?case
  proof (cases "pre = []")
    case False
    then have "CHR 0x0A \<in> set pre" using less.prems by (metis last_in_set)
    then obtain u v where p: "pre = u @ CHR 0x0A # v" "CHR 0x0A \<notin> set u" by (meson split_list_first)
    then have "readlines (v @ s) = readlines v @ readlines s" using less.hyps [of v] less.prems by (cases "v = []") auto
    then show ?thesis using p readlines_line [OF p(2)] by simp
  qed simp
qed

lemma strip_bracketed: "str_strip (CHR '' '' # CHR ''['' # t @ [CHR '']'', CHR 0x0A]) = CHR ''['' # t @ '']''"
  by (simp add: str_strip_def str_strip_chars_def is_space_def)

section \<open>Properties\<close>

text \<open>
  A list that is written in a file, on one line or over several, is found and evaluated as it is
  written: in a file with the lines \<open>pre\<close> that do not mention the name, then \<open>name = [t]\<close>, then anything,
  the result is the value of \<open>[t]\<close>.  Line breaks in \<open>t\<close> are kept.
\<close>

theorem get_list_from_file_finds:
  assumes "files p = Some (pre @ name @ '' = ['' @ t @ '']'' @ [CHR 0x0A] @ post)"
    and "pre = [] \<or> last pre = CHR 0x0A"
    and "list_all (\<lambda>l. \<not> is_substring name (remove_comment l)) (readlines pre)"
    and "CHR ''='' \<notin> set name" and "CHR 0x0A \<notin> set name"
    and "CHR '']'' \<notin> set name \<union> set t" and "CHR ''#'' \<notin> set name \<union> set t"
  shows "get_list_from_file files ev p name = ev (''['' @ t @ '']'')"
proof -
  have "is_substring name (name @ '' = ['')" by (auto simp: is_substring_iff)
  then have "find_list ev name [] False (readlines ((name @ '' = ['') @ t @ CHR '']'' # CHR 0x0A # post)) =
      eval_right_side ev ((name @ '' = ['') @ t @ [CHR '']'', CHR 0x0A])"
    using assms(5-7) by (intro find_list_start) auto
  moreover have "eval_right_side ev ((name @ '' = ['') @ t @ [CHR '']'', CHR 0x0A]) = ev (''['' @ t @ '']'')"
    using split_once_Some [of "CHR ''=''" "name @ '' ''" "CHR '' '' # CHR ''['' # t @ [CHR '']'', CHR 0x0A]"] assms(4)
    by (simp add: eval_right_side_def strip_bracketed)
  ultimately show ?thesis using assms(1)
    by (simp add: get_list_from_file_def readlines_append [OF assms(2)] find_list_skip [OF assms(3)])
qed

definition demo_files :: "string \<Rightarrow> string option" where
  "demo_files p =
     (if p = ''.ns3rc'' then Some (''# modules'' @ [CHR 0x0A] @ ''modules_enabled'' @ '' = ['' @ ''1,'' @ [CHR 0x0A] @ ''2'' @ '']'' @ [CHR 0x0A] @ ''x'')
      else None)"

theorem get_list_from_file_finds_witness:
  "get_list_from_file demo_files (\<lambda>s. Inr [s]) ''.ns3rc'' ''modules_enabled'' = Inr [''[1,'' @ [CHR 0x0A] @ ''2]'']"
proof -
  have 1: "demo_files ''.ns3rc'' = Some ((''# modules'' @ [CHR 0x0A]) @ ''modules_enabled'' @ '' = ['' @ (''1,'' @ [CHR 0x0A] @ ''2'') @
      '']'' @ [CHR 0x0A] @ ''x'')" by (simp add: demo_files_def)
  have 2: "list_all (\<lambda>l. \<not> is_substring ''modules_enabled'' (remove_comment l)) (readlines (''# modules'' @ [CHR 0x0A]))"
    by code_simp
  show ?thesis using get_list_from_file_finds [of demo_files, OF 1, of "\<lambda>s. Inr [s]"] 2 by simp
qed

text \<open>
  Reading the configuration file: with no file \<open>.ns3rc\<close> in the current directory or the home directory
  the defaults are returned; a file in the current directory hides the one in the home directory; and
  if evaluation does not raise, no other error is raised unless a line that mentions one of the three
  names has no equals sign.
\<close>

theorem read_config_file_cases:
  "(files ''.ns3rc'' = None \<longrightarrow> files (home @ ''.ns3rc'') = None \<longrightarrow>
      read_config_file files ev evb home = Inr (False, [''all_modules''], False, False)) \<and>
   (files ''.ns3rc'' \<noteq> None \<longrightarrow> read_config_file files ev evb home = read_config_file (files(home @ ''.ns3rc'' := None, ''.ns3rc'' := files ''.ns3rc'')) ev evb home) \<and>
   (\<forall>e. (\<forall>x. ev x \<noteq> Inl e) \<longrightarrow> (\<forall>x. evb x \<noteq> Inl e) \<longrightarrow> read_config_file files ev evb home = Inl e \<longrightarrow> e = IndexError)"
proof -
  have r: "eval_right_side f s = Inl e \<Longrightarrow> (\<forall>x. f x \<noteq> Inl e) \<Longrightarrow> e = IndexError" for f :: "string \<Rightarrow> 'x res" and s e
    by (auto simp: eval_right_side_def split: option.splits)
  have l: "find_list ev n acc b ls = Inl e \<Longrightarrow> (\<forall>x. ev x \<noteq> Inl e) \<Longrightarrow> e = IndexError" for n acc b ls e
    by (induction ls arbitrary: acc b) (auto simp: Let_def split: if_splits dest: r)
  have b: "find_bool evb n m ls = Inl e \<Longrightarrow> (\<forall>x. evb x \<noteq> Inl e) \<Longrightarrow> e = IndexError" for n m ls e
    by (induction ls) (auto simp: Let_def split: if_splits dest: r)
  show ?thesis
    by (auto simp: read_config_file_def get_list_from_file_def get_bool_from_file_def Let_def res_simps
        split: if_splits option.splits dest: l b)
qed

text \<open>A missing file is an error for a boolean, although a missing list is empty.\<close>

lemma get_bool_missing_file: "files p = None \<Longrightarrow> get_bool_from_file files ev p name v = Inl UnboundLocalError"
  by (simp add: get_bool_from_file_def)

text \<open>A name is also found inside of a longer name.\<close>

lemma get_list_longer_name:
  "get_list_from_file (\<lambda>_. Some ''old_modules = [1]'') (\<lambda>s. Inr [s]) p ''modules'' = Inr [''[1]'']"
  by code_simp

end
