(* ===== verification/Test_Jobs.thy ===== *)
theory Test_Jobs
  imports File_System Ns3_Utils
begin

text \<open>
  \<open>src/test.py\<close>, first part: jobs and where they come from.

  The globals that \<open>read_ns3_config\<close> sets are the record \<open>config\<close>, the command line is the
  record \<open>options\<close>.  What the surrounding system answers (files that exist, results of
  processes, values of conditions) is the record \<open>system\<close>.  Messages of the main thread are the
  list of lines it prints; the verbose messages are left out.
\<close>

section \<open>Paths and patterns\<close>

definition path_join :: "string \<Rightarrow> string \<Rightarrow> string" where
  "path_join a b =
     (if str_startswith b ''/'' then b
      else if a = [] \<or> last a = CHR ''/'' then a @ b else a @ ''/'' @ b)"

definition basename :: "string \<Rightarrow> string" where
  "basename p = last (str_split (CHR ''/'') p)"

fun norm_parts :: "string list \<Rightarrow> string list \<Rightarrow> string list" where
  "norm_parts acc [] = acc"
| "norm_parts acc (c # cs) =
     (if c = ''..'' then norm_parts (butlast acc) cs else norm_parts (acc @ [c]) cs)"

definition abs_parts :: "path \<Rightarrow> string \<Rightarrow> path" where
  "abs_parts dir p =
     norm_parts [] ((if str_startswith p ''/'' then [] else dir) @ path_parts p)"

definition relpath_str :: "path \<Rightarrow> string \<Rightarrow> string \<Rightarrow> string" where
  "relpath_str dir p from = relpath (abs_parts dir p) (abs_parts dir from)"

text \<open>\<open>fnmatch\<close> with \<open>*\<close>, \<open>?\<close> and character classes.\<close>

fun in_class :: "char \<Rightarrow> string \<Rightarrow> bool" where
  "in_class c (a # d # b # rest) =
     (if d = CHR ''-'' then (of_char a \<le> (of_char c :: nat) \<and> of_char c \<le> (of_char b :: nat)) \<or> in_class c rest
      else c = a \<or> in_class c (d # b # rest))"
| "in_class c rest = (c \<in> set rest)"

text \<open>The class after an opening bracket and the rest of the pattern, if it is closed.\<close>

definition class_split :: "string \<Rightarrow> (string \<times> string) option" where
  "class_split p =
     (let neg = (if p \<noteq> [] \<and> hd p = CHR ''!'' then 1 else 0);
          start = (if neg < length p \<and> p ! neg = CHR '']'' then neg + 1 else neg);
          stuff = takeWhile (\<lambda>x. x \<noteq> CHR '']'') (drop start p);
          j = start + length stuff
      in if j < length p then Some (take j p, drop (j + 1) p) else None)"

definition class_match :: "char \<Rightarrow> string \<Rightarrow> bool" where
  "class_match c stuff =
     (if stuff \<noteq> [] \<and> hd stuff = CHR ''!'' then \<not> in_class c (tl stuff) else in_class c stuff)"

lemma class_split_length: "class_split p = Some (s, r) \<Longrightarrow> length r \<le> length p"
  by (auto simp: class_split_def Let_def split: if_splits)

function fnmatch :: "string \<Rightarrow> string \<Rightarrow> bool" where
  "fnmatch [] s = (s = [])"
| "fnmatch (p # ps) s =
     (if p = CHR ''*'' then fnmatch ps s \<or> (if s = [] then False else fnmatch (p # ps) (tl s))
      else if p = CHR ''?'' then s \<noteq> [] \<and> fnmatch ps (tl s)
      else if p = CHR ''['' then
        (case class_split ps of
           None \<Rightarrow> s \<noteq> [] \<and> hd s = p \<and> fnmatch ps (tl s)
         | Some (stuff, rest) \<Rightarrow> s \<noteq> [] \<and> class_match (hd s) stuff \<and> fnmatch rest (tl s))
      else s \<noteq> [] \<and> hd s = p \<and> fnmatch ps (tl s))"
  by pat_completeness auto
termination
  by (relation "measures [\<lambda>(p, s). length p, \<lambda>(p, s). length s]")
    (auto dest: class_split_length)

definition fnmatch_filter :: "string list \<Rightarrow> string \<Rightarrow> string list" where
  "fnmatch_filter names pat = filter (fnmatch pat) names"

section \<open>Configuration, options and jobs\<close>

record config =
  NS3_BASEDIR :: string
  NS3_BUILDDIR :: string
  NS3_MODULE_PATH :: "string list"
  APPNAME :: string
  VERSION :: string
  BUILD_PROFILE :: string
  PYTHON :: "string list"
  EXAMPLE_DIRECTORIES :: "string list"
  NS3_ENABLED_MODULES :: "string list"
  NS3_ENABLED_CONTRIBUTED_MODULES :: "string list"
  ENABLE_EXAMPLES :: bool
  ENABLE_TESTS :: bool
  ENABLE_PYTHON_BINDINGS :: bool
  VALGRIND_FOUND :: bool

record test_options =
  buildpath :: string
  constrain :: string
  duration :: bool
  example :: string
  update_data :: bool
  fullness :: string
  valgrind :: bool
  multiple :: bool
  pyexample :: string
  retain :: bool
  suite :: string
  process_limit :: int
  kinds :: bool
  list_tests :: bool
  no_build :: bool
  text_file :: string
  html_file :: string
  xml_file :: string
  nocolor :: bool

text \<open>The return code of a new job is \<open>False\<close>, which is equal to 0.\<close>

record job =
  is_break :: bool
  is_skip :: bool
  skip_reason :: string
  is_example :: bool
  is_pyexample :: bool
  shell_command :: string
  display_name :: string
  basedir :: string
  tempdir :: string
  job_cwd :: string
  tmp_file_name :: string
  returncode :: int
  elapsed_time :: rat
  build_path :: string

definition new_job :: job where
  "new_job = \<lparr>is_break = False, is_skip = False, skip_reason = [], is_example = False, is_pyexample = False,
     shell_command = [], display_name = [], basedir = [], tempdir = [], job_cwd = [], tmp_file_name = [],
     returncode = 0, elapsed_time = 0, build_path = []\<rparr>"

definition skip_job :: "string \<Rightarrow> job \<Rightarrow> job" where
  "skip_job reason j = j\<lparr>is_skip := True, skip_reason := reason\<rparr>"

section \<open>run\_job\_synchronously\<close>

record proc_result =
  proc_rc :: int
  proc_out :: string
  proc_err :: string
  out_decodable :: bool
  err_decodable :: bool
  proc_time :: rat

record system =
  platform :: string
  getcwd :: path
  exists :: "string \<Rightarrow> bool"
  file_text :: "string \<Rightarrow> string option"
  eval_names :: "string \<Rightarrow> string list res"
  eval_cpp_examples :: "string \<Rightarrow> (string \<times> string \<times> string) list res"
  eval_python_examples :: "string \<Rightarrow> (string \<times> string) list res"
  popen :: "string \<Rightarrow> string \<Rightarrow> proc_result"
  eval_cond :: "string \<Rightarrow> bool res"
  key_order :: "string list \<Rightarrow> string list"

definition job_command :: "config \<Rightarrow> string \<Rightarrow> bool \<Rightarrow> bool \<Rightarrow> string \<Rightarrow> string res" where
  "job_command cfg command grind is_python bpath =
     res_bind
       (if is_python
        then res_bind (py_index (PYTHON cfg) 0) (\<lambda>py. Inr (py @ '' '' @ path_join (NS3_BASEDIR cfg) command))
        else Inr (if bpath \<noteq> [] then path_join bpath command else path_join (NS3_BUILDDIR cfg) command))
       (\<lambda>path_cmd.
        Inr (if grind
             then ''valgrind --suppressions='' @ path_join (NS3_BASEDIR cfg) ''testpy.supp'' @
               '' --leak-check=full --show-reachable=yes --error-exitcode=2 --errors-for-leak-kinds=all '' @ path_cmd
             else path_cmd))"

text \<open>Output that cannot be decoded turns the return code into 1.\<close>

definition run_job_synchronously ::
  "system \<Rightarrow> config \<Rightarrow> string \<Rightarrow> string \<Rightarrow> bool \<Rightarrow> bool \<Rightarrow> string \<Rightarrow> (int \<times> string \<times> string \<times> rat) res" where
  "run_job_synchronously sy cfg command directory grind is_python bpath =
     res_bind (job_command cfg command grind is_python bpath) (\<lambda>cmd.
     let r = popen sy cmd directory
     in Inr (if out_decodable r \<and> err_decodable r then proc_rc r else 1, proc_out r, proc_err r, proc_time r))"

text \<open>What a worker runs for a job.\<close>

definition worker_command :: "test_options \<Rightarrow> job \<Rightarrow> string" where
  "worker_command opt j =
     (if is_example j \<or> is_pyexample j then shell_command j
      else shell_command j @ '' --xml --tempdir='' @ tempdir j @ '' --out='' @ tmp_file_name j @ '' '' @
        (if update_data opt then ''--update-data'' else []))"

definition execute_job :: "system \<Rightarrow> config \<Rightarrow> test_options \<Rightarrow> job \<Rightarrow> (int \<times> string \<times> string \<times> rat) res" where
  "execute_job sy cfg opt j =
     (if is_example j \<or> is_pyexample j
      then run_job_synchronously sy cfg (worker_command opt j) (job_cwd j) (valgrind opt) (is_pyexample j) (build_path j)
      else run_job_synchronously sy cfg (worker_command opt j) (job_cwd j) (valgrind opt) False [])"

section \<open>Examples\<close>

definition profile_suffix :: "config \<Rightarrow> string" where
  "profile_suffix cfg = (if BUILD_PROFILE cfg = ''release'' then [] else ''-'' @ BUILD_PROFILE cfg)"

definition program_name :: "config \<Rightarrow> string \<Rightarrow> string" where
  "program_name cfg name = APPNAME cfg @ VERSION cfg @ ''-'' @ name @ profile_suffix cfg"

record example_lists =
  example_tests :: "(string \<times> string \<times> string \<times> string) list"
  example_names_original :: "string list"
  python_tests :: "(string \<times> string) list"

definition with_args :: "string \<Rightarrow> string option \<Rightarrow> string" where
  "with_args p args = (case args of None \<Rightarrow> p | Some a \<Rightarrow> p @ '' '' @ a)"

definition add_cpp_example ::
  "system \<Rightarrow> config \<Rightarrow> string \<Rightarrow> string \<times> string \<times> string \<Rightarrow> example_lists \<Rightarrow> example_lists" where
  "add_cpp_example sy cfg cpp_executable_dir entry ls =
     (case entry of (original, do_run, do_valgrind_run) \<Rightarrow>
      case split_once (CHR '' '') original of (name, args) \<Rightarrow>
      let example_path = path_join cpp_executable_dir (program_name cfg name);
          example_name = path_join (relpath_str (getcwd sy) cpp_executable_dir (NS3_BUILDDIR cfg)) name
      in if exists sy example_path
         then ls\<lparr>example_tests := example_tests ls @
                   [(with_args example_name args, with_args example_path args, do_run, do_valgrind_run)],
                 example_names_original := example_names_original ls @ [original]\<rparr>
         else ls)"

definition add_python_example ::
  "system \<Rightarrow> string \<Rightarrow> string \<times> string \<Rightarrow> example_lists \<Rightarrow> example_lists" where
  "add_python_example sy python_script_dir entry ls =
     (case entry of (original, do_run) \<Rightarrow>
      case split_once (CHR '' '') original of (name, args) \<Rightarrow>
      let example_path = path_join python_script_dir name
      in if exists sy example_path
         then ls\<lparr>python_tests := python_tests ls @ [(with_args example_path args, do_run)]\<rparr> else ls)"

definition parse_examples_to_run_file ::
  "system \<Rightarrow> config \<Rightarrow> string \<Rightarrow> string \<Rightarrow> string \<Rightarrow> example_lists \<Rightarrow> example_lists res" where
  "parse_examples_to_run_file sy cfg examples_to_run_path cpp_executable_dir python_script_dir ls =
     (if exists sy examples_to_run_path
      then res_bind (get_list_from_file (file_text sy) (eval_cpp_examples sy) examples_to_run_path ''cpp_examples'') (\<lambda>cpp.
        let ls1 = fold (add_cpp_example sy cfg cpp_executable_dir) cpp ls in
        res_bind (get_list_from_file (file_text sy) (eval_python_examples sy) examples_to_run_path ''python_examples'') (\<lambda>py.
        Inr (fold (add_python_example sy python_script_dir) py ls1)))
      else Inr ls)"

definition collect_examples :: "system \<Rightarrow> config \<Rightarrow> example_lists res" where
  "collect_examples sy cfg =
     (let dir_step = (\<lambda>directory.
            let d = path_join ''examples'' directory
            in parse_examples_to_run_file sy cfg (path_join d ''examples-to-run.py'')
                 (path_join (NS3_BUILDDIR cfg) d) d);
          module_step = (\<lambda>top module.
            let m = path_join top (drop 4 module); d = path_join m ''examples''
            in parse_examples_to_run_file sy cfg (path_join (path_join m ''test'') ''examples-to-run.py'')
                 (path_join (NS3_BUILDDIR cfg) d) d)
      in res_bind (res_fold dir_step (EXAMPLE_DIRECTORIES cfg)
                    \<lparr>example_tests = [], example_names_original = [], python_tests = []\<rparr>) (\<lambda>l1.
         res_bind (res_fold (module_step ''src'') (NS3_ENABLED_MODULES cfg) l1) (\<lambda>l2.
         res_fold (module_step ''contrib'') (NS3_ENABLED_CONTRIBUTED_MODULES cfg) l2)))"

section \<open>Selection of the test suites\<close>

definition newline :: char where
  "newline = CHR 0x0A"

text \<open>One call of the test runner for a list of names; undecodable output raises.\<close>

definition runner_list :: "system \<Rightarrow> config \<Rightarrow> string \<Rightarrow> string res" where
  "runner_list sy cfg args =
     res_bind (job_command cfg (path_join ''utils'' (program_name cfg ''test-runner'' @ args)) False False []) (\<lambda>cmd.
     let r = popen sy cmd (path_str (getcwd sy))
     in if out_decodable r then Inr (proc_out r) else Inl (ValueError ''invalid utf-8''))"

definition select_suites :: "system \<Rightarrow> config \<Rightarrow> test_options \<Rightarrow> string list res" where
  "select_suites sy cfg opt =
     res_bind
       (if suite opt \<noteq> []
        then res_bind (runner_list sy cfg '' --print-test-name-list'') (\<lambda>out.
          let suites_found = fnmatch_filter (str_split newline out) (suite opt)
          in if suites_found = [] then Inl (SystemExit 2)
             else Inr (str_join [newline] suites_found, length suites_found = 1))
        else if example opt = [] \<and> pyexample opt = []
        then res_bind (runner_list sy cfg ('' --print-test-name-list'' @
            (if constrain opt \<noteq> [] then '' --test-type='' @ constrain opt else []))) (\<lambda>out. Inr (out, False))
        else Inr ([], False))
       (\<lambda>(suites, single_suite).
        let suite_list = str_split newline suites
        in if \<not> single_suite \<and> constrain opt \<noteq> ''performance''
           then res_bind (runner_list sy cfg '' --print-test-name-list --test-type=performance'') (\<lambda>out.
             Inr (fold (\<lambda>t l. if t \<in> set l then remove1 t l else l) (str_split newline out) suite_list))
           else Inr suite_list)"

definition core_valgrind_skip_tests :: "string list" where
  "core_valgrind_skip_tests =
     [''routing-click'', ''lte-rr-ff-mac-scheduler'', ''lte-tdmt-ff-mac-scheduler'', ''lte-fdmt-ff-mac-scheduler'',
      ''lte-pf-ff-mac-scheduler'', ''lte-tta-ff-mac-scheduler'', ''lte-fdbet-ff-mac-scheduler'',
      ''lte-ttbet-ff-mac-scheduler'', ''lte-fdtbfq-ff-mac-scheduler'', ''lte-tdtbfq-ff-mac-scheduler'',
      ''lte-pss-ff-mac-scheduler'']"

definition ascii_upper :: "string \<Rightarrow> string" where
  "ascii_upper s = map (\<lambda>c. if 97 \<le> (of_char c :: nat) \<and> (of_char c :: nat) \<le> 122
     then char_of (of_char c - 32 :: nat) else c) s"

definition suite_job :: "system \<Rightarrow> config \<Rightarrow> test_options \<Rightarrow> string \<Rightarrow> string \<Rightarrow> job" where
  "suite_job sy cfg opt outdir test =
     (let cwd = path_str (getcwd sy);
          multiple_arg = (if multiple opt then [] else '' --stop-on-failure'');
          fullness_arg = (if fullness opt \<noteq> [] then '' --fullness='' @ ascii_upper (fullness opt) else '' --fullness=QUICK'');
          j = new_job\<lparr>display_name := test, tmp_file_name := path_join outdir (test @ ''.xml''), job_cwd := cwd,
                basedir := cwd, tempdir := outdir,
                shell_command := path_join ''utils'' (program_name cfg ''test-runner'' @ '' --test-name='' @ test @
                  multiple_arg @ fullness_arg)\<rparr>
      in if valgrind opt \<and> test \<in> set core_valgrind_skip_tests then skip_job ''crashes valgrind'' j else j)"

definition suite_jobs :: "system \<Rightarrow> config \<Rightarrow> test_options \<Rightarrow> string \<Rightarrow> string list \<Rightarrow> job list" where
  "suite_jobs sy cfg opt outdir suite_list =
     map (suite_job sy cfg opt outdir) (filter (\<lambda>t. t \<noteq> []) (map str_strip suite_list))"

section \<open>Example jobs\<close>

definition example_job :: "system \<Rightarrow> string \<Rightarrow> string \<Rightarrow> string \<Rightarrow> string \<Rightarrow> job" where
  "example_job sy outdir name command bpath =
     new_job\<lparr>is_example := True, display_name := name, job_cwd := outdir, basedir := path_str (getcwd sy),
       tempdir := outdir, shell_command := command, build_path := bpath\<rparr>"

definition pyexample_job :: "system \<Rightarrow> string \<Rightarrow> string \<Rightarrow> job" where
  "pyexample_job sy outdir test =
     new_job\<lparr>is_pyexample := True, display_name := test, job_cwd := outdir, basedir := path_str (getcwd sy),
       tempdir := outdir, shell_command := test\<rparr>"

definition runnable_programs :: "string list \<Rightarrow> (string, string) dict" where
  "runnable_programs programs = fold (\<lambda>p. dict_set (basename p) p) programs []"

definition cpp_example_jobs ::
  "system \<Rightarrow> test_options \<Rightarrow> string \<Rightarrow> (string, string) dict \<Rightarrow> (string \<times> string \<times> string \<times> string) \<Rightarrow> job list res" where
  "cpp_example_jobs sy opt outdir programs ex =
     (case ex of (name, test, do_run, do_valgrind_run) \<Rightarrow>
      if dict_has programs (basename (fst (split_once (CHR '' '') test)))
      then res_bind (eval_cond sy do_run) (\<lambda>run.
        if run
        then (let j = example_job sy outdir name test (buildpath opt)
              in if valgrind opt
                 then res_bind (eval_cond sy do_valgrind_run) (\<lambda>g.
                   Inr [if \<not> g then skip_job ''skip in valgrind runs'' j else j])
                 else Inr [j])
        else Inr [])
      else Inr [])"

definition python_example_jobs ::
  "system \<Rightarrow> config \<Rightarrow> test_options \<Rightarrow> string \<Rightarrow> string list \<Rightarrow> string \<times> string \<Rightarrow> job list res" where
  "python_example_jobs sy cfg opt outdir scripts ex =
     (case ex of (test, do_run) \<Rightarrow>
      if basename (fst (split_once (CHR '' '') test)) \<in> set scripts
      then res_bind (eval_cond sy do_run) (\<lambda>run.
        if run
        then (let j = pyexample_job sy outdir test;
                  j1 = (if valgrind opt then skip_job ''skip in valgrind runs'' j else j)
              in Inr [if \<not> ENABLE_PYTHON_BINDINGS cfg then skip_job ''requires Python bindings'' j1 else j1])
        else Inr [])
      else Inr [])"

definition gather :: "('a \<Rightarrow> job list res) \<Rightarrow> 'a list \<Rightarrow> job list res" where
  "gather f xs = res_fold (\<lambda>x acc. res_bind (f x) (\<lambda>js. Inr (acc @ js))) xs []"

definition all_requested :: "test_options \<Rightarrow> bool" where
  "all_requested opt \<longleftrightarrow> suite opt = [] \<and> example opt = [] \<and> pyexample opt = []"

text \<open>The jobs for C++ examples, with the messages that are printed.\<close>

definition select_examples ::
  "system \<Rightarrow> config \<Rightarrow> test_options \<Rightarrow> string \<Rightarrow> example_lists \<Rightarrow> (string, string) dict \<Rightarrow> (string list \<times> job list) res" where
  "select_examples sy cfg opt outdir ls programs =
     (if all_requested opt
      then (if (constrain opt = [] \<or> constrain opt = ''example'') \<and> ENABLE_EXAMPLES cfg
            then res_bind (gather (cpp_example_jobs sy opt outdir programs) (example_tests ls)) (\<lambda>js. Inr ([], js))
            else Inr ([], []))
      else if example opt \<noteq> []
      then (let keys = fnmatch_filter (key_order sy (map fst programs)) (program_name cfg (example opt))
            in if keys = [] then Inr ([''No example matching the name '' @ example opt], [])
               else res_bind (gather (\<lambda>k. res_bind (dict_get programs k) (\<lambda>p.
                      let a = path_str (abs_parts (getcwd sy) p) in Inr [example_job sy outdir a a (buildpath opt)])) keys)
                    (\<lambda>js. Inr ([], js)))
      else Inr ([], []))"

definition select_pyexamples ::
  "system \<Rightarrow> config \<Rightarrow> test_options \<Rightarrow> string \<Rightarrow> example_lists \<Rightarrow> string list \<Rightarrow> (string list \<times> job list) res" where
  "select_pyexamples sy cfg opt outdir ls scripts =
     (if all_requested opt
      then (if (constrain opt = [] \<or> constrain opt = ''pyexample'') \<and> ENABLE_EXAMPLES cfg
            then res_bind (gather (python_example_jobs sy cfg opt outdir scripts) (python_tests ls)) (\<lambda>js. Inr ([], js))
            else Inr ([], []))
      else if pyexample opt \<noteq> []
      then (if basename (pyexample opt) \<notin> set scripts
            then Inr ([''Example '' @ basename (pyexample opt) @ '' is not runnable.''], [])
            else Inr ([], [pyexample_job sy outdir (pyexample opt)]))
      else Inr ([], []))"

definition lock_filename :: "system \<Rightarrow> string" where
  "lock_filename sy = ''.lock-ns3_'' @ platform sy @ ''_build''"

text \<open>The programs and scripts of the build status file.\<close>

definition read_build_status :: "system \<Rightarrow> (string list \<times> string list) res" where
  "read_build_status sy =
     (if exists sy (lock_filename sy)
      then res_bind (get_list_from_file (file_text sy) (eval_names sy) (lock_filename sy) ''ns3_runnable_programs'') (\<lambda>programs.
        res_bind (get_list_from_file (file_text sy) (eval_names sy) (lock_filename sy) ''ns3_runnable_scripts'') (\<lambda>scripts.
        Inr (programs, map basename scripts)))
      else Inl (SystemExit 2))"

text \<open>All jobs in the order in which they are put into the queue.\<close>

definition dispatch_jobs ::
  "system \<Rightarrow> config \<Rightarrow> test_options \<Rightarrow> (string, string) dict \<Rightarrow> string list \<Rightarrow> example_lists \<Rightarrow> string \<Rightarrow>
    (string list \<times> job list) res" where
  "dispatch_jobs sy cfg opt programs scripts ls outdir =
     res_bind (select_suites sy cfg opt) (\<lambda>suite_list.
     res_bind (select_examples sy cfg opt outdir ls programs) (\<lambda>(m1, ex).
     res_bind (select_pyexamples sy cfg opt outdir ls scripts) (\<lambda>(m2, py).
     Inr (m1 @ m2, suite_jobs sy cfg opt outdir suite_list @ ex @ py))))"

end
