(* ===== verification/Transition.thy ===== *)
theory Transition
  imports Main
begin

text \<open>
  Contracts of step relations.  \<open>invariant_system\<close> is a step relation with a start state and a property that
  every step keeps; in \<open>ranked_system\<close> every step also lowers a rank.
\<close>

locale invariant_system =
  fixes step :: "'s \<Rightarrow> 's \<Rightarrow> bool" and start :: 's and inv :: "'s \<Rightarrow> bool"
  assumes inv_start: "inv start"
    and inv_step: "step s t \<Longrightarrow> inv s \<Longrightarrow> inv t"
begin

lemma inv_run: "step\<^sup>*\<^sup>* s t \<Longrightarrow> inv s \<Longrightarrow> inv t"
  by (induction rule: rtranclp_induct) (auto intro: inv_step)

lemma inv_reachable: "step\<^sup>*\<^sup>* start s \<Longrightarrow> inv s"
  by (rule inv_run [OF _ inv_start])

end

text \<open>The runs of a ranked system are finite, and they can be continued to an end.\<close>

locale ranked_system = invariant_system step start inv
  for step :: "'s \<Rightarrow> 's \<Rightarrow> bool" and start :: 's and inv :: "'s \<Rightarrow> bool" +
  fixes rank :: "'s \<Rightarrow> nat"
  assumes rank_step: "step s t \<Longrightarrow> rank t < rank s"
begin

lemma rank_run: "(step ^^ m) s t \<Longrightarrow> m + rank t \<le> rank s"
proof (induction m arbitrary: s)
  case (Suc m)
  from Suc.prems obtain u where "step s u" "(step ^^ m) u t" by (rule relpowp_Suc_E2)
  then show ?case using Suc.IH [of u] rank_step by fastforce
qed simp

lemma run_to_end: "\<exists>t. step\<^sup>*\<^sup>* s t \<and> (\<forall>u. \<not> step t u)"
proof (induction "rank s" arbitrary: s rule: less_induct)
  case less
  show ?case
  proof (cases "\<exists>u. step s u")
    case True
    then obtain u where u: "step s u" by blast
    then obtain t where "step\<^sup>*\<^sup>* u t" "\<forall>v. \<not> step t v" using less [OF rank_step] by blast
    then show ?thesis using u by (meson converse_rtranclp_into_rtranclp)
  qed blast
qed

end

end
