(* ===== verification/Test_Pool.thy ===== *)
theory Test_Pool
  imports Test_Jobs Transition
begin

text \<open>
  \<open>src/test.py\<close>, second part: the worker threads.

  The main thread starts the workers, puts the jobs and then one stop job per worker into the
  input queue, and then takes as many results from the output queue as it dispatched jobs.  The
  workers take jobs, skip or run them, and put them into the output queue; the handler of the
  interrupt signal sets a flag that they read.  \<open>pool_step\<close> is one atomic action of one of them,
  in any order.  The argument \<open>code\<close> gives the return code and the elapsed time of a job, or \<open>None\<close>
  if running it raises; then the thread dies and its job is never put into the output queue.
\<close>

section \<open>Model\<close>

datatype worker = Idle | Holding job | Running job | Dead job | Exited

record pool =
  to_put :: "job list"
  input_queue :: "job list"
  workers :: "worker list"
  output_queue :: "job list"
  collected :: "job list"
  expected :: nat
  thread_exit :: bool

definition stop_job :: job where
  "stop_job = new_job\<lparr>is_break := True\<rparr>"

text \<open>The state after the workers have been started; \<open>n\<close> is the number of workers.\<close>

definition start_pool :: "job list \<Rightarrow> nat \<Rightarrow> pool" where
  "start_pool js n =
     \<lparr>to_put = js @ replicate n stop_job, input_queue = [], workers = replicate n Idle, output_queue = [],
      collected = [], expected = length js, thread_exit = False\<rparr>"

definition set_worker :: "nat \<Rightarrow> worker \<Rightarrow> pool \<Rightarrow> pool" where
  "set_worker i v s = s\<lparr>workers := (workers s)[i := v]\<rparr>"

definition put_out :: "job \<Rightarrow> pool \<Rightarrow> pool" where
  "put_out j s = s\<lparr>output_queue := output_queue s @ [j]\<rparr>"

text \<open>What a worker does with a job it has taken.\<close>

definition check_job :: "nat \<Rightarrow> job \<Rightarrow> pool \<Rightarrow> pool" where
  "check_job i j s =
     (if is_break j then set_worker i Exited s
      else if thread_exit s then set_worker i Idle (put_out (j\<lparr>is_break := True\<rparr>) s)
      else if is_skip j then set_worker i Idle (put_out j s)
      else set_worker i (Running j) s)"

type_synonym job_code = "job \<Rightarrow> (int \<times> rat) option"

inductive pool_step :: "job_code \<Rightarrow> pool \<Rightarrow> pool \<Rightarrow> bool" for code :: job_code where
  dispatch: "to_put s = j # js \<Longrightarrow> pool_step code s (s\<lparr>to_put := js, input_queue := input_queue s @ [j]\<rparr>)"
| get: "i < length (workers s) \<Longrightarrow> workers s ! i = Idle \<Longrightarrow> input_queue s = j # q \<Longrightarrow>
    pool_step code s (set_worker i (Holding j) (s\<lparr>input_queue := q\<rparr>))"
| check: "i < length (workers s) \<Longrightarrow> workers s ! i = Holding j \<Longrightarrow> pool_step code s (check_job i j s)"
| finish: "i < length (workers s) \<Longrightarrow> workers s ! i = Running j \<Longrightarrow> code j = Some (rc, t) \<Longrightarrow>
    pool_step code s (set_worker i Idle (put_out (j\<lparr>returncode := rc, elapsed_time := t\<rparr>) s))"
| die: "i < length (workers s) \<Longrightarrow> workers s ! i = Running j \<Longrightarrow> code j = None \<Longrightarrow>
    pool_step code s (set_worker i (Dead j) s)"
| collect: "to_put s = [] \<Longrightarrow> length (collected s) < expected s \<Longrightarrow> output_queue s = j # q \<Longrightarrow>
    pool_step code s (s\<lparr>output_queue := q, collected := collected s @ [j]\<rparr>)"
| interrupt: "\<not> thread_exit s \<Longrightarrow> pool_step code s (s\<lparr>thread_exit := True\<rparr>)"

inductive_cases pool_stepE: "pool_step code s t"

definition pool_reachable :: "job_code \<Rightarrow> job list \<Rightarrow> nat \<Rightarrow> pool \<Rightarrow> bool" where
  "pool_reachable code js n s \<longleftrightarrow> (pool_step code)\<^sup>*\<^sup>* (start_pool js n) s"

text \<open>Nothing can happen any more, except for an interrupt.\<close>

definition pool_final :: "job_code \<Rightarrow> pool \<Rightarrow> bool" where
  "pool_final code s \<longleftrightarrow> (\<forall>t. pool_step code s t \<longrightarrow> \<not> thread_exit s \<and> t = s\<lparr>thread_exit := True\<rparr>)"

section \<open>Termination\<close>

fun worker_weight :: "worker \<Rightarrow> nat" where
  "worker_weight Idle = 0"
| "worker_weight (Holding j) = 3"
| "worker_weight (Running j) = 2"
| "worker_weight (Dead j) = 0"
| "worker_weight Exited = 0"

definition pool_weight :: "pool \<Rightarrow> nat" where
  "pool_weight s = 5 * length (to_put s) + 4 * length (input_queue s) + sum_list (map worker_weight (workers s)) +
     length (output_queue s) + (if thread_exit s then 0 else 1)"

lemma sum_list_update_add:
  fixes f :: "'a \<Rightarrow> 'b :: comm_monoid_add"
  shows "i < length ws \<Longrightarrow> sum_list (map f (ws[i := v])) + f (ws ! i) = sum_list (map f ws) + f v"
proof (induction ws arbitrary: i)
  case (Cons w ws)
  show ?case
  proof (cases i)
    case (Suc k)
    with Cons.IH [of k] Cons.prems show ?thesis by (simp add: add.assoc)
  qed (simp add: ac_simps)
qed simp

lemma pool_step_weight: "pool_step code s t \<Longrightarrow> pool_weight t < pool_weight s"
proof (induction rule: pool_step.induct)
  case (get i s j q)
  then show ?case using sum_list_update_add [of i "workers s" worker_weight "Holding j"]
    by (simp add: pool_weight_def set_worker_def)
next
  case (check i s j)
  then show ?case
    using sum_list_update_add [of i "workers s" worker_weight Exited] sum_list_update_add [of i "workers s" worker_weight Idle]
      sum_list_update_add [of i "workers s" worker_weight "Running j"]
    by (simp add: pool_weight_def check_job_def set_worker_def put_out_def)
next
  case (finish i s j rc t)
  then show ?case using sum_list_update_add [of i "workers s" worker_weight Idle]
    by (simp add: pool_weight_def set_worker_def put_out_def)
next
  case (die i s j)
  then show ?case using sum_list_update_add [of i "workers s" worker_weight "Dead j"]
    by (simp add: pool_weight_def set_worker_def)
qed (simp_all add: pool_weight_def)

section \<open>The invariant\<close>

text \<open>A job as it was dispatched, whatever a worker has recorded in it.\<close>

definition core :: "job \<Rightarrow> job" where
  "core j = j\<lparr>is_break := False, returncode := 0, elapsed_time := 0\<rparr>"

definition fresh :: "job \<Rightarrow> bool" where
  "fresh j \<longleftrightarrow> core j = j"

fun real_held :: "worker \<Rightarrow> job multiset" where
  "real_held (Holding j) = (if is_break j then {#} else {#j#})"
| "real_held (Running j) = {#j#}"
| "real_held (Dead j) = {#j#}"
| "real_held _ = {#}"

fun token_of :: "worker \<Rightarrow> nat" where
  "token_of Exited = 1"
| "token_of (Holding j) = (if is_break j then 1 else 0)"
| "token_of _ = 0"

fun worker_ok :: "job_code \<Rightarrow> worker \<Rightarrow> bool" where
  "worker_ok code (Holding j) \<longleftrightarrow> j = stop_job \<or> fresh j"
| "worker_ok code (Running j) \<longleftrightarrow> fresh j \<and> \<not> is_skip j"
| "worker_ok code (Dead j) \<longleftrightarrow> fresh j \<and> \<not> is_skip j \<and> code j = None"
| "worker_ok code _ \<longleftrightarrow> True"

text \<open>What becomes of a job when there is no interrupt.\<close>

definition run_one :: "job_code \<Rightarrow> job \<Rightarrow> job option" where
  "run_one code j =
     (if is_skip j then Some j else map_option (\<lambda>(rc, t). j\<lparr>returncode := rc, elapsed_time := t\<rparr>) (code j))"

text \<open>A job in the output queue is interrupted, or it is the result of its dispatched form.\<close>

definition result_ok :: "job_code \<Rightarrow> bool \<Rightarrow> job \<Rightarrow> bool" where
  "result_ok code interrupted j \<longleftrightarrow> (if is_break j then interrupted else run_one code (core j) = Some j)"

definition tokens :: "pool \<Rightarrow> nat" where
  "tokens s = sum_list (map token_of (workers s))"

definition held :: "pool \<Rightarrow> job multiset" where
  "held s = sum_list (map real_held (workers s))"

definition pool_inv :: "job_code \<Rightarrow> job list \<Rightarrow> nat \<Rightarrow> pool \<Rightarrow> bool" where
  "pool_inv code js n s \<longleftrightarrow>
     length (workers s) = n \<and> expected s = length js \<and> length (collected s) \<le> length js \<and>
     (\<forall>w\<in>set (workers s). worker_ok code w) \<and>
     (\<forall>j\<in>set (output_queue s) \<union> set (collected s). result_ok code (thread_exit s) j) \<and>
     (\<exists>rest k. input_queue s @ to_put s = rest @ replicate k stop_job \<and> list_all fresh rest \<and>
        k + tokens s = n \<and> (0 < tokens s \<longrightarrow> rest = []) \<and>
        image_mset core (mset rest + held s + mset (output_queue s) + mset (collected s)) = mset js)"

lemma fresh_not_break: "fresh j \<Longrightarrow> \<not> is_break j"
  by (metis core_def fresh_def job.select_convs(1) job.surjective job.update_convs(1,12,13))

lemma stop_job_break [simp]: "is_break stop_job"
  by (simp add: stop_job_def)

lemma core_simps [simp]:
  "core (j\<lparr>is_break := b\<rparr>) = core j"
  "core (j\<lparr>returncode := r, elapsed_time := t\<rparr>) = core j"
  by (simp_all add: core_def)

lemma start_pool_inv:
  assumes "list_all fresh js"
  shows "pool_inv code js n (start_pool js n)"
proof -
  have "sum_list (map token_of (replicate n Idle)) = 0" "sum_list (map real_held (replicate n Idle)) = {#}"
    by (induction n) simp_all
  moreover have "image_mset core (mset js) = mset js"
    using assms by (induction js) (simp_all add: fresh_def)
  ultimately show ?thesis
    using assms by (auto simp: pool_inv_def start_pool_def tokens_def held_def sum_list_replicate intro!: exI [of _ js])
qed

lemma set_worker_sums:
  assumes "i < length (workers s)"
  shows "tokens (set_worker i v s) + token_of (workers s ! i) = tokens s + token_of v"
    and "held (set_worker i v s) + real_held (workers s ! i) = held s + real_held v"
  using sum_list_update_add [OF assms, of token_of v] sum_list_update_add [OF assms, of real_held v]
  by (simp_all add: tokens_def held_def set_worker_def)

lemma pool_fields [simp]:
  "workers (set_worker i v s) = (workers s)[i := v]" "to_put (set_worker i v s) = to_put s"
  "input_queue (set_worker i v s) = input_queue s" "output_queue (set_worker i v s) = output_queue s"
  "collected (set_worker i v s) = collected s" "expected (set_worker i v s) = expected s"
  "thread_exit (set_worker i v s) = thread_exit s"
  "workers (put_out j s) = workers s" "to_put (put_out j s) = to_put s"
  "input_queue (put_out j s) = input_queue s" "output_queue (put_out j s) = output_queue s @ [j]"
  "collected (put_out j s) = collected s" "expected (put_out j s) = expected s"
  "thread_exit (put_out j s) = thread_exit s"
  "tokens (put_out j s) = tokens s" "held (put_out j s) = held s"
  by (simp_all add: set_worker_def put_out_def tokens_def held_def)

lemma pool_sums_frame [simp]:
  "tokens (s\<lparr>to_put := js\<rparr>) = tokens s" "held (s\<lparr>to_put := js\<rparr>) = held s"
  "tokens (s\<lparr>input_queue := q\<rparr>) = tokens s" "held (s\<lparr>input_queue := q\<rparr>) = held s"
  "tokens (s\<lparr>to_put := js, input_queue := q\<rparr>) = tokens s" "held (s\<lparr>to_put := js, input_queue := q\<rparr>) = held s"
  "tokens (s\<lparr>output_queue := q, collected := c\<rparr>) = tokens s" "held (s\<lparr>output_queue := q, collected := c\<rparr>) = held s"
  "tokens (s\<lparr>thread_exit := b\<rparr>) = tokens s" "held (s\<lparr>thread_exit := b\<rparr>) = held s"
  by (simp_all add: tokens_def held_def)

lemma worker_ok_update: "\<forall>w\<in>set ws. worker_ok code w \<Longrightarrow> worker_ok code v \<Longrightarrow> \<forall>w\<in>set (ws[i := v]). worker_ok code w"
  by (metis insertE set_update_subset_insert subsetD)

text \<open>A worker takes a job: either the next real job or, when there is none, a stop job.\<close>

lemma pool_inv_get:
  assumes inv: "pool_inv code js n s" and i: "i < length (workers s)" "workers s ! i = Idle" "input_queue s = j # q"
  shows "pool_inv code js n (set_worker i (Holding j) (s\<lparr>input_queue := q\<rparr>))"
proof -
  let ?s = "set_worker i (Holding j) (s\<lparr>input_queue := q\<rparr>)"
  have sums: "tokens ?s = tokens s + token_of (Holding j)" "held ?s = held s + real_held (Holding j)"
    using set_worker_sums [of i "s\<lparr>input_queue := q\<rparr>" "Holding j"] i by simp_all
  obtain rest k where r: "input_queue s @ to_put s = rest @ replicate k stop_job" "list_all fresh rest"
      "k + tokens s = n" "0 < tokens s \<longrightarrow> rest = []"
      "image_mset core (mset rest + held s + mset (output_queue s) + mset (collected s)) = mset js"
    using inv by (auto simp: pool_inv_def)
  have "\<exists>rest k. q @ to_put s = rest @ replicate k stop_job \<and> list_all fresh rest \<and>
      k + tokens ?s = n \<and> (0 < tokens ?s \<longrightarrow> rest = []) \<and>
      image_mset core (mset rest + held ?s + mset (output_queue s) + mset (collected s)) = mset js \<and>
      (j = stop_job \<or> fresh j)"
  proof (cases rest)
    case Nil
    then obtain k' where k: "k = Suc k'" "j = stop_job" "q @ to_put s = replicate k' stop_job"
      using r(1) i(3) by (cases k) auto
    then show ?thesis using r Nil sums by (intro exI [of _ "[]"] exI [of _ k']) auto
  next
    case (Cons x xs)
    then have x: "j = x" "q @ to_put s = xs @ replicate k stop_job" "fresh j" using r(1,2) i(3) by auto
    then show ?thesis using r Cons sums fresh_not_break [OF x(3)]
      by (intro exI [of _ xs] exI [of _ k]) (auto simp: ac_simps)
  qed
  then show ?thesis using inv i worker_ok_update [of "workers s" code "Holding j" i]
    unfolding pool_inv_def by auto
qed

text \<open>A worker gives a job back.\<close>

lemma pool_inv_return:
  assumes inv: "pool_inv code js n s" and i: "i < length (workers s)"
    and w: "real_held (workers s ! i) = {#j#}" "token_of (workers s ! i) = 0"
    and r: "core r = core j" "result_ok code (thread_exit s) r"
  shows "pool_inv code js n (set_worker i Idle (put_out r s))"
proof -
  let ?s = "set_worker i Idle (put_out r s)"
  have sums: "tokens ?s = tokens s" "held ?s + {#j#} = held s"
    using set_worker_sums [of i "put_out r s" Idle] i w by simp_all
  obtain rest k where b: "input_queue s @ to_put s = rest @ replicate k stop_job" "list_all fresh rest"
      "k + tokens s = n" "0 < tokens s \<longrightarrow> rest = []"
      "image_mset core (mset rest + held s + mset (output_queue s) + mset (collected s)) = mset js"
    using inv by (auto simp: pool_inv_def)
  have "image_mset core (mset rest + held ?s + mset (output_queue ?s) + mset (collected ?s)) = mset js"
    unfolding b(5) [symmetric] sums(2) [symmetric] by (simp add: r(1))
  then show ?thesis using inv i r(2) b(1-4) sums(1) worker_ok_update [of "workers s" code Idle i]
    unfolding pool_inv_def by (intro conjI exI [of _ rest] exI [of _ k]) auto
qed

text \<open>A worker changes its state and keeps its job.\<close>

lemma pool_inv_keep:
  assumes "pool_inv code js n s" and "i < length (workers s)" and "worker_ok code v"
    and "real_held v = real_held (workers s ! i)" and "token_of v = token_of (workers s ! i)"
  shows "pool_inv code js n (set_worker i v s)"
proof -
  have "tokens (set_worker i v s) = tokens s" "held (set_worker i v s) = held s"
    using set_worker_sums [OF assms(2), of v] assms(4,5) by simp_all
  then show ?thesis using assms(1,2) worker_ok_update [of "workers s" code v i] assms(3)
    unfolding pool_inv_def by simp
qed

lemma fresh_fields: "fresh j \<Longrightarrow> returncode j = 0 \<and> \<not> is_break j \<and> core j = j"
  using fresh_not_break by (metis core_def fresh_def job.select_convs(12) job.surjective job.update_convs(1,12,13))

lemma pool_inv_check:
  assumes inv: "pool_inv code js n s" and i: "i < length (workers s)" "workers s ! i = Holding j"
  shows "pool_inv code js n (check_job i j s)"
proof -
  have ok: "j = stop_job \<or> fresh j" using inv i nth_mem [OF i(1)] unfolding pool_inv_def by fastforce
  show ?thesis
  proof (cases "is_break j")
    case True
    then show ?thesis using i by (auto simp: check_job_def intro!: pool_inv_keep [OF inv])
  next
    case False
    then have f: "fresh j" using ok by auto
    then have r: "pool_inv code js n (set_worker i Idle (put_out j' s))"
      if "core j' = core j" "result_ok code (thread_exit s) j'" for j'
      using that False i by (intro pool_inv_return [OF inv, of i j]) auto
    show ?thesis using False i f fresh_fields [OF f]
      by (auto simp: check_job_def result_ok_def run_one_def intro!: r pool_inv_keep [OF inv])
  qed
qed

lemma pool_step_inv:
  assumes "pool_step code s t" and "pool_inv code js n s"
  shows "pool_inv code js n t"
  using assms
proof (induction rule: pool_step.induct)
  case (dispatch s j q)
  then show ?case by (simp add: pool_inv_def)
next
  case (get i s j q)
  then show ?case by (intro pool_inv_get)
next
  case (check i s j)
  then show ?case by (intro pool_inv_check)
next
  case (finish i s j rc t)
  then have f: "fresh j" "\<not> is_skip j" using nth_mem [OF finish(1)] unfolding pool_inv_def by fastforce+
  then show ?case using finish fresh_fields [OF f(1)]
    by (intro pool_inv_return [of code js n s i j]) (auto simp: result_ok_def run_one_def)
next
  case (die i s j)
  then have f: "fresh j" "\<not> is_skip j" using nth_mem [OF die(1)] unfolding pool_inv_def by fastforce+
  then show ?case using die by (intro pool_inv_keep) auto
next
  case (collect s j q)
  obtain rest k where b: "input_queue s @ to_put s = rest @ replicate k stop_job" "list_all fresh rest"
      "k + tokens s = n" "0 < tokens s \<longrightarrow> rest = []"
      "image_mset core (mset rest + held s + mset (output_queue s) + mset (collected s)) = mset js"
    using collect(4) by (auto simp: pool_inv_def)
  have "image_mset core (mset rest + held s + mset q + mset (collected s @ [j])) = mset js"
    unfolding b(5) [symmetric] by (simp add: collect(3))
  then show ?case using collect b(1-4)
    unfolding pool_inv_def by (intro conjI exI [of _ rest] exI [of _ k]) auto
next
  case (interrupt s)
  then show ?case by (auto simp: pool_inv_def result_ok_def)
qed

interpretation pool_run: ranked_system "pool_step code" "start_pool js n"
    "\<lambda>s. list_all fresh js \<longrightarrow> pool_inv code js n s" pool_weight for code js n
  by unfold_locales (auto intro: start_pool_inv pool_step_inv pool_step_weight)

lemma reachable_inv: "pool_reachable code js n s \<Longrightarrow> list_all fresh js \<Longrightarrow> pool_inv code js n s"
  unfolding pool_reachable_def using pool_run.inv_reachable by blast

lemma pool_inv_balance:
  assumes "pool_inv code js n s"
  obtains rest k where "input_queue s @ to_put s = rest @ replicate k stop_job" "list_all fresh rest"
    "k + tokens s = n" "0 < tokens s \<longrightarrow> rest = []"
    "image_mset core (mset rest + held s + mset (output_queue s) + mset (collected s)) = mset js"
  using assms by (auto simp: pool_inv_def)

lemma filter_fresh: "list_all fresh xs \<Longrightarrow> filter (\<lambda>j. \<not> is_break j) (xs @ replicate k stop_job) = xs"
  by (induction xs) (auto simp: fresh_not_break)

lemma pool_balance:
  assumes "pool_inv code js n s"
  shows "image_mset core (mset (filter (\<lambda>j. \<not> is_break j) (input_queue s @ to_put s)) + held s +
    mset (output_queue s) + mset (collected s)) = mset js"
proof -
  obtain rest k where "input_queue s @ to_put s = rest @ replicate k stop_job" "list_all fresh rest"
      "image_mset core (mset rest + held s + mset (output_queue s) + mset (collected s)) = mset js"
    using assms by (elim pool_inv_balance)
  then show ?thesis using filter_fresh [of rest k] by simp
qed

section \<open>The end of a run\<close>

lemma final_stuck:
  assumes "pool_final code s"
  shows "to_put s = []" and "i < length (workers s) \<Longrightarrow> workers s ! i \<noteq> Holding j"
    and "i < length (workers s) \<Longrightarrow> workers s ! i \<noteq> Running j"
    and "i < length (workers s) \<Longrightarrow> workers s ! i = Idle \<Longrightarrow> input_queue s = []"
    and "length (collected s) < expected s \<Longrightarrow> output_queue s = []"
proof -
  have f: "t = s\<lparr>thread_exit := True\<rparr>" if "pool_step code s t" for t
    using assms that by (auto simp: pool_final_def)
  show tp: "to_put s = []"
  proof (cases "to_put s")
    case (Cons j js)
    then show ?thesis using arg_cong [OF f [OF dispatch [OF Cons]], of to_put] by simp
  qed
  show "workers s ! i \<noteq> Holding j" if "i < length (workers s)"
  proof
    assume h: "workers s ! i = Holding j"
    have "workers (check_job i j s) ! i = workers s ! i"
      using arg_cong [OF f [OF check [OF that h]], of workers] by simp
    then show False using that h by (auto simp: check_job_def split: if_splits)
  qed
  show "workers s ! i \<noteq> Running j" if "i < length (workers s)"
  proof
    assume h: "workers s ! i = Running j"
    show False
    proof (cases "code j")
      case None
      then show False using arg_cong [OF f [OF die [OF that h]], of "\<lambda>s. workers s ! i"] h that by simp
    next
      case (Some a)
      then obtain rc t where c: "code j = Some (rc, t)" by (cases a) auto
      show False using arg_cong [OF f [OF finish [of i s j code rc t, OF that h c]], of "\<lambda>s. workers s ! i"] h that by auto
    qed
  qed
  show "input_queue s = []" if "i < length (workers s)" "workers s ! i = Idle"
  proof (cases "input_queue s")
    case (Cons j js)
    then show ?thesis using arg_cong [OF f [OF get [OF that Cons]], of input_queue] by simp
  qed
  show "output_queue s = []" if "length (collected s) < expected s"
  proof (cases "output_queue s")
    case (Cons j js)
    then show ?thesis using arg_cong [OF f [OF collect [OF tp that Cons]], of output_queue] by simp
  qed
qed

lemma tokens_idle: "i < length (workers s) \<Longrightarrow> workers s ! i = Idle \<Longrightarrow> tokens s < length (workers s)"
proof -
  have le: "token_of w \<le> 1" for w by (cases w) auto
  have "i < length ws \<Longrightarrow> ws ! i = Idle \<Longrightarrow> sum_list (map token_of ws) < length ws" for ws
  proof (induction ws arbitrary: i)
    case (Cons w ws)
    have "sum_list (map token_of ws) \<le> length ws" using sum_list_mono [of ws token_of "\<lambda>_. 1"] le
      by (simp add: sum_list_triv)
    then show ?case using Cons le [of w] by (cases i) fastforce+
  qed simp
  then show "i < length (workers s) \<Longrightarrow> workers s ! i = Idle \<Longrightarrow> tokens s < length (workers s)"
    by (simp add: tokens_def)
qed

lemma all_exited_sums:
  assumes "\<forall>w\<in>set (workers s). w = Exited"
  shows "tokens s = length (workers s)" and "held s = {#}"
proof -
  have "\<forall>w\<in>set ws. w = Exited \<Longrightarrow> sum_list (map token_of ws) = length ws \<and> sum_list (map real_held ws) = {#}" for ws
    by (induction ws) auto
  with assms show "tokens s = length (workers s)" "held s = {#}" by (simp_all add: tokens_def held_def)
qed

text \<open>Jobs that are not skipped can be run: no thread dies.\<close>

definition runnable :: "job_code \<Rightarrow> job list \<Rightarrow> bool" where
  "runnable code js \<longleftrightarrow> list_all (\<lambda>j. is_skip j \<or> code j \<noteq> None) js"

lemma real_held_in: "w \<in> set ws \<Longrightarrow> x \<in># real_held w \<Longrightarrow> x \<in># sum_list (map real_held ws)"
  by (induction ws) auto

lemma no_dead:
  assumes inv: "pool_inv code js n s" and run: "runnable code js"
  shows "Dead j \<notin> set (workers s)"
proof
  assume d: "Dead j \<in> set (workers s)"
  then have j: "fresh j" "\<not> is_skip j" "code j = None" using inv by (auto simp: pool_inv_def)
  have "j \<in># held s" unfolding held_def by (rule real_held_in [OF d]) simp
  moreover have "core j = j" using j(1) by (simp add: fresh_def)
  ultimately have "j \<in># mset js"
    unfolding pool_balance [OF inv, symmetric] by (metis image_eqI set_image_mset union_iff)
  then show False using run j by (auto simp: runnable_def list_all_iff)
qed

lemma final_complete:
  assumes inv: "pool_inv code js n s" and final: "pool_final code s" and "0 < n" and run: "runnable code js"
  shows "\<forall>w\<in>set (workers s). w = Exited" and "input_queue s = []" and "output_queue s = []"
    and "image_mset core (mset (collected s)) = mset js"
proof -
  obtain rest k where r: "input_queue s @ to_put s = rest @ replicate k stop_job"
      "k + tokens s = n" "0 < tokens s \<longrightarrow> rest = []"
      "image_mset core (mset rest + held s + mset (output_queue s) + mset (collected s)) = mset js"
    using inv by (elim pool_inv_balance)
  have len: "length (workers s) = n" "length (collected s) \<le> length js" "expected s = length js"
    using inv by (simp_all add: pool_inv_def)
  have "workers s ! i = Exited" if i: "i < length (workers s)" for i
  proof (cases "workers s ! i")
    case Idle
    then have "k = 0" using final_stuck(1,4) [OF final] r(1) i by simp
    then show ?thesis using r(2) tokens_idle [OF i Idle] len by simp
  qed (use final_stuck(2,3) [OF final i] no_dead [OF inv run] nth_mem [OF i] in force)+
  then show ex: "\<forall>w\<in>set (workers s). w = Exited" by (simp add: all_set_conv_all_nth)
  have e: "k = 0" "rest = []" "held s = {#}" using all_exited_sums [OF ex] r(2,3) len \<open>0 < n\<close> by simp_all
  then show "input_queue s = []" using r(1) by simp
  have "size (image_mset core (mset (output_queue s) + mset (collected s))) = size (mset js)" using r(4) e by simp
  then have "length (output_queue s) + length (collected s) = length js" by simp
  then show out: "output_queue s = []" using final_stuck(5) [OF final] len by (cases "output_queue s") auto
  then show "image_mset core (mset (collected s)) = mset js" using r(4) e by simp
qed

lemma final_results:
  assumes inv: "pool_inv code js n s" and final: "pool_final code s" and "0 < n" and "runnable code js"
    and "\<not> thread_exit s"
  shows "mset (map Some (collected s)) = mset (map (run_one code) js)"
proof -
  have ok: "\<forall>j\<in>set (collected s). run_one code (core j) = Some j"
    using inv \<open>\<not> thread_exit s\<close> by (auto simp: pool_inv_def result_ok_def split: if_splits)
  have "mset (map (run_one code) js) = image_mset (run_one code) (image_mset core (mset (collected s)))"
    using final_complete(4) [OF assms(1-4)] by simp
  also have "\<dots> = mset (map Some (collected s))"
    using ok by (simp add: multiset.map_comp comp_def cong: image_mset_cong flip: mset_map)
      (metis (mono_tags, lifting) map_eq_conv)
  finally show ?thesis by simp
qed

section \<open>Properties\<close>

text \<open>
  C7. Every job is accounted for exactly once: at any moment of any interleaving of the main
  thread, the workers and interrupts, the jobs still to be put, those in the input queue, those held
  by workers, those in the output queue and those collected are together exactly the dispatched jobs.
\<close>

theorem pool_exactly_once:
  assumes "list_all fresh js" and "pool_reachable code js n s"
  shows "image_mset core (mset (filter (\<lambda>j. \<not> is_break j) (input_queue s @ to_put s)) + held s +
    mset (output_queue s) + mset (collected s)) = mset js"
  by (rule pool_balance [OF reachable_inv [OF assms(2,1)]])

text \<open>
  C10. Every run is finite: with \<open>n\<close> workers and any scheduling there are at most five steps per job
  and per worker, and one interrupt; and every run can be continued to a state with no further step.
\<close>

theorem pool_run_bound:
  assumes "(pool_step code ^^ m) (start_pool js n) s"
  shows "m \<le> 5 * (length js + n) + 1 \<and> (\<exists>t. (pool_step code)\<^sup>*\<^sup>* s t \<and> (\<forall>u. \<not> pool_step code t u))"
proof -
  have "m \<le> pool_weight (start_pool js n)" using pool_run.rank_run [OF assms] by simp
  also have "\<dots> \<le> 5 * (length js + n) + 1"
    by (simp add: pool_weight_def start_pool_def sum_list_replicate)
  finally show ?thesis using pool_run.run_to_end by blast
qed

text \<open>
  C8. No deadlock: if there is a worker and every job can be run, then the only states in which
  nothing can happen any more are those in which all workers have ended, both queues are empty and
  every job has been collected, interrupted or not.
\<close>

theorem pool_complete:
  assumes "list_all fresh js" and "pool_reachable code js n s" and "pool_final code s"
    and "0 < n" and "runnable code js"
  shows "list_all (\<lambda>w. w = Exited) (workers s) \<and> input_queue s = [] \<and> output_queue s = [] \<and>
    image_mset core (mset (collected s)) = mset js"
  using final_complete [OF reachable_inv [OF assms(2,1)] assms(3-5)] by (simp add: list_all_iff)

text \<open>
  C9. Running the jobs in parallel is running them one after the other: when an uninterrupted run
  has ended, the collected results are, up to their order, the results of the single jobs.
\<close>

theorem pool_refines_sequential:
  assumes "list_all fresh js" and "pool_reachable code js n s" and "pool_final code s"
    and "0 < n" and "runnable code js" and "\<not> thread_exit s"
  shows "mset (map Some (collected s)) = mset (map (run_one code) js)"
  by (rule final_results [OF reachable_inv [OF assms(2,1)] assms(3-6)])

section \<open>A run with one job and one worker\<close>

definition single_end :: "job \<Rightarrow> int \<Rightarrow> rat \<Rightarrow> pool" where
  "single_end j rc t =
     \<lparr>to_put = [], input_queue = [], workers = [Exited], output_queue = [],
      collected = [j\<lparr>returncode := rc, elapsed_time := t\<rparr>], expected = 1, thread_exit = False\<rparr>"

lemma single_steps:
  assumes "\<not> is_break j" "\<not> is_skip j" "code j = Some (rc, t)"
  shows "(pool_step code ^^ 8) (start_pool [j] 1) (single_end j rc t)"
proof -
  let ?s = "\<lambda>p q ws out c. \<lparr>to_put = p, input_queue = q, workers = [ws], output_queue = out, collected = c,
    expected = 1, thread_exit = False\<rparr>"
  let ?r = "j\<lparr>returncode := rc, elapsed_time := t\<rparr>"
  note d = set_worker_def put_out_def check_job_def
  have "pool_step code (?s [j, stop_job] [] Idle [] []) (?s [stop_job] [j] Idle [] [])"
    using dispatch [of "?s [j, stop_job] [] Idle [] []"] by simp
  moreover have "pool_step code (?s [stop_job] [j] Idle [] []) (?s [] [j, stop_job] Idle [] [])"
    using dispatch [of "?s [stop_job] [j] Idle [] []"] by simp
  moreover have "pool_step code (?s [] [j, stop_job] Idle [] []) (?s [] [stop_job] (Holding j) [] [])"
    using get [of 0 "?s [] [j, stop_job] Idle [] []"] by (simp add: d)
  moreover have "pool_step code (?s [] [stop_job] (Holding j) [] []) (?s [] [stop_job] (Running j) [] [])"
    using check [of 0 "?s [] [stop_job] (Holding j) [] []" j code] assms by (simp add: d)
  moreover have "pool_step code (?s [] [stop_job] (Running j) [] []) (?s [] [stop_job] Idle [?r] [])"
    using finish [of 0 "?s [] [stop_job] (Running j) [] []" j code rc t] assms by (simp add: d)
  moreover have "pool_step code (?s [] [stop_job] Idle [?r] []) (?s [] [] (Holding stop_job) [?r] [])"
    using get [of 0 "?s [] [stop_job] Idle [?r] []"] by (simp add: d)
  moreover have "pool_step code (?s [] [] (Holding stop_job) [?r] []) (?s [] [] Exited [?r] [])"
    using check [of 0 "?s [] [] (Holding stop_job) [?r] []" stop_job code] by (simp add: d)
  moreover have "pool_step code (?s [] [] Exited [?r] []) (?s [] [] Exited [] [?r])"
    using collect [of "?s [] [] Exited [?r] []"] by simp
  ultimately have "(pool_step code ^^ 8) (?s [j, stop_job] [] Idle [] []) (?s [] [] Exited [] [?r])"
    by (auto simp: numeral_eq_Suc simp del: relpowp.simps intro!: relpowp_Suc_I2 relpowp_0_I)
  then show ?thesis by (simp add: start_pool_def single_end_def)
qed

lemma single_reachable:
  assumes "\<not> is_break j" "\<not> is_skip j" "code j = Some (rc, t)"
  shows "pool_reachable code [j] 1 (single_end j rc t)"
  unfolding pool_reachable_def by (rule relpowp_imp_rtranclp, rule single_steps) (use assms in simp_all)

lemma single_final: "pool_final code (single_end j rc t)"
  by (auto simp: pool_final_def single_end_def elim!: pool_stepE)

definition demo_job :: job where
  "demo_job = new_job\<lparr>display_name := ''tcp''\<rparr>"

lemma demo_job_simps [simp]: "fresh demo_job" "\<not> is_break demo_job" "\<not> is_skip demo_job"
  by (simp_all add: demo_job_def fresh_def core_def new_job_def)

theorem pool_exactly_once_witness:
  "image_mset core (mset (collected (single_end demo_job 0 2))) = {#demo_job#}"
  using pool_exactly_once [of "[demo_job]", OF _ single_reachable [of demo_job "\<lambda>_. Some (0, 2)" 0 2]]
  by (simp add: single_end_def held_def)

theorem pool_run_bound_witness:
  "(8::nat) \<le> 5 * (length [demo_job] + 1) + 1 \<and>
   (\<exists>t. (pool_step (\<lambda>_. Some (0, 2)))\<^sup>*\<^sup>* (single_end demo_job 0 2) t \<and> (\<forall>u. \<not> pool_step (\<lambda>_. Some (0, 2)) t u))"
  by (rule pool_run_bound [OF single_steps [of demo_job "\<lambda>_. Some (0, 2)" 0 2]]) simp_all

theorem pool_complete_witness:
  "list_all (\<lambda>w. w = Exited) (workers (single_end demo_job 1 2)) \<and>
   image_mset core (mset (collected (single_end demo_job 1 2))) = {#demo_job#}"
  using pool_complete [of "[demo_job]", OF _ single_reachable [of demo_job "\<lambda>_. Some (1, 2)" 1 2] single_final]
  by (simp add: runnable_def)

theorem pool_refines_sequential_witness:
  "mset (map Some (collected (single_end demo_job 1 2))) = mset (map (run_one (\<lambda>_. Some (1, 2))) [demo_job])"
  by (rule pool_refines_sequential [OF _ single_reachable [of demo_job "\<lambda>_. Some (1, 2)" 1 2] single_final])
    (simp_all add: runnable_def single_end_def)

section \<open>Runs that never end\<close>

text \<open>Without a worker no result is ever collected, and the main thread waits for ever.\<close>

lemma no_worker_no_result:
  assumes "list_all fresh js" and "pool_reachable code js 0 s"
  shows "collected s = []"
proof -
  have "workers s = [] \<and> output_queue s = [] \<and> collected s = []"
    using assms(2) unfolding pool_reachable_def
    by (induction rule: rtranclp_induct) (auto simp: start_pool_def elim!: pool_stepE)
  then show ?thesis by simp
qed

text \<open>If running a job raises in a worker, the main thread never gets the results it waits for.\<close>

lemma dead_worker_waits:
  assumes "list_all fresh js" and "pool_reachable code js n s" and "Dead j \<in> set (workers s)"
  shows "length (collected s) < expected s"
proof -
  have inv: "pool_inv code js n s" by (rule reachable_inv [OF assms(2,1)])
  have "j \<in># held s" unfolding held_def by (rule real_held_in [OF assms(3)]) simp
  then have "0 < size (held s)" by (metis nonempty_has_size empty_iff set_mset_empty)
  moreover have "length (collected s) + size (held s) \<le> length js"
    using arg_cong [OF pool_balance [OF inv], of size] by simp
  ultimately show ?thesis using inv by (simp add: pool_inv_def)
qed

end
