(* ===== verification/Test_Run.thy ===== *)
theory Test_Run
  imports Test_Pool "HOL-Library.List_Lexorder" "HOL-Library.Char_ord"
begin

text \<open>
  \<open>src/test.py\<close>, third part: what the main thread does with the results.

  \<open>collect_result\<close> is one round of the collection loop: statistics, progress line, and the entry
  of the job in the results file.  \<open>files\<close> gives the contents of the temporary files that the test
  suites have written.  \<open>run_status\<close> and \<open>summary_lines\<close> are the exit status and the summary.
\<close>

section \<open>Colours and numbers\<close>

definition escape :: string where
  "escape = [CHR 0x1B]"

definition colors_lst :: "(string, string) dict" where
  "colors_lst =
     [(''BOLD'', escape @ ''[01;1m''), (''RED'', escape @ ''[01;31m''), (''GREEN'', escape @ ''[32m''),
      (''YELLOW'', escape @ ''[33m''), (''PINK'', escape @ ''[35m''), (''BLUE'', escape @ ''[01;34m''),
      (''CYAN'', escape @ ''[36m''), (''GREY'', escape @ ''[37m''), (''NORMAL'', escape @ ''[0m''),
      (''cursor_on'', escape @ ''[?25h''), (''cursor_off'', escape @ ''[?25l'')]"

definition get_color :: "bool \<Rightarrow> string \<Rightarrow> string" where
  "get_color use cl = (if use then (case dict_find colors_lst cl of None \<Rightarrow> [] | Some c \<Rightarrow> c) else [])"

text \<open>\<open>'%.3f'\<close>: the nearest multiple of 1/1000, the even one of two.\<close>

definition half_even :: "rat \<Rightarrow> int" where
  "half_even q =
     (let f = \<lfloor>q\<rfloor>; d = q - of_int f
      in if d < 1/2 then f else if 1/2 < d then f + 1 else if even f then f else f + 1)"

definition fixed3 :: "rat \<Rightarrow> string" where
  "fixed3 t =
     (let n = nat (half_even (\<bar>t\<bar> * 1000)); m = n mod 1000
      in (if t < 0 then ''-'' else []) @ str_nat (n div 1000) @ ''.'' @
         str_nat (m div 100) @ str_nat (m div 10 mod 10) @ str_nat (m mod 10))"

section \<open>Statistics\<close>

datatype status = PASS | FAIL | VALGR | CRASH | SKIP

fun status_str :: "status \<Rightarrow> string" where
  "status_str PASS = ''PASS''"
| "status_str FAIL = ''FAIL''"
| "status_str VALGR = ''VALGR''"
| "status_str CRASH = ''CRASH''"
| "status_str SKIP = ''SKIP''"

fun status_color :: "status \<Rightarrow> string" where
  "status_color PASS = ''GREEN''"
| "status_color FAIL = ''RED''"
| "status_color VALGR = ''CYAN''"
| "status_color CRASH = ''PINK''"
| "status_color SKIP = ''GREY''"

definition job_status :: "job \<Rightarrow> status" where
  "job_status j =
     (if is_skip j then SKIP
      else if returncode j = 0 then PASS
      else if returncode j = 1 then FAIL
      else if returncode j = 2 then VALGR
      else CRASH)"

record tally =
  passed_tests :: nat
  failed_tests :: nat
  failed_testnames :: "string list"
  crashed_tests :: nat
  crashed_testnames :: "string list"
  valgrind_errors :: nat
  valgrind_testnames :: "string list"
  skipped_tests :: nat
  skipped_testnames :: "string list"
  printed :: "string list"
  xml_results :: string

definition new_tally :: tally where
  "new_tally =
     \<lparr>passed_tests = 0, failed_tests = 0, failed_testnames = [], crashed_tests = 0, crashed_testnames = [],
      valgrind_errors = 0, valgrind_testnames = [], skipped_tests = 0, skipped_testnames = [], printed = [],
      xml_results = ''<?xml version='' @ [CHR 0x22] @ ''1.0'' @ [CHR 0x22] @ ''?>'' @ [newline] @ ''<Results>'' @ [newline]\<rparr>"

definition count_job :: "job \<Rightarrow> tally \<Rightarrow> tally" where
  "count_job j t =
     (case job_status j of
        SKIP \<Rightarrow> t\<lparr>skipped_tests := skipped_tests t + 1,
                  skipped_testnames := skipped_testnames t @ [display_name j @ '' ('' @ skip_reason j @ '')'']\<rparr>
      | PASS \<Rightarrow> t\<lparr>passed_tests := passed_tests t + 1\<rparr>
      | FAIL \<Rightarrow> t\<lparr>failed_tests := failed_tests t + 1, failed_testnames := failed_testnames t @ [display_name j]\<rparr>
      | VALGR \<Rightarrow> t\<lparr>valgrind_errors := valgrind_errors t + 1, valgrind_testnames := valgrind_testnames t @ [display_name j]\<rparr>
      | CRASH \<Rightarrow> t\<lparr>crashed_tests := crashed_tests t + 1, crashed_testnames := crashed_testnames t @ [display_name j]\<rparr>)"

definition job_kind :: "job \<Rightarrow> string" where
  "job_kind j = (if is_example j \<or> is_pyexample j then ''Example'' else ''TestSuite'')"

definition progress_line :: "bool \<Rightarrow> test_options \<Rightarrow> nat \<Rightarrow> job \<Rightarrow> tally \<Rightarrow> string" where
  "progress_line use opt total_tests j t =
     ''['' @ str_nat (passed_tests t + failed_tests t + skipped_tests t + crashed_tests t) @ ''/'' @ str_nat total_tests @ ''] '' @
     get_color use (status_color (job_status j)) @ status_str (job_status j) @ get_color use ''NORMAL'' @
     (if duration opt \<or> constrain opt = ''performance'' then '' ('' @ fixed3 (elapsed_time j) @ '')'' else []) @
     '': '' @ job_kind j @ '' '' @ display_name j"

section \<open>The results file\<close>

definition example_entry :: "job \<Rightarrow> string" where
  "example_entry j =
     ''<Example>'' @ [newline] @
     ''  <Name>'' @ display_name j @ ''</Name>'' @ [newline] @
     ''  <Result>'' @ status_str (job_status j) @ ''</Result>'' @ [newline] @
     ''  <Time real='' @ [CHR 0x22] @ fixed3 (elapsed_time j) @ [CHR 0x22] @ ''/>'' @ [newline] @
     ''</Example>'' @ [newline]"

definition test_entry :: "string \<Rightarrow> string \<Rightarrow> string option \<Rightarrow> string" where
  "test_entry name result reason =
     ''<Test>'' @ [newline] @
     ''  <Name>'' @ name @ ''</Name>'' @ [newline] @
     ''  <Result>'' @ result @ ''</Result>'' @ [newline] @
     (case reason of None \<Rightarrow> [] | Some r \<Rightarrow> ''  <Reason>'' @ r @ ''</Reason>'' @ [newline]) @
     ''</Test>'' @ [newline]"

definition job_entry :: "(string \<Rightarrow> string option) \<Rightarrow> job \<Rightarrow> string res" where
  "job_entry files j =
     (if is_example j \<or> is_pyexample j then Inr (example_entry j)
      else if is_skip j then Inr (test_entry (display_name j) ''SKIP'' (Some (skip_reason j)))
      else if returncode j = 0 \<or> returncode j = 1 \<or> returncode j = 2
      then (case files (tmp_file_name j) of None \<Rightarrow> Inl OSError | Some s \<Rightarrow> Inr s)
      else Inr (test_entry (display_name j) ''CRASH'' None))"

text \<open>One round of the loop: a job that comes back with \<open>is_break\<close> is ignored.\<close>

definition collect_result ::
  "bool \<Rightarrow> test_options \<Rightarrow> (string \<Rightarrow> string option) \<Rightarrow> nat \<Rightarrow> job \<Rightarrow> tally \<Rightarrow> tally res" where
  "collect_result use opt files total_tests j t =
     (if is_break j then Inr t
      else let t1 = count_job j t; t2 = t1\<lparr>printed := printed t1 @ [progress_line use opt total_tests j t1]\<rparr>
           in res_bind (job_entry files j) (\<lambda>e. Inr (t2\<lparr>xml_results := xml_results t2 @ e\<rparr>)))"

definition collect_results ::
  "bool \<Rightarrow> test_options \<Rightarrow> (string \<Rightarrow> string option) \<Rightarrow> nat \<Rightarrow> job list \<Rightarrow> tally res" where
  "collect_results use opt files total_tests js =
     res_bind (res_fold (collect_result use opt files total_tests) js new_tally) (\<lambda>t.
     Inr (t\<lparr>xml_results := xml_results t @ ''</Results>'' @ [newline]\<rparr>))"

section \<open>Summary and exit status\<close>

definition name_list :: "string \<Rightarrow> string list \<Rightarrow> string list" where
  "name_list title names =
     (if names = [] then [] else [''List of '' @ title @ '':'' @ [newline] @ ''    '' @
        str_join ([newline] @ ''    '') (sort names)])"

definition summary_lines :: "nat \<Rightarrow> tally \<Rightarrow> string list" where
  "summary_lines total_tests t =
     [str_nat (passed_tests t) @ '' of '' @ str_nat total_tests @ '' tests passed ('' @ str_nat (passed_tests t) @ '' passed, '' @
      str_nat (skipped_tests t) @ '' skipped, '' @ str_nat (failed_tests t) @ '' failed, '' @
      str_nat (crashed_tests t) @ '' crashed, '' @ str_nat (valgrind_errors t) @ '' valgrind errors)''] @
     name_list ''SKIPped tests'' (skipped_testnames t) @
     name_list ''FAILed tests'' (failed_testnames t) @
     name_list ''CRASHed tests'' (crashed_testnames t) @
     name_list ''VALGR failures'' (valgrind_testnames t)"

definition closing_notes :: "config \<Rightarrow> test_options \<Rightarrow> string list" where
  "closing_notes cfg opt =
     (if \<not> ENABLE_TESTS cfg \<or> \<not> ENABLE_EXAMPLES cfg
      then [[]] @
        (if \<not> ENABLE_TESTS cfg
         then [''***  Note: ns-3 tests are currently disabled. Enable them by adding'',
               ''***  '' @ [CHR 0x22] @ ''--enable-tests'' @ [CHR 0x22] @ '' to ./ns3 configure or modifying your .ns3rc file.'', []]
         else []) @
        (if \<not> ENABLE_EXAMPLES cfg
         then [''***  Note: ns-3 examples are currently disabled. Enable them by adding'',
               ''***  '' @ [CHR 0x22] @ ''--enable-examples'' @ [CHR 0x22] @ '' to ./ns3 configure or modifying your .ns3rc file.'', []]
         else [])
      else []) @
     (if valgrind opt \<and> \<not> VALGRIND_FOUND cfg
      then [[], ''***  Note: you are trying to use valgrind, but valgrind could not be found'',
            ''***  on your machine.  All tests and examples will crash or be skipped.'', []]
      else [])"

definition run_status :: "nat \<Rightarrow> tally \<Rightarrow> int" where
  "run_status total_tests t = (if passed_tests t + skipped_tests t = total_tests then 0 else 1)"

text \<open>The number of worker threads; \<open>cpus\<close> is the number of processors of the machine.\<close>

definition processors :: "test_options \<Rightarrow> int \<Rightarrow> int" where
  "processors opt cpus =
     (if process_limit opt \<noteq> 0 then (if cpus < process_limit opt then cpus else process_limit opt) else cpus)"

text \<open>What a worker gets back when it runs a job.\<close>

definition job_code_of :: "system \<Rightarrow> config \<Rightarrow> test_options \<Rightarrow> job_code" where
  "job_code_of sy cfg opt j = (case execute_job sy cfg opt j of Inl e \<Rightarrow> None | Inr (rc, so, se, et) \<Rightarrow> Some (rc, et))"

section \<open>What the loop computes\<close>

definition with_status :: "status \<Rightarrow> job list \<Rightarrow> job list" where
  "with_status st js = filter (\<lambda>j. \<not> is_break j \<and> job_status j = st) js"

definition skip_name :: "job \<Rightarrow> string" where
  "skip_name j = display_name j @ '' ('' @ skip_reason j @ '')''"

text \<open>\<open>t'\<close> is \<open>t\<close> with the jobs \<open>js\<close> counted.\<close>

definition counted :: "job list \<Rightarrow> tally \<Rightarrow> tally \<Rightarrow> bool" where
  "counted js t t' \<longleftrightarrow>
     passed_tests t' = passed_tests t + length (with_status PASS js) \<and>
     failed_tests t' = failed_tests t + length (with_status FAIL js) \<and>
     crashed_tests t' = crashed_tests t + length (with_status CRASH js) \<and>
     valgrind_errors t' = valgrind_errors t + length (with_status VALGR js) \<and>
     skipped_tests t' = skipped_tests t + length (with_status SKIP js) \<and>
     failed_testnames t' = failed_testnames t @ map display_name (with_status FAIL js) \<and>
     crashed_testnames t' = crashed_testnames t @ map display_name (with_status CRASH js) \<and>
     valgrind_testnames t' = valgrind_testnames t @ map display_name (with_status VALGR js) \<and>
     skipped_testnames t' = skipped_testnames t @ map skip_name (with_status SKIP js)"

lemma counted_Nil: "counted [] t t"
  by (simp add: counted_def with_status_def)

lemma counted_Cons: "counted [j] t t1 \<Longrightarrow> counted js t1 t2 \<Longrightarrow> counted (j # js) t t2"
  by (simp add: counted_def with_status_def)

lemma collect_result_counted:
  "collect_result use opt files n j t = Inr t' \<Longrightarrow> counted [j] t t'"
  by (cases "job_status j")
    (auto simp: collect_result_def counted_def with_status_def count_job_def skip_name_def Let_def res_simps split: if_splits)

lemma fold_counted:
  "res_fold (collect_result use opt files n) js t = Inr t' \<Longrightarrow> counted js t t'"
  by (induction js arbitrary: t)
    (auto simp: res_simps intro: counted_Nil counted_Cons dest!: collect_result_counted)

lemma collect_results_counted:
  "collect_results use opt files n js = Inr t \<Longrightarrow> counted js new_tally t"
  by (auto simp: collect_results_def res_simps counted_def dest!: fold_counted)





section \<open>Jobs as they are dispatched\<close>

lemma fresh_iff: "fresh j \<longleftrightarrow> \<not> is_break j \<and> returncode j = 0 \<and> elapsed_time j = 0"
  by (cases j) (auto simp: fresh_def core_def)

lemma fresh_jobs [simp]:
  "fresh new_job" "fresh (skip_job r j) \<longleftrightarrow> fresh j" "fresh (suite_job sy cfg opt outdir test)"
  "fresh (example_job sy outdir name command bpath)" "fresh (pyexample_job sy outdir test)"
  by (simp_all add: fresh_iff new_job_def skip_job_def suite_job_def Let_def example_job_def pyexample_job_def)

lemma gather_all:
  assumes "gather f xs = Inr js" and "\<And>x ys. x \<in> set xs \<Longrightarrow> f x = Inr ys \<Longrightarrow> list_all P ys"
  shows "list_all P js"
proof -
  have "list_all P js" if "res_fold (\<lambda>x acc. res_bind (f x) (\<lambda>js. Inr (acc @ js))) xs acc = Inr js" "list_all P acc"
    for acc using that assms(2)
  proof (induction xs arbitrary: acc)
    case (Cons x xs)
    then obtain ys where ys: "f x = Inr ys"
      "res_fold (\<lambda>x acc. res_bind (f x) (\<lambda>js. Inr (acc @ js))) xs (acc @ ys) = Inr js" by (auto simp: res_simps)
    show ?case using Cons.prems(2,3) ys(1) by (intro Cons.IH [OF ys(2)]) auto
  qed simp
  from this [of "[]"] assms(1) show ?thesis by (simp add: gather_def)
qed

lemma select_examples_fresh:
  "select_examples sy cfg opt outdir ls programs = Inr (m, js) \<Longrightarrow> list_all fresh js"
  by (auto simp: select_examples_def cpp_example_jobs_def res_simps Let_def split: if_splits prod.splits elim!: gather_all)

lemma select_pyexamples_fresh:
  "select_pyexamples sy cfg opt outdir ls scripts = Inr (m, js) \<Longrightarrow> list_all fresh js"
  by (auto simp: select_pyexamples_def python_example_jobs_def res_simps Let_def split: if_splits prod.splits elim!: gather_all)

lemma dispatch_jobs_fresh:
  assumes "dispatch_jobs sy cfg opt programs scripts ls outdir = Inr (m, js)"
  shows "list_all fresh js"
proof -
  obtain sl m1 ex m2 py where "js = suite_jobs sy cfg opt outdir sl @ ex @ py"
      "select_examples sy cfg opt outdir ls programs = Inr (m1, ex)"
      "select_pyexamples sy cfg opt outdir ls scripts = Inr (m2, py)"
    using assms by (auto simp: dispatch_jobs_def Let_def res_simps split: prod.splits)
  then show ?thesis using select_examples_fresh select_pyexamples_fresh
    by (auto simp: suite_jobs_def list_all_iff)
qed

text \<open>With a Python interpreter in the configuration no worker dies.\<close>

lemma job_code_total: "PYTHON cfg \<noteq> [] \<Longrightarrow> job_code_of sy cfg opt j \<noteq> None"
  by (auto simp: job_code_of_def execute_job_def run_job_synchronously_def job_command_def py_index_0 Let_def)

lemma job_code_runnable: "PYTHON cfg \<noteq> [] \<Longrightarrow> runnable (job_code_of sy cfg opt) js"
  using job_code_total by (simp add: runnable_def list_all_iff)

section \<open>The exit status\<close>

lemma length_filter_all: "length (filter P xs) = length xs \<longleftrightarrow> (\<forall>x\<in>set xs. P x)"
  by (metis filter_True length_filter_less less_irrefl)

lemma with_status_pass_skip:
  "length (with_status PASS js) + length (with_status SKIP js) = length js \<longleftrightarrow>
   (\<forall>j\<in>set js. \<not> is_break j \<and> (is_skip j \<or> returncode j = 0))"
proof -
  have "length (with_status PASS js) + length (with_status SKIP js) =
      length (filter (\<lambda>j. \<not> is_break j \<and> (is_skip j \<or> returncode j = 0)) js)"
    by (induction js) (auto simp: with_status_def job_status_def)
  then show ?thesis by (simp only: length_filter_all)
qed

lemma run_status_iff:
  assumes "collect_results use opt files (length js) cs = Inr t" and "length cs = length js"
  shows "run_status (length js) t = 0 \<longleftrightarrow> (\<forall>j\<in>set cs. \<not> is_break j \<and> (is_skip j \<or> returncode j = 0))"
  using collect_results_counted [OF assms(1)] with_status_pass_skip [of cs] assms(2)
  by (simp add: run_status_def counted_def new_tally_def)

definition job_passes :: "job_code \<Rightarrow> job \<Rightarrow> bool" where
  "job_passes code j \<longleftrightarrow> is_skip j \<or> (\<exists>t. code j = Some (0, t))"

lemma run_one_passes:
  "run_one code j = Some r \<Longrightarrow> is_skip r \<or> returncode r = 0 \<longleftrightarrow> is_skip j \<or> (\<exists>t. code j = Some (0, t))"
  if "fresh j" for j
  using that by (auto simp: run_one_def fresh_iff split: if_splits)

lemma set_image_core: "image_mset core (mset cs) = mset js \<Longrightarrow> set js = core ` set cs"
  by (metis set_image_mset set_mset_mset)

lemma status_of_final:
  assumes inv: "pool_inv code js n s" and final: "pool_final code s" "0 < n" "runnable code js" "list_all fresh js"
    and t: "collect_results use opt files (length js) (collected s) = Inr t"
  shows "run_status (length js) t = 0 \<longleftrightarrow>
    (\<forall>j\<in>set js. job_passes code j) \<and> (\<forall>j\<in>set (collected s). \<not> is_break j)"
proof -
  have c: "image_mset core (mset (collected s)) = mset js" by (rule final_complete(4) [OF inv final(1-3)])
  then have len: "length (collected s) = length js" by (metis size_image_mset size_mset)
  have ok: "is_skip j \<or> returncode j = 0 \<longleftrightarrow> job_passes code (core j)"
    if "j \<in> set (collected s)" "\<not> is_break j" for j
  proof -
    have "run_one code (core j) = Some j" using inv that by (auto simp: pool_inv_def result_ok_def split: if_splits)
    moreover have "fresh (core j)" by (simp add: fresh_def core_def)
    ultimately show ?thesis unfolding job_passes_def by (rule run_one_passes [rotated])
  qed
  show ?thesis unfolding run_status_iff [OF t len] set_image_core [OF c] using ok by blast
qed

section \<open>Independence of the schedule\<close>

lemma mset_with_status: "mset cs = mset ds \<Longrightarrow> mset (with_status st cs) = mset (with_status st ds)"
  by (simp add: with_status_def)

lemma sort_map_mset: "mset xs = mset ys \<Longrightarrow> sort (map f xs) = sort (map f ys)"
  by (metis mset_map mset_sort properties_for_sort sorted_sort)

lemma name_list_mset: "mset xs = mset ys \<Longrightarrow> name_list title xs = name_list title ys"
  using sort_map_mset [of xs ys id] by (cases xs) (auto simp: name_list_def)

lemma summary_mset:
  assumes "counted cs new_tally t" and "counted ds new_tally t'" and "mset cs = mset ds"
  shows "summary_lines n t = summary_lines n t'" and "run_status n t = run_status n t'"
proof -
  have w: "mset (with_status st cs) = mset (with_status st ds)" for st by (rule mset_with_status [OF assms(3)])
  have l: "length (with_status st cs) = length (with_status st ds)" for st by (rule mset_eq_length [OF w])
  have m: "name_list title (map f (with_status st cs)) = name_list title (map f (with_status st ds))" for title f st
    by (rule name_list_mset) (simp add: w)
  show "summary_lines n t = summary_lines n t'" "run_status n t = run_status n t'"
    using assms(1,2) by (simp_all add: counted_def new_tally_def summary_lines_def run_status_def l m [simplified])
qed

lemma map_Some_mset: "mset (map Some xs) = mset (map Some ys) \<Longrightarrow> mset xs = mset ys"
  by (drule arg_cong [of _ _ "image_mset the"]) (simp add: multiset.map_comp comp_def)

section \<open>Properties\<close>

text \<open>
  C6. The exit status of a run of \<open>test.py\<close> from the selection of the jobs to the collection of
  the results, whatever the scheduling of the workers and whether or not the run is interrupted: when
  the run has ended it is 0 exactly if every selected job was skipped or returned 0 and none was
  dropped because of an interrupt.
\<close>

theorem exit_status_correct:
  assumes "dispatch_jobs sy cfg opt programs scripts ls outdir = Inr (msgs, js)"
    and "PYTHON cfg \<noteq> []" and "0 < n"
    and "pool_reachable (job_code_of sy cfg opt) js n s" and "pool_final (job_code_of sy cfg opt) s"
    and "collect_results use opt files (length js) (collected s) = Inr t"
  shows "run_status (length js) t = 0 \<longleftrightarrow>
    (\<forall>j\<in>set js. job_passes (job_code_of sy cfg opt) j) \<and> (\<forall>j\<in>set (collected s). \<not> is_break j)"
  using status_of_final [OF reachable_inv [OF assms(4) dispatch_jobs_fresh [OF assms(1)]] assms(5,3)
      job_code_runnable [OF assms(2)] dispatch_jobs_fresh [OF assms(1)] assms(6)] .

text \<open>
  C11. The summary and the exit status do not depend on the schedule: after an uninterrupted run they
  are those of running the jobs one after the other.
\<close>

theorem summary_schedule_independent:
  assumes "list_all fresh js" and "pool_reachable code js n s" and "pool_final code s"
    and "0 < n" and "runnable code js" and "\<not> thread_exit s"
    and "map (run_one code) js = map Some seq"
    and "collect_results use opt files (length js) (collected s) = Inr t"
    and "collect_results use opt files (length js) seq = Inr t'"
  shows "summary_lines (length js) t = summary_lines (length js) t' \<and> run_status (length js) t = run_status (length js) t'"
proof -
  have "mset (collected s) = mset seq"
    using final_results [OF reachable_inv [OF assms(2,1)] assms(3-6)] unfolding assms(7) by (rule map_Some_mset)
  then show ?thesis
    using summary_mset [OF collect_results_counted [OF assms(8)] collect_results_counted [OF assms(9)]] by simp
qed







section \<open>Witnesses\<close>

definition demo_system :: system where
  "demo_system =
     \<lparr>platform = ''linux'', getcwd = [''ns3''], exists = (\<lambda>_. False), file_text = (\<lambda>_. None),
      eval_names = (\<lambda>_. Inr []), eval_cpp_examples = (\<lambda>_. Inr []), eval_python_examples = (\<lambda>_. Inr []),
      popen = (\<lambda>_ _. \<lparr>proc_rc = 0, proc_out = ''tcp'', proc_err = [], out_decodable = True, err_decodable = True, proc_time = 2\<rparr>),
      eval_cond = (\<lambda>_. Inr True), key_order = (\<lambda>ks. ks)\<rparr>"

definition demo_config :: config where
  "demo_config =
     \<lparr>NS3_BASEDIR = ''/ns3'', NS3_BUILDDIR = ''/ns3/build'', NS3_MODULE_PATH = [], APPNAME = ''ns'', VERSION = ''3'',
      BUILD_PROFILE = ''release'', PYTHON = [''python3''], EXAMPLE_DIRECTORIES = [], NS3_ENABLED_MODULES = [],
      NS3_ENABLED_CONTRIBUTED_MODULES = [], ENABLE_EXAMPLES = True, ENABLE_TESTS = True,
      ENABLE_PYTHON_BINDINGS = False, VALGRIND_FOUND = False\<rparr>"

definition demo_options :: test_options where
  "demo_options =
     \<lparr>buildpath = [], constrain = [], duration = False, example = [], update_data = False, fullness = ''QUICK'',
      valgrind = False, multiple = False, pyexample = [], retain = False, suite = ''t*p'', process_limit = 0,
      kinds = False, list_tests = False, no_build = True, text_file = [], html_file = [], xml_file = [], nocolor = True\<rparr>"

definition demo_examples :: example_lists where
  "demo_examples = \<lparr>example_tests = [], example_names_original = [], python_tests = []\<rparr>"

definition demo_suite :: job where
  "demo_suite = suite_job demo_system demo_config demo_options ''out'' ''tcp''"

lemma demo_dispatch:
  "dispatch_jobs demo_system demo_config demo_options [] [] demo_examples ''out'' = Inr ([], [demo_suite])"
  unfolding demo_suite_def by code_simp

lemma demo_suite_simps [simp]: "\<not> is_break demo_suite" "\<not> is_skip demo_suite" "fresh demo_suite"
    "\<not> is_example demo_suite" "\<not> is_pyexample demo_suite"
  by (simp_all add: demo_suite_def suite_job_def Let_def demo_options_def new_job_def fresh_iff)

lemma demo_code: "job_code_of demo_system demo_config demo_options j = Some (0, 2)"
  by (auto simp: job_code_of_def execute_job_def run_job_synchronously_def job_command_def Let_def demo_system_def
      demo_config_def py_index_0)

lemma demo_python: "PYTHON demo_config \<noteq> []"
  by (simp add: demo_config_def)

lemma demo_collect:
  "\<exists>t. collect_results False demo_options (\<lambda>_. Some ''<Test/>'') n [demo_suite\<lparr>returncode := r, elapsed_time := 2\<rparr>] = Inr t"
  by (simp add: collect_results_def collect_result_def job_entry_def Let_def)

theorem exit_status_correct_witness:
  "\<exists>t. collect_results False demo_options (\<lambda>_. Some ''<Test/>'') 1 (collected (single_end demo_suite 0 2)) = Inr t \<and>
    run_status 1 t = 0"
proof -
  obtain t where t: "collect_results False demo_options (\<lambda>_. Some ''<Test/>'') 1 (collected (single_end demo_suite 0 2)) = Inr t"
    using demo_collect [of 1 0] by (auto simp: single_end_def)
  have "pool_reachable (job_code_of demo_system demo_config demo_options) [demo_suite] 1 (single_end demo_suite 0 2)"
    by (rule single_reachable) (simp_all add: demo_code)
  from exit_status_correct [OF demo_dispatch demo_python _ this single_final, of False "\<lambda>_. Some ''<Test/>''" t] t
  have "run_status 1 t = 0" by (simp add: job_passes_def demo_code single_end_def)
  with t show ?thesis by blast
qed

theorem summary_schedule_independent_witness:
  "\<exists>t t'. collect_results False demo_options (\<lambda>_. Some ''<Test/>'') 1 (collected (single_end demo_suite 1 2)) = Inr t \<and>
    collect_results False demo_options (\<lambda>_. Some ''<Test/>'') 1 [demo_suite\<lparr>returncode := 1, elapsed_time := 2\<rparr>] = Inr t' \<and>
    summary_lines 1 t = summary_lines 1 t' \<and> run_status 1 t = run_status 1 t'"
proof -
  let ?seq = "[demo_suite\<lparr>returncode := 1, elapsed_time := 2\<rparr>]" and ?code = "\<lambda>_. Some (1, 2)"
  obtain t where t: "collect_results False demo_options (\<lambda>_. Some ''<Test/>'') 1 ?seq = Inr t"
    using demo_collect by blast
  have c: "collected (single_end demo_suite 1 2) = ?seq" by (simp add: single_end_def)
  have "pool_reachable ?code [demo_suite] 1 (single_end demo_suite 1 2)" by (rule single_reachable) simp_all
  from summary_schedule_independent [OF _ this single_final, of ?seq False demo_options "\<lambda>_. Some ''<Test/>''" t t] t
  have "summary_lines 1 t = summary_lines 1 t \<and> run_status 1 t = run_status 1 t"
    by (simp add: c runnable_def run_one_def single_end_def)
  then show ?thesis using t c by auto
qed


end
