(* ===== verification/Test_Config.thy ===== *)
theory Test_Config
  imports Test_Run
begin

text \<open>
  \<open>src/test.py\<close>, fourth part: what happens before the jobs are dispatched.

  \<open>read_ns3_config\<close> reads the build status file, \<open>make_paths\<close> sets the environment of the processes,
  and \<open>run_start\<close> is \<open>run_tests\<close> from the build to the dispatch of the jobs.  Two more arguments stand
  for the interpreter: \<open>eval_str\<close> is the value of an expression, and \<open>exec_line\<close> is the effect of an
  assignment on the configuration variables.
\<close>

section \<open>read\_ns3\_config\<close>

definition interesting_config_items :: "string list" where
  "interesting_config_items =
     [''NS3_ENABLED_MODULES'', ''NS3_ENABLED_CONTRIBUTED_MODULES'', ''NS3_MODULE_PATH'', ''ENABLE_REAL_TIME'',
      ''ENABLE_THREADING'', ''ENABLE_EXAMPLES'', ''ENABLE_TESTS'', ''EXAMPLE_DIRECTORIES'', ''ENABLE_PYTHON_BINDINGS'',
      ''NSCLICK'', ''ENABLE_BRITE'', ''ENABLE_OPENFLOW'', ''APPNAME'', ''BUILD_PROFILE'', ''VERSION'', ''PYTHON'',
      ''VALGRIND_FOUND'']"

text \<open>\<open>key, val = line.split('=')\<close> and the value of \<open>val\<close>.\<close>

definition assigned :: "(string \<Rightarrow> string res) \<Rightarrow> string \<Rightarrow> string res" where
  "assigned eval_str line =
     (case str_split (CHR ''='') line of [key, val] \<Rightarrow> eval_str (str_strip val) | _ \<Rightarrow> Inl (ValueError ''unpack''))"

definition read_dir :: "(string \<Rightarrow> string res) \<Rightarrow> string \<Rightarrow> string option \<times> string option \<Rightarrow> (string option \<times> string option) res" where
  "read_dir eval_str line dirs =
     res_bind (if str_startswith line ''top_dir =''
               then res_bind (assigned eval_str line) (\<lambda>v. Inr (Some v, snd dirs)) else Inr dirs) (\<lambda>d.
     if str_startswith line ''out_dir =''
     then res_bind (assigned eval_str line) (\<lambda>v. Inr (fst d, Some v)) else Inr d)"

definition read_ns3_config ::
  "system \<Rightarrow> (string \<Rightarrow> string res) \<Rightarrow> (string \<Rightarrow> config \<Rightarrow> config res) \<Rightarrow> config \<Rightarrow> config res" where
  "read_ns3_config sy eval_str exec_line cfg =
     (case file_text sy (lock_filename sy) of
        None \<Rightarrow> Inl (SystemExit 2)
      | Some s \<Rightarrow>
          res_bind (res_fold (read_dir eval_str) (readlines s) (None, None)) (\<lambda>dirs.
          case dirs of
            (Some top_dir, Some out_dir) \<Rightarrow>
              res_fold (\<lambda>line. res_fold (\<lambda>item c. if str_startswith line item then exec_line line c else Inr c)
                  interesting_config_items) (readlines s) (cfg\<lparr>NS3_BASEDIR := top_dir, NS3_BUILDDIR := out_dir\<rparr>)
          | _ \<Rightarrow> Inl UnboundLocalError))"

section \<open>make\_paths\<close>

text \<open>The variable with the library path, and the separator.\<close>

definition library_variable :: "string \<Rightarrow> string \<times> string" where
  "library_variable pf =
     (if pf = ''darwin'' then (''DYLD_LIBRARY_PATH'', '':'')
      else if pf = ''win32'' then (''PATH'', '';'')
      else if pf = ''cygwin'' then (''PATH'', '':'')
      else (''LD_LIBRARY_PATH'', '':''))"

definition append_to :: "string \<Rightarrow> string \<Rightarrow> (string, string) dict \<Rightarrow> (string, string) dict" where
  "append_to key v env = dict_set key (the (dict_find env key) @ v) env"

definition make_paths :: "system \<Rightarrow> config \<Rightarrow> (string, string) dict \<Rightarrow> (string, string) dict" where
  "make_paths sy cfg env =
     (let pypath = path_join (path_join (NS3_BUILDDIR cfg) ''bindings'') ''python'';
          env1 = dict_set ''PYTHONPATH'' pypath env;
          env2 = (if \<not> dict_has env ''PYTHONPATH'' then dict_set ''PYTHONPATH'' pypath env1
                  else append_to ''PYTHONPATH'' ('':'' @ pypath) env1)
      in case library_variable (platform sy) of (key, sep) \<Rightarrow>
         fold (\<lambda>p. append_to key (sep @ p)) (NS3_MODULE_PATH cfg)
           (if \<not> dict_has env key then dict_set key [] env2 else env2))"

section \<open>From the build to the dispatch\<close>

definition core_kinds :: "string list" where
  "core_kinds = [''core'', ''performance'', ''system'', ''unit'']"

text \<open>\<open>executable\<close> is the path of the interpreter.\<close>

definition build_cmd :: "system \<Rightarrow> string \<Rightarrow> test_options \<Rightarrow> string" where
  "build_cmd sy executable opt =
     (let cmd = (if kinds opt \<or> list_tests opt \<or> (constrain opt \<noteq> [] \<and> constrain opt \<in> set core_kinds)
                 then ''./ns3 build test-runner''
                 else if example opt \<noteq> [] then ''./ns3 build '' @ basename (example opt)
                 else ''./ns3'')
      in if platform sy = ''win32'' then executable @ '' '' @ cmd else cmd)"

datatype start =
    Stopped "string list" "int option"
  | Started "string list" "job list"

definition runner_output :: "system \<Rightarrow> config \<Rightarrow> string \<Rightarrow> (int \<times> string) res" where
  "runner_output sy cfg args =
     res_bind (run_job_synchronously sy cfg (path_join ''utils'' (program_name cfg ''test-runner'' @ args))
       (path_str (getcwd sy)) False False []) (\<lambda>(rc, so, se, et). Inr (rc, so))"

text \<open>The messages of the option that lists the tests.\<close>

definition print_list :: "system \<Rightarrow> config \<Rightarrow> test_options \<Rightarrow> example_lists \<Rightarrow> string list res" where
  "print_list sy cfg opt ls =
     res_bind (runner_output sy cfg ('' --print-test-name-list --print-test-types'' @
         (if constrain opt \<noteq> [] then '' --test-type='' @ constrain opt else []))) (\<lambda>(rc, out).
     if rc \<noteq> 0
     then Inr [''test.py error:  test-runner return code returned '' @ str_int rc,
         ''To debug, try running '' @ [CHR 0x27] @ ''./ns3 run '' @ [CHR 0x22] @ ''test-runner --print-test-name-list'' @
         [CHR 0x22, CHR 0x27, newline]]
     else Inr ([''Test Type    Test Name'', ''---------    ---------''] @
         filter (\<lambda>item. str_strip item \<noteq> []) (sort (str_split newline out)) @
         map (\<lambda>item. ''example      '' @ item) (sort (example_names_original ls)) @ [[]]))"

text \<open>
  \<open>build_rc\<close> is the return code of the build.  \<open>Stopped\<close> is a return before any worker is started,
  with the value that is returned.
\<close>

definition run_start :: "system \<Rightarrow> config \<Rightarrow> test_options \<Rightarrow> int \<Rightarrow> string \<Rightarrow> start res" where
  "run_start sy cfg opt build_rc outdir =
     (if \<not> no_build opt \<and> build_rc \<noteq> 0 then Inr (Stopped [''ns3 died. Not running tests''] (Some build_rc))
      else res_bind (read_build_status sy) (\<lambda>(programs, scripts).
        res_bind (collect_examples sy cfg) (\<lambda>ls.
        res_bind (if kinds opt then res_bind (runner_output sy cfg '' --print-test-type-list'') (\<lambda>(rc, out). Inr [out])
                  else Inr []) (\<lambda>m1.
        res_bind (if list_tests opt then print_list sy cfg opt ls else Inr []) (\<lambda>m2.
        if kinds opt \<or> list_tests opt then Inr (Stopped (m1 @ m2) None)
        else res_bind (dispatch_jobs sy cfg opt (runnable_programs programs) scripts ls outdir) (\<lambda>(m3, js).
          Inr (Started m3 js)))))))"

text \<open>The exit status of the process for a value that is returned by \<open>main\<close>.\<close>

definition sys_exit_status :: "int option \<Rightarrow> int" where
  "sys_exit_status v = (case v of None \<Rightarrow> 0 | Some n \<Rightarrow> n)"

section \<open>The environment\<close>

lemma append_to_find:
  assumes "dict_ok env" "dict_find env key = Some u"
  shows "dict_ok (append_to key v env)" and "dict_find (append_to key v env) k = (if k = key then Some (u @ v) else dict_find env k)"
  using assms by (simp_all add: append_to_def dict_ops)

lemma append_paths_find:
  assumes "dict_ok env" "dict_find env key = Some u"
  shows "dict_find (fold (\<lambda>p. append_to key (sep @ p)) ps env) k =
    (if k = key then Some (u @ concat (map ((@) sep) ps)) else dict_find env k)"
  using assms
proof (induction ps arbitrary: env u)
  case (Cons p ps)
  note a = append_to_find [OF Cons.prems, of "sep @ p"]
  show ?case using Cons.IH [OF a(1), of "u @ sep @ p"] a(2) by simp
qed simp

lemma library_variable_key: "fst (library_variable pf) \<noteq> ''PYTHONPATH''"
  by (simp add: library_variable_def)

text \<open>
  The environment that the jobs run in: \<open>PYTHONPATH\<close> is the bindings directory, and it is there twice
  if the variable was set before, whatever its value was; the directories of the modules are appended to
  the library path of the platform; every other variable is unchanged.
\<close>

theorem make_paths_env:
  assumes "dict_ok env" and "library_variable (platform sy) = (key, sep)"
    and "pypath = path_join (path_join (NS3_BUILDDIR cfg) ''bindings'') ''python''"
  shows "dict_find (make_paths sy cfg env) k =
    (if k = ''PYTHONPATH'' then Some (if dict_has env ''PYTHONPATH'' then pypath @ '':'' @ pypath else pypath)
     else if k = key then Some ((case dict_find env key of None \<Rightarrow> [] | Some u \<Rightarrow> u) @ concat (map ((@) sep) (NS3_MODULE_PATH cfg)))
     else dict_find env k)"
proof -
  have key: "key \<noteq> ''PYTHONPATH''" using library_variable_key [of "platform sy"] assms(2) by simp
  let ?e1 = "dict_set ''PYTHONPATH'' pypath env"
  define e2 where "e2 = (if \<not> dict_has env ''PYTHONPATH'' then dict_set ''PYTHONPATH'' pypath ?e1
    else append_to ''PYTHONPATH'' ('':'' @ pypath) ?e1)"
  have e2: "dict_ok e2" "dict_find e2 j = (if j = ''PYTHONPATH'' then
      Some (if dict_has env ''PYTHONPATH'' then pypath @ '':'' @ pypath else pypath) else dict_find env j)" for j
    using assms(1) by (simp_all add: e2_def append_to_def dict_ops)
  define e3 where "e3 = (if \<not> dict_has env key then dict_set key [] e2 else e2)"
  have e3: "dict_ok e3" "dict_find e3 key = Some (case dict_find env key of None \<Rightarrow> [] | Some u \<Rightarrow> u)"
      "j \<noteq> key \<Longrightarrow> dict_find e3 j = dict_find e2 j" for j
    using e2 key by (auto simp: e3_def dict_ops dict_has_find split: option.splits)
  have "make_paths sy cfg env = fold (\<lambda>p. append_to key (sep @ p)) (NS3_MODULE_PATH cfg) e3"
    by (simp add: make_paths_def Let_def assms(2) e3_def e2_def flip: assms(3))
  then show ?thesis using append_paths_find [OF e3(1,2)] e3(3) e2(2) key by simp
qed

theorem make_paths_env_witness:
  "dict_find (make_paths demo_system (demo_config\<lparr>NS3_MODULE_PATH := [''/a'', ''/b'']\<rparr>) [(''PYTHONPATH'', ''/mine'')]) ''LD_LIBRARY_PATH'' =
    Some '':/a:/b''"
proof -
  have "dict_ok [(''PYTHONPATH'', ''/mine'')]" "library_variable (platform demo_system) = (''LD_LIBRARY_PATH'', '':'')"
    by (simp_all add: dict_ok_def library_variable_def demo_system_def)
  from make_paths_env [OF this refl, of "demo_config\<lparr>NS3_MODULE_PATH := [''/a'', ''/b'']\<rparr>" "''LD_LIBRARY_PATH''"]
  show ?thesis by (simp add: dict_find_def)
qed

section \<open>Selection by name\<close>

lemma fnmatch_literal:
  "list_all (\<lambda>c. c \<noteq> CHR ''*'' \<and> c \<noteq> CHR ''?'' \<and> c \<noteq> CHR ''['') p \<Longrightarrow> fnmatch p s \<longleftrightarrow> s = p"
proof (induction p arbitrary: s)
  case (Cons c p)
  then show ?case by (cases s) auto
qed simp

lemma fold_remove_filter:
  assumes "distinct l"
  shows "fold (\<lambda>t l. if t \<in> set l then remove1 t l else l) ts l = filter (\<lambda>x. x \<notin> set ts) l"
proof -
  have "(if t \<in> set l then remove1 t l else l) = filter (\<lambda>x. x \<noteq> t) l" if "distinct l" for t :: 'a and l
    using that by (auto simp: distinct_remove1_removeAll removeAll_filter_not_eq intro!: filter_True [symmetric] filter_cong)
  with assms show ?thesis by (induction ts arbitrary: l) (simp_all add: conj_commute)
qed

text \<open>
  The suites for a pattern: no match ends the program with status 2; a single match is run, even
  if it is a performance test; of several matches the performance tests are left out unless the kind
  was requested.
\<close>

theorem select_suites_pattern:
  assumes "suite opt \<noteq> []" and "runner_list sy cfg '' --print-test-name-list'' = Inr out"
    and "runner_list sy cfg '' --print-test-name-list --test-type=performance'' = Inr perf"
    and "found = fnmatch_filter (str_split newline out) (suite opt)" and "distinct found"
  shows "select_suites sy cfg opt =
    (if found = [] then Inl (SystemExit 2)
     else if length found = 1 \<or> constrain opt = ''performance'' then Inr found
     else Inr (filter (\<lambda>t. t \<notin> set (str_split newline perf)) found))"
proof -
  have "str_split newline (str_join [newline] found) = found" if "found \<noteq> []"
    using that assms(4) by (intro str_split_join) (auto simp: fnmatch_filter_def dest: str_split_no_sep)
  then show ?thesis using assms(1-3,5)
    by (simp add: select_suites_def Let_def fold_remove_filter flip: assms(4))
qed

text \<open>A name without wildcards selects the suite of that name.\<close>

lemma fnmatch_filter_literal:
  "list_all (\<lambda>c. c \<noteq> CHR ''*'' \<and> c \<noteq> CHR ''?'' \<and> c \<noteq> CHR ''['') p \<Longrightarrow> fnmatch_filter names p = filter ((=) p) names"
  by (auto simp: fnmatch_filter_def fnmatch_literal intro!: filter_cong)

theorem select_suites_pattern_witness: "select_suites demo_system demo_config demo_options = Inr [''tcp'']"
proof -
  have r: "runner_list demo_system demo_config args = Inr ''tcp''" for args
    by (simp add: runner_list_def job_command_def demo_system_def Let_def)
  have f: "fnmatch_filter (str_split newline ''tcp'') (suite demo_options) = [''tcp'']" by code_simp
  show ?thesis
    using select_suites_pattern [OF _ r r f [symmetric]] by (simp add: demo_options_def)
qed

section \<open>Errors\<close>

text \<open>If listing the tests fails, the exit status is still 0.\<close>

lemma list_failure_status:
  assumes "list_tests opt" "no_build opt" "\<not> kinds opt" "read_build_status sy = Inr (programs, scripts)"
    "collect_examples sy cfg = Inr ls" "print_list sy cfg opt ls = Inr msgs"
  shows "run_start sy cfg opt 0 outdir = Inr (Stopped msgs None) \<and> sys_exit_status None = 0"
  using assms by (simp add: run_start_def sys_exit_status_def)

text \<open>A directory with an equals sign in its name cannot be read.\<close>

lemma directory_with_equals: "assigned eval_str ''top_dir = /a=b'' = Inl (ValueError ''unpack'')"
  by (simp add: assigned_def)

text \<open>A negative limit gives no workers.\<close>

lemma negative_jobs: "process_limit opt < 0 \<Longrightarrow> 0 < cpus \<Longrightarrow> nat (processors opt cpus) = 0"
  by (simp add: processors_def)

end
