(* ===== verification/Test_Report.thy ===== *)
theory Test_Report
  imports Test_Run
begin

text \<open>
  \<open>src/test.py\<close>, last part: the reports.  The results file is given by the element tree that
  \<open>ET.parse\<close> returns for it.  A text or an attribute that is not there is \<open>None\<close>, and it is written as the
  word None; a child that is not there raises.
\<close>

section \<open>Element trees\<close>

datatype xml = Elem (xml_tag: string) (xml_attrs: "(string, string) dict") (xml_text: "string option") (xml_children: "xml list")

definition findall :: "string \<Rightarrow> xml \<Rightarrow> xml list" where
  "findall tag t = filter (\<lambda>c. xml_tag c = tag) (xml_children t)"

definition find_child :: "string \<Rightarrow> xml \<Rightarrow> xml option" where
  "find_child tag t = List.find (\<lambda>c. xml_tag c = tag) (xml_children t)"

text \<open>\<open>t.find(tag).text\<close>\<close>

definition child_text :: "string \<Rightarrow> xml \<Rightarrow> string option res" where
  "child_text tag t = (case find_child tag t of None \<Rightarrow> Inl AttributeError | Some c \<Rightarrow> Inr (xml_text c))"

text \<open>\<open>'%s' % v\<close>\<close>

definition fmt :: "string option \<Rightarrow> string" where
  "fmt v = (case v of None \<Rightarrow> ''None'' | Some s \<Rightarrow> s)"

definition truthy :: "string option \<Rightarrow> bool" where
  "truthy v \<longleftrightarrow> v \<noteq> None \<and> v \<noteq> Some []"

definition quote_char :: string where
  "quote_char = [CHR 0x22]"

definition res_concat :: "string res list \<Rightarrow> string res" where
  "res_concat rs = res_fold (\<lambda>r acc. res_bind r (\<lambda>s. Inr (acc @ s))) rs []"

section \<open>read\_test and the text report\<close>

record test_info =
  ti_result :: "string option"
  ti_name :: "string option"
  ti_reason :: "string option"
  ti_time :: "string option"

definition time_real :: "xml \<Rightarrow> string option" where
  "time_real t = (case find_child ''Time'' t of None \<Rightarrow> Some [] | Some c \<Rightarrow> dict_find (xml_attrs c) ''real'')"

definition read_test :: "xml \<Rightarrow> test_info res" where
  "read_test t =
     res_bind (child_text ''Result'' t) (\<lambda>result.
     res_bind (child_text ''Name'' t) (\<lambda>name.
     Inr \<lparr>ti_result = result, ti_name = name,
          ti_reason = (case find_child ''Reason'' t of None \<Rightarrow> Some [] | Some c \<Rightarrow> xml_text c),
          ti_time = time_real t\<rparr>))"

definition details_line :: "string \<Rightarrow> string \<Rightarrow> xml \<Rightarrow> string res" where
  "details_line title tag d = res_bind (child_text tag d) (\<lambda>v. Inr (''      '' @ title @ fmt v @ [newline]))"

definition details_text :: "xml \<Rightarrow> string res" where
  "details_text d =
     res_concat
       [Inr (''    Details:'' @ [newline]),
        details_line ''Message:   '' ''Message'' d, details_line ''Condition: '' ''Condition'' d,
        details_line ''Actual:    '' ''Actual'' d, details_line ''Limit:     '' ''Limit'' d,
        details_line ''File:      '' ''File'' d, details_line ''Line:      '' ''Line'' d]"

definition node_line :: "string \<Rightarrow> test_info \<Rightarrow> string" where
  "node_line test_type i =
     fmt (ti_result i) @ '': Test '' @ test_type @ '' '' @ quote_char @ fmt (ti_name i) @ quote_char @ '' ('' @ fmt (ti_time i) @ '')'' @
     (if truthy (ti_reason i) then '' ('' @ fmt (ti_reason i) @ '')'' else fmt (ti_reason i)) @ [newline]"

lemma findall_size [termination_simp]: "c \<in> set (findall tag t) \<Longrightarrow> size c < size t"
  by (cases t) (auto simp: findall_def dest!: size_list_estimation' [OF _ order_refl, of _ _ size])

fun node_to_text :: "string \<Rightarrow> xml \<Rightarrow> string res" where
  "node_to_text test_type t =
     res_bind (read_test t) (\<lambda>i.
     res_bind (res_concat (map details_text (findall ''FailureDetails'' t))) (\<lambda>ds.
     res_bind (res_concat (map (node_to_text ''Case'') (findall ''Test'' t))) (\<lambda>cs.
     Inr (node_line test_type i @ ds @ cs))))"

declare node_to_text.simps [simp del]

definition example_text :: "xml \<Rightarrow> string res" where
  "example_text e =
     res_bind (child_text ''Result'' e) (\<lambda>result.
     res_bind (child_text ''Name'' e) (\<lambda>name.
     Inr (fmt result @ '': Example '' @ quote_char @ fmt name @ quote_char @ '' ('' @ fmt (time_real e) @ '')'' @ [newline])))"

text \<open>The contents of the text file.\<close>

definition translate_to_text :: "xml \<Rightarrow> string res" where
  "translate_to_text et =
     res_concat (map (node_to_text ''Suite'') (findall ''Test'' et) @ map example_text (findall ''Example'' et))"

section \<open>The HTML report\<close>

definition styled :: "string \<Rightarrow> string \<Rightarrow> string" where
  "styled tag color = ''<'' @ tag @ '' style='' @ quote_char @ ''color:'' @ color @ quote_char @ ''>''"

definition td :: "string option \<Rightarrow> string" where
  "td v = ''<td>'' @ fmt v @ ''</td>'' @ [newline]"

definition td_color :: "string \<Rightarrow> string option \<Rightarrow> string" where
  "td_color color v = styled ''td'' color @ fmt v @ ''</td>'' @ [newline]"

definition html_heading :: "test_info \<Rightarrow> string" where
  "html_heading i =
     (let common = fmt (ti_result i) @ '': '' @ fmt (ti_name i) @ '' ('' @ fmt (ti_time i) @ '')''
      in if ti_result i = Some ''PASS'' then styled ''h3'' ''green'' @ common @ ''</h3>'' @ [newline]
         else if ti_result i = Some ''SKIP''
         then styled ''h3'' ''#ff6600'' @ common @ '' ('' @ fmt (ti_reason i) @ '')</h3>'' @ [newline]
         else styled ''h3'' ''red'' @ common @ ''</h3>'' @ [newline])"

definition details_cell :: "xml \<Rightarrow> string res" where
  "details_cell d =
     (let part = (\<lambda>tag sep. res_bind (child_text tag d) (\<lambda>v. Inr (''<b>'' @ tag @ '': </b>'' @ fmt v @ sep)))
      in res_concat [Inr ''<td>'', part ''Message'' '', '', part ''Condition'' '', '', part ''Actual'' '', '',
           part ''Limit'' '', '', part ''File'' '', '', part ''Line'' [], Inr (''</td>'' @ [newline])])"

text \<open>The row is closed with \<open>/td\<close>, as in the source.\<close>

definition failure_row :: "test_info \<Rightarrow> bool \<Rightarrow> xml \<Rightarrow> string res" where
  "failure_row i first_row d =
     res_bind (details_cell d) (\<lambda>c.
     Inr (''<tr>'' @ [newline] @
       (if first_row then td_color ''red'' (ti_result i) @ td (ti_name i) @ td (ti_time i)
        else td (Some []) @ td (Some []) @ td (Some [])) @
       c @ ''</td>'' @ [newline]))"

fun failure_rows :: "test_info \<Rightarrow> bool \<Rightarrow> xml list \<Rightarrow> string res list" where
  "failure_rows i first_row [] = []"
| "failure_rows i first_row (d # ds) = failure_row i first_row d # failure_rows i False ds"

definition html_case :: "xml \<Rightarrow> string res" where
  "html_case c =
     res_bind (read_test c) (\<lambda>i.
     if ti_result i = Some ''FAIL'' then res_concat (failure_rows i True (findall ''FailureDetails'' c))
     else Inr (''<tr>'' @ [newline] @ td_color ''green'' (ti_result i) @ td (ti_name i) @ td (ti_time i) @
       td (ti_reason i) @ ''</tr>'' @ [newline]))"

definition table_start :: string where
  "table_start = ''<table border='' @ quote_char @ ''1'' @ quote_char @ ''>'' @ [newline] @ ''<th> Result </th>'' @ [newline]"

definition html_suite :: "xml \<Rightarrow> string res" where
  "html_suite s =
     res_bind (read_test s) (\<lambda>i.
     if ti_result i \<in> {Some ''CRASH'', Some ''SKIP'', Some ''VALGR''}
     then Inr (html_heading i @ table_start @ ''<tr>'' @ [newline] @
       td_color (if ti_result i = Some ''SKIP'' then ''#ff6600'' else ''red'') (ti_result i) @
       ''</tr>'' @ [newline] @ ''</table>'' @ [newline])
     else res_bind (res_concat (map html_case (findall ''Test'' s))) (\<lambda>rows.
       Inr (html_heading i @ table_start @ ''<th>Test Case Name</th>'' @ [newline] @ ''<th> Time </th>'' @ [newline] @
         (if ti_result i = Some ''FAIL'' then ''<th>Failure Details</th>'' @ [newline] else []) @
         rows @ ''</table>'' @ [newline])))"

definition html_example :: "xml \<Rightarrow> string res" where
  "html_example e =
     res_bind (read_test e) (\<lambda>i.
     Inr (''<tr>'' @ [newline] @
       (if ti_result i = Some ''PASS'' then td_color ''green'' (ti_result i)
        else if ti_result i = Some ''SKIP'' then styled ''td'' ''#ff6600'' @ fmt (ti_result i) @ ''</fd>'' @ [newline]
        else td_color ''red'' (ti_result i)) @
       td (ti_name i) @ td (ti_time i) @ td (ti_reason i) @ ''</tr>'' @ [newline]))"

definition translate_to_html :: "xml \<Rightarrow> string res" where
  "translate_to_html et =
     res_concat
       ([Inr (''<html>'' @ [newline] @ ''<body>'' @ [newline] @ ''<center><h1>ns-3 Test Results</h1></center>'' @ [newline] @
           ''<h2>Test Suites</h2>'' @ [newline])] @
        map html_suite (findall ''Test'' et) @
        [Inr (''<h2>Examples</h2>'' @ [newline] @ table_start @ ''<th>Example Name</th>'' @ [newline] @
           ''<th>Elapsed Time</th>'' @ [newline] @ ''<th>Details</th>'' @ [newline])] @
        map html_example (findall ''Example'' et) @
        [Inr (''</table>'' @ [newline] @ ''</body>'' @ [newline] @ ''</html>'' @ [newline])])"

section \<open>The text report as a walk over the tree\<close>

lemma res_concat_Nil [simp]: "res_concat [] = Inr []"
  by (simp add: res_concat_def)

lemma res_concat_Cons [simp]: "res_concat (r # rs) = res_bind r (\<lambda>s. res_bind (res_concat rs) (\<lambda>t. Inr (s @ t)))"
proof -
  have acc: "res_fold (\<lambda>r acc. res_bind r (\<lambda>s. Inr (acc @ s))) rs a =
      res_bind (res_fold (\<lambda>r acc. res_bind r (\<lambda>s. Inr (acc @ s))) rs []) (\<lambda>t. Inr (a @ t))" for rs :: "string res list" and a
  proof (induction rs arbitrary: a)
    case (Cons r rs)
    show ?case
    proof (cases r)
      case (Inr s)
      then show ?thesis unfolding res_fold.simps Inr res_bind_simps append_Nil Cons [of "a @ s"] Cons [of s]
        by (simp add: res_bind_assoc)
    qed simp
  qed simp
  show ?thesis
  proof (cases r)
    case (Inr s)
    then show ?thesis using acc [of rs s] by (simp add: res_concat_def)
  qed (simp add: res_concat_def)
qed

lemma res_concat_append:
  "res_concat (xs @ ys) = res_bind (res_concat xs) (\<lambda>a. res_bind (res_concat ys) (\<lambda>b. Inr (a @ b)))"
proof (induction xs)
  case Nil
  then show ?case by (cases "res_concat ys") simp_all
qed (simp add: res_bind_assoc)

lemma res_concat_concat: "res_concat (concat xss) = res_concat (map res_concat xss)"
  by (induction xss) (simp_all add: res_concat_append)

lemma res_concat_total: "(\<exists>s. res_concat rs = Inr s) \<longleftrightarrow> list_all (\<lambda>r. \<exists>s. r = Inr s) rs"
  by (induction rs) (auto simp: res_simps)

text \<open>The nodes of the report in the order of the lines, with their kind.\<close>

fun walk :: "string \<Rightarrow> xml \<Rightarrow> (string \<times> xml) list" where
  "walk test_type t = (test_type, t) # concat (map (walk ''Case'') (findall ''Test'' t))"

declare walk.simps [simp del]

text \<open>The lines of a node itself.\<close>

definition node_entry :: "string \<times> xml \<Rightarrow> string res" where
  "node_entry n = (case n of (test_type, t) \<Rightarrow>
     res_bind (read_test t) (\<lambda>i.
     res_bind (res_concat (map details_text (findall ''FailureDetails'' t))) (\<lambda>ds. Inr (node_line test_type i @ ds))))"

lemma node_to_text_walk: "node_to_text test_type t = res_concat (map node_entry (walk test_type t))"
proof (induction t arbitrary: test_type rule: measure_induct_rule [of size])
  case (less t)
  have m: "map (node_to_text ''Case'') (findall ''Test'' t) =
      map (\<lambda>c. res_concat (map node_entry (walk ''Case'' c))) (findall ''Test'' t)"
    using less findall_size by (intro map_cong) auto
  have e: "node_entry (test_type, t) = res_bind (read_test t) (\<lambda>i.
      res_bind (res_concat (map details_text (findall ''FailureDetails'' t))) (\<lambda>ds. Inr (node_line test_type i @ ds)))"
    by (simp add: node_entry_def)
  show ?case
    by (simp add: node_to_text.simps [of test_type t] walk.simps [of test_type t] m e map_concat
        res_concat_concat comp_def res_bind_assoc)
qed

definition has_child :: "string \<Rightarrow> xml \<Rightarrow> bool" where
  "has_child tag t \<longleftrightarrow> find_child tag t \<noteq> None"

definition details_ok :: "xml \<Rightarrow> bool" where
  "details_ok d \<longleftrightarrow> list_all (\<lambda>tag. has_child tag d) [''Message'', ''Condition'', ''Actual'', ''Limit'', ''File'', ''Line'']"

definition node_ok :: "xml \<Rightarrow> bool" where
  "node_ok t \<longleftrightarrow> has_child ''Result'' t \<and> has_child ''Name'' t \<and> list_all details_ok (findall ''FailureDetails'' t)"

lemma child_text_total: "(\<exists>s. child_text tag t = Inr s) \<longleftrightarrow> has_child tag t"
  by (simp add: child_text_def has_child_def split: option.splits)

lemma details_line_total: "(\<exists>s. details_line title tag d = Inr s) \<longleftrightarrow> has_child tag d"
  by (auto simp: details_line_def child_text_total [symmetric] res_simps)

lemma details_text_total: "(\<exists>s. details_text d = Inr s) \<longleftrightarrow> details_ok d"
  by (simp only: details_text_def res_concat_total details_ok_def list.pred_inject details_line_total) simp

lemma node_entry_total: "(\<exists>s. node_entry (ty, t) = Inr s) \<longleftrightarrow> node_ok t"
proof -
  have "(\<exists>i. read_test t = Inr i) \<longleftrightarrow> has_child ''Result'' t \<and> has_child ''Name'' t"
    by (auto simp: read_test_def child_text_total [symmetric] res_simps)
  moreover have "(\<exists>s. res_concat (map details_text (findall ''FailureDetails'' t)) = Inr s) \<longleftrightarrow>
      list_all details_ok (findall ''FailureDetails'' t)"
    by (simp add: res_concat_total list.pred_map comp_def details_text_total)
  ultimately show ?thesis by (auto simp: node_entry_def node_ok_def res_simps)
qed

lemma example_text_total: "(\<exists>s. example_text e = Inr s) \<longleftrightarrow> has_child ''Result'' e \<and> has_child ''Name'' e"
  by (auto simp: example_text_def child_text_total [symmetric] res_simps)

lemma text_report_walk:
  "translate_to_text et =
     res_concat (map node_entry (concat (map (walk ''Suite'') (findall ''Test'' et))) @ map example_text (findall ''Example'' et))"
proof -
  have "node_to_text ty = (\<lambda>t. res_concat (map node_entry (walk ty t)))" for ty
    by (rule ext) (rule node_to_text_walk)
  then show ?thesis
    by (simp add: translate_to_text_def res_concat_append map_concat res_concat_concat comp_def)
qed

lemma text_report_total:
  "(\<exists>s. translate_to_text et = Inr s) \<longleftrightarrow>
     list_all (\<lambda>n. node_ok (snd n)) (concat (map (walk ''Suite'') (findall ''Test'' et))) \<and>
     list_all (\<lambda>e. has_child ''Result'' e \<and> has_child ''Name'' e) (findall ''Example'' et)"
proof -
  have "(\<exists>s. node_entry n = Inr s) \<longleftrightarrow> node_ok (snd n)" for n
    using node_entry_total [of "fst n" "snd n"] by simp
  then show ?thesis
    by (simp add: text_report_walk res_concat_total list.pred_map comp_def example_text_total)
qed

text \<open>
  The text report has one entry for every suite and every case at any depth, in preorder, then one for
  every example; and it is written for every results file in which each of these has a result and a
  name and each failure has its six fields.  Otherwise an exception is raised.
\<close>

theorem translate_to_text_walk:
  "translate_to_text et =
     res_concat (map node_entry (concat (map (walk ''Suite'') (findall ''Test'' et))) @ map example_text (findall ''Example'' et)) \<and>
   ((\<exists>s. translate_to_text et = Inr s) \<longleftrightarrow>
     list_all (\<lambda>n. node_ok (snd n)) (concat (map (walk ''Suite'') (findall ''Test'' et))) \<and>
     list_all (\<lambda>e. has_child ''Result'' e \<and> has_child ''Name'' e) (findall ''Example'' et))"
  by (rule conjI [OF text_report_walk text_report_total])

section \<open>The HTML report\<close>

lemma read_test_total: "(\<exists>i. read_test t = Inr i) \<longleftrightarrow> has_child ''Result'' t \<and> has_child ''Name'' t"
  by (auto simp: read_test_def child_text_total [symmetric] res_simps)

lemma details_cell_total: "details_ok d \<Longrightarrow> \<exists>s. details_cell d = Inr s"
  unfolding details_cell_def Let_def res_concat_total
  by (simp add: details_ok_def res_simps child_text_total [symmetric])

lemma failure_rows_total:
  "list_all details_ok ds \<Longrightarrow> list_all (\<lambda>r. \<exists>s. r = Inr s) (failure_rows i b ds)"
proof (induction i b ds rule: failure_rows.induct)
  case (2 i b d ds)
  then show ?case using details_cell_total [of d] by (auto simp: failure_row_def)
qed simp

lemma html_case_total:
  assumes "node_ok c"
  shows "\<exists>s. html_case c = Inr s"
proof -
  obtain i where i: "read_test c = Inr i" using assms read_test_total [of c] by (auto simp: node_ok_def)
  show ?thesis using assms failure_rows_total [of "findall ''FailureDetails'' c" i True]
      res_concat_total [of "failure_rows i True (findall ''FailureDetails'' c)"]
    by (auto simp: html_case_def i node_ok_def)
qed

lemma html_suite_total:
  assumes "node_ok s" and "list_all node_ok (findall ''Test'' s)"
  shows "\<exists>r. html_suite s = Inr r"
proof -
  obtain i where i: "read_test s = Inr i" using assms(1) read_test_total [of s] by (auto simp: node_ok_def)
  have "\<exists>r. res_concat (map html_case (findall ''Test'' s)) = Inr r"
    using assms(2) html_case_total by (auto simp: res_concat_total list_all_iff)
  then show ?thesis by (auto simp: html_suite_def i)
qed

lemma walk_parts:
  assumes "list_all (\<lambda>n. node_ok (snd n)) (walk ty s)"
  shows "node_ok s \<and> list_all node_ok (findall ''Test'' s)"
proof -
  have "node_ok c" if "c \<in> set (findall ''Test'' s)" for c
  proof -
    have "(''Case'', c) \<in> set (walk ''Case'' c)" by (subst walk.simps) simp
    then have "(''Case'', c) \<in> set (walk ty s)" using that by (subst walk.simps) auto
    then show ?thesis using assms by (auto simp: list_all_iff)
  qed
  moreover have "node_ok s" using assms by (subst (asm) walk.simps) simp
  ultimately show ?thesis by (simp add: list_all_iff)
qed

text \<open>
  If the text report of a results file can be written, then the HTML report can be written too.
\<close>

theorem html_report_total:
  assumes "translate_to_text et = Inr s"
  shows "\<exists>h. translate_to_html et = Inr h"
proof -
  have ok: "list_all (\<lambda>n. node_ok (snd n)) (concat (map (walk ''Suite'') (findall ''Test'' et)))"
      "list_all (\<lambda>e. has_child ''Result'' e \<and> has_child ''Name'' e) (findall ''Example'' et)"
    using assms text_report_total by blast+
  have "\<exists>r. html_suite t = Inr r" if "t \<in> set (findall ''Test'' et)" for t
    using walk_parts [of "''Suite''" t] ok(1) that by (intro html_suite_total) (auto simp: list_all_iff)
  moreover have "\<exists>r. html_example e = Inr r" if "e \<in> set (findall ''Example'' et)" for e
    using read_test_total [of e] ok(2) that by (auto simp: html_example_def list_all_iff)
  ultimately show ?thesis
    unfolding translate_to_html_def res_concat_total by (auto simp: list_all_iff)
qed

definition demo_results :: xml where
  "demo_results =
     Elem ''Results'' [] None
       [Elem ''Test'' [] None
          [Elem ''Name'' [] (Some ''tcp'') [], Elem ''Result'' [] (Some ''FAIL'') [],
           Elem ''Test'' [] None
             [Elem ''Name'' [] (Some ''syn'') [], Elem ''Result'' [] (Some ''FAIL'') []]],
        Elem ''Example'' [] None
          [Elem ''Name'' [] (Some ''udp'') [], Elem ''Result'' [] (Some ''SKIP'') [],
           Elem ''Time'' [(''real'', ''0.000'')] None []]]"

theorem html_report_total_witness: "\<exists>h. translate_to_html demo_results = Inr h"
proof -
  have "\<exists>s. translate_to_text demo_results = Inr s" unfolding text_report_total by code_simp
  then show ?thesis using html_report_total by blast
qed

section \<open>Defects of the HTML report\<close>

text \<open>A failed case without failure details has no row, although the text report has its line.\<close>

lemma failed_case_without_row:
  assumes "read_test c = Inr i" and "ti_result i = Some ''FAIL''" and "findall ''FailureDetails'' c = []"
  shows "html_case c = Inr []"
  using assms by (simp add: html_case_def)

text \<open>The row of a failure is opened and not closed.\<close>

lemma failure_row_not_closed:
  "(case failure_row \<lparr>ti_result = Some ''FAIL'', ti_name = Some ''n'', ti_reason = Some [], ti_time = Some []\<rparr> True
      (Elem ''FailureDetails'' [] None (map (\<lambda>tag. Elem tag [] (Some ''x'') [])
        [''Message'', ''Condition'', ''Actual'', ''Limit'', ''File'', ''Line''])) of
     Inl e \<Rightarrow> False
   | Inr s \<Rightarrow> is_substring ''<tr>'' s \<and> \<not> is_substring ''</tr>'' s)"
  by code_simp

text \<open>The cell of a skipped example is closed with a tag that does not exist.\<close>

lemma skipped_example_cell:
  assumes "read_test e = Inr i" and "ti_result i = Some ''SKIP''"
  shows "\<exists>s. html_example e = Inr s \<and> is_substring ''SKIP</fd>'' s"
proof -
  have "html_example e = Inr ((''<tr>'' @ [newline] @ styled ''td'' ''#ff6600'') @ ''SKIP</fd>'' @
      ([newline] @ td (ti_name i) @ td (ti_time i) @ td (ti_reason i) @ ''</tr>'' @ [newline]))"
    using assms by (simp add: html_example_def fmt_def)
  then show ?thesis unfolding is_substring_iff by blast
qed

end
