(* ===== verification/Viz_Threads.thy ===== *)
theory Viz_Threads
  imports Complex_Main Transition
begin

text \<open>
  \<open>src/src/visualizer/visualizer/core.py\<close>, the two threads: \<open>SimulationThread.run\<close> and the callbacks of the
  main loop that deal with it (\<open>update_view_timeout\<close>, \<open>update_model\<close>, \<open>_on_play_button_toggled\<close>,
  \<open>_start_update_timer\<close>, \<open>_speed_changed\<close>, \<open>_quit\<close>).

  The main thread is the stack of the callbacks that are active.  A callback that waits for the lock in
  \<open>update_view_timeout\<close> runs the event loop, so other callbacks may start on top of it.  Every step is an
  atomic action of one of the threads.  Other callbacks use the simulator too: those that take the lock, which
  wait for it without running the event loop, and those that do not take it.  Code typed into the shell is taken to
  leave the lock alone.  The simulator is the pair of arguments \<open>run_until\<close> (the time that
  \<open>SimulatorRunUntil\<close> reaches) and \<open>pause_at\<close> (the messages of \<open>GetPauseMessages\<close>).
\<close>

section \<open>Model\<close>

datatype owner = View_Thread | Sim_Thread

text \<open>Where the simulation thread is.\<close>

datatype sim_loc = At_While | At_Wait | At_Clear | At_Test | At_Acquire | At_Run | Sim_Ended

text \<open>
  The callbacks that use the simulator: \<open>Node.tooltip_query\<close>, \<open>set_nodes_of_interest\<close>, \<open>begin_node_drag\<close>,
  \<open>node_drag_motion\<close>, \<open>_update_ipython_selected_node\<close>, \<open>add_information_window\<close>, the shell and the options of a packet
  capture take the lock; the tooltip of a wireless link, the counting of the nodes in
  \<open>set_show_transmissions_mode\<close> and \<open>autoscale_view\<close> do not.
\<close>

datatype locked_use = Node_Tooltip | Nodes_Of_Interest | Drag_Begin | Drag_Motion | Shell_Selection | Window_Update
  | Shell_Code | Capture_Options

datatype unlocked_use = Link_Tooltip | Count_Nodes | Autoscale

text \<open>An active callback of the main thread; \<open>Busy\<close> and \<open>Viewing\<close> have the timer they were called by.\<close>

datatype frame = Busy nat | Viewing nat | Model_Wait | Model_Update | Quit_Flag | Quit_Join
  | Use_Wait locked_use | Using locked_use | Unguarded unlocked_use

record viz =
  stack :: "frame list"
  sim :: sim_loc
  lock :: "owner option"
  go :: bool
  quit :: bool
  sample_period :: rat
  target_time :: rat
  now :: rat
  viewed :: rat
  pause_messages :: "string list"
  idle :: nat
  active :: bool
  timeout_id :: "nat option"
  sources :: "nat list"
  next_source :: nat
  bad_removes :: "nat list"

text \<open>
  The state in which the simulation thread is started: the creation of the window has set the speed, which
  starts the timer.
\<close>

definition start_viz :: viz where
  "start_viz =
     \<lparr>stack = [], sim = At_While, lock = None, go = False, quit = False, sample_period = 1/10, target_time = 0, now = 0,
      viewed = 0, pause_messages = [], idle = 0, active = False, timeout_id = Some 1, sources = [1], next_source = 2,
      bad_removes = []\<rparr>"

text \<open>\<open>GLib.source_remove\<close>; removing a source that is not there is recorded as an error.\<close>

definition source_remove :: "nat \<Rightarrow> viz \<Rightarrow> viz" where
  "source_remove i s =
     (if i \<in> set (sources s) then s\<lparr>sources := removeAll i (sources s)\<rparr> else s\<lparr>bad_removes := bad_removes s @ [i]\<rparr>)"

definition start_update_timer :: "viz \<Rightarrow> viz" where
  "start_update_timer s =
     (let s1 = (case timeout_id s of None \<Rightarrow> s | Some i \<Rightarrow> source_remove i s)
      in s1\<lparr>timeout_id := Some (next_source s1), sources := sources s1 @ [next_source s1], next_source := next_source s1 + 1\<rparr>)"

definition on_play_button_toggled :: "viz \<Rightarrow> viz" where
  "on_play_button_toggled s =
     (if active s then start_update_timer s
      else (case timeout_id s of None \<Rightarrow> s | Some i \<Rightarrow> source_remove i s))"

text \<open>\<open>v\<close> is the value of the control for the speed, which lies between 1/100 and 10.\<close>

definition speed_changed :: "rat \<Rightarrow> viz \<Rightarrow> viz" where
  "speed_changed v s = start_update_timer (s\<lparr>sample_period := 1/10 * v\<rparr>)"

text \<open>\<open>set_active\<close> calls the handler if the state of the button changes.\<close>

definition set_active :: "bool \<Rightarrow> viz \<Rightarrow> viz" where
  "set_active b s = (if active s = b then s else on_play_button_toggled (s\<lparr>active := b\<rparr>))"

text \<open>
  \<open>update_view_timeout\<close> from the moment at which it has the lock.  A callback that returns \<open>False\<close> is removed
  by the main loop, if it is still there.
\<close>

definition finish_view :: "nat \<Rightarrow> viz \<Rightarrow> viz" where
  "finish_view i s =
     (let msgs = pause_messages s;
          s1 = s\<lparr>pause_messages := [], viewed := now s, target_time := now s + sample_period s, lock := None\<rparr>;
          s2 = (if msgs \<noteq> [] then set_active False s1 else s1)
      in if \<not> active s2 then s2\<lparr>timeout_id := None, sources := removeAll i (sources s2)\<rparr>
         else s2\<lparr>go := True\<rparr>)"

text \<open>
  An exception in \<open>update_view\<close>: \<open>finally\<close> releases the lock, the messages are lost, and the main loop removes a callback
  that raised.
\<close>

definition view_raises :: "nat \<Rightarrow> viz \<Rightarrow> viz" where
  "view_raises i s = s\<lparr>pause_messages := [], lock := None, sources := removeAll i (sources s)\<rparr>"

text \<open>\<open>_quit\<close> up to the assignment to \<open>quit\<close>.\<close>

definition begin_quit :: "viz \<Rightarrow> viz" where
  "begin_quit s =
     (let s1 = (case timeout_id s of None \<Rightarrow> s | Some i \<Rightarrow> (source_remove i s)\<lparr>timeout_id := None\<rparr>)
      in s1\<lparr>quit := True\<rparr>)"

text \<open>The main loop runs: no callback is active, or the innermost one runs the event loop.\<close>

fun dispatching :: "frame list \<Rightarrow> bool" where
  "dispatching [] \<longleftrightarrow> True"
| "dispatching (Busy i # fs) \<longleftrightarrow> True"
| "dispatching fs \<longleftrightarrow> False"

inductive sim_step :: "(rat \<Rightarrow> rat \<Rightarrow> rat) \<Rightarrow> (rat \<Rightarrow> string list) \<Rightarrow> viz \<Rightarrow> viz \<Rightarrow> bool"
  for run_until :: "rat \<Rightarrow> rat \<Rightarrow> rat" and pause_at :: "rat \<Rightarrow> string list" where
  while_quit: "sim s = At_While \<Longrightarrow> quit s \<Longrightarrow> sim_step run_until pause_at s (s\<lparr>sim := Sim_Ended\<rparr>)"
| while_go: "sim s = At_While \<Longrightarrow> \<not> quit s \<Longrightarrow> sim_step run_until pause_at s (s\<lparr>sim := At_Wait\<rparr>)"
| wait: "sim s = At_Wait \<Longrightarrow> go s \<Longrightarrow> sim_step run_until pause_at s (s\<lparr>sim := At_Clear\<rparr>)"
| clear: "sim s = At_Clear \<Longrightarrow> sim_step run_until pause_at s (s\<lparr>sim := At_Test, go := False\<rparr>)"
| test: "sim s = At_Test \<Longrightarrow> sim_step run_until pause_at s (s\<lparr>sim := (if quit s then Sim_Ended else At_Acquire)\<rparr>)"
| acquire: "sim s = At_Acquire \<Longrightarrow> lock s = None \<Longrightarrow>
    sim_step run_until pause_at s (s\<lparr>sim := At_Run, lock := Some Sim_Thread\<rparr>)"
| run: "sim s = At_Run \<Longrightarrow> t = run_until (now s) (target_time s) \<Longrightarrow>
    sim_step run_until pause_at s
      (s\<lparr>sim := At_While, now := t, pause_messages := pause_messages s @ pause_at t, idle := idle s + 1, lock := None\<rparr>)"

inductive view_step :: "viz \<Rightarrow> viz \<Rightarrow> bool" where
  timer: "dispatching (stack s) \<Longrightarrow> i \<in> set (sources s) \<Longrightarrow> Busy i \<notin> set (stack s) \<Longrightarrow> lock s = None \<Longrightarrow>
    view_step s (s\<lparr>stack := Viewing i # stack s, lock := Some View_Thread\<rparr>)"
| timer_busy: "dispatching (stack s) \<Longrightarrow> i \<in> set (sources s) \<Longrightarrow> Busy i \<notin> set (stack s) \<Longrightarrow> lock s \<noteq> None \<Longrightarrow>
    view_step s (s\<lparr>stack := Busy i # stack s\<rparr>)"
| view: "stack s = Busy i # fs \<Longrightarrow> lock s = None \<Longrightarrow>
    view_step s (s\<lparr>stack := Viewing i # fs, lock := Some View_Thread\<rparr>)"
| view_end: "stack s = Viewing i # fs \<Longrightarrow> view_step s (finish_view i (s\<lparr>stack := fs\<rparr>))"
| view_error: "stack s = Viewing i # fs \<Longrightarrow> view_step s (view_raises i (s\<lparr>stack := fs\<rparr>))"
| model: "dispatching (stack s) \<Longrightarrow> 0 < idle s \<Longrightarrow>
    view_step s (s\<lparr>stack := Model_Wait # stack s, idle := idle s - 1\<rparr>)"
| model_lock: "stack s = Model_Wait # fs \<Longrightarrow> lock s = None \<Longrightarrow>
    view_step s (s\<lparr>stack := Model_Update # fs, lock := Some View_Thread\<rparr>)"
| model_end: "stack s = Model_Update # fs \<Longrightarrow> view_step s (s\<lparr>stack := fs, lock := None\<rparr>)"
| use: "dispatching (stack s) \<Longrightarrow> view_step s (s\<lparr>stack := Use_Wait u # stack s\<rparr>)"
| use_lock: "stack s = Use_Wait u # fs \<Longrightarrow> lock s = None \<Longrightarrow>
    view_step s (s\<lparr>stack := Using u # fs, lock := Some View_Thread\<rparr>)"
| use_end: "stack s = Using u # fs \<Longrightarrow> view_step s (s\<lparr>stack := fs, lock := None\<rparr>)"
| unguarded: "dispatching (stack s) \<Longrightarrow> view_step s (s\<lparr>stack := Unguarded v # stack s\<rparr>)"
| unguarded_end: "stack s = Unguarded v # fs \<Longrightarrow>
    view_step s (s\<lparr>stack := (if v = Count_Nodes then [Use_Wait Nodes_Of_Interest] else []) @ fs\<rparr>)"
| toggle: "dispatching (stack s) \<Longrightarrow> view_step s (set_active (\<not> active s) s)"
| speed: "dispatching (stack s) \<Longrightarrow> 1/100 \<le> v \<Longrightarrow> v \<le> 10 \<Longrightarrow> view_step s (speed_changed v s)"
| quit_flag: "dispatching (stack s) \<Longrightarrow> view_step s (begin_quit (s\<lparr>stack := Quit_Flag # stack s\<rparr>))"
| quit_go: "stack s = Quit_Flag # fs \<Longrightarrow> view_step s (s\<lparr>stack := Quit_Join # fs, go := True\<rparr>)"
| quit_join: "stack s = Quit_Join # fs \<Longrightarrow> sim s = Sim_Ended \<Longrightarrow> view_step s (s\<lparr>stack := fs\<rparr>)"

definition viz_step :: "(rat \<Rightarrow> rat \<Rightarrow> rat) \<Rightarrow> (rat \<Rightarrow> string list) \<Rightarrow> viz \<Rightarrow> viz \<Rightarrow> bool" where
  "viz_step run_until pause_at s t \<longleftrightarrow> sim_step run_until pause_at s t \<or> view_step s t"

definition viz_reachable :: "(rat \<Rightarrow> rat \<Rightarrow> rat) \<Rightarrow> (rat \<Rightarrow> string list) \<Rightarrow> viz \<Rightarrow> bool" where
  "viz_reachable run_until pause_at s \<longleftrightarrow> (viz_step run_until pause_at)\<^sup>*\<^sup>* start_viz s"

inductive_cases sim_stepE: "sim_step run_until pause_at s t"
inductive_cases view_stepE: "view_step s t"

section \<open>Invariants\<close>

fun is_busy :: "frame \<Rightarrow> bool" where
  "is_busy (Busy i) \<longleftrightarrow> True"
| "is_busy _ \<longleftrightarrow> False"

fun holds_lock :: "frame list \<Rightarrow> bool" where
  "holds_lock (Viewing i # fs) \<longleftrightarrow> True"
| "holds_lock (Model_Update # fs) \<longleftrightarrow> True"
| "holds_lock (Using u # fs) \<longleftrightarrow> True"
| "holds_lock fs \<longleftrightarrow> False"

text \<open>Who has the lock, and what is below the innermost callback.\<close>

definition lock_inv :: "viz \<Rightarrow> bool" where
  "lock_inv s \<longleftrightarrow>
     (lock s = Some Sim_Thread \<longleftrightarrow> sim s = At_Run) \<and> (lock s = Some View_Thread \<longleftrightarrow> holds_lock (stack s)) \<and>
     list_all is_busy (tl (stack s))"

text \<open>The longest sample period, at the highest speed.\<close>

definition max_period :: rat where
  "max_period = 1"

definition time_inv :: "viz \<Rightarrow> bool" where
  "time_inv s \<longleftrightarrow> viewed s \<le> now s \<and> now s \<le> target_time s \<and> target_time s \<le> viewed s + max_period \<and>
     0 < sample_period s \<and> sample_period s \<le> max_period"

definition quit_inv :: "viz \<Rightarrow> bool" where
  "quit_inv s \<longleftrightarrow>
     (stack s \<noteq> [] \<and> hd (stack s) = Quit_Flag \<longrightarrow> quit s) \<and>
     (stack s \<noteq> [] \<and> hd (stack s) = Quit_Join \<longrightarrow> quit s \<and> (sim s = At_Wait \<longrightarrow> go s))"

lemma dispatching_not_holding: "dispatching fs \<Longrightarrow> \<not> holds_lock fs"
  by (induction fs rule: dispatching.induct) auto

lemma dispatching_busy: "dispatching fs \<Longrightarrow> list_all is_busy (tl fs) \<Longrightarrow> list_all is_busy fs"
  by (induction fs rule: dispatching.induct) auto

lemma busy_not_holding: "list_all is_busy fs \<Longrightarrow> \<not> holds_lock fs"
  by (induction fs rule: holds_lock.induct) auto

lemma busy_tl: "list_all is_busy fs \<Longrightarrow> list_all is_busy (tl fs)"
  by (cases fs) auto

text \<open>What the operations on the timer leave alone.\<close>

lemma source_remove_frame [simp]:
  "stack (source_remove i s) = stack s" "sim (source_remove i s) = sim s" "lock (source_remove i s) = lock s"
  "go (source_remove i s) = go s" "quit (source_remove i s) = quit s" "target_time (source_remove i s) = target_time s"
  "now (source_remove i s) = now s" "viewed (source_remove i s) = viewed s" "active (source_remove i s) = active s"
  "timeout_id (source_remove i s) = timeout_id s" "sample_period (source_remove i s) = sample_period s"
  by (simp_all add: source_remove_def)

lemma start_timer_frame [simp]:
  "stack (start_update_timer s) = stack s" "sim (start_update_timer s) = sim s" "lock (start_update_timer s) = lock s"
  "go (start_update_timer s) = go s" "quit (start_update_timer s) = quit s" "target_time (start_update_timer s) = target_time s"
  "now (start_update_timer s) = now s" "viewed (start_update_timer s) = viewed s" "active (start_update_timer s) = active s"
  "sample_period (start_update_timer s) = sample_period s"
  by (simp_all add: start_update_timer_def Let_def split: option.splits)

lemma speed_frame [simp]:
  "stack (speed_changed v s) = stack s" "sim (speed_changed v s) = sim s" "lock (speed_changed v s) = lock s"
  "go (speed_changed v s) = go s" "quit (speed_changed v s) = quit s" "target_time (speed_changed v s) = target_time s"
  "now (speed_changed v s) = now s" "viewed (speed_changed v s) = viewed s" "sample_period (speed_changed v s) = v / 10"
  by (simp_all add: speed_changed_def)

lemma toggled_frame [simp]:
  "stack (on_play_button_toggled s) = stack s" "sim (on_play_button_toggled s) = sim s"
  "lock (on_play_button_toggled s) = lock s" "go (on_play_button_toggled s) = go s"
  "quit (on_play_button_toggled s) = quit s" "target_time (on_play_button_toggled s) = target_time s"
  "now (on_play_button_toggled s) = now s" "viewed (on_play_button_toggled s) = viewed s"
  "active (on_play_button_toggled s) = active s" "sample_period (on_play_button_toggled s) = sample_period s"
  by (simp_all add: on_play_button_toggled_def split: option.splits)

lemma set_active_frame [simp]:
  "stack (set_active b s) = stack s" "sim (set_active b s) = sim s" "lock (set_active b s) = lock s"
  "go (set_active b s) = go s" "quit (set_active b s) = quit s" "target_time (set_active b s) = target_time s"
  "now (set_active b s) = now s" "viewed (set_active b s) = viewed s" "active (set_active b s) = b"
  "sample_period (set_active b s) = sample_period s"
  by (simp_all add: set_active_def)

lemma finish_view_frame [simp]:
  "stack (finish_view i s) = stack s" "sim (finish_view i s) = sim s" "lock (finish_view i s) = None"
  "quit (finish_view i s) = quit s" "target_time (finish_view i s) = now s + sample_period s" "sample_period (finish_view i s) = sample_period s"
  "now (finish_view i s) = now s" "viewed (finish_view i s) = now s"
  by (simp_all add: finish_view_def Let_def)

lemma view_raises_frame [simp]:
  "stack (view_raises i s) = stack s" "sim (view_raises i s) = sim s" "lock (view_raises i s) = None"
  "quit (view_raises i s) = quit s" "target_time (view_raises i s) = target_time s" "sample_period (view_raises i s) = sample_period s"
  "now (view_raises i s) = now s" "viewed (view_raises i s) = viewed s" "go (view_raises i s) = go s"
  by (simp_all add: view_raises_def)

lemma begin_quit_frame [simp]:
  "stack (begin_quit s) = stack s" "sim (begin_quit s) = sim s" "lock (begin_quit s) = lock s"
  "go (begin_quit s) = go s" "quit (begin_quit s)" "target_time (begin_quit s) = target_time s"
  "now (begin_quit s) = now s" "viewed (begin_quit s) = viewed s" "sample_period (begin_quit s) = sample_period s"
  by (simp_all add: begin_quit_def Let_def split: option.splits)

lemma lock_inv_sim: "sim_step run_until pause_at s t \<Longrightarrow> lock_inv s \<Longrightarrow> lock_inv t"
  by (induction rule: sim_step.induct) (auto simp: lock_inv_def)

lemma lock_inv_view:
  assumes "view_step s t" and "lock_inv s"
  shows "lock_inv t"
  using assms
  by (induction rule: view_step.induct)
    (auto simp: lock_inv_def dispatching_not_holding dispatching_busy busy_not_holding busy_tl)

text \<open>The simulator runs forward and not beyond the time it is given.\<close>

definition advances :: "(rat \<Rightarrow> rat \<Rightarrow> rat) \<Rightarrow> bool" where
  "advances run_until \<longleftrightarrow> (\<forall>a b. a \<le> b \<longrightarrow> a \<le> run_until a b \<and> run_until a b \<le> b)"

lemma time_inv_sim:
  "sim_step run_until pause_at s t \<Longrightarrow> advances run_until \<Longrightarrow> time_inv s \<Longrightarrow> time_inv t"
  by (induction rule: sim_step.induct) (auto simp: time_inv_def advances_def intro: order_trans)

lemma time_inv_view: "view_step s t \<Longrightarrow> time_inv s \<Longrightarrow> time_inv t"
  by (induction rule: view_step.induct) (auto simp: time_inv_def max_period_def)

lemma quit_inv_sim: "sim_step run_until pause_at s t \<Longrightarrow> quit_inv s \<Longrightarrow> quit_inv t"
  by (induction rule: sim_step.induct) (auto simp: quit_inv_def)

lemma busy_top: "list_all is_busy fs \<or> dispatching fs \<Longrightarrow> fs \<noteq> [] \<Longrightarrow> is_busy (hd fs)"
  by (induction fs rule: dispatching.induct) auto

lemma quit_inv_view:
  assumes "view_step s t" and "lock_inv s" and "quit_inv s"
  shows "quit_inv t"
proof -
  have q: "quit_inv u" if "list_all is_busy (stack u) \<or> dispatching (stack u)" for u
    using busy_top [OF that] by (cases "stack u") (auto simp: quit_inv_def)
  show ?thesis using assms
  proof (induction rule: view_step.induct)
    case (view_end s i fs)
    then show ?case by (intro q) (simp add: lock_inv_def)
  next
    case (view_error s i fs)
    then show ?case by (intro q) (simp add: lock_inv_def)
  next
    case (model_end s fs)
    then show ?case by (intro q) (simp add: lock_inv_def)
  next
    case (use_end s u fs)
    then show ?case by (intro q) (simp add: lock_inv_def)
  next
    case (unguarded_end s v fs)
    then have "list_all is_busy fs" by (simp add: lock_inv_def)
    then show ?case using busy_top [of fs] by (cases fs) (auto simp: quit_inv_def)
  next
    case (toggle s)
    then show ?case by (intro q) simp
  next
    case (speed s v)
    then show ?case by (intro q) simp
  next
    case (quit_join s fs)
    then show ?case by (intro q) (simp add: lock_inv_def)
  qed (simp_all add: quit_inv_def)
qed

definition viz_inv :: "(rat \<Rightarrow> rat \<Rightarrow> rat) \<Rightarrow> viz \<Rightarrow> bool" where
  "viz_inv run_until s \<longleftrightarrow> lock_inv s \<and> quit_inv s \<and> (advances run_until \<longrightarrow> time_inv s)"

interpretation viz: invariant_system "viz_step run_until pause_at" start_viz "viz_inv run_until" for run_until pause_at
proof
  show "viz_inv run_until start_viz"
    by (simp add: viz_inv_def lock_inv_def quit_inv_def time_inv_def start_viz_def max_period_def)
  show "viz_inv run_until t" if st: "viz_step run_until pause_at s t" and inv: "viz_inv run_until s" for s t
    using inv st lock_inv_sim lock_inv_view quit_inv_sim quit_inv_view time_inv_sim time_inv_view
    unfolding viz_inv_def viz_step_def by blast
qed

lemma viz_reachable_inv: "viz_reachable run_until pause_at s \<Longrightarrow> viz_inv run_until s"
  unfolding viz_reachable_def by (rule viz.inv_reachable)

section \<open>The end of the simulation thread\<close>

text \<open>The steps the simulation thread still makes when \<open>quit\<close> is set.\<close>

fun steps_to_end :: "sim_loc \<Rightarrow> nat" where
  "steps_to_end At_While = 1"
| "steps_to_end At_Wait = 3"
| "steps_to_end At_Clear = 2"
| "steps_to_end At_Test = 1"
| "steps_to_end At_Acquire = 3"
| "steps_to_end At_Run = 2"
| "steps_to_end Sim_Ended = 0"

lemma sim_step_quit:
  "sim_step run_until pause_at s t \<Longrightarrow> quit s \<Longrightarrow> quit t \<and> stack t = stack s \<and> steps_to_end (sim t) < steps_to_end (sim s)"
  by (induction rule: sim_step.induct) auto

lemma sim_run_quit:
  "(sim_step run_until pause_at ^^ m) s t \<Longrightarrow> quit s \<Longrightarrow> stack t = stack s \<and> m + steps_to_end (sim t) \<le> steps_to_end (sim s)"
proof (induction m arbitrary: s)
  case (Suc m)
  from Suc.prems(1) obtain u where u: "sim_step run_until pause_at s u" "(sim_step run_until pause_at ^^ m) u t"
    by (rule relpowp_Suc_E2)
  show ?case using Suc.IH [OF u(2)] sim_step_quit [OF u(1) Suc.prems(2)] by auto
qed simp

lemma sim_run_reachable:
  assumes "viz_reachable run_until pause_at s" and "(sim_step run_until pause_at ^^ m) s t"
  shows "viz_reachable run_until pause_at t"
proof -
  have "(sim_step run_until pause_at)\<^sup>*\<^sup>* s t" using assms(2) by (rule relpowp_imp_rtranclp)
  then have "(viz_step run_until pause_at)\<^sup>*\<^sup>* s t"
    by (rule rtranclp_mono [THEN predicate2D, rotated]) (auto simp: viz_step_def)
  then show ?thesis using assms(1) by (simp add: viz_reachable_def)
qed

lemma join_progress:
  assumes "viz_inv run_until s" and "stack s = Quit_Join # fs" and "sim s \<noteq> Sim_Ended"
  shows "\<exists>t. sim_step run_until pause_at s t"
proof (cases "sim s")
  case At_While
  then show ?thesis by (cases "quit s") (blast intro: while_quit while_go)+
next
  case At_Wait
  then show ?thesis using assms(1,2) by (auto simp: viz_inv_def quit_inv_def intro: wait)
next
  case At_Acquire
  then have "lock s = None" using assms(1,2) by (cases "lock s"; cases "the (lock s)") (auto simp: viz_inv_def lock_inv_def)
  then show ?thesis using At_Acquire by (blast intro: acquire)
qed (use assms(3) in \<open>auto intro: clear test run\<close>)

section \<open>Properties\<close>

text \<open>
  C17. Mutual exclusion of those who take the lock: in every reachable state the simulation thread does not run the
  simulator while the update of the view, the update of the model or another callback that has taken the lock
  uses it; at most one callback of the main thread does, the innermost one; the lock is free exactly when none
  of them is inside; and a callback that waits for it is never itself the one that has it.
\<close>

theorem simulator_exclusive:
  assumes "viz_reachable run_until pause_at s"
  shows "\<not> (sim s = At_Run \<and> holds_lock (stack s)) \<and> list_all is_busy (tl (stack s)) \<and>
    (lock s = None \<longleftrightarrow> sim s \<noteq> At_Run \<and> \<not> holds_lock (stack s)) \<and>
    (stack s = Use_Wait u # fs \<or> stack s = Model_Wait # fs \<or> stack s = Busy i # fs \<longrightarrow> lock s \<noteq> Some View_Thread)"
proof -
  have "lock_inv s" using viz_reachable_inv [OF assms] by (simp add: viz_inv_def)
  then show ?thesis unfolding lock_inv_def by (cases "lock s"; cases "the (lock s)") auto
qed

text \<open>
  C18. The simulation is never ahead of the view by more than the longest sample period, however the user
  plays, pauses and changes the speed, if the simulator does not run beyond the time it is given.
\<close>

theorem simulation_lead:
  assumes "advances run_until" and "viz_reachable run_until pause_at s"
  shows "viewed s \<le> now s \<and> now s \<le> viewed s + max_period"
  using viz_reachable_inv [OF assms(2)] assms(1) by (auto simp: viz_inv_def time_inv_def)

text \<open>
  C19. Quitting ends: when the main thread waits for the simulation thread, only that thread moves, it makes at
  most three more steps, it is never blocked, and so it ends.
\<close>

theorem quit_ends:
  assumes "viz_reachable run_until pause_at s" and "stack s = Quit_Join # fs"
  shows "(view_step s t \<longrightarrow> sim s = Sim_Ended) \<and>
    ((sim_step run_until pause_at ^^ m) s t \<longrightarrow>
      m \<le> 3 \<and> (sim t = Sim_Ended \<or> (\<exists>u. sim_step run_until pause_at t u)))"
proof -
  have q: "quit s" using viz_reachable_inv [OF assms(1)] assms(2) by (simp add: viz_inv_def quit_inv_def)
  have "view_step s t \<longrightarrow> sim s = Sim_Ended" using assms(2) by (auto elim!: view_stepE)
  moreover have "m \<le> 3 \<and> (sim t = Sim_Ended \<or> (\<exists>u. sim_step run_until pause_at t u))"
    if r: "(sim_step run_until pause_at ^^ m) s t"
  proof -
    have "steps_to_end (sim s) \<le> 3" by (cases "sim s") auto
    then have "m \<le> 3" "stack t = Quit_Join # fs" using sim_run_quit [OF r q] assms(2) by auto
    then show ?thesis using join_progress [OF viz_reachable_inv [OF sim_run_reachable [OF assms(1) r]]] by blast
  qed
  ultimately show ?thesis by blast
qed

section \<open>Sample runs\<close>

lemma viz_reachable_step:
  "viz_reachable run_until pause_at s \<Longrightarrow> view_step s t \<Longrightarrow> viz_reachable run_until pause_at t"
  "viz_reachable run_until pause_at s \<Longrightarrow> sim_step run_until pause_at s t \<Longrightarrow> viz_reachable run_until pause_at t"
  by (auto simp: viz_reachable_def viz_step_def intro: rtranclp.rtrancl_into_rtrancl)

lemma viz_reachable_start: "viz_reachable run_until pause_at start_viz"
  by (simp add: viz_reachable_def)

definition toggle_button :: "viz \<Rightarrow> viz" where
  "toggle_button s = set_active (\<not> active s) s"

lemma toggle_reachable:
  "viz_reachable run_until pause_at s \<Longrightarrow> stack s = [] \<Longrightarrow> viz_reachable run_until pause_at (toggle_button s)"
  unfolding toggle_button_def by (erule viz_reachable_step) (simp add: toggle)

lemma toggle_stack [simp]: "stack (toggle_button s) = stack s"
  by (simp add: toggle_button_def)

text \<open>
  Play, pause and play again removes a timer that has been removed before: the handler of the pause does not
  reset the number.
\<close>

lemma stale_timer_removed:
  "\<exists>s. viz_reachable run_until pause_at s \<and> bad_removes s = [2]"
proof -
  let ?s = "toggle_button (toggle_button (toggle_button start_viz))"
  have "stack start_viz = []" by (simp add: start_viz_def)
  then have "viz_reachable run_until pause_at ?s" by (intro toggle_reachable viz_reachable_start) simp_all
  moreover have "bad_removes ?s = [2]" by code_simp
  ultimately show ?thesis by blast
qed

text \<open>The window is closed while the simulation thread waits.\<close>

definition closing :: viz where
  "closing = start_viz\<lparr>stack := [Quit_Join], sim := At_Wait, go := True, quit := True, timeout_id := None, sources := []\<rparr>"

lemma closing_reachable: "viz_reachable run_until pause_at closing"
proof -
  let ?a = "start_viz\<lparr>sim := At_Wait\<rparr>"
  have "viz_reachable run_until pause_at ?a"
    by (rule viz_reachable_step(2) [OF viz_reachable_start]) (rule while_go, simp_all add: start_viz_def)
  then have "viz_reachable run_until pause_at (begin_quit (?a\<lparr>stack := Quit_Flag # stack ?a\<rparr>))"
    by (rule viz_reachable_step(1)) (rule quit_flag, simp add: start_viz_def)
  then have "viz_reachable run_until pause_at ((begin_quit (?a\<lparr>stack := Quit_Flag # stack ?a\<rparr>))\<lparr>stack := [Quit_Join], go := True\<rparr>)"
    by (rule viz_reachable_step(1)) (rule quit_go, simp add: start_viz_def)
  then show ?thesis by (simp add: closing_def begin_quit_def source_remove_def start_viz_def)
qed

theorem simulator_exclusive_witness: "lock closing = None"
  using simulator_exclusive [OF closing_reachable [of "\<lambda>a b. b" "\<lambda>_. []"], of Node_Tooltip "[]" 0] by (simp add: closing_def)

theorem simulation_lead_witness: "viewed closing \<le> now closing \<and> now closing \<le> viewed closing + max_period"
  by (rule simulation_lead [OF _ closing_reachable [of "\<lambda>a b. b" "\<lambda>_. []"]]) (simp add: advances_def)

theorem quit_ends_witness: "sim closing = Sim_Ended \<or> (\<exists>u. sim_step (\<lambda>a b. b) (\<lambda>_. []) closing u)"
  using quit_ends [OF closing_reachable [of "\<lambda>a b. b" "\<lambda>_. []"], of "[]" closing 0] by (simp add: closing_def)

section \<open>Two timers\<close>

text \<open>After the user has pressed play, the view is updated and the simulation thread runs the simulator.\<close>

definition running :: viz where
  "running = (finish_view 2 ((toggle_button start_viz)\<lparr>lock := Some View_Thread\<rparr>))\<lparr>sim := At_Run, go := False, lock := Some Sim_Thread\<rparr>"

lemma running_reachable: "viz_reachable run_until pause_at running"
proof -
  let ?R = "viz_reachable run_until pause_at"
  note v = viz_reachable_step(1) and m = viz_reachable_step(2)
  define s1 where "s1 = toggle_button start_viz"
  have "?R s1" unfolding s1_def by (rule toggle_reachable [OF viz_reachable_start]) code_simp
  define s2 where "s2 = s1\<lparr>stack := [Viewing 2], lock := Some View_Thread\<rparr>"
  have "?R s2" using timer [of s1 2] v [OF \<open>?R s1\<close>]
    by (simp add: s2_def s1_def toggle_button_def set_active_def on_play_button_toggled_def start_update_timer_def source_remove_def start_viz_def)
  define s3 where "s3 = finish_view 2 (s2\<lparr>stack := []\<rparr>)"
  have "?R s3" unfolding s3_def by (rule v [OF \<open>?R s2\<close> view_end]) (simp add: s2_def)
  note d = s3_def s2_def s1_def toggle_button_def set_active_def on_play_button_toggled_def start_update_timer_def
    source_remove_def start_viz_def finish_view_def Let_def
  define s4 where "s4 = s3\<lparr>sim := At_Wait\<rparr>"
  have "?R s4" unfolding s4_def by (rule m [OF \<open>?R s3\<close> while_go]) (simp_all add: d)
  define s5 where "s5 = s4\<lparr>sim := At_Clear\<rparr>"
  have "?R s5" unfolding s5_def by (rule m [OF \<open>?R s4\<close> wait]) (simp_all add: s4_def d)
  define s6 where "s6 = s5\<lparr>sim := At_Test, go := False\<rparr>"
  have "?R s6" unfolding s6_def by (rule m [OF \<open>?R s5\<close> clear]) (simp_all add: s5_def s4_def d)
  define s7 where "s7 = s6\<lparr>sim := (if quit s6 then Sim_Ended else At_Acquire)\<rparr>"
  have "?R s7" unfolding s7_def by (rule m [OF \<open>?R s6\<close> test]) (simp_all add: s6_def)
  note e = s7_def s6_def s5_def s4_def d
  define s8 where "s8 = s7\<lparr>sim := At_Run, lock := Some Sim_Thread\<rparr>"
  have "?R s8" unfolding s8_def by (rule m [OF \<open>?R s7\<close> acquire]) (simp_all add: e)
  have "s8 = running" by (simp add: s8_def e running_def)
  with \<open>?R s8\<close> show ?thesis by simp
qed

text \<open>
  A callback that does not take the lock may use the simulator while the simulation thread runs it.
\<close>

lemma unguarded_use_races:
  "\<exists>s. viz_reachable run_until pause_at s \<and> sim s = At_Run \<and> stack s = [Unguarded v]"
proof -
  have "viz_reachable run_until pause_at (running\<lparr>stack := [Unguarded v]\<rparr>)"
    using viz_reachable_step(1) [OF running_reachable unguarded [of running v]] by (simp add: running_def start_viz_def)
  then show ?thesis by (intro exI [of _ "running\<lparr>stack := [Unguarded v]\<rparr>"]) (simp add: running_def)
qed

text \<open>
  A timer gets lost: while \<open>update_view_timeout\<close> waits for the simulator, the user pauses and changes the
  speed, which starts a new timer; the callback then sets the recorded number to \<open>None\<close>.  If the user plays
  again before the new timer fires, a second one is started, and both stay.
\<close>

lemma two_timers: "\<exists>s. viz_reachable (\<lambda>a b. b) (\<lambda>_. []) s \<and> stack s = [] \<and> active s \<and> sources s = [3, 4]"
proof -
  let ?R = "viz_reachable (\<lambda>a b. b) (\<lambda>_. [])"
  note v = viz_reachable_step(1) and m = viz_reachable_step(2)
  note e = running_def toggle_button_def set_active_def on_play_button_toggled_def start_update_timer_def
    source_remove_def start_viz_def finish_view_def Let_def
  define s8 where "s8 = running"
  have "?R s8" unfolding s8_def by (rule running_reachable)
  define s9 where "s9 = s8\<lparr>stack := [Busy 2]\<rparr>"
  have "?R s9" using timer_busy [of s8 2] v [OF \<open>?R s8\<close>] by (simp add: s9_def s8_def e)
  define s10 where "s10 = set_active (\<not> active s9) s9"
  have "?R s10" unfolding s10_def by (rule v [OF \<open>?R s9\<close> toggle]) (simp add: s9_def)
  define s11 where "s11 = speed_changed 2 s10"
  have "?R s11" unfolding s11_def by (rule v [OF \<open>?R s10\<close> speed]) (simp_all add: s10_def s9_def)
  note f = s11_def s10_def s9_def s8_def e speed_changed_def
  define s12 where "s12 = s11\<lparr>sim := At_While, now := target_time s11, pause_messages := pause_messages s11 @ [], idle := idle s11 + 1, lock := None\<rparr>"
  have "?R s12" unfolding s12_def by (rule m [OF \<open>?R s11\<close> run]) (simp_all add: f)
  define s13 where "s13 = s12\<lparr>stack := [Viewing 2], lock := Some View_Thread\<rparr>"
  have "?R s13" unfolding s13_def by (rule v [OF \<open>?R s12\<close> view]) (simp_all add: s12_def f)
  define s14 where "s14 = finish_view 2 (s13\<lparr>stack := []\<rparr>)"
  have "?R s14" unfolding s14_def by (rule v [OF \<open>?R s13\<close> view_end]) (simp add: s13_def)
  define s15 where "s15 = toggle_button s14"
  have "?R s15" unfolding s15_def by (rule toggle_reachable [OF \<open>?R s14\<close>]) (simp add: s14_def)
  then show ?thesis by (intro exI [of _ s15]) (simp add: s15_def s14_def s13_def s12_def f)
qed

end
