(* ===== verification/Viz_Samples.thy ===== *)
theory Viz_Samples
  imports Py_Prelude
begin

text \<open>
  \<open>src/src/visualizer/visualizer\<close>: what is remembered of the simulation.  The statistics of the interfaces
  (\<open>plugins/interface_statistics.py\<close>), and the transmissions and drops of the last sample periods with the
  arrows that show them (\<open>core.py\<close>).  Numbers are rational.
\<close>

section \<open>A bounded memory\<close>

text \<open>\<open>xs.append(x); while len(xs) > k: xs.pop(0)\<close>\<close>

fun trim :: "nat \<Rightarrow> 'a list \<Rightarrow> 'a list" where
  "trim k [] = []"
| "trim k (x # xs) = (if k < length (x # xs) then trim k xs else x # xs)"

definition remember :: "nat \<Rightarrow> 'a \<Rightarrow> 'a list \<Rightarrow> 'a list" where
  "remember k x xs = trim k (xs @ [x])"




section \<open>Interface statistics\<close>

record raw_stats =
  transmittedPackets :: int
  transmittedBytes :: int
  receivedPackets :: int
  receivedBytes :: int

record net_dev_stats =
  txPackets :: int
  txBytes :: int
  rxPackets :: int
  rxBytes :: int
  txPacketRate :: rat
  rxPacketRate :: rat
  txBitRate :: rat
  rxBitRate :: rat

definition node_statistics_memory :: nat where
  "node_statistics_memory = 10"

type_synonym collector = "(nat, raw_stats list list) dict"

definition add_statistics :: "nat \<times> raw_stats list \<Rightarrow> collector \<Rightarrow> collector" where
  "add_statistics st c =
     (case st of (node_id, stats) \<Rightarrow>
      dict_set node_id (remember node_statistics_memory stats (case dict_find c node_id of None \<Rightarrow> [] | Some l \<Rightarrow> l)) c)"

definition simulation_periodic_update :: "(nat \<times> raw_stats list) list \<Rightarrow> collector \<Rightarrow> collector" where
  "simulation_periodic_update sts c = fold add_statistics sts c"

definition rates_since :: "rat \<Rightarrow> raw_stats \<Rightarrow> raw_stats \<Rightarrow> net_dev_stats" where
  "rates_since k old new =
     \<lparr>txPackets = transmittedPackets new, txBytes = transmittedBytes new, rxPackets = receivedPackets new,
      rxBytes = receivedBytes new,
      txPacketRate = of_int (transmittedPackets new - transmittedPackets old) / k,
      rxPacketRate = of_int (receivedPackets new - receivedPackets old) / k,
      txBitRate = of_int ((transmittedBytes new - transmittedBytes old) * 8) / k,
      rxBitRate = of_int ((receivedBytes new - receivedBytes old) * 8) / k\<rparr>"

text \<open>An interface that was not there at the first sample raises \<open>IndexError\<close>.\<close>

definition get_interface_statistics :: "rat \<Rightarrow> nat \<Rightarrow> collector \<Rightarrow> net_dev_stats list res" where
  "get_interface_statistics sample_period node_id c =
     (case dict_find c node_id of
        None \<Rightarrow> Inr []
      | Some l \<Rightarrow>
          if length l < node_statistics_memory then Inr []
          else if length l \<noteq> node_statistics_memory then Inl (Exception ''AssertionError'')
          else let k = sample_period * (of_nat node_statistics_memory - 1)
               in res_fold (\<lambda>(iface, new) acc.
                    res_bind (py_index (hd l) (int iface)) (\<lambda>old.
                    if k = 0 then Inl ZeroDivisionError else Inr (acc @ [rates_since k old new])))
                  (enumerate 0 (last l)) [])"

section \<open>Transmissions and drops\<close>

record 'k sample =
  sample_key :: 'k
  sample_bytes :: nat

text \<open>The sum of the bytes and the number of the samples of every key.\<close>

definition add_sample :: "'k sample \<Rightarrow> ('k, nat \<times> nat) dict \<Rightarrow> ('k, nat \<times> nat) dict" where
  "add_sample s d =
     (case (case dict_find d (sample_key s) of None \<Rightarrow> (0, 0) | Some v \<Rightarrow> v) of
        (rx_bytes, rx_count) \<Rightarrow> dict_set (sample_key s) (rx_bytes + sample_bytes s, rx_count + 1) d)"

definition averages :: "'k sample list list \<Rightarrow> ('k, nat \<times> nat) dict" where
  "averages sets = fold (\<lambda>samples d. fold add_sample samples d) sets []"

definition smooth_factor :: "rat \<Rightarrow> nat" where
  "smooth_factor v = nat \<lfloor>v * 10\<rfloor>"

definition periodic_update :: "rat \<Rightarrow> 'a \<Rightarrow> 'a list \<Rightarrow> 'a list" where
  "periodic_update v samples old = remember (smooth_factor v) samples old"

text \<open>The rate that is written at an arrow; a logarithm of zero raises.\<close>

definition kbps :: "rat \<Rightarrow> nat \<times> nat \<Rightarrow> rat res" where
  "kbps sample_period bc =
     (case bc of (rx_bytes, rx_count) \<Rightarrow>
      if rx_bytes = 0 then Inl (ValueError ''math domain error'')
      else Inr (of_nat (rx_bytes * 8) / 1000 / of_nat rx_count / sample_period))"

text \<open>An arrow of the canvas, with what it shows; \<open>None\<close> if it is hidden.\<close>

record 'k arrow =
  arrow_id :: nat
  arrow_shows :: "('k \<times> rat) option"

text \<open>One round of the loop: the last of the old arrows is used again, or a new one is made.\<close>

definition show_arrow ::
  "rat \<Rightarrow> 'k \<times> (nat \<times> nat) \<Rightarrow> 'k arrow list \<times> 'k arrow list \<times> nat \<Rightarrow> ('k arrow list \<times> 'k arrow list \<times> nat) res" where
  "show_arrow sample_period item st =
     (case (item, st) of ((key, bc), (new, old, next)) \<Rightarrow>
      res_bind (kbps sample_period bc) (\<lambda>r.
      Inr (if old = [] then (new @ [\<lparr>arrow_id = next, arrow_shows = Some (key, r)\<rparr>], [], next + 1)
           else (new @ [(last old)\<lparr>arrow_shows := Some (key, r)\<rparr>], butlast old, next))))"

definition update_arrows :: "rat \<Rightarrow> ('k, nat \<times> nat) dict \<Rightarrow> 'k arrow list \<Rightarrow> nat \<Rightarrow> ('k arrow list \<times> nat) res" where
  "update_arrows sample_period avg arrows next =
     res_bind (res_fold (show_arrow sample_period) avg ([], map (\<lambda>a. a\<lparr>arrow_shows := None\<rparr>) arrows, next)) (\<lambda>(new, old, next').
     Inr (new @ old, next'))"

section \<open>What is remembered\<close>






section \<open>Averages\<close>

lemma add_samples_find:
  "dict_ok d \<Longrightarrow> dict_ok (fold add_sample xs d) \<and> dict_find (fold add_sample xs d) k =
     (let ys = filter (\<lambda>s. sample_key s = k) xs; old = (case dict_find d k of None \<Rightarrow> (0, 0) | Some v \<Rightarrow> v)
      in if ys = [] then dict_find d k
         else Some (fst old + sum_list (map sample_bytes ys), snd old + length ys))"
proof (induction xs arbitrary: d)
  case (Cons x xs)
  have "dict_ok (add_sample x d)" using Cons.prems by (simp add: add_sample_def dict_ops split: prod.splits)
  from Cons.IH [OF this] show ?case using Cons.prems
    by (auto simp: add_sample_def dict_ops Let_def split: prod.splits option.splits)
qed simp

text \<open>
  The averages are those of a direct definition: for every pair of nodes the sum of the bytes and the number of
  all remembered transmissions between them.
\<close>

theorem averages_correct:
  "dict_find (averages sets) k =
     (let ys = filter (\<lambda>s. sample_key s = k) (concat sets)
      in if ys = [] then None else Some (sum_list (map sample_bytes ys), length ys))"
proof -
  have "fold (\<lambda>samples d. fold add_sample samples d) sets d = fold add_sample (concat sets) d" for d :: "('a, nat \<times> nat) dict"
    by (induction sets arbitrary: d) simp_all
  then show ?thesis using add_samples_find [of "[]" "concat sets" k] by (simp add: averages_def Let_def)
qed

section \<open>Arrows\<close>

text \<open>The loop with the result of its rounds written out.\<close>

definition rate_of :: "rat \<Rightarrow> nat \<times> nat \<Rightarrow> rat" where
  "rate_of p bc = of_nat (fst bc * 8) / 1000 / of_nat (snd bc) / p"

lemma show_arrows:
  assumes "list_all (\<lambda>(k, bc). fst bc \<noteq> 0) items"
  shows "\<exists>shown rest nx. res_fold (show_arrow p) items (new, old, next) = Inr (new @ shown, rest, nx) \<and>
    map arrow_shows shown = map (\<lambda>(k, bc). Some (k, rate_of p bc)) items \<and>
    rest = take (length old - length items) old \<and> nx = next + (length items - length old) \<and>
    map arrow_id shown = rev (drop (length old - length items) (map arrow_id old)) @ [next..<next + (length items - length old)]"
  using assms
proof (induction items arbitrary: new old "next")
  case (Cons it items)
  obtain k bc where it: "it = (k, bc)" by (cases it)
  have b: "kbps p bc = Inr (rate_of p bc)" using Cons.prems by (cases bc) (auto simp: it kbps_def rate_of_def)
  have all: "list_all (\<lambda>(k, bc). fst bc \<noteq> 0) items" using Cons.prems by simp
  show ?case
  proof (cases old rule: rev_cases)
    case Nil
    let ?a = "\<lparr>arrow_id = next, arrow_shows = Some (k, rate_of p bc)\<rparr>"
    have step: "show_arrow p (k, bc) (new, [], next) = Inr (new @ [?a], [], next + 1)" by (simp add: show_arrow_def b)
    obtain shown rest nx where "res_fold (show_arrow p) items (new @ [?a], [], next + 1) = Inr ((new @ [?a]) @ shown, rest, nx)"
        "map arrow_shows shown = map (\<lambda>(k, bc). Some (k, rate_of p bc)) items" "rest = []"
        "nx = next + 1 + length items" "map arrow_id shown = [next + 1..<next + 1 + length items]"
      using Cons.IH [OF all, of "new @ [?a]" "[]" "next + 1"] by (auto simp del: upt_Suc)
    then show ?thesis
      by - (rule exI [of _ "?a # shown"], rule exI [of _ rest], rule exI [of _ nx], simp add: step it Nil upt_conv_Cons del: upt_Suc)
  next
    case (snoc init a)
    let ?a = "a\<lparr>arrow_shows := Some (k, rate_of p bc)\<rparr>"
    have step: "show_arrow p (k, bc) (new, init @ [a], next) = Inr (new @ [?a], init, next)" by (simp add: show_arrow_def b)
    obtain shown rest nx where "res_fold (show_arrow p) items (new @ [?a], init, next) = Inr ((new @ [?a]) @ shown, rest, nx)"
        "map arrow_shows shown = map (\<lambda>(k, bc). Some (k, rate_of p bc)) items" "rest = take (length init - length items) init"
        "nx = next + (length items - length init)"
        "map arrow_id shown = rev (drop (length init - length items) (map arrow_id init)) @ [next..<next + (length items - length init)]"
      using Cons.IH [OF all, of "new @ [?a]" init "next"] by auto
    then show ?thesis
      by - (rule exI [of _ "?a # shown"], rule exI [of _ rest], rule exI [of _ nx], simp add: step it snoc)
  qed
qed simp

text \<open>
  The arrows: exactly the averages are shown, each with its rate; arrows are used again before new ones are made, and
  none is lost, shown twice or left visible.
\<close>

theorem update_arrows_correct:
  assumes "list_all (\<lambda>(k, bc). fst bc \<noteq> 0) avg" and "distinct (map arrow_id arrows)"
    and "list_all (\<lambda>a. arrow_id a < next) arrows"
  shows "\<exists>arrows' next'. update_arrows p avg arrows next = Inr (arrows', next') \<and>
    map arrow_shows arrows' = map (\<lambda>(k, bc). Some (k, rate_of p bc)) avg @ replicate (length arrows - length avg) None \<and>
    set (map arrow_id arrows) \<subseteq> set (map arrow_id arrows') \<and> distinct (map arrow_id arrows') \<and>
    length arrows' = max (length arrows) (length avg) \<and> list_all (\<lambda>a. arrow_id a < next') arrows'"
proof -
  let ?h = "map (\<lambda>a. a\<lparr>arrow_shows := None\<rparr>) arrows" and ?d = "length arrows - length avg" and ?e = "length avg - length arrows"
  have id: "map arrow_id ?h = map arrow_id arrows" by simp
  obtain shown where r: "res_fold (show_arrow p) avg ([], ?h, next) = Inr (shown, take ?d ?h, next + ?e)"
      and s: "map arrow_shows shown = map (\<lambda>(k, bc). Some (k, rate_of p bc)) avg"
      and i: "map arrow_id shown = rev (drop ?d (map arrow_id arrows)) @ [next..<next + ?e]"
    using show_arrows [OF assms(1), of p "[]" ?h "next"] unfolding length_map id by auto
  let ?r = "shown @ take ?d ?h" and ?ids = "map arrow_id arrows"
  have ids: "map arrow_id ?r = rev (drop ?d ?ids) @ [next..<next + ?e] @ take ?d ?ids"
    using i by (simp add: take_map [symmetric] comp_def)
  have lt: "\<forall>x\<in>set ?ids. x < next" using assms(3) by (auto simp: list_all_iff)
  have parts: "set (take ?d ?ids) \<union> set (drop ?d ?ids) = set ?ids" "set (take ?d ?ids) \<inter> set (drop ?d ?ids) = {}"
    using assms(2) by (metis append_take_drop_id set_append) (metis append_take_drop_id assms(2) distinct_append)
  have "distinct (map arrow_id ?r)" unfolding ids using assms(2) lt parts by (fastforce simp: distinct_take distinct_drop)
  moreover have "set ?ids \<subseteq> set (map arrow_id ?r)" unfolding ids using parts(1) by auto
  moreover have "list_all (\<lambda>a. arrow_id a < next + ?e) ?r"
  proof -
    have "set (map arrow_id ?r) \<subseteq> set ?ids \<union> {next..<next + ?e}" unfolding ids using parts(1) by auto
    then show ?thesis using lt by (fastforce simp: list_all_iff)
  qed
  moreover have "map arrow_shows ?r = map (\<lambda>(k, bc). Some (k, rate_of p bc)) avg @ replicate ?d None"
    using s by (simp add: take_map [symmetric] comp_def map_replicate_const)
  moreover have "length ?r = max (length arrows) (length avg)" using arg_cong [OF s, of length] by simp
  moreover have "update_arrows p avg arrows next = Inr (?r, next + ?e)" by (simp add: update_arrows_def r)
  ultimately show ?thesis by blast
qed

section \<open>Witnesses\<close>

definition demo_raw :: "int \<Rightarrow> raw_stats" where
  "demo_raw n = \<lparr>transmittedPackets = n, transmittedBytes = 100 * n, receivedPackets = 0, receivedBytes = 0\<rparr>"


theorem update_arrows_correct_witness:
  "\<exists>arrows' next'. update_arrows (1/10) [((1::nat), (1000, 2))] [\<lparr>arrow_id = 0, arrow_shows = None\<rparr>, \<lparr>arrow_id = 1, arrow_shows = None\<rparr>] 2 =
      Inr (arrows', next') \<and> map arrow_shows arrows' = [Some (1, 40), None]"
  using update_arrows_correct [of "[((1::nat), (1000, 2))]" "[\<lparr>arrow_id = 0, arrow_shows = None\<rparr>, \<lparr>arrow_id = 1, arrow_shows = None\<rparr>]" 2 "1/10"]
  by (auto simp: rate_of_def)

text \<open>Transmissions without bytes raise when their arrow is drawn.\<close>

lemma empty_transmission_raises:
  "update_arrows p (averages [[\<lparr>sample_key = (0::nat, 1::nat), sample_bytes = 0\<rparr>]]) arrows next = Inl (ValueError ''math domain error'')"
  by (simp add: averages_def add_sample_def update_arrows_def show_arrow_def kbps_def dict_set_def dict_find_def)

text \<open>An interface that is added after the first of the ten samples raises.\<close>

lemma added_interface_raises:
  "get_interface_statistics (1/10) 7
     (fold simulation_periodic_update (map (\<lambda>n. [(7, if n = 9 then [demo_raw 1, demo_raw 2] else [demo_raw 1])]) [0..<10]) []) = Inl IndexError"
  by code_simp

end
