(* ===== verification/Viz_Nodes.thy ===== *)
theory Viz_Nodes
  imports Py_Prelude "HOL-Library.Word"
begin

unbundle bit_operations_syntax

text \<open>
  \<open>src/src/visualizer/visualizer/core.py\<close>, what is on the canvas: the classes \<open>Node\<close>, \<open>Channel\<close>
  and \<open>WiredLink\<close>, and the handlers of \<open>Visualizer\<close> for selecting, dragging and panning.

  The properties of a canvas item are fields of the record of its node.  The simulator is the number of its
  nodes with the positions of those that have a mobility model; which nodes have one does not change, so the
  value that \<open>has_mobility\<close> caches is the current one.
\<close>

section \<open>Nodes\<close>

type_synonym point = "rat \<times> rat"

definition pixels_per_meter :: rat where
  "pixels_per_meter = 3"

definition to_canvas :: "point \<Rightarrow> point" where
  "to_canvas p = (fst p * pixels_per_meter, snd p * pixels_per_meter)"

definition to_simulation :: "point \<Rightarrow> point" where
  "to_simulation p = (fst p / pixels_per_meter, snd p / pixels_per_meter)"

record svg_item =
  svg_pos :: point
  svg_width :: rat
  svg_height :: rat
  svg_align_x :: rat
  svg_align_y :: rat

record node_view =
  selected :: bool
  highlighted :: bool
  color :: "32 word"
  node_size :: rat
  svg :: "svg_item option"
  position :: point
  radius :: rat
  fill_color :: "32 word"
  line_width :: rat
  stroke_color :: string

text \<open>The fields that show the state of a node.\<close>

definition update_appearance :: "node_view \<Rightarrow> node_view" where
  "update_appearance n =
     (let size = node_size n * pixels_per_meter; alpha = (if svg n \<noteq> None then 0x80 else 0xff)
      in n\<lparr>radius := size, fill_color := (color n AND 0xffffff00) OR alpha,
           line_width := (if selected n then size * (3/10) else size * (15/100)),
           stroke_color := (if highlighted n then ''yellow'' else ''black'')\<rparr>)"

definition new_node :: node_view where
  "new_node = update_appearance
     \<lparr>selected = False, highlighted = False, color = 0x808080ff, node_size = 1, svg = None, position = (0, 0),
      radius = 0, fill_color = 0, line_width = 0, stroke_color = []\<rparr>"

definition set_selected :: "bool \<Rightarrow> node_view \<Rightarrow> node_view" where
  "set_selected b n = update_appearance (n\<lparr>selected := b\<rparr>)"

definition set_highlighted :: "bool \<Rightarrow> node_view \<Rightarrow> node_view" where
  "set_highlighted b n = update_appearance (n\<lparr>highlighted := b\<rparr>)"

definition set_size :: "rat \<Rightarrow> node_view \<Rightarrow> node_view" where
  "set_size v n = update_appearance (n\<lparr>node_size := v\<rparr>)"

text \<open>\<open>Gdk.color_parse\<close> gives three components of 16 bits.\<close>

definition rgba :: "16 word \<Rightarrow> 16 word \<Rightarrow> 16 word \<Rightarrow> 32 word" where
  "rgba r g b =
     push_bit 24 (ucast (drop_bit 8 r)) OR push_bit 16 (ucast (drop_bit 8 g)) OR push_bit 8 (ucast (drop_bit 8 b)) OR 0xff"

definition set_color :: "16 word \<times> 16 word \<times> 16 word \<Rightarrow> node_view \<Rightarrow> node_view" where
  "set_color c n = (case c of (r, g, b) \<Rightarrow> update_appearance (n\<lparr>color := rgba r g b\<rparr>))"

definition update_svg_position :: "point \<Rightarrow> svg_item \<Rightarrow> svg_item" where
  "update_svg_position p i =
     i\<lparr>svg_pos := (fst p - (1 - svg_align_x i) * svg_width i, snd p - (1 - svg_align_y i) * svg_height i)\<rparr>"

text \<open>
  The size of the picture is \<open>natural\<close>, unless a width or a height is wanted.  \<open>core.py\<close> imports \<open>svgitem\<close> by
  its bare name and sets it to \<open>None\<close> if that fails; then there is no \<open>natural\<close> size.
\<close>

definition set_svg_icon :: "(rat \<times> rat) option \<Rightarrow> rat option \<Rightarrow> rat option \<Rightarrow> rat \<Rightarrow> rat \<Rightarrow> node_view \<Rightarrow> node_view res" where
  "set_svg_icon svgitem w h ax ay n =
     (if w = None \<and> h = None then Inl (ValueError ''either width or height must be given'')
      else res_bind (attr svgitem) (\<lambda>natural.
           let i = \<lparr>svg_pos = position n,
                    svg_width = (case w of None \<Rightarrow> fst natural | Some v \<Rightarrow> v * pixels_per_meter),
                    svg_height = (case h of None \<Rightarrow> snd natural | Some v \<Rightarrow> v * pixels_per_meter),
                    svg_align_x = ax, svg_align_y = ay\<rparr>
           in Inr (update_appearance (n\<lparr>svg := Some (update_svg_position (position n) i)\<rparr>))))"

text \<open>\<open>basestring\<close> is not defined in Python 3, so no node ever has a label.\<close>

definition set_label :: "string \<Rightarrow> node_view \<Rightarrow> node_view res" where
  "set_label label n = Inl NameError"

definition place :: "point \<Rightarrow> node_view \<Rightarrow> node_view" where
  "place p n = n\<lparr>position := p, svg := map_option (update_svg_position p) (svg n)\<rparr>"

section \<open>The canvas\<close>

datatype endpoint = Node_End nat | Channel_End nat

record wired_link =
  link_node :: nat
  link_end :: endpoint
  link_points :: "(point \<times> point) option"

datatype mode = Show_All | Show_None | Show_Selected

record drag_state =
  drag_canvas :: point
  drag_sim :: point

record panning_state =
  initial_mouse_pos :: point
  initial_canvas_pos :: point

record scene =
  nodes :: "(nat, node_view) dict"
  channels :: "(nat, point) dict"
  links :: "wired_link list"
  selected_node :: "nat option"
  show_mode :: mode
  interest :: "nat list"
  drag :: "drag_state option"
  panning :: "panning_state option"
  scroll :: point
  zoom :: rat
  bounds :: "point \<times> point"
  mobility :: "(nat, point) dict"
  n_nodes :: nat

definition new_scene :: "nat \<Rightarrow> (nat, point) dict \<Rightarrow> scene" where
  "new_scene n mob =
     \<lparr>nodes = [], channels = [], links = [], selected_node = None, show_mode = Show_All, interest = [0..<n], drag = None,
      panning = None, scroll = (0, 0), zoom = 1, bounds = ((-10000, -10000), (10000, 10000)), mobility = mob, n_nodes = n\<rparr>"

definition end_position :: "scene \<Rightarrow> endpoint \<Rightarrow> point option" where
  "end_position s e =
     (case e of Node_End i \<Rightarrow> map_option position (dict_find (nodes s) i) | Channel_End c \<Rightarrow> dict_find (channels s) c)"

definition current_points :: "scene \<Rightarrow> wired_link \<Rightarrow> (point \<times> point) option" where
  "current_points s l =
     (case (end_position s (Node_End (link_node l)), end_position s (link_end l)) of
        (Some p, Some q) \<Rightarrow> Some (p, q) | _ \<Rightarrow> None)"

text \<open>\<open>update_points\<close> of every link of a node or channel.\<close>

definition update_links :: "endpoint \<Rightarrow> scene \<Rightarrow> scene" where
  "update_links e s =
     s\<lparr>links := map (\<lambda>l. if Node_End (link_node l) = e \<or> link_end l = e then l\<lparr>link_points := current_points s l\<rparr> else l) (links s)\<rparr>"

definition with_node :: "nat \<Rightarrow> (node_view \<Rightarrow> node_view) \<Rightarrow> scene \<Rightarrow> scene" where
  "with_node i f s = (case dict_find (nodes s) i of None \<Rightarrow> s | Some n \<Rightarrow> s\<lparr>nodes := dict_set i (f n) (nodes s)\<rparr>)"

definition grow_bounds :: "point \<Rightarrow> scene \<Rightarrow> scene" where
  "grow_bounds p s =
     (case bounds s of ((x1, y1), (x2, y2)) \<Rightarrow>
      s\<lparr>bounds := ((min (fst p) x1, min (snd p) y1), (max (fst p) x2, max (snd p) y2))\<rparr>)"

definition set_position :: "nat \<Rightarrow> point \<Rightarrow> scene \<Rightarrow> scene" where
  "set_position i p s = grow_bounds p (update_links (Node_End i) (with_node i (place p) s))"

definition set_channel_position :: "nat \<Rightarrow> point \<Rightarrow> scene \<Rightarrow> scene" where
  "set_channel_position c p s = update_links (Channel_End c) (s\<lparr>channels := dict_set c p (channels s)\<rparr>)"

definition get_node :: "nat \<Rightarrow> scene \<Rightarrow> scene" where
  "get_node i s = (if dict_has (nodes s) i then s else s\<lparr>nodes := dict_set i new_node (nodes s)\<rparr>)"

definition get_channel :: "nat \<Rightarrow> scene \<Rightarrow> scene" where
  "get_channel c s = (if dict_has (channels s) c then s else s\<lparr>channels := dict_set c (0, 0) (channels s)\<rparr>)"

definition create_link :: "nat \<Rightarrow> endpoint \<Rightarrow> scene \<Rightarrow> scene" where
  "create_link i e s = s\<lparr>links := links s @ [\<lparr>link_node = i, link_end = e, link_points = None\<rparr>]\<rparr>"

section \<open>Handlers\<close>

definition set_nodes_of_interest :: "nat list \<Rightarrow> scene \<Rightarrow> scene" where
  "set_nodes_of_interest ids s = s\<lparr>interest := ids\<rparr>"

definition interest_of_selection :: "scene \<Rightarrow> nat list" where
  "interest_of_selection s = (case selected_node s of None \<Rightarrow> [] | Some i \<Rightarrow> [i])"

definition set_show_transmissions_mode :: "mode \<Rightarrow> scene \<Rightarrow> scene" where
  "set_show_transmissions_mode m s =
     (let s1 = s\<lparr>show_mode := m\<rparr>
      in case m of
           Show_All \<Rightarrow> set_nodes_of_interest [0..<n_nodes s1] s1
         | Show_None \<Rightarrow> set_nodes_of_interest [] s1
         | Show_Selected \<Rightarrow> set_nodes_of_interest (interest_of_selection s1) s1)"

definition select_node :: "nat option \<Rightarrow> scene \<Rightarrow> scene res" where
  "select_node sel s =
     (if (case sel of None \<Rightarrow> False | Some i \<Rightarrow> \<not> dict_has (nodes s) i) then Inl KeyError
      else if sel = selected_node s then Inr s
      else let s1 = (case selected_node s of None \<Rightarrow> s | Some j \<Rightarrow> with_node j (set_selected False) s);
               s2 = s1\<lparr>selected_node := sel\<rparr>;
               s3 = (case sel of None \<Rightarrow> s2 | Some i \<Rightarrow> with_node i (set_selected True) s2)
           in Inr (if show_mode s3 = Show_Selected then set_nodes_of_interest (interest_of_selection s3) s3 else s3))"

text \<open>\<open>p\<close> is the position of the pointer on the canvas.\<close>

definition begin_node_drag :: "nat \<Rightarrow> point \<Rightarrow> scene \<Rightarrow> scene" where
  "begin_node_drag i p s =
     (case dict_find (mobility s) i of
        None \<Rightarrow> s
      | Some pos \<Rightarrow> if drag s \<noteq> None then s else s\<lparr>drag := Some \<lparr>drag_canvas = p, drag_sim = pos\<rparr>\<rparr>)"

definition node_drag_motion :: "nat \<Rightarrow> point \<Rightarrow> scene \<Rightarrow> scene" where
  "node_drag_motion i p s =
     (case (dict_find (mobility s) i, drag s) of
        (Some pos, Some d) \<Rightarrow>
          (let delta = to_simulation (fst p - fst (drag_canvas d), snd p - snd (drag_canvas d));
               new = (fst (drag_sim d) + fst delta, snd (drag_sim d) + snd delta)
           in set_position i (to_canvas new) (s\<lparr>mobility := dict_set i new (mobility s)\<rparr>))
      | _ \<Rightarrow> s)"

definition end_node_drag :: "scene \<Rightarrow> scene" where
  "end_node_drag s = s\<lparr>drag := None\<rparr>"

definition begin_panning :: "point \<Rightarrow> scene \<Rightarrow> scene" where
  "begin_panning p s = s\<lparr>panning := Some \<lparr>initial_mouse_pos = p, initial_canvas_pos = scroll s\<rparr>\<rparr>"

definition panning_motion :: "point \<Rightarrow> scene \<Rightarrow> scene res" where
  "panning_motion p s =
     (case panning s of
        None \<Rightarrow> Inl (Exception ''AssertionError'')
      | Some st \<Rightarrow> Inr (s\<lparr>scroll := (fst (initial_canvas_pos st) - (fst p - fst (initial_mouse_pos st)),
                                   snd (initial_canvas_pos st) - (snd p - snd (initial_mouse_pos st)))\<rparr>))"

definition end_panning :: "scene \<Rightarrow> scene" where
  "end_panning s = s\<lparr>panning := None\<rparr>"

text \<open>The adjustment of the zoom is limited to the interval from 1/100 to 9.\<close>

definition set_zoom :: "rat \<Rightarrow> scene \<Rightarrow> scene" where
  "set_zoom v s = s\<lparr>zoom := max (1/100) (min v 9)\<rparr>"

definition scroll_event :: "bool \<Rightarrow> scene \<Rightarrow> scene" where
  "scroll_event up s = set_zoom (if up then zoom s * (5/4) else zoom s / (5/4)) s"

definition node_size_changed :: "rat \<Rightarrow> scene \<Rightarrow> scene" where
  "node_size_changed v s = s\<lparr>nodes := map (\<lambda>(i, n). (i, set_size v n)) (nodes s)\<rparr>"

definition update_node_positions :: "scene \<Rightarrow> scene" where
  "update_node_positions s =
     fold (\<lambda>i s. case dict_find (mobility s) i of None \<Rightarrow> s | Some p \<Rightarrow> set_position i (to_canvas p) s) (map fst (nodes s)) s"

section \<open>A session\<close>

datatype scene_event =
    Get_Node nat
  | Get_Channel nat
  | New_Link nat endpoint
  | Node_Color nat "16 word \<times> 16 word \<times> 16 word"
  | Place_Node nat point
  | Place_Channel nat point
  | Node_Moves nat point
  | Refresh
  | Select "nat option"
  | Show mode
  | Hover nat bool
  | Resize rat
  | Drag_Begin nat point
  | Drag_Motion nat point
  | Drag_End

fun handle_event :: "scene_event \<Rightarrow> scene \<Rightarrow> scene res" where
  "handle_event (Get_Node i) s = Inr (get_node i s)"
| "handle_event (Get_Channel c) s = Inr (get_channel c s)"
| "handle_event (New_Link i e) s = Inr (create_link i e s)"
| "handle_event (Node_Color i c) s = Inr (with_node i (set_color c) s)"
| "handle_event (Place_Node i p) s = Inr (set_position i p s)"
| "handle_event (Place_Channel c p) s = Inr (set_channel_position c p s)"
| "handle_event (Node_Moves i p) s = Inr (if dict_has (mobility s) i then s\<lparr>mobility := dict_set i p (mobility s)\<rparr> else s)"
| "handle_event Refresh s = Inr (update_node_positions s)"
| "handle_event (Select sel) s = select_node sel s"
| "handle_event (Show m) s = Inr (set_show_transmissions_mode m s)"
| "handle_event (Hover i b) s = Inr (with_node i (set_highlighted b) s)"
| "handle_event (Resize v) s = Inr (node_size_changed v s)"
| "handle_event (Drag_Begin i p) s = Inr (begin_node_drag i p s)"
| "handle_event (Drag_Motion i p) s = Inr (node_drag_motion i p s)"
| "handle_event Drag_End s = Inr (end_node_drag s)"

text \<open>A handler that raises is reported by the main loop, which goes on.\<close>

definition run_event :: "scene_event \<Rightarrow> scene \<Rightarrow> scene" where
  "run_event e s = (case handle_event e s of Inl _ \<Rightarrow> s | Inr t \<Rightarrow> t)"

section \<open>The invariant of the scene\<close>

definition appearance_ok :: "node_view \<Rightarrow> bool" where
  "appearance_ok n \<longleftrightarrow> update_appearance n = n"

definition nodes_inv :: "scene \<Rightarrow> bool" where
  "nodes_inv s \<longleftrightarrow>
     (\<forall>i n. dict_find (nodes s) i = Some n \<longrightarrow> appearance_ok n \<and> (selected n \<longleftrightarrow> selected_node s = Some i)) \<and>
     (\<forall>i. selected_node s = Some i \<longrightarrow> dict_has (nodes s) i)"

definition links_inv :: "scene \<Rightarrow> bool" where
  "links_inv s \<longleftrightarrow> (\<forall>l\<in>set (links s). link_points l = None \<or> link_points l = current_points s l)"

definition interest_inv :: "scene \<Rightarrow> bool" where
  "interest_inv s \<longleftrightarrow>
     interest s = (case show_mode s of Show_All \<Rightarrow> [0..<n_nodes s] | Show_None \<Rightarrow> [] | Show_Selected \<Rightarrow> interest_of_selection s)"

definition dicts_inv :: "scene \<Rightarrow> bool" where
  "dicts_inv s \<longleftrightarrow> dict_ok (nodes s) \<and> dict_ok (channels s) \<and> dict_ok (mobility s)"

definition scene_inv :: "scene \<Rightarrow> bool" where
  "scene_inv s \<longleftrightarrow> dicts_inv s \<and> nodes_inv s \<and> links_inv s \<and> interest_inv s"

lemma appearance_update [simp]: "appearance_ok (update_appearance n)"
  by (simp add: appearance_ok_def update_appearance_def Let_def)

lemma restyle_simps [simp]:
  "appearance_ok (set_selected b n)" "appearance_ok (set_highlighted b n)" "appearance_ok (set_size v n)"
  "appearance_ok (set_color c n)" "appearance_ok new_node"
  "position (set_selected b n) = position n" "position (set_highlighted b n) = position n"
  "position (set_size v n) = position n" "position (set_color c n) = position n"
  "selected (set_selected b n) = b" "selected (set_highlighted b n) = selected n"
  "selected (set_size v n) = selected n" "selected (set_color c n) = selected n" "\<not> selected new_node"
  by (simp_all add: set_selected_def set_highlighted_def set_size_def set_color_def new_node_def split: prod.splits)
     (simp_all add: update_appearance_def Let_def)

lemma place_simps [simp]: "position (place p n) = p" "selected (place p n) = selected n" "appearance_ok (place p n) \<longleftrightarrow> appearance_ok n"
  by (simp_all add: place_def)
     (cases n, auto simp: place_def appearance_ok_def update_appearance_def Let_def)

lemma with_node_find:
  "dict_ok (nodes s) \<Longrightarrow> dict_find (nodes (with_node i f s)) j =
     (if j = i then map_option f (dict_find (nodes s) i) else dict_find (nodes s) j)"
  by (auto simp: with_node_def dict_ops split: option.splits)

lemma with_node_frame [simp]:
  "channels (with_node i f s) = channels s" "links (with_node i f s) = links s"
  "selected_node (with_node i f s) = selected_node s" "show_mode (with_node i f s) = show_mode s"
  "interest (with_node i f s) = interest s" "mobility (with_node i f s) = mobility s" "n_nodes (with_node i f s) = n_nodes s"
  by (simp_all add: with_node_def split: option.splits)

lemma with_node_ok: "dict_ok (nodes s) \<Longrightarrow> dict_ok (nodes (with_node i f s))"
  by (simp add: with_node_def dict_ops split: option.splits)

lemma current_points_cong:
  "(\<And>e. end_position t e = end_position s e) \<Longrightarrow> current_points t l = current_points s l"
  by (simp add: current_points_def)

lemma interest_inv_cong:
  "selected_node t = selected_node s \<Longrightarrow> show_mode t = show_mode s \<Longrightarrow> interest t = interest s \<Longrightarrow> n_nodes t = n_nodes s \<Longrightarrow>
   interest_inv t \<longleftrightarrow> interest_inv s"
  by (simp add: interest_inv_def interest_of_selection_def split: mode.splits)

text \<open>A change of the looks of a node.\<close>

lemma restyle_inv:
  assumes inv: "scene_inv s" and f: "\<And>n. appearance_ok (f n)" "\<And>n. position (f n) = position n" "\<And>n. selected (f n) = selected n"
  shows "scene_inv (with_node i f s)"
proof -
  have ok: "dict_ok (nodes s)" using inv by (simp add: scene_inv_def dicts_inv_def)
  have "end_position (with_node i f s) e = end_position s e" for e
    by (cases e) (auto simp: end_position_def with_node_find [OF ok] f(2) option.map_comp comp_def split: option.splits)
  then have "links_inv (with_node i f s)" using inv current_points_cong [of "with_node i f s" s]
    by (simp add: scene_inv_def links_inv_def)
  moreover have "nodes_inv (with_node i f s)" using inv f(1,3)
    by (auto simp: scene_inv_def nodes_inv_def with_node_find [OF ok] dict_has_find split: if_splits)
  ultimately show ?thesis using inv with_node_ok [OF ok] interest_inv_cong [of "with_node i f s" s]
    by (simp add: scene_inv_def dicts_inv_def)
qed

text \<open>A change of the place of a node or a channel: its links follow.\<close>

lemma update_links_frame [simp]:
  "nodes (update_links e s) = nodes s" "channels (update_links e s) = channels s" "mobility (update_links e s) = mobility s"
  "selected_node (update_links e s) = selected_node s" "show_mode (update_links e s) = show_mode s"
  "interest (update_links e s) = interest s" "n_nodes (update_links e s) = n_nodes s"
  by (simp_all add: update_links_def)

lemma grow_bounds_frame [simp]:
  "nodes (grow_bounds p s) = nodes s" "channels (grow_bounds p s) = channels s" "mobility (grow_bounds p s) = mobility s"
  "selected_node (grow_bounds p s) = selected_node s" "show_mode (grow_bounds p s) = show_mode s"
  "interest (grow_bounds p s) = interest s" "n_nodes (grow_bounds p s) = n_nodes s" "links (grow_bounds p s) = links s"
  "drag (grow_bounds p s) = drag s"
  by (simp_all add: grow_bounds_def split: prod.splits)

lemma links_inv_cong:
  "links t = links s \<Longrightarrow> (\<And>e. end_position t e = end_position s e) \<Longrightarrow> links_inv t \<longleftrightarrow> links_inv s"
  using current_points_cong [of t s] by (simp add: links_inv_def)

text \<open>\<open>t\<close> is \<open>s\<close> with the endpoint \<open>e\<close> moved.\<close>

lemma links_follow:
  assumes "links_inv s" and "links t = links s" and "\<And>e'. e' \<noteq> e \<Longrightarrow> end_position t e' = end_position s e'"
  shows "links_inv (update_links e t)"
proof -
  have c: "current_points (update_links e t) l = current_points t l" for l
    by (rule current_points_cong) (simp add: end_position_def split: endpoint.splits)
  have o: "current_points t l = current_points s l" if "Node_End (link_node l) \<noteq> e" "link_end l \<noteq> e" for l
    using that assms(3) by (simp add: current_points_def)
  have u: "current_points t (l\<lparr>link_points := p\<rparr>) = current_points t l" for l p by (simp add: current_points_def)
  show ?thesis using assms(1,2) o unfolding links_inv_def c
    by (auto simp: update_links_def u split: if_splits)
qed

lemma set_position_inv:
  assumes inv: "scene_inv s"
  shows "scene_inv (set_position i p s)"
proof -
  let ?t = "with_node i (place p) s"
  have ok: "dict_ok (nodes s)" using inv by (simp add: scene_inv_def dicts_inv_def)
  have "end_position ?t e = end_position s e" if "e \<noteq> Node_End i" for e
    using that by (cases e) (auto simp: end_position_def with_node_find [OF ok])
  then have "links_inv (update_links (Node_End i) ?t)" using inv by (intro links_follow [of s]) (auto simp: scene_inv_def)
  then have "links_inv (set_position i p s)" unfolding set_position_def
    by (subst links_inv_cong [of _ "update_links (Node_End i) ?t"]) (auto simp: end_position_def split: endpoint.splits)
  moreover have "nodes_inv (set_position i p s)" using inv
    by (auto simp: scene_inv_def nodes_inv_def set_position_def with_node_find [OF ok] dict_has_find split: if_splits)
  moreover have "interest_inv (set_position i p s)"
    by (rule interest_inv_cong [THEN iffD2, of _ s]) (use inv in \<open>simp_all add: set_position_def scene_inv_def\<close>)
  ultimately show ?thesis using inv with_node_ok [OF ok] by (simp add: scene_inv_def dicts_inv_def set_position_def)
qed

lemma set_channel_position_inv:
  assumes inv: "scene_inv s"
  shows "scene_inv (set_channel_position c p s)"
proof -
  let ?t = "s\<lparr>channels := dict_set c p (channels s)\<rparr>"
  have ok: "dict_ok (channels s)" using inv by (simp add: scene_inv_def dicts_inv_def)
  have "end_position ?t e = end_position s e" if "e \<noteq> Channel_End c" for e
    using that by (cases e) (auto simp: end_position_def dict_ops ok)
  then have "links_inv (set_channel_position c p s)" using inv unfolding set_channel_position_def
    by (intro links_follow [of s]) (auto simp: scene_inv_def)
  moreover have "interest_inv (set_channel_position c p s)"
    by (rule interest_inv_cong [THEN iffD2, of _ s]) (use inv in \<open>simp_all add: set_channel_position_def scene_inv_def\<close>)
  ultimately show ?thesis using inv
    by (simp add: scene_inv_def dicts_inv_def set_channel_position_def nodes_inv_def dict_ops)
qed

lemma picture_frame:
  assumes "dicts_inv s \<and> nodes_inv s \<and> links_inv s" and "nodes t = nodes s" "channels t = channels s" "links t = links s"
    "selected_node t = selected_node s" "dict_ok (mobility t)"
  shows "dicts_inv t \<and> nodes_inv t \<and> links_inv t"
proof -
  have "end_position t e = end_position s e" for e by (cases e) (simp_all add: end_position_def assms)
  then have "links_inv t \<longleftrightarrow> links_inv s" by (intro links_inv_cong assms)
  then show ?thesis using assms by (simp add: dicts_inv_def nodes_inv_def)
qed

lemma scene_inv_frame:
  assumes "scene_inv s" and "nodes t = nodes s" "channels t = channels s" "links t = links s" "selected_node t = selected_node s"
    "show_mode t = show_mode s" "interest t = interest s" "n_nodes t = n_nodes s" "dict_ok (mobility t)"
  shows "scene_inv t"
  using picture_frame [of s t] interest_inv_cong [of t s] assms by (simp add: scene_inv_def)

text \<open>New nodes, channels and links.\<close>

lemma current_points_mono:
  assumes "\<And>e p. end_position s e = Some p \<Longrightarrow> end_position t e = Some p" and "current_points s l = Some q"
  shows "current_points t l = Some q"
  using assms(2) by (auto simp: current_points_def assms(1) split: option.splits)

lemma links_inv_mono:
  assumes "links_inv s" and "links t = links s" and "\<And>e p. end_position s e = Some p \<Longrightarrow> end_position t e = Some p"
  shows "links_inv t"
  using assms(1,2) current_points_mono [of s t, OF assms(3)] unfolding links_inv_def by (metis not_None_eq)

lemma get_node_inv:
  assumes inv: "scene_inv s"
  shows "scene_inv (get_node i s)"
proof (cases "dict_has (nodes s) i")
  case False
  have ok: "dict_ok (nodes s)" "dict_find (nodes s) i = None" "selected_node s \<noteq> Some i"
    using inv False unfolding scene_inv_def dicts_inv_def nodes_inv_def dict_has_find by blast+
  have keep: "end_position (get_node i s) e = Some p" if "end_position s e = Some p" for e p
    using that ok by (cases e) (auto simp: end_position_def get_node_def dict_ops)
  have "links_inv (get_node i s)"
    by (rule links_inv_mono [of s, OF _ _ keep]) (use inv in \<open>simp_all add: scene_inv_def get_node_def\<close>)
  moreover have "nodes_inv (get_node i s)"
  proof -
    have f: "dict_find (nodes (get_node i s)) j = (if j = i then Some new_node else dict_find (nodes s) j)" for j
      using ok False by (simp add: get_node_def dict_ops)
    have e: "selected_node (get_node i s) = selected_node s" by (simp add: get_node_def)
    have "nodes_inv s" using inv by (simp add: scene_inv_def)
    then show ?thesis unfolding nodes_inv_def f e dict_has_find using ok(3) by (simp split: if_splits)
  qed
  moreover have "interest_inv (get_node i s)"
    by (rule interest_inv_cong [THEN iffD2, of _ s]) (use inv in \<open>simp_all add: get_node_def scene_inv_def\<close>)
  ultimately show ?thesis using inv by (simp add: scene_inv_def dicts_inv_def get_node_def dict_ops)
qed (use inv in \<open>simp add: get_node_def\<close>)

lemma get_channel_inv:
  assumes inv: "scene_inv s"
  shows "scene_inv (get_channel c s)"
proof (cases "dict_has (channels s) c")
  case False
  have ok: "dict_ok (channels s)" "dict_find (channels s) c = None"
    using inv False unfolding scene_inv_def dicts_inv_def dict_has_find by blast+
  have keep: "end_position (get_channel c s) e = Some p" if "end_position s e = Some p" for e p
    using that ok by (cases e) (auto simp: end_position_def get_channel_def dict_ops)
  have "links_inv (get_channel c s)"
    by (rule links_inv_mono [of s, OF _ _ keep]) (use inv in \<open>simp_all add: scene_inv_def get_channel_def\<close>)
  moreover have "interest_inv (get_channel c s)"
    by (rule interest_inv_cong [THEN iffD2, of _ s]) (use inv in \<open>simp_all add: get_channel_def scene_inv_def\<close>)
  ultimately show ?thesis using inv by (simp add: scene_inv_def dicts_inv_def get_channel_def nodes_inv_def dict_ops)
qed (use inv in \<open>simp add: get_channel_def\<close>)

lemma create_link_inv: "scene_inv s \<Longrightarrow> scene_inv (create_link i e s)"
proof -
  assume inv: "scene_inv s"
  have "end_position (create_link i e s) e' = end_position s e'" for e' by (cases e') (simp_all add: end_position_def create_link_def)
  then have "current_points (create_link i e s) l = current_points s l" for l by (rule current_points_cong)
  moreover have "links (create_link i e s) = links s @ [\<lparr>link_node = i, link_end = e, link_points = None\<rparr>]"
    by (simp add: create_link_def)
  ultimately have "links_inv (create_link i e s)" using inv by (auto simp: scene_inv_def links_inv_def)
  moreover have "interest_inv (create_link i e s)"
    by (rule interest_inv_cong [THEN iffD2, of _ s]) (use inv in \<open>simp_all add: create_link_def scene_inv_def\<close>)
  ultimately show ?thesis using inv by (simp add: scene_inv_def dicts_inv_def nodes_inv_def create_link_def)
qed

section \<open>Every handler keeps the invariant\<close>

lemma select_node_inv:
  assumes inv: "scene_inv s" and r: "select_node sel s = Inr t"
  shows "scene_inv t"
proof (cases "sel = selected_node s")
  case True
  then show ?thesis using assms by (simp add: select_node_def split: option.splits if_splits)
next
  case False
  have ok: "dict_ok (nodes s)" and nv: "nodes_inv s" using inv by (simp_all add: scene_inv_def dicts_inv_def)
  define s1 where "s1 = (case selected_node s of None \<Rightarrow> s | Some j \<Rightarrow> with_node j (set_selected False) s)"
  define s3 where "s3 = (case sel of None \<Rightarrow> s1\<lparr>selected_node := sel\<rparr> | Some i \<Rightarrow> with_node i (set_selected True) (s1\<lparr>selected_node := sel\<rparr>))"
  have present: "\<forall>i. sel = Some i \<longrightarrow> dict_has (nodes s) i" using r by (auto simp: select_node_def split: if_splits)
  have t: "t = (if show_mode s3 = Show_Selected then set_nodes_of_interest (interest_of_selection s3) s3 else s3)"
    using r False present by (auto simp: select_node_def s3_def s1_def Let_def split: option.splits)
  have f1: "dict_ok (nodes s1)" "dict_find (nodes s1) j =
      (if selected_node s = Some j then map_option (set_selected False) (dict_find (nodes s) j) else dict_find (nodes s) j)" for j
    using ok by (auto simp: s1_def with_node_ok with_node_find split: option.splits)
  have f3: "dict_ok (nodes s3)" "dict_find (nodes s3) j =
      (if sel = Some j then map_option (set_selected True) (dict_find (nodes s1) j) else dict_find (nodes s1) j)" for j
    using f1(1) by (auto simp: s3_def with_node_ok with_node_find split: option.splits)
  have rest: "channels s3 = channels s" "links s3 = links s" "mobility s3 = mobility s" "show_mode s3 = show_mode s"
      "interest s3 = interest s" "n_nodes s3 = n_nodes s" "selected_node s3 = sel"
    by (simp_all add: s3_def s1_def split: option.splits)
  have "nodes_inv s3" using nv present unfolding nodes_inv_def dict_has_find f3(2) f1(2) rest(7)
    by (auto split: if_splits)
  moreover have "links_inv s3"
  proof -
    have "end_position s3 e = end_position s e" for e
      by (cases e) (auto simp: end_position_def f3(2) f1(2) rest option.map_comp comp_def)
    then show ?thesis using links_inv_cong [of s3 s] rest(2) inv by (simp add: scene_inv_def)
  qed
  ultimately have "dicts_inv s3 \<and> nodes_inv s3 \<and> links_inv s3" using inv f3(1) by (simp add: scene_inv_def dicts_inv_def rest)
  then have "dicts_inv t \<and> nodes_inv t \<and> links_inv t"
    by (rule picture_frame) (use inv in \<open>simp_all add: t set_nodes_of_interest_def scene_inv_def dicts_inv_def rest\<close>)
  moreover have "interest_inv t" using inv
    by (auto simp: t set_nodes_of_interest_def interest_inv_def interest_of_selection_def scene_inv_def rest split: mode.splits)
  ultimately show ?thesis by (simp add: scene_inv_def)
qed

lemma show_mode_inv:
  assumes "scene_inv s"
  shows "scene_inv (set_show_transmissions_mode m s)"
proof -
  have "dicts_inv s \<and> nodes_inv s \<and> links_inv s" using assms by (simp add: scene_inv_def)
  then have "dicts_inv (set_show_transmissions_mode m s) \<and> nodes_inv (set_show_transmissions_mode m s) \<and>
      links_inv (set_show_transmissions_mode m s)"
    by (rule picture_frame)
      (use assms in \<open>cases m; simp add: set_show_transmissions_mode_def set_nodes_of_interest_def Let_def scene_inv_def dicts_inv_def\<close>)+
  moreover have "interest_inv (set_show_transmissions_mode m s)"
    by (cases m) (simp_all add: interest_inv_def set_show_transmissions_mode_def set_nodes_of_interest_def interest_of_selection_def Let_def)
  ultimately show ?thesis by (simp add: scene_inv_def)
qed

lemma resize_inv:
  assumes inv: "scene_inv s"
  shows "scene_inv (node_size_changed v s)"
proof -
  have f: "dict_find (nodes (node_size_changed v s)) i = map_option (set_size v) (dict_find (nodes s) i)" for i
    by (simp add: node_size_changed_def dict_find_def map_of_map)
  have k: "dict_ok (nodes (node_size_changed v s)) \<longleftrightarrow> dict_ok (nodes s)"
    by (simp add: node_size_changed_def dict_ok_def comp_def case_prod_beta)
  have rest: "channels (node_size_changed v s) = channels s" "links (node_size_changed v s) = links s"
      "mobility (node_size_changed v s) = mobility s" "selected_node (node_size_changed v s) = selected_node s"
    by (simp_all add: node_size_changed_def)
  have "end_position (node_size_changed v s) e = end_position s e" for e
    by (cases e) (auto simp: end_position_def f rest option.map_comp comp_def)
  then have "links_inv (node_size_changed v s)" using links_inv_cong [of "node_size_changed v s" s] rest(2) inv by (simp add: scene_inv_def)
  moreover have "nodes_inv (node_size_changed v s)" unfolding nodes_inv_def f rest dict_has_find
  proof (intro conjI allI impI)
    have nv: "nodes_inv s" using inv by (simp add: scene_inv_def)
    fix i n assume "map_option (set_size v) (dict_find (nodes s) i) = Some n"
    then obtain m where m: "dict_find (nodes s) i = Some m" "n = set_size v m" by auto
    then show "appearance_ok n" by simp
    show "selected n = (selected_node s = Some i)" using nv m by (simp add: nodes_inv_def)
  next
    fix i assume "selected_node s = Some i"
    then have "dict_has (nodes s) i" using inv by (simp add: scene_inv_def nodes_inv_def)
    then show "map_option (set_size v) (dict_find (nodes s) i) \<noteq> None" by (simp add: dict_has_find)
  qed
  moreover have "interest_inv (node_size_changed v s)"
    by (rule interest_inv_cong [THEN iffD2, of _ s]) (use inv in \<open>simp_all add: node_size_changed_def scene_inv_def\<close>)
  ultimately show ?thesis using inv by (simp add: scene_inv_def dicts_inv_def k rest)
qed

lemma refresh_inv: "scene_inv s \<Longrightarrow> scene_inv (update_node_positions s)"
proof -
  have "scene_inv t \<Longrightarrow> scene_inv (fold (\<lambda>i s. case dict_find (mobility s) i of None \<Rightarrow> s | Some p \<Rightarrow> set_position i (to_canvas p) s) is t)"
    for "is" t by (induction "is" arbitrary: t) (auto simp: set_position_inv split: option.splits)
  then show "scene_inv s \<Longrightarrow> scene_inv (update_node_positions s)" by (simp add: update_node_positions_def)
qed

lemma mobility_inv: "scene_inv s \<Longrightarrow> scene_inv (s\<lparr>mobility := dict_set i p (mobility s)\<rparr>)"
  by (rule scene_inv_frame [of s]) (simp_all add: dict_ops scene_inv_def dicts_inv_def)

lemma drag_motion_inv: "scene_inv s \<Longrightarrow> scene_inv (node_drag_motion i p s)"
  by (auto simp: node_drag_motion_def Let_def mobility_inv set_position_inv split: option.splits)

lemma drag_frame_inv: "scene_inv s \<Longrightarrow> scene_inv (s\<lparr>drag := d\<rparr>)"
  by (rule scene_inv_frame [of s]) (simp_all add: scene_inv_def dicts_inv_def)

lemma handle_inv:
  assumes "scene_inv s" and "handle_event e s = Inr t"
  shows "scene_inv t"
proof (cases e)
  case (Select sel)
  then show ?thesis using assms select_node_inv by simp
next
  case (Drag_Begin i p)
  then show ?thesis using assms by (auto simp: begin_node_drag_def drag_frame_inv split: option.splits if_splits)
next
  case (Drag_End)
  then show ?thesis using assms by (auto simp: end_node_drag_def drag_frame_inv)
qed (use assms in \<open>auto simp: get_node_inv get_channel_inv create_link_inv restyle_inv set_position_inv
  set_channel_position_inv mobility_inv refresh_inv show_mode_inv resize_inv drag_motion_inv\<close>)

lemma new_scene_inv: "dict_ok mob \<Longrightarrow> scene_inv (new_scene n mob)"
  by (simp add: scene_inv_def dicts_inv_def nodes_inv_def links_inv_def interest_inv_def new_scene_def)

lemma session_inv: "scene_inv s \<Longrightarrow> scene_inv (fold run_event es s)"
  by (induction es arbitrary: s) (auto simp: run_event_def handle_inv split: sum.splits)

lemma bounds_inv:
  "\<exists>a b c d. bounds (grow_bounds p s) = ((a, b), (c, d)) \<and> a \<le> fst p \<and> fst p \<le> c \<and> b \<le> snd p \<and> snd p \<le> d"
  by (cases "bounds s") (auto simp: grow_bounds_def split: prod.splits)

section \<open>Properties\<close>

text \<open>
  C20. Whatever the user does and however the simulated nodes move: at most one node is marked as selected, and
  it is the selected one; every node looks as its state says; the ends of every link that has been drawn are where
  its node and its other end are; and the simulator watches exactly the nodes that the mode asks for.
\<close>

theorem session_scene:
  assumes "dict_ok mob" and "s = fold run_event es (new_scene n mob)"
  shows "(\<forall>i v. dict_find (nodes s) i = Some v \<longrightarrow> update_appearance v = v \<and> (selected v \<longleftrightarrow> selected_node s = Some i)) \<and>
    (\<forall>l\<in>set (links s). link_points l = None \<or> link_points l = current_points s l) \<and>
    interest s = (case show_mode s of Show_All \<Rightarrow> [0..<n_nodes s] | Show_None \<Rightarrow> [] | Show_Selected \<Rightarrow> interest_of_selection s)"
  using session_inv [OF new_scene_inv [OF assms(1)], of es n] assms(2)
  unfolding scene_inv_def nodes_inv_def links_inv_def interest_inv_def appearance_ok_def by blast

lemma drag_motion_position:
  assumes "dict_ok (mobility s)" "dict_ok (nodes s)" "dict_has (nodes s) i" "dict_has (mobility s) i"
    "drag s = Some \<lparr>drag_canvas = p, drag_sim = pos\<rparr>" and "t = node_drag_motion i q s"
  shows "dict_find (mobility t) i = Some (fst pos + (fst q - fst p) / 3, snd pos + (snd q - snd p) / 3)"
    and "map_option position (dict_find (nodes t) i) = Some (3 * fst pos + (fst q - fst p), 3 * snd pos + (snd q - snd p))"
    and "dict_ok (mobility t)" and "dict_ok (nodes t)" and "drag t = drag s"
proof -
  obtain v m where "dict_find (nodes s) i = Some v" "dict_find (mobility s) i = Some m"
    using assms(3,4) unfolding dict_has_find by (metis not_None_eq)
  with assms show "dict_find (mobility t) i = Some (fst pos + (fst q - fst p) / 3, snd pos + (snd q - snd p) / 3)"
    "map_option position (dict_find (nodes t) i) = Some (3 * fst pos + (fst q - fst p), 3 * snd pos + (snd q - snd p))"
    "dict_ok (mobility t)" "dict_ok (nodes t)" "drag t = drag s"
    by (simp_all add: node_drag_motion_def Let_def set_position_def with_node_find with_node_ok dict_ops
      to_canvas_def to_simulation_def pixels_per_meter_def ring_distribs update_links_def with_node_def)
qed

definition dragging :: "nat \<Rightarrow> point \<Rightarrow> point \<Rightarrow> scene \<Rightarrow> bool" where
  "dragging i p pos s \<longleftrightarrow> dict_ok (mobility s) \<and> dict_ok (nodes s) \<and> dict_has (nodes s) i \<and> dict_has (mobility s) i \<and>
     drag s = Some \<lparr>drag_canvas = p, drag_sim = pos\<rparr>"

lemma dragging_motion: "dragging i p pos s \<Longrightarrow> dragging i p pos (node_drag_motion i q s)"
  using drag_motion_position [of s i p pos "node_drag_motion i q s" q] unfolding dragging_def dict_has_find by auto

lemma dragging_motions: "dragging i p pos s \<Longrightarrow> dragging i p pos (fold (node_drag_motion i) qs s)"
  by (induction qs arbitrary: s) (auto simp: dragging_motion)

text \<open>
  Dragging: after the grip at \<open>p\<close> and any motions, the last one to \<open>q\<close>, the simulated position of the node is its
  old one plus the way of the pointer in meters, and on the canvas it has moved exactly as far as the pointer.
\<close>

theorem drag_follows_pointer:
  assumes "dict_ok (mobility s)" and "dict_ok (nodes s)" and "dict_has (nodes s) i" and "dict_find (mobility s) i = Some pos"
    and "drag s = None" and "t = fold (node_drag_motion i) (qs @ [q]) (begin_node_drag i p s)"
  shows "dict_find (mobility t) i = Some (fst pos + (fst q - fst p) / 3, snd pos + (snd q - snd p) / 3) \<and>
    map_option position (dict_find (nodes t) i) = Some (3 * fst pos + (fst q - fst p), 3 * snd pos + (snd q - snd p))"
proof -
  have "dragging i p pos (begin_node_drag i p s)"
    using assms(1-5) by (simp add: dragging_def begin_node_drag_def dict_has_find)
  then have "dragging i p pos (fold (node_drag_motion i) qs (begin_node_drag i p s))" by (rule dragging_motions)
  then show ?thesis
    using drag_motion_position [of "fold (node_drag_motion i) qs (begin_node_drag i p s)" i p pos t q] assms(6)
    by (simp add: dragging_def)
qed

section \<open>Witnesses\<close>

definition demo_scene :: scene where
  "demo_scene = fold run_event
     [Get_Node 0, Get_Node 1, New_Link 0 (Node_End 1), Place_Node 1 (5, 5), Select (Some 0), Show Show_Selected, Select (Some 1)]
     (new_scene 2 [(0, (1, 2))])"

theorem session_scene_witness:
  "interest demo_scene = [1] \<and> map link_points (links demo_scene) = [Some ((0, 0), (5, 5))] \<and>
   list_all (\<lambda>l. link_points l \<in> {None, current_points demo_scene l}) (links demo_scene)"
proof -
  have "dict_ok [(0::nat, (1::rat, 2::rat))]" by (simp add: dict_ok_def)
  from session_scene [OF this demo_scene_def]
  have l: "\<forall>l\<in>set (links demo_scene). link_points l = None \<or> link_points l = current_points demo_scene l"
    and i: "interest demo_scene = (case show_mode demo_scene of Show_All \<Rightarrow> [0..<n_nodes demo_scene] | Show_None \<Rightarrow> []
      | Show_Selected \<Rightarrow> interest_of_selection demo_scene)" by blast+
  have "show_mode demo_scene = Show_Selected" "interest_of_selection demo_scene = [1]"
    "map link_points (links demo_scene) = [Some ((0, 0), (5, 5))]" by code_simp+
  then show ?thesis using l i by (simp add: list_all_iff)
qed

theorem drag_follows_pointer_witness:
  "map_option position (dict_find (nodes (fold (node_drag_motion 0) ([(7, 7)] @ [(13, 4)]) (begin_node_drag 0 (10, 10) demo_scene))) 0) =
    Some (6, 0)"
proof -
  have "dict_ok (mobility demo_scene)" "dict_ok (nodes demo_scene)" "dict_has (nodes demo_scene) 0"
    "dict_find (mobility demo_scene) 0 = Some (1, 2)" "drag demo_scene = None" by code_simp+
  from drag_follows_pointer [OF this refl, of "[(7, 7)]" "(13, 4)" "(10, 10)"] show ?thesis by simp
qed

section \<open>Labels\<close>

text \<open>Setting a label always raises.\<close>

lemma no_labels: "set_label label n = Inl NameError"
  by (simp add: set_label_def)

end
