(* ===== verification/Viz_Topology.thy ===== *)
theory Viz_Topology
  imports Viz_Nodes
begin

text \<open>
  \<open>Visualizer.scan_topology\<close> of \<open>src/src/visualizer/visualizer/core.py\<close> and the table of device classes and the plugin
  loader of \<open>base.py\<close>.

  A network is the list of its nodes with their positions and devices, and for every channel the nodes of its
  devices.  The layout program is the argument \<open>layout\<close>, which gives a place for every node of a graph.
\<close>

section \<open>Device classes\<close>

record traits =
  is_wireless :: "bool option"
  is_virtual :: bool

definition netdevice_traits :: "(string, traits) dict" where
  "netdevice_traits =
     [(''PointToPointNetDevice'', \<lparr>is_wireless = Some False, is_virtual = False\<rparr>),
      (''CsmaNetDevice'', \<lparr>is_wireless = Some False, is_virtual = False\<rparr>),
      (''WifiNetDevice'', \<lparr>is_wireless = Some True, is_virtual = False\<rparr>),
      (''BridgeNetDevice'', \<lparr>is_wireless = None, is_virtual = True\<rparr>),
      (''LoopbackNetDevice'', \<lparr>is_wireless = Some False, is_virtual = True\<rparr>),
      (''MeshPointDevice'', \<lparr>is_wireless = None, is_virtual = True\<rparr>),
      (''SubscriberStationNetDevice'', \<lparr>is_wireless = Some True, is_virtual = False\<rparr>),
      (''BaseStationNetDevice'', \<lparr>is_wireless = Some True, is_virtual = False\<rparr>),
      (''LteUeNetDevice'', \<lparr>is_wireless = Some True, is_virtual = False\<rparr>),
      (''LteEnbNetDevice'', \<lparr>is_wireless = Some True, is_virtual = False\<rparr>)]"

text \<open>A class that is not in the table is entered as wireless; the warning is the class that is written.\<close>

definition lookup_netdevice_traits :: "string \<Rightarrow> (string, traits) dict \<Rightarrow> traits \<times> (string, traits) dict \<times> string list" where
  "lookup_netdevice_traits cls d =
     (case dict_find d cls of
        Some t \<Rightarrow> (t, d, [])
      | None \<Rightarrow> let t = \<lparr>is_wireless = Some True, is_virtual = False\<rparr> in (t, dict_set cls t d, [cls]))"

section \<open>Networks and graphs\<close>

record device =
  dev_class :: string
  dev_channel :: "nat option"

record sim_node =
  sn_position :: "point option"
  sn_devices :: "device list"

record network =
  net_nodes :: "sim_node list"
  net_channels :: "(nat, nat list) dict"

datatype graph_name = G_Node nat | G_Channel nat

record graph =
  graph_nodes :: "graph_name list"
  graph_edges :: "(graph_name \<times> graph_name) list"

definition add_node :: "graph_name \<Rightarrow> graph \<Rightarrow> graph" where
  "add_node n g = (if n \<in> set (graph_nodes g) then g else g\<lparr>graph_nodes := graph_nodes g @ [n]\<rparr>)"

text \<open>The graphs of pygraphviz are strict and undirected: an edge that is there already is not added.\<close>

definition add_edge :: "graph_name \<Rightarrow> graph_name \<Rightarrow> graph \<Rightarrow> graph" where
  "add_edge a b g =
     (let g1 = add_node b (add_node a g)
      in if (a, b) \<in> set (graph_edges g1) \<or> (b, a) \<in> set (graph_edges g1) then g1
         else g1\<lparr>graph_edges := graph_edges g1 @ [(a, b)]\<rparr>)"

definition node_position :: "network \<Rightarrow> nat \<Rightarrow> point option" where
  "node_position net i = (if i < length (net_nodes net) then sn_position (net_nodes net ! i) else None)"

definition channel_nodes :: "network \<Rightarrow> nat \<Rightarrow> nat list" where
  "channel_nodes net c = (case dict_find (net_channels net) c of None \<Rightarrow> [] | Some is \<Rightarrow> is)"

section \<open>scan\_topology\<close>

record scan =
  sc_scene :: scene
  sc_graph :: graph
  sc_traits :: "(string, traits) dict"
  sc_warnings :: "string list"

text \<open>The other end of a device on a channel with at most two devices.\<close>

definition scan_other :: "network \<Rightarrow> nat \<Rightarrow> nat \<Rightarrow> scan \<Rightarrow> scan" where
  "scan_other net i j sc =
     (let sc1 = sc\<lparr>sc_scene := get_node j (sc_scene sc)\<rparr>
      in if j \<noteq> i
         then let sc2 = (if node_position net i = None \<and> node_position net j = None
                         then sc1\<lparr>sc_graph := add_edge (G_Node i) (G_Node j) (sc_graph sc1)\<rparr> else sc1)
              in sc2\<lparr>sc_scene := create_link i (Node_End j) (get_node i (sc_scene sc2))\<rparr>
         else sc1)"

definition scan_channel :: "network \<Rightarrow> nat \<Rightarrow> nat \<Rightarrow> scan \<Rightarrow> scan" where
  "scan_channel net i c sc =
     (if 2 < length (channel_nodes net c)
      then let sc1 = (if node_position net i = None then sc\<lparr>sc_graph := add_edge (G_Node i) (G_Channel c) (sc_graph sc)\<rparr> else sc)
           in sc1\<lparr>sc_scene := create_link i (Channel_End c) (get_channel c (get_node i (get_channel c (sc_scene sc1))))\<rparr>
      else fold (scan_other net i) (channel_nodes net c) sc)"

text \<open>A wired device that is not attached has no channel to ask for its devices.\<close>

definition scan_device :: "network \<Rightarrow> nat \<Rightarrow> device \<Rightarrow> scan \<Rightarrow> scan res" where
  "scan_device net i dev sc =
     (case lookup_netdevice_traits (dev_class dev) (sc_traits sc) of (t, d, w) \<Rightarrow>
      let sc1 = sc\<lparr>sc_traits := d, sc_warnings := sc_warnings sc @ w\<rparr>
      in if is_wireless t = Some True then Inr sc1
         else if is_virtual t then Inr sc1
         else res_bind (attr (dev_channel dev)) (\<lambda>c. Inr (scan_channel net i c sc1)))"

definition scan_view :: "network \<Rightarrow> nat \<Rightarrow> scan \<Rightarrow> scan" where
  "scan_view net i sc =
     (let s1 = get_node i (sc_scene sc)
      in case node_position net i of
           Some p \<Rightarrow> sc\<lparr>sc_scene := set_position i (to_canvas p) (with_node i (set_color (0xffff, 0, 0)) s1)\<rparr>
         | None \<Rightarrow> sc\<lparr>sc_scene := s1, sc_graph := add_node (G_Node i) (sc_graph sc)\<rparr>)"

definition scan_node :: "network \<Rightarrow> nat \<Rightarrow> scan \<Rightarrow> scan res" where
  "scan_node net i sc = res_fold (scan_device net i) (sn_devices (net_nodes net ! i)) (scan_view net i sc)"

definition place_graph_node :: "(graph \<Rightarrow> graph_name \<Rightarrow> point) \<Rightarrow> graph \<Rightarrow> graph_name \<Rightarrow> scene \<Rightarrow> scene res" where
  "place_graph_node layout g n s =
     (case n of
        G_Node i \<Rightarrow> if dict_has (nodes s) i then Inr (set_position i (layout g n) s) else Inl KeyError
      | G_Channel c \<Rightarrow> if dict_has (channels s) c then Inr (set_channel_position c (layout g n) s) else Inl KeyError)"

definition start_scan :: "network \<Rightarrow> scan" where
  "start_scan net =
     \<lparr>sc_scene = new_scene (length (net_nodes net))
        (List.map_filter (\<lambda>i. map_option (Pair i) (node_position net i)) [0..<length (net_nodes net)]),
      sc_graph = \<lparr>graph_nodes = [], graph_edges = []\<rparr>, sc_traits = netdevice_traits, sc_warnings = []\<rparr>"

definition scan_nodes :: "network \<Rightarrow> scan res" where
  "scan_nodes net = res_fold (scan_node net) [0..<length (net_nodes net)] (start_scan net)"

definition scan_topology :: "(graph \<Rightarrow> graph_name \<Rightarrow> point) \<Rightarrow> network \<Rightarrow> scene res" where
  "scan_topology layout net =
     res_bind (scan_nodes net) (\<lambda>sc.
       res_fold (place_graph_node layout (sc_graph sc)) (graph_nodes (sc_graph sc)) (sc_scene sc))"

section \<open>Plugins\<close>

text \<open>What a file of the plugin directory is: a module with or without \<open>register\<close>, or one that cannot be imported.\<close>

datatype plugin_file = Has_Register | No_Register | Import_Error string

definition splitext :: "string \<Rightarrow> string \<times> string" where
  "splitext f =
     (let base = rev (dropWhile (\<lambda>c. c \<noteq> CHR ''.'') (rev f)); ext = rev (takeWhile (\<lambda>c. c \<noteq> CHR ''.'') (rev f))
      in if list_all (\<lambda>c. c = CHR ''.'') (butlast base) then (f, []) else (butlast base, ''.'' @ ext))"

record plugin_state =
  plugins_loaded :: bool
  plugins :: "string list"
  plugin_errors :: "string list"

definition load_plugin :: "(string \<Rightarrow> plugin_file) \<Rightarrow> string \<Rightarrow> plugin_state \<Rightarrow> plugin_state" where
  "load_plugin imp f st =
     (case splitext f of (name, ext) \<Rightarrow>
      if ext \<noteq> ''.py'' then st
      else (case imp name of
              Import_Error e \<Rightarrow> st\<lparr>plugin_errors := plugin_errors st @ [f]\<rparr>
            | No_Register \<Rightarrow> st\<lparr>plugin_errors := plugin_errors st @ [name]\<rparr>
            | Has_Register \<Rightarrow> st\<lparr>plugins := plugins st @ [name]\<rparr>))"

definition load_plugins :: "(string \<Rightarrow> plugin_file) \<Rightarrow> string list \<Rightarrow> plugin_state \<Rightarrow> plugin_state" where
  "load_plugins imp files st =
     (if plugins_loaded st then st else fold (load_plugin imp) files (st\<lparr>plugins_loaded := True\<rparr>))"

section \<open>Positions\<close>

definition is_wired :: "traits \<Rightarrow> bool" where
  "is_wired t \<longleftrightarrow> is_wireless t \<noteq> Some True \<and> \<not> is_virtual t"

definition view_pos :: "scene \<Rightarrow> nat \<Rightarrow> point option" where
  "view_pos s i = map_option position (dict_find (nodes s) i)"

definition link_ends :: "scene \<Rightarrow> (nat \<times> endpoint) list" where
  "link_ends s = map (\<lambda>l. (link_node l, link_end l)) (links s)"

lemma view_pos_has: "dict_has (nodes s) i \<longleftrightarrow> view_pos s i \<noteq> None"
  by (simp add: view_pos_def dict_has_find)

lemma scene_inv_dicts: "scene_inv s \<Longrightarrow> dict_ok (nodes s) \<and> dict_ok (channels s)"
  by (simp add: scene_inv_def dicts_inv_def)

lemma view_pos_get_node:
  "scene_inv s \<Longrightarrow> view_pos (get_node i s) j = (if j = i \<and> view_pos s i = None then Some (0, 0) else view_pos s j)"
  by (auto simp: view_pos_def get_node_def dict_has_find dict_ops scene_inv_dicts new_node_def update_appearance_def Let_def)

lemma view_pos_set_position:
  "scene_inv s \<Longrightarrow> view_pos (set_position i p s) j = (if j = i \<and> view_pos s i \<noteq> None then Some p else view_pos s j)"
  by (auto simp: view_pos_def set_position_def with_node_find scene_inv_dicts)

lemma view_pos_other [simp]:
  "view_pos (get_channel c s) i = view_pos s i" "view_pos (create_link a e s) i = view_pos s i"
  "view_pos (set_channel_position c p s) i = view_pos s i"
  by (simp_all add: view_pos_def get_channel_def create_link_def set_channel_position_def)

lemma view_pos_color: "scene_inv s \<Longrightarrow> view_pos (with_node i (set_color c) s) j = view_pos s j"
  by (auto simp: view_pos_def with_node_find scene_inv_dicts option.map_comp comp_def)

lemma link_ends_simps [simp]:
  "link_ends (get_node i s) = link_ends s" "link_ends (get_channel c s) = link_ends s"
  "link_ends (create_link a e s) = link_ends s @ [(a, e)]" "link_ends (with_node i f s) = link_ends s"
  "link_ends (set_position i p s) = link_ends s" "link_ends (set_channel_position c p s) = link_ends s"
  by (simp_all add: link_ends_def get_node_def get_channel_def create_link_def set_position_def set_channel_position_def
      update_links_def comp_def cong: map_cong)

lemma channels_simps [simp]:
  "channels (get_node i s) = channels s" "channels (create_link a e s) = channels s"
  "channels (set_position i p s) = channels s"
  by (simp_all add: get_node_def create_link_def set_position_def)

lemma has_channel_get: "scene_inv s \<Longrightarrow> dict_has (channels (get_channel c s)) d \<longleftrightarrow> d = c \<or> dict_has (channels s) d"
  by (auto simp: get_channel_def dict_has_find dict_ops scene_inv_dicts)

lemma has_channel_set: "scene_inv s \<Longrightarrow> dict_has (channels (set_channel_position c p s)) d \<longleftrightarrow> d = c \<or> dict_has (channels s) d"
  by (auto simp: set_channel_position_def dict_has_find dict_ops scene_inv_dicts)

text \<open>A scene that only has more in it.\<close>

definition grows :: "scene \<Rightarrow> scene \<Rightarrow> bool" where
  "grows s t \<longleftrightarrow> scene_inv t \<and> (\<forall>i p. view_pos s i = Some p \<longrightarrow> view_pos t i = Some p) \<and>
     (\<forall>c. dict_has (channels s) c \<longrightarrow> dict_has (channels t) c)"

lemma grows_trans: "grows s t \<Longrightarrow> grows t u \<Longrightarrow> grows s u"
  by (auto simp: grows_def)

lemma grows_steps:
  assumes "scene_inv s"
  shows "grows s (get_node i s)" "grows s (get_channel c s)" "grows s (create_link i e s)"
  using assms
  by (auto simp: grows_def get_node_inv get_channel_inv create_link_inv view_pos_get_node has_channel_get)

lemma graph_nodes_add: "set (graph_nodes (add_node n g)) = insert n (set (graph_nodes g))"
  by (auto simp: add_node_def)

lemma graph_nodes_edge: "set (graph_nodes (add_edge a b g)) = {a, b} \<union> set (graph_nodes g)"
  by (auto simp: add_edge_def Let_def graph_nodes_add)

section \<open>The invariant of the scan\<close>

definition graph_ok :: "network \<Rightarrow> scene \<Rightarrow> graph_name \<Rightarrow> bool" where
  "graph_ok net s n \<longleftrightarrow>
     (case n of G_Node i \<Rightarrow> node_position net i = None \<and> view_pos s i \<noteq> None | G_Channel c \<Rightarrow> dict_has (channels s) c)"

text \<open>After the first \<open>k\<close> nodes.\<close>

definition scan_inv :: "network \<Rightarrow> nat \<Rightarrow> scan \<Rightarrow> bool" where
  "scan_inv net k sc \<longleftrightarrow> scene_inv (sc_scene sc) \<and> (\<forall>i<k. view_pos (sc_scene sc) i \<noteq> None) \<and>
     (\<forall>i<k. \<forall>p. node_position net i = Some p \<longrightarrow> view_pos (sc_scene sc) i = Some (to_canvas p)) \<and>
     (\<forall>n\<in>set (graph_nodes (sc_graph sc)). graph_ok net (sc_scene sc) n) \<and>
     (\<forall>i<k. node_position net i = None \<longrightarrow> G_Node i \<in> set (graph_nodes (sc_graph sc)))"

lemma graph_ok_grows: "graph_ok net s n \<Longrightarrow> grows s t \<Longrightarrow> graph_ok net t n"
  by (cases n) (auto simp: graph_ok_def grows_def)

lemma scan_inv_update:
  assumes inv: "scan_inv net k sc" and g: "grows (sc_scene sc) (sc_scene sc')"
    and gr: "set (graph_nodes (sc_graph sc')) = N \<union> set (graph_nodes (sc_graph sc))" and n: "\<forall>n\<in>N. graph_ok net (sc_scene sc') n"
  shows "scan_inv net k sc'"
proof -
  have "\<forall>n\<in>set (graph_nodes (sc_graph sc')). graph_ok net (sc_scene sc') n"
    using inv gr n graph_ok_grows [OF _ g] unfolding scan_inv_def by blast
  moreover have "\<forall>i<k. view_pos (sc_scene sc') i \<noteq> None"
    using inv g unfolding scan_inv_def grows_def by (metis not_None_eq)
  ultimately show ?thesis using inv g gr unfolding scan_inv_def grows_def by blast
qed

lemma scan_other_inv:
  assumes inv: "scan_inv net k sc" and "i < k"
  shows "scan_inv net k (scan_other net i j sc)"
proof -
  let ?s = "sc_scene sc"
  have s: "scene_inv ?s" "view_pos ?s i \<noteq> None" using assms by (auto simp: scan_inv_def)
  have g1: "grows ?s (get_node j ?s)" by (rule grows_steps(1) [OF s(1)])
  have i1: "scene_inv (get_node j ?s)" using g1 by (simp add: grows_def)
  have g2: "grows ?s (create_link i (Node_End j) (get_node i (get_node j ?s)))"
    by (rule grows_trans [OF g1], rule grows_trans [OF grows_steps(1) [OF i1]], rule grows_steps(3), rule get_node_inv [OF i1])
  have ok: "node_position net a = None \<Longrightarrow> a = i \<or> a = j \<Longrightarrow> graph_ok net (create_link i (Node_End j) (get_node i (get_node j ?s))) (G_Node a)" for a
    using s i1 by (auto simp: graph_ok_def view_pos_get_node)
  show ?thesis
  proof (cases "j = i")
    case True
    then show ?thesis by (intro scan_inv_update [OF inv, of _ "{}"]) (simp_all add: scan_other_def g1 [unfolded True])
  next
    case False
    show ?thesis
    proof (cases "node_position net i = None \<and> node_position net j = None")
      case True
      then show ?thesis using False ok
        by (intro scan_inv_update [OF inv, of _ "{G_Node i, G_Node j}"]) (auto simp: scan_other_def Let_def graph_nodes_edge g2)
    next
      case no: False
      then show ?thesis using False
        by (intro scan_inv_update [OF inv, of _ "{}"]) (auto simp: scan_other_def Let_def g2)
    qed
  qed
qed

lemma fold_keeps: "(\<And>x s. P s \<Longrightarrow> P (f x s)) \<Longrightarrow> P s \<Longrightarrow> P (fold f xs s)"
  by (induction xs arbitrary: s) auto

lemma scan_channel_inv:
  assumes inv: "scan_inv net k sc" and i: "i < k"
  shows "scan_inv net k (scan_channel net i c sc)"
proof -
  let ?s = "sc_scene sc"
  have s: "scene_inv ?s" "view_pos ?s i \<noteq> None" using assms by (auto simp: scan_inv_def)
  let ?t = "create_link i (Channel_End c) (get_channel c (get_node i (get_channel c ?s)))"
  have i1: "scene_inv (get_channel c ?s)" "scene_inv (get_node i (get_channel c ?s))"
      "scene_inv (get_channel c (get_node i (get_channel c ?s)))" using s(1) by (simp_all add: get_node_inv get_channel_inv)
  have g: "grows ?s ?t"
    using grows_steps(2) [OF s(1), of c] grows_steps(1) [OF i1(1), of i] grows_steps(2) [OF i1(2), of c]
      grows_steps(3) [OF i1(3), of i "Channel_End c"] by (blast intro: grows_trans)
  have ok: "node_position net i = None \<Longrightarrow> graph_ok net ?t (G_Node i)" "graph_ok net ?t (G_Channel c)"
    using s i1 g by (auto simp: graph_ok_def has_channel_get view_pos_get_node)
  consider (channel) "2 < length (channel_nodes net c)" "node_position net i = None"
    | (placed) p where "2 < length (channel_nodes net c)" "node_position net i = Some p"
    | (others) "\<not> 2 < length (channel_nodes net c)" by fastforce
  then show ?thesis
  proof cases
    case channel
    then show ?thesis using ok
      by (intro scan_inv_update [OF inv, of _ "{G_Node i, G_Channel c}"]) (auto simp: scan_channel_def Let_def graph_nodes_edge g)
  next
    case placed
    then show ?thesis by (intro scan_inv_update [OF inv, of _ "{}"]) (auto simp: scan_channel_def Let_def g)
  next
    case others
    then show ?thesis using fold_keeps [of "scan_inv net k" "scan_other net i", OF scan_other_inv [OF _ i] inv]
      by (simp add: scan_channel_def)
  qed
qed

lemma scan_view_inv:
  assumes inv: "scan_inv net i sc"
  shows "scan_inv net (Suc i) (scan_view net i sc)"
proof -
  let ?s = "sc_scene sc"
  have s: "scene_inv ?s" "scene_inv (get_node i ?s)" using inv by (simp_all add: scan_inv_def get_node_inv)
  show ?thesis
  proof (cases "node_position net i")
    case None
    let ?sc = "sc\<lparr>sc_scene := get_node i ?s, sc_graph := add_node (G_Node i) (sc_graph sc)\<rparr>"
    have "graph_ok net (get_node i ?s) (G_Node i)" using s None by (simp add: graph_ok_def view_pos_get_node)
    then have "scan_inv net i ?sc" using grows_steps(1) [OF s(1)]
      by (intro scan_inv_update [OF inv, of _ "{G_Node i}"]) (auto simp: graph_nodes_add)
    then have "scan_inv net (Suc i) ?sc" using None s
      by (auto simp: scan_inv_def less_Suc_eq view_pos_get_node graph_nodes_add)
    then show ?thesis using None by (simp add: scan_view_def)
  next
    case (Some p)
    let ?t = "set_position i (to_canvas p) (with_node i (set_color (0xffff, 0, 0)) (get_node i ?s))"
    have w: "scene_inv (with_node i (set_color (0xffff, 0, 0)) (get_node i ?s))" by (rule restyle_inv [OF s(2)]) simp_all
    have v: "view_pos ?t j = (if j = i then Some (to_canvas p) else view_pos ?s j)" for j
      using s w by (cases "view_pos ?s i") (auto simp: view_pos_set_position view_pos_color view_pos_get_node)
    have "graph_ok net ?t n" if "graph_ok net ?s n" for n
      using that Some v by (cases n) (auto simp: graph_ok_def)
    then have "scan_inv net (Suc i) (sc\<lparr>sc_scene := ?t\<rparr>)" using inv Some v set_position_inv [OF w]
      by (auto simp: scan_inv_def less_Suc_eq)
    then show ?thesis using Some by (simp add: scan_view_def)
  qed
qed

lemma start_scan_inv: "scan_inv net 0 (start_scan net)"
proof -
  have "fst ` set (List.map_filter (\<lambda>i. map_option (Pair i) (node_position net i)) is) \<subseteq> set is" for "is" :: "nat list"
    by (induction "is") (auto simp: List.map_filter_simps split: option.splits)
  then have "distinct is \<Longrightarrow> dict_ok (List.map_filter (\<lambda>i. map_option (Pair i) (node_position net i)) is)" for "is" :: "nat list"
    by (induction "is") (auto simp: dict_ok_def List.map_filter_simps split: option.splits)
  then show ?thesis by (simp add: scan_inv_def start_scan_def new_scene_inv)
qed

text \<open>Placing the nodes of the graph.\<close>

lemma place_graph:
  assumes "scene_inv s" and "\<forall>n\<in>set ns. graph_ok net s n"
  shows "\<exists>t. res_fold (place_graph_node layout g) ns s = Inr t \<and> scene_inv t \<and> link_ends t = link_ends s \<and>
    (\<forall>i. view_pos t i = (if G_Node i \<in> set ns then Some (layout g (G_Node i)) else view_pos s i))"
  using assms
proof (induction ns arbitrary: s)
  case (Cons n ns)
  obtain u where u: "place_graph_node layout g n s = Inr u" "scene_inv u" "link_ends u = link_ends s"
      "\<And>i. view_pos u i = (if n = G_Node i then Some (layout g (G_Node i)) else view_pos s i)"
      "\<And>c. dict_has (channels s) c \<Longrightarrow> dict_has (channels u) c"
  proof (cases n)
    case (G_Node i)
    then show ?thesis using Cons.prems
      by (intro that [of "set_position i (layout g n) s"])
        (auto simp: place_graph_node_def graph_ok_def view_pos_has view_pos_set_position set_position_inv)
  next
    case (G_Channel c)
    then show ?thesis using Cons.prems
      by (intro that [of "set_channel_position c (layout g n) s"])
        (auto simp: place_graph_node_def graph_ok_def has_channel_set set_channel_position_inv)
  qed
  have "graph_ok net u m" if "graph_ok net s m" for m using that u(4,5) by (cases m) (auto simp: graph_ok_def)
  then have "\<forall>m\<in>set ns. graph_ok net u m" using Cons.prems(2) by simp
  from Cons.IH [OF u(2) this] obtain t where "res_fold (place_graph_node layout g) ns u = Inr t" "scene_inv t" "link_ends t = link_ends u"
      "\<forall>i. view_pos t i = (if G_Node i \<in> set ns then Some (layout g (G_Node i)) else view_pos u i)" by blast
  then show ?case using u by (intro exI [of _ t]) auto
qed simp

section \<open>Links\<close>

definition wired_class :: "string \<Rightarrow> bool" where
  "wired_class cls = (case dict_find netdevice_traits cls of None \<Rightarrow> False | Some t \<Rightarrow> is_wired t)"

text \<open>The links of a network: one for every wired device and every other device on its channel, or the channel.\<close>

definition device_links :: "network \<Rightarrow> nat \<Rightarrow> device \<Rightarrow> (nat \<times> endpoint) list" where
  "device_links net i dev =
     (case dev_channel dev of
        None \<Rightarrow> []
      | Some c \<Rightarrow>
          if \<not> wired_class (dev_class dev) then []
          else if 2 < length (channel_nodes net c) then [(i, Channel_End c)]
          else map (\<lambda>j. (i, Node_End j)) (filter (\<lambda>j. j \<noteq> i) (channel_nodes net c)))"

definition node_links :: "network \<Rightarrow> nat \<Rightarrow> (nat \<times> endpoint) list" where
  "node_links net i = concat (map (device_links net i) (sn_devices (net_nodes net ! i)))"

definition network_links :: "network \<Rightarrow> (nat \<times> endpoint) list" where
  "network_links net = concat (map (node_links net) [0..<length (net_nodes net)])"

definition device_attached :: "device \<Rightarrow> bool" where
  "device_attached dev \<longleftrightarrow> wired_class (dev_class dev) \<longrightarrow> dev_channel dev \<noteq> None"

definition attached :: "network \<Rightarrow> bool" where
  "attached net \<longleftrightarrow> list_all (\<lambda>n. list_all device_attached (sn_devices n)) (net_nodes net)"

text \<open>The table of classes with the classes that have been entered.\<close>

definition traits_inv :: "(string, traits) dict \<Rightarrow> bool" where
  "traits_inv d \<longleftrightarrow> dict_ok d \<and> (\<forall>cls. is_wired (fst (lookup_netdevice_traits cls d)) = wired_class cls)"

lemma traits_inv_start: "traits_inv netdevice_traits"
proof -
  have "dict_ok netdevice_traits" by code_simp
  then show ?thesis
    by (auto simp: traits_inv_def wired_class_def lookup_netdevice_traits_def is_wired_def Let_def split: option.splits)
qed

lemma traits_inv_lookup:
  assumes "traits_inv d" and "lookup_netdevice_traits cls d = (t, d', w)"
  shows "traits_inv d'" and "is_wired t = wired_class cls"
proof -
  show "is_wired t = wired_class cls" using assms by (metis fst_conv traits_inv_def)
  show "traits_inv d'"
  proof (cases "dict_find d cls")
    case None
    then have d': "d' = dict_set cls t d" and t: "t = \<lparr>is_wireless = Some True, is_virtual = False\<rparr>"
      using assms(2) by (auto simp: lookup_netdevice_traits_def Let_def)
    have "fst (lookup_netdevice_traits c d') = fst (lookup_netdevice_traits c d)" for c
      using assms(1) None t by (auto simp: d' lookup_netdevice_traits_def traits_inv_def dict_ops Let_def split: option.splits)
    then show ?thesis using assms(1) by (simp add: traits_inv_def d' dict_ops)
  qed (use assms in \<open>simp add: lookup_netdevice_traits_def\<close>)
qed

lemma scan_other_links:
  "link_ends (sc_scene (scan_other net i j sc)) = link_ends (sc_scene sc) @ (if j \<noteq> i then [(i, Node_End j)] else [])"
  "sc_traits (scan_other net i j sc) = sc_traits sc"
  by (simp_all add: scan_other_def Let_def)

lemma fold_scan_other_links:
  "link_ends (sc_scene (fold (scan_other net i) js sc)) =
     link_ends (sc_scene sc) @ map (\<lambda>j. (i, Node_End j)) (filter (\<lambda>j. j \<noteq> i) js) \<and>
   sc_traits (fold (scan_other net i) js sc) = sc_traits sc"
  by (induction js arbitrary: sc) (simp_all add: scan_other_links)

text \<open>The outcome of a part of the scan: it raises when a wired device is not attached, and adds the links otherwise.\<close>

definition scan_good :: "network \<Rightarrow> nat \<Rightarrow> scan \<Rightarrow> bool" where
  "scan_good net k sc \<longleftrightarrow> scan_inv net k sc \<and> traits_inv (sc_traits sc)"

definition outcome :: "network \<Rightarrow> nat \<Rightarrow> bool \<Rightarrow> (nat \<times> endpoint) list \<Rightarrow> scan \<Rightarrow> scan res \<Rightarrow> bool" where
  "outcome net k ok ls sc r \<longleftrightarrow>
     (case r of Inl e \<Rightarrow> e = AttributeError \<and> \<not> ok
      | Inr t \<Rightarrow> ok \<and> scan_good net k t \<and> link_ends (sc_scene t) = link_ends (sc_scene sc) @ ls)"

lemma outcome_bind:
  assumes "outcome net k ok ls sc r" and "\<And>t. scan_good net k t \<Longrightarrow> outcome net j ok' ls' t (f t)"
  shows "outcome net j (ok \<and> ok') (ls @ ls') sc (res_bind r f)"
  using assms(1) assms(2) [of "projr r"] by (cases r) (auto simp: outcome_def split: sum.splits)

lemma scan_channel_links:
  "link_ends (sc_scene (scan_channel net i c sc)) = link_ends (sc_scene sc) @
     (if 2 < length (channel_nodes net c) then [(i, Channel_End c)]
      else map (\<lambda>j. (i, Node_End j)) (filter (\<lambda>j. j \<noteq> i) (channel_nodes net c)))"
  "sc_traits (scan_channel net i c sc) = sc_traits sc"
  by (simp_all add: scan_channel_def Let_def fold_scan_other_links)

lemma scan_device_outcome:
  assumes g: "scan_good net k sc" and i: "i < k"
  shows "outcome net k (device_attached dev) (device_links net i dev) sc (scan_device net i dev sc)"
proof -
  obtain t d w where l: "lookup_netdevice_traits (dev_class dev) (sc_traits sc) = (t, d, w)" by (metis prod_cases3)
  let ?sc = "sc\<lparr>sc_traits := d, sc_warnings := sc_warnings sc @ w\<rparr>"
  have t: "traits_inv d" "is_wired t = wired_class (dev_class dev)"
    using traits_inv_lookup [OF _ l] g by (simp_all add: scan_good_def)
  have sc: "scan_inv net k ?sc" using g by (simp add: scan_good_def scan_inv_def)
  have c: "scan_good net k (scan_channel net i c ?sc)" for c
    using scan_channel_inv [OF sc i] t(1) by (simp add: scan_good_def scan_channel_links)
  have r: "scan_device net i dev sc =
      (if is_wired t then res_bind (attr (dev_channel dev)) (\<lambda>c. Inr (scan_channel net i c ?sc)) else Inr ?sc)"
    by (simp add: scan_device_def l Let_def is_wired_def)
  show ?thesis
  proof (cases "is_wired t \<and> dev_channel dev \<noteq> None")
    case True
    then obtain c' where "dev_channel dev = Some c'" by blast
    then show ?thesis using True t(2) c [of c']
      by (simp add: r outcome_def device_attached_def device_links_def scan_channel_links)
  next
    case False
    then show ?thesis using t sc
      by (cases "is_wired t")
        (auto simp: r outcome_def device_attached_def device_links_def scan_good_def split: option.splits)
  qed
qed

lemma scan_devices_outcome:
  "scan_good net k sc \<Longrightarrow> i < k \<Longrightarrow>
   outcome net k (list_all device_attached ds) (concat (map (device_links net i) ds)) sc (res_fold (scan_device net i) ds sc)"
proof (induction ds arbitrary: sc)
  case (Cons dev ds)
  show ?case
    using outcome_bind [OF scan_device_outcome [OF Cons.prems] Cons.IH [OF _ Cons.prems(2)]] by (simp add: res_simps)
qed (simp add: outcome_def res_simps)

lemma scan_node_outcome:
  assumes "scan_good net i sc"
  shows "outcome net (Suc i) (list_all device_attached (sn_devices (net_nodes net ! i))) (node_links net i) sc (scan_node net i sc)"
proof -
  have "scan_good net (Suc i) (scan_view net i sc)" and l: "link_ends (sc_scene (scan_view net i sc)) = link_ends (sc_scene sc)"
    using assms scan_view_inv by (auto simp: scan_good_def scan_view_def Let_def split: option.splits)
  from scan_devices_outcome [OF this(1), of i "sn_devices (net_nodes net ! i)"] show ?thesis
    by (simp add: scan_node_def outcome_def node_links_def l split: sum.splits)
qed

lemma scan_nodes_outcome:
  "outcome net (length (net_nodes net)) (attached net) (network_links net) (start_scan net) (scan_nodes net)"
proof -
  have "outcome net k (list_all (\<lambda>i. list_all device_attached (sn_devices (net_nodes net ! i))) [0..<k])
      (concat (map (node_links net) [0..<k])) (start_scan net) (res_fold (scan_node net) [0..<k] (start_scan net))" for k
  proof (induction k)
    case 0
    show ?case by (simp add: outcome_def scan_good_def start_scan_inv res_simps) (simp add: start_scan_def traits_inv_start)
  next
    case (Suc k)
    have "res_fold (scan_node net) [k] sc = scan_node net k sc" for sc by (cases "scan_node net k sc") (simp_all add: res_simps)
    then have "res_fold (scan_node net) [k] = scan_node net k" by (rule ext)
    then show ?case using outcome_bind [OF Suc.IH scan_node_outcome [of net k]] by (simp add: res_fold_append)
  qed
  from this [of "length (net_nodes net)"] show ?thesis
    by (simp add: scan_nodes_def network_links_def attached_def list_all_length list_all_iff)
qed

section \<open>Properties\<close>

text \<open>
  C21. Scanning a network raises exactly when a wired device is not attached to a channel.  Otherwise every node has a view, a node
  with a mobility model at its simulated place and every other node at the place of the layout, and the links are exactly those
  of the wired devices, in the order of the nodes.
\<close>

theorem scan_topology_correct:
  "case scan_topology layout net of
     Inl e \<Rightarrow> e = AttributeError \<and> \<not> attached net
   | Inr s \<Rightarrow> attached net \<and> link_ends s = network_links net \<and>
       (\<exists>g. map (view_pos s) [0..<length (net_nodes net)] =
         map (\<lambda>i. Some (case node_position net i of Some p \<Rightarrow> to_canvas p | None \<Rightarrow> layout g (G_Node i))) [0..<length (net_nodes net)])"
proof (cases "scan_nodes net")
  case (Inl e)
  then show ?thesis using scan_nodes_outcome [of net] by (simp add: scan_topology_def outcome_def)
next
  case (Inr sc)
  then have inv: "scan_inv net (length (net_nodes net)) sc" and at: "attached net" and l: "link_ends (sc_scene sc) = network_links net"
    using scan_nodes_outcome [of net] by (simp_all add: outcome_def scan_good_def start_scan_def link_ends_def new_scene_def)
  let ?g = "sc_graph sc"
  have "scene_inv (sc_scene sc)" "\<forall>n\<in>set (graph_nodes ?g). graph_ok net (sc_scene sc) n" using inv by (simp_all add: scan_inv_def)
  from place_graph [OF this, of layout ?g] obtain s where s: "scan_topology layout net = Inr s" "link_ends s = network_links net"
      "\<And>i. view_pos s i = (if G_Node i \<in> set (graph_nodes ?g) then Some (layout ?g (G_Node i)) else view_pos (sc_scene sc) i)"
    by (auto simp: scan_topology_def Inr l)
  have "view_pos s i = Some (case node_position net i of Some p \<Rightarrow> to_canvas p | None \<Rightarrow> layout ?g (G_Node i))"
    if "i < length (net_nodes net)" for i
    using inv that s(3) [of i] by (cases "node_position net i") (auto simp: scan_inv_def graph_ok_def)
  then show ?thesis using s(1,2) at by (auto intro!: exI [of _ ?g])
qed

text \<open>A link between two nodes is drawn twice, once from each of its devices.\<close>

lemma links_drawn_twice:
  "network_links
     \<lparr>net_nodes = replicate 2 \<lparr>sn_position = None, sn_devices = [\<lparr>dev_class = ''PointToPointNetDevice'', dev_channel = Some 5\<rparr>]\<rparr>,
      net_channels = [(5, [0, 1])]\<rparr> = [(0, Node_End 1), (1, Node_End 0)]"
  by code_simp

text \<open>
  Plugins: loading them registers exactly the files with the extension of Python whose module has a function to register,
  in the order of the directory, and only once.
\<close>

theorem load_plugins_correct:
  "plugins (load_plugins imp files \<lparr>plugins_loaded = False, plugins = [], plugin_errors = []\<rparr>) =
     map (fst \<circ> splitext) (filter (\<lambda>f. snd (splitext f) = ''.py'' \<and> imp (fst (splitext f)) = Has_Register) files) \<and>
   (plugins_loaded st \<longrightarrow> load_plugins imp files st = st) \<and> plugins_loaded (load_plugins imp files st)"
proof -
  have p: "plugins (fold (load_plugin imp) files st) =
      plugins st @ map (fst \<circ> splitext) (filter (\<lambda>f. snd (splitext f) = ''.py'' \<and> imp (fst (splitext f)) = Has_Register) files) \<and>
    plugins_loaded (fold (load_plugin imp) files st) = plugins_loaded st" for st
    by (induction files arbitrary: st) (auto simp: load_plugin_def split: prod.splits plugin_file.splits)
  then show ?thesis by (simp add: load_plugins_def)
qed

end
