(* ===== verification/Viz_Wifi.thy ===== *)
theory Viz_Wifi
  imports Viz_Nodes Transition
begin

text \<open>
  The plugin \<open>wifi_intrastructure_link.py\<close> of the visualizer, which draws a line from every
  station to its access point: the class \<open>WifiLink\<close>, the monitor with its three handlers, and the
  links that \<open>Node.set_position\<close> updates.

  The links are objects, numbered in the order of their creation; \<open>node_links\<close> is the field
  \<open>links\<close> of the nodes.  What the simulator says of a device when it is asked is an argument.
\<close>

section \<open>Devices and links\<close>

datatype wifi_mac = Sta_Mac | Ap_Mac | Other_Mac

record device =
  wifi_of :: "wifi_mac option"
  address :: string
  link_up :: bool
  bssid :: string

text \<open>A device is named by its node and its index there.\<close>

type_synonym device_id = "nat \<times> nat"

record wifi_link =
  link_sta :: "nat option"
  link_ap :: "nat option"
  shown :: bool
  line :: "(point \<times> point) option"

record wifi =
  wlinks :: "wifi_link list"
  node_links :: "nat \<Rightarrow> nat list"
  node_pos :: "nat \<Rightarrow> point"
  access_points :: "(string, nat) dict"
  stations :: "(device_id \<times> nat \<times> nat) list"

definition start_wifi :: "(nat \<Rightarrow> point) \<Rightarrow> wifi" where
  "start_wifi pos = \<lparr>wlinks = [], node_links = (\<lambda>_. []), node_pos = pos, access_points = [], stations = []\<rparr>"

definition set_link :: "nat \<Rightarrow> (wifi_link \<Rightarrow> wifi_link) \<Rightarrow> (wifi, unit) act" where
  "set_link k f = act_upd (\<lambda>s. s\<lparr>wlinks := (wlinks s)[k := f (wlinks s ! k)]\<rparr>)"

definition add_node_link :: "nat \<Rightarrow> nat \<Rightarrow> (wifi, unit) act" where
  "add_node_link i k = act_upd (\<lambda>s. s\<lparr>node_links := (node_links s)(i := node_links s i @ [k])\<rparr>)"

definition remove_node_link :: "nat \<Rightarrow> nat \<Rightarrow> (wifi, unit) act" where
  "remove_node_link i k s =
     (if k \<in> set (node_links s i) then (s\<lparr>node_links := (node_links s)(i := remove1 k (node_links s i))\<rparr>, Inr ())
      else (s, Inl (ValueError ''list.remove(x): x not in list'')))"

definition update_wifi_points :: "nat \<Rightarrow> (wifi, unit) act" where
  "update_wifi_points k s =
     (case link_ap (wlinks s ! k) of None \<Rightarrow> (s, Inr ())
      | Some a \<Rightarrow>
         (case link_sta (wlinks s ! k) of None \<Rightarrow> (s, Inl AttributeError)
          | Some i \<Rightarrow> set_link k (\<lambda>l. l\<lparr>line := Some (node_pos s i, node_pos s a)\<rparr>) s))"

definition set_ap :: "nat \<Rightarrow> nat option \<Rightarrow> (wifi, unit) act" where
  "set_ap k ap =
     act_bind (act_read (\<lambda>s. Inr (link_ap (wlinks s ! k)))) (\<lambda>old.
     if ap = old then act_ret ()
     else act_then (case old of None \<Rightarrow> act_ret () | Some a \<Rightarrow> remove_node_link a k)
         (act_then (set_link k (\<lambda>l. l\<lparr>link_ap := ap\<rparr>))
         (act_then (case ap of None \<Rightarrow> set_link k (\<lambda>l. l\<lparr>shown := False\<rparr>)
                    | Some a \<Rightarrow> act_then (add_node_link a k) (set_link k (\<lambda>l. l\<lparr>shown := True\<rparr>)))
         (update_wifi_points k))))"

text \<open>The initializer: a canvas group is visible when it is made.\<close>

definition new_wifi_link :: "nat \<Rightarrow> (wifi, nat) act" where
  "new_wifi_link i =
     act_bind (act_read (\<lambda>s. Inr (length (wlinks s)))) (\<lambda>k.
     act_then (act_upd (\<lambda>s. s\<lparr>wlinks := wlinks s @ [\<lparr>link_sta = Some i, link_ap = None, shown = True, line = None\<rparr>]\<rparr>))
     (act_then (set_ap k None) (act_ret k)))"

definition destroy_link :: "nat \<Rightarrow> (wifi, unit) act" where
  "destroy_link k = set_link k (\<lambda>l. l\<lparr>link_sta := None, link_ap := None\<rparr>)"

section \<open>The monitor\<close>

definition scan_wifi_device :: "(device_id \<Rightarrow> device) \<Rightarrow> device_id \<Rightarrow> (wifi, unit) act" where
  "scan_wifi_device dev d =
     (case wifi_of (dev d) of
        None \<Rightarrow> act_ret ()
      | Some Sta_Mac \<Rightarrow> act_bind (new_wifi_link (fst d)) (\<lambda>k. act_upd (\<lambda>s. s\<lparr>stations := stations s @ [(d, fst d, k)]\<rparr>))
      | Some Ap_Mac \<Rightarrow> act_upd (\<lambda>s. s\<lparr>access_points := dict_set (address (dev d)) (fst d) (access_points s)\<rparr>)
      | Some Other_Mac \<Rightarrow> act_ret ())"

definition scan_nodes :: "(device_id \<Rightarrow> device) \<Rightarrow> (nat \<Rightarrow> nat) \<Rightarrow> nat list \<Rightarrow> (wifi, unit) act" where
  "scan_nodes dev n_devices ns =
     act_bind (act_read (\<lambda>s. Inr (stations s))) (\<lambda>old.
     act_then (act_each (\<lambda>(d, i, k). destroy_link k) old)
     (act_then (act_upd (\<lambda>s. s\<lparr>access_points := [], stations := []\<rparr>))
     (act_each (scan_wifi_device dev) (concat (map (\<lambda>i. map (\<lambda>j. (i, j)) [0..<n_devices i]) ns)))))"

definition no_bssid :: string where
  "no_bssid = ''00:00:00:00:00:00''"

definition update_station :: "(device_id \<Rightarrow> device) \<Rightarrow> device_id \<times> nat \<times> nat \<Rightarrow> (wifi, unit) act" where
  "update_station dev st =
     (case st of (d, i, k) \<Rightarrow>
        if \<not> link_up (dev d) then set_ap k None
        else if bssid (dev d) = no_bssid then set_ap k None
        else act_bind (act_read (\<lambda>s. dict_get (access_points s) (bssid (dev d)))) (\<lambda>a. set_ap k (Some a)))"

definition wifi_periodic_update :: "(device_id \<Rightarrow> device) \<Rightarrow> (wifi, unit) act" where
  "wifi_periodic_update dev =
     act_bind (act_read (\<lambda>s. Inr (stations s))) (\<lambda>sts. act_each (update_station dev) sts)"

definition wifi_update_view :: "(wifi, unit) act" where
  "wifi_update_view =
     act_bind (act_read (\<lambda>s. Inr (stations s))) (\<lambda>sts. act_each (\<lambda>(d, i, k). update_wifi_points k) sts)"

text \<open>\<open>Node.set_position\<close>: the item is moved, then the links that the node knows.\<close>

definition move_wifi_node :: "nat \<Rightarrow> point \<Rightarrow> (wifi, unit) act" where
  "move_wifi_node i p =
     act_then (act_upd (\<lambda>s. s\<lparr>node_pos := (node_pos s)(i := p)\<rparr>))
     (act_bind (act_read (\<lambda>s. Inr (node_links s i))) (\<lambda>ks. act_each update_wifi_points ks))"

section \<open>Sessions\<close>

inductive wifi_step :: "wifi \<Rightarrow> wifi \<Rightarrow> bool" where
  scan: "wifi_step s (fst (scan_nodes dev n_devices ns s))"
| periodic: "wifi_step s (fst (wifi_periodic_update dev s))"
| view: "wifi_step s (fst (wifi_update_view s))"
| move: "wifi_step s (fst (move_wifi_node i p s))"

text \<open>
  A link is in the list of a node exactly when the node is its access point, once; a link that is
  destroyed has no ends.  Every station of the monitor has its own link, which starts at its node.
\<close>

definition links_known :: "wifi \<Rightarrow> bool" where
  "links_known s \<longleftrightarrow> (\<forall>k<length (wlinks s). \<forall>a. link_sta (wlinks s ! k) \<noteq> None \<longrightarrow>
      count_list (node_links s a) k = (if link_ap (wlinks s ! k) = Some a then 1 else 0))"

definition links_alive :: "wifi \<Rightarrow> bool" where
  "links_alive s \<longleftrightarrow> (\<forall>k<length (wlinks s). link_sta (wlinks s ! k) = None \<longrightarrow> link_ap (wlinks s ! k) = None) \<and>
     (\<forall>a. \<forall>k\<in>set (node_links s a). k < length (wlinks s))"

definition stations_ok :: "wifi \<Rightarrow> bool" where
  "stations_ok s \<longleftrightarrow> distinct (map (snd \<circ> snd) (stations s)) \<and>
     (\<forall>(d, i, k)\<in>set (stations s). k < length (wlinks s) \<and> link_sta (wlinks s ! k) = Some i \<and> i = fst d)"

definition wifi_inv :: "wifi \<Rightarrow> bool" where
  "wifi_inv s \<longleftrightarrow> links_known s \<and> links_alive s \<and> stations_ok s"

section \<open>A link is moved to another access point\<close>

definition live_link :: "wifi \<Rightarrow> nat \<Rightarrow> nat \<Rightarrow> bool" where
  "live_link s k i \<longleftrightarrow> k < length (wlinks s) \<and> link_sta (wlinks s ! k) = Some i"

definition moved :: "nat \<Rightarrow> nat \<Rightarrow> nat option \<Rightarrow> wifi \<Rightarrow> wifi" where
  "moved k i ap s =
     (let l = wlinks s ! k; rest = (\<lambda>a. if link_ap l = Some a then remove1 k (node_links s a) else node_links s a)
      in if ap = link_ap l then s
         else s\<lparr>wlinks := (wlinks s)[k := l\<lparr>link_ap := ap, shown := (ap \<noteq> None),
                   line := (case ap of None \<Rightarrow> line l | Some a \<Rightarrow> Some (node_pos s i, node_pos s a))\<rparr>],
                node_links := (\<lambda>a. if ap = Some a then rest a @ [k] else rest a)\<rparr>)"

lemma known_member:
  "links_known s \<Longrightarrow> live_link s k i \<Longrightarrow> k \<in> set (node_links s a) \<longleftrightarrow> link_ap (wlinks s ! k) = Some a"
  unfolding links_known_def live_link_def
  by (metis count_list_0_iff option.distinct(1) zero_neq_one)

lemma set_ap_moved:
  assumes "links_known s" and "live_link s k i"
  shows "set_ap k ap s = (moved k i ap s, Inr ())"
  using assms known_member [OF assms]
  by (auto simp: set_ap_def moved_def act_simps remove_node_link_def set_link_def add_node_link_def
      update_wifi_points_def live_link_def Let_def fun_eq_iff split: option.splits intro!: wifi.equality)

lemma moved_simps [simp]:
  "length (wlinks (moved k i ap s)) = length (wlinks s)"
  "access_points (moved k i ap s) = access_points s"
  "stations (moved k i ap s) = stations s"
  "node_pos (moved k i ap s) = node_pos s"
  by (simp_all add: moved_def Let_def)

lemma moved_link:
  assumes "live_link s k i"
  shows "link_ap (wlinks (moved k i ap s) ! k) = ap"
    and "link_sta (wlinks (moved k i ap s) ! j) = link_sta (wlinks s ! j)"
    and "j \<noteq> k \<Longrightarrow> wlinks (moved k i ap s) ! j = wlinks s ! j"
  using assms by (auto simp: moved_def Let_def live_link_def nth_list_update)

lemma count_remove1: "count_list (remove1 x xs) y = (if x = y then count_list xs y - 1 else count_list xs y)"
  by (induction xs) auto

lemma moved_keeps:
  assumes "links_known s" and "links_alive s" and "live_link s k i"
  shows "links_known (moved k i ap s)" and "links_alive (moved k i ap s)"
proof -
  have c: "count_list (node_links s a) k = (if link_ap (wlinks s ! k) = Some a then 1 else 0)" for a
    using assms by (simp add: links_known_def live_link_def)
  show "links_known (moved k i ap s)"
    using assms c by (auto simp: links_known_def live_link_def moved_def Let_def nth_list_update count_remove1)
  have "j < length (wlinks s)" if "j \<in> set (remove1 k (node_links s a))" for a j
    using assms(2) that set_remove1_subset [of k "node_links s a"] by (auto simp: links_alive_def)
  with assms show "links_alive (moved k i ap s)"
    by (auto simp: links_alive_def live_link_def moved_def Let_def nth_list_update)
qed

section \<open>The handlers keep the invariant\<close>

abbreviation scanned :: "(device_id \<times> nat \<times> nat) list \<Rightarrow> wifi \<Rightarrow> bool" where
  "scanned sts s \<equiv> wifi_inv s \<and> stations s = sts"

lemma station_live: "wifi_inv s \<Longrightarrow> (d, i, k) \<in> set (stations s) \<Longrightarrow> live_link s k i"
  by (auto simp: wifi_inv_def stations_ok_def live_link_def)

lemma moved_inv: "wifi_inv s \<Longrightarrow> live_link s k i \<Longrightarrow> wifi_inv (moved k i ap s)"
  by (auto simp: wifi_inv_def moved_keeps stations_ok_def moved_link)

lemma inv_known: "wifi_inv s \<Longrightarrow> links_known s"
  by (simp add: wifi_inv_def)

lemma set_ap_keeps:
  assumes "(d, i, k) \<in> set sts"
  shows "act_keeps (scanned sts) (set_ap k ap)"
proof -
  have "scanned sts (fst (set_ap k ap s))" if "scanned sts s" for s
  proof -
    from that assms have "live_link s k i" using station_live by blast
    with that show ?thesis by (simp add: set_ap_moved inv_known moved_inv)
  qed
  then show ?thesis by (simp add: act_keeps_def)
qed

lemma update_station_keeps: "st \<in> set sts \<Longrightarrow> act_keeps (scanned sts) (update_station dev st)"
  by (cases st) (auto simp: update_station_def intro!: keeps_intros set_ap_keeps)

lemma with_stations_keeps:
  assumes "\<And>sts st. st \<in> set sts \<Longrightarrow> act_keeps (scanned sts) (f st)"
  shows "act_keeps wifi_inv (act_bind (act_read (\<lambda>s. Inr (stations s))) (act_each f))"
proof -
  have "act_keeps (scanned sts) (act_each f sts)" for sts
    using assms by (intro keeps_intros)
  then show ?thesis by (auto simp: act_keeps_def act_simps)
qed

lemma periodic_keeps: "act_keeps wifi_inv (wifi_periodic_update dev)"
  unfolding wifi_periodic_update_def by (rule with_stations_keeps) (rule update_station_keeps)

text \<open>The lines alone do not matter.\<close>

lemma set_line_links:
  "link_sta (((wlinks s)[k := (wlinks s ! k)\<lparr>line := q\<rparr>]) ! j) = link_sta (wlinks s ! j)"
  "link_ap (((wlinks s)[k := (wlinks s ! k)\<lparr>line := q\<rparr>]) ! j) = link_ap (wlinks s ! j)"
  by (cases "k < length (wlinks s)"; simp add: nth_list_update list_update_beyond)
    (cases "k < length (wlinks s)"; simp add: nth_list_update list_update_beyond)

lemma set_line_inv:
  "wifi_inv (s\<lparr>wlinks := (wlinks s)[k := (wlinks s ! k)\<lparr>line := q\<rparr>]\<rparr>) = wifi_inv s"
  by (simp add: wifi_inv_def links_known_def links_alive_def stations_ok_def set_line_links)

lemma update_points_keeps: "act_keeps (scanned sts) (update_wifi_points k)"
  by (auto simp: act_keeps_def update_wifi_points_def set_link_def act_simps set_line_inv split: option.split)

lemma view_keeps: "act_keeps wifi_inv wifi_update_view"
  unfolding wifi_update_view_def
  by (rule with_stations_keeps) (auto intro: update_points_keeps)

lemma node_pos_inv [simp]: "wifi_inv (s\<lparr>node_pos := q\<rparr>) = wifi_inv s"
  by (simp add: wifi_inv_def links_known_def links_alive_def stations_ok_def)

lemma points_keep_inv: "act_keeps wifi_inv (update_wifi_points k)"
  by (auto simp: act_keeps_def update_wifi_points_def set_link_def act_simps set_line_inv split: option.split)

lemma move_keeps: "act_keeps wifi_inv (move_wifi_node i p)"
  unfolding move_wifi_node_def by (intro keeps_intros act_keeps_upd points_keep_inv) simp

definition links_inv2 :: "wifi \<Rightarrow> bool" where
  "links_inv2 s \<longleftrightarrow> links_known s \<and> links_alive s"

lemma destroy_keeps: "act_keeps links_inv2 (destroy_link k)"
proof -
  have "links_inv2 (fst (destroy_link k s))" if "links_inv2 s" for s
    using that
    by (cases "k < length (wlinks s)")
      (auto simp: links_inv2_def links_known_def links_alive_def destroy_link_def set_link_def act_simps nth_list_update)
  then show ?thesis by (simp add: act_keeps_def)
qed

lemma new_link_state:
  assumes "wifi_inv s"
  shows "new_wifi_link i s =
    (s\<lparr>wlinks := wlinks s @ [\<lparr>link_sta = Some i, link_ap = None, shown = True, line = None\<rparr>]\<rparr>, Inr (length (wlinks s)))"
  by (simp add: new_wifi_link_def act_simps set_ap_def)

lemma scan_device_keeps: "act_keeps wifi_inv (scan_wifi_device dev d)"
proof -
  have "wifi_inv (fst (scan_wifi_device dev d s))" if inv: "wifi_inv s" for s
  proof (cases "wifi_of (dev d)")
    case (Some m)
    have "count_list (node_links s a) (length (wlinks s)) = 0" for a
      using inv by (auto simp: wifi_inv_def links_alive_def count_list_0_iff)
    moreover have "length (wlinks s) \<notin> (snd \<circ> snd) ` set (stations s)"
      using inv by (auto simp: wifi_inv_def stations_ok_def)
    ultimately show ?thesis using inv Some
      by (cases m)
        (auto simp: scan_wifi_device_def act_simps new_link_state [OF inv] wifi_inv_def links_known_def
          links_alive_def stations_ok_def nth_append less_Suc_eq)
  qed (use inv in \<open>simp add: scan_wifi_device_def act_simps\<close>)
  then show ?thesis by (simp add: act_keeps_def)
qed

lemma scan_keeps: "act_keeps wifi_inv (scan_nodes dev n_devices ns)"
proof -
  have d: "act_keeps links_inv2 (act_each (\<lambda>(d, i, k). destroy_link k) sts)" for sts
    by (intro keeps_intros) (auto intro: destroy_keeps)
  have ok: "snd (act_each (\<lambda>(d, i, k). destroy_link k) sts s) = Inr ()" for sts s
    by (induction sts arbitrary: s) (auto simp: act_simps destroy_link_def set_link_def)
  have reset: "wifi_inv (t\<lparr>access_points := [], stations := []\<rparr>)" if "links_inv2 t" for t
    using that by (simp add: wifi_inv_def links_inv2_def links_known_def links_alive_def stations_ok_def)
  have destroyed: "links_inv2 (fst (act_each (\<lambda>(d, i, k). destroy_link k) sts s))" if "wifi_inv s" for s sts
    using d that by (auto simp: act_keeps_def wifi_inv_def links_inv2_def)
  have scans: "act_keeps wifi_inv (act_each (scan_wifi_device dev) ds)" for ds
    by (intro keeps_intros scan_device_keeps)
  have "wifi_inv (fst (scan_nodes dev n_devices ns s))" if "wifi_inv s" for s
  proof -
    obtain t where t: "act_each (\<lambda>(d, i, k). destroy_link k) (stations s) s = (t, Inr ())"
      using ok [of "stations s" s] by (metis surjective_pairing)
    with destroyed [OF that, of "stations s"] have "links_inv2 t" by simp
    from act_keepsD [OF scans reset [OF this]] show ?thesis by (simp add: scan_nodes_def act_simps t)
  qed
  then show ?thesis by (simp add: act_keeps_def)
qed

interpretation wifi_sys: invariant_system wifi_step "start_wifi pos" wifi_inv
proof
  show "wifi_inv (start_wifi pos)"
    by (simp add: start_wifi_def wifi_inv_def links_known_def links_alive_def stations_ok_def)
  show "wifi_inv t" if "wifi_step s t" "wifi_inv s" for s t
    using that by cases (auto intro: act_keepsD scan_keeps periodic_keeps view_keeps move_keeps)
qed

section \<open>Associations\<close>

text \<open>The access point a station should be joined to, and whether the monitor can find it.\<close>

definition wanted :: "(device_id \<Rightarrow> device) \<Rightarrow> wifi \<Rightarrow> device_id \<Rightarrow> nat option" where
  "wanted dev s d =
     (if link_up (dev d) \<and> bssid (dev d) \<noteq> no_bssid then dict_find (access_points s) (bssid (dev d)) else None)"

definition findable :: "(device_id \<Rightarrow> device) \<Rightarrow> wifi \<Rightarrow> device_id \<times> nat \<times> nat \<Rightarrow> bool" where
  "findable dev s st \<longleftrightarrow>
     (link_up (dev (fst st)) \<and> bssid (dev (fst st)) \<noteq> no_bssid \<longrightarrow> dict_has (access_points s) (bssid (dev (fst st))))"

lemma update_station_moves:
  assumes "links_known s" and "live_link s k i"
  shows "update_station dev (d, i, k) s =
    (if findable dev s (d, i, k) then (moved k i (wanted dev s d) s, Inr ()) else (s, Inl KeyError))"
  using set_ap_moved [OF assms]
  by (auto simp: update_station_def findable_def wanted_def act_simps dict_has_find dict_get_find)

lemma each_station:
  assumes "links_known s" and "links_alive s" and "distinct (map (snd \<circ> snd) sts)"
    and "\<And>d i k. (d, i, k) \<in> set sts \<Longrightarrow> live_link s k i"
    and "act_each (update_station dev) sts s = (t, r)"
  shows "r = (if list_all (findable dev s) sts then Inr () else Inl KeyError)"
    and "(d, i, k) \<in> set (takeWhile (findable dev s) sts) \<Longrightarrow> link_ap (wlinks t ! k) = wanted dev s d"
    and "k \<notin> (snd \<circ> snd) ` set (takeWhile (findable dev s) sts) \<Longrightarrow> wlinks t ! k = wlinks s ! k"
proof -
  have "r = (if list_all (findable dev s) sts then Inr () else Inl KeyError) \<and>
    (\<forall>d i k. (d, i, k) \<in> set (takeWhile (findable dev s) sts) \<longrightarrow> link_ap (wlinks t ! k) = wanted dev s d) \<and>
    (\<forall>k. k \<notin> (snd \<circ> snd) ` set (takeWhile (findable dev s) sts) \<longrightarrow> wlinks t ! k = wlinks s ! k)"
    using assms
  proof (induction sts arbitrary: s)
    case (Cons st sts)
    obtain d i k where st: "st = (d, i, k)" by (cases st)
    have live: "live_link s k i" using Cons.prems(4) [of d i k] st by simp
    note step = update_station_moves [OF Cons.prems(1) live, of dev d]
    show ?case
    proof (cases "findable dev s st")
      case True
      let ?u = "moved k i (wanted dev s d) s"
      have [simp]: "findable dev ?u = findable dev s" "wanted dev ?u = wanted dev s"
        by (auto simp: findable_def wanted_def)
      have "live_link ?u k' i'" if "(d', i', k') \<in> set sts" for d' i' k'
        using Cons.prems(4) [of d' i' k'] that live by (auto simp: live_link_def moved_link)
      moreover have "act_each (update_station dev) sts ?u = (t, r)"
        using Cons.prems(5) True step by (simp add: st act_simps)
      ultimately have IH: "r = (if list_all (findable dev s) sts then Inr () else Inl KeyError)"
        "\<forall>d i k. (d, i, k) \<in> set (takeWhile (findable dev s) sts) \<longrightarrow> link_ap (wlinks t ! k) = wanted dev s d"
        "\<forall>k. k \<notin> (snd \<circ> snd) ` set (takeWhile (findable dev s) sts) \<longrightarrow> wlinks t ! k = wlinks ?u ! k"
        using Cons.IH [of ?u] Cons.prems(1-3) live by (auto simp: moved_keeps)
      have "k \<notin> (snd \<circ> snd) ` set (takeWhile (findable dev s) sts)"
        using Cons.prems(3) st by (auto dest!: set_takeWhileD)
      with IH(3) have "link_ap (wlinks t ! k) = wanted dev s d" by (simp add: moved_link [OF live])
      with IH True moved_link(3) [OF live] show ?thesis by (auto simp: st)
    next
      case False
      with Cons.prems(5) step show ?thesis by (auto simp: st act_simps)
    qed
  qed (auto simp: act_simps)
  then show "r = (if list_all (findable dev s) sts then Inr () else Inl KeyError)"
    and "(d, i, k) \<in> set (takeWhile (findable dev s) sts) \<Longrightarrow> link_ap (wlinks t ! k) = wanted dev s d"
    and "k \<notin> (snd \<circ> snd) ` set (takeWhile (findable dev s) sts) \<Longrightarrow> wlinks t ! k = wlinks s ! k"
    by blast+
qed

text \<open>
  C23. After any sequence of scans, updates and moves, a periodic update joins every station to the
  access point with the BSSID it reports, and to none when it is down or not associated; it raises
  \<open>KeyError\<close> exactly when an associated station reports a BSSID that no scanned access point has,
  and then the stations after that one keep their old lines.
\<close>

theorem stations_joined:
  assumes "wifi_step\<^sup>*\<^sup>* (start_wifi pos) s" and "wifi_periodic_update dev s = (t, r)"
  shows "r = (if list_all (findable dev s) (stations s) then Inr () else Inl KeyError) \<and>
    (\<forall>(d, i, k)\<in>set (stations s).
       link_ap (wlinks t ! k) =
         (if (d, i, k) \<in> set (takeWhile (findable dev s) (stations s)) then wanted dev s d
          else link_ap (wlinks s ! k)))"
proof -
  have inv: "wifi_inv s" using assms(1) by (rule wifi_sys.inv_reachable)
  then have a: "links_known s" "links_alive s" "distinct (map (snd \<circ> snd) (stations s))"
    by (simp_all add: wifi_inv_def stations_ok_def)
  have b: "act_each (update_station dev) (stations s) s = (t, r)"
    using assms(2) by (simp add: wifi_periodic_update_def act_simps)
  note e = each_station [OF a station_live [OF inv] b]
  have "k \<notin> (snd \<circ> snd) ` set (takeWhile (findable dev s) (stations s))"
    if "(d, i, k) \<in> set (stations s)" "(d, i, k) \<notin> set (takeWhile (findable dev s) (stations s))" for d i k
  proof
    assume "k \<in> (snd \<circ> snd) ` set (takeWhile (findable dev s) (stations s))"
    then obtain st where "st \<in> set (takeWhile (findable dev s) (stations s))" "snd (snd st) = k" by auto
    moreover from this have "st \<in> set (stations s)" by (auto dest: set_takeWhileD)
    ultimately show False using that a(3) by (force simp: distinct_map inj_on_def)
  qed
  with e show ?thesis by auto
qed

text \<open>One station and one access point; the station is associated.\<close>

definition sample_dev :: "device_id \<Rightarrow> device" where
  "sample_dev d = \<lparr>wifi_of = Some (if fst d = 0 then Sta_Mac else Ap_Mac),
     address = (if fst d = 0 then ''00:00:00:00:00:01'' else ''00:00:00:00:00:02''),
     link_up = True, bssid = ''00:00:00:00:00:02''\<rparr>"

definition sample_wifi :: wifi where
  "sample_wifi = fst (scan_nodes sample_dev (\<lambda>_. 1) [0, 1] (start_wifi (\<lambda>i. (of_nat i, 0))))"

theorem stations_joined_witness:
  "stations sample_wifi = [((0, 0), 0, 0)] \<and>
   link_ap (wlinks (fst (wifi_periodic_update sample_dev sample_wifi)) ! 0) = Some 1"
proof -
  have r: "wifi_step\<^sup>*\<^sup>* (start_wifi (\<lambda>i. (of_nat i, 0))) sample_wifi"
    unfolding sample_wifi_def by (rule r_into_rtranclp) (rule wifi_step.scan)
  have s: "stations sample_wifi = [((0, 0), 0, 0)]" by code_simp
  have w: "findable sample_dev sample_wifi ((0, 0), 0, 0)" "wanted sample_dev sample_wifi (0, 0) = Some 1"
    by code_simp+
  from stations_joined [OF r prod.collapse [symmetric], of sample_dev] s w show ?thesis by simp
qed

section \<open>Lines\<close>

text \<open>An update of the view never raises and draws every joined station's line between the current positions.\<close>

lemma points_drawn:
  assumes "live_link s k i"
  shows "update_wifi_points k s =
    (s\<lparr>wlinks := (wlinks s)[k := (wlinks s ! k)\<lparr>line := (case link_ap (wlinks s ! k) of None \<Rightarrow> line (wlinks s ! k)
        | Some a \<Rightarrow> Some (node_pos s i, node_pos s a))\<rparr>]\<rparr>, Inr ())"
  using assms by (auto simp: update_wifi_points_def live_link_def set_link_def act_simps split: option.split)

lemma each_drawn:
  assumes "distinct (map (snd \<circ> snd) sts)"
    and "\<And>d i k. (d, i, k) \<in> set sts \<Longrightarrow> live_link s k i"
  shows "\<exists>t. act_each (\<lambda>(d, i, k). update_wifi_points k) sts s = (t, Inr ()) \<and> node_pos t = node_pos s \<and>
    (\<forall>j. link_ap (wlinks t ! j) = link_ap (wlinks s ! j)) \<and>
    (\<forall>j. j \<notin> (snd \<circ> snd) ` set sts \<longrightarrow> wlinks t ! j = wlinks s ! j) \<and>
    (\<forall>(d, i, k)\<in>set sts. \<forall>a. link_ap (wlinks s ! k) = Some a \<longrightarrow> line (wlinks t ! k) = Some (node_pos s i, node_pos s a))"
  using assms
proof (induction sts arbitrary: s)
  case (Cons st sts)
  obtain d i k where st: "st = (d, i, k)" by (cases st)
  have live: "live_link s k i" using Cons.prems(2) [of d i k] st by simp
  define u where "u = fst (update_wifi_points k s)"
  have u: "update_wifi_points k s = (u, Inr ())" "node_pos u = node_pos s"
    "\<And>j. link_ap (wlinks u ! j) = link_ap (wlinks s ! j)" "\<And>j. link_sta (wlinks u ! j) = link_sta (wlinks s ! j)"
    "\<And>j. j \<noteq> k \<Longrightarrow> wlinks u ! j = wlinks s ! j" "length (wlinks u) = length (wlinks s)"
    "\<And>a. link_ap (wlinks s ! k) = Some a \<Longrightarrow> line (wlinks u ! k) = Some (node_pos s i, node_pos s a)"
    using live by (simp_all add: u_def points_drawn [OF live] set_line_links, simp add: live_link_def)
  have "live_link u k' i'" if "(d', i', k') \<in> set sts" for d' i' k'
    using Cons.prems(2) [of d' i' k'] that by (simp add: live_link_def u)
  with Cons.IH [of u] Cons.prems(1) obtain t where t:
    "act_each (\<lambda>(d, i, k). update_wifi_points k) sts u = (t, Inr ())" "node_pos t = node_pos s"
    "\<forall>j. link_ap (wlinks t ! j) = link_ap (wlinks s ! j)"
    "\<forall>j. j \<notin> (snd \<circ> snd) ` set sts \<longrightarrow> wlinks t ! j = wlinks u ! j"
    "\<forall>(d, i, k)\<in>set sts. \<forall>a. link_ap (wlinks s ! k) = Some a \<longrightarrow> line (wlinks t ! k) = Some (node_pos s i, node_pos s a)"
    by (auto simp: u)
  have k: "k \<notin> (snd \<circ> snd) ` set sts" using Cons.prems(1) st by auto
  from t u k show ?case by (intro exI [of _ t]) (auto simp: st act_simps)
qed (auto simp: act_simps)

lemma view_draws:
  assumes "wifi_inv s"
  shows "\<exists>t. wifi_update_view s = (t, Inr ()) \<and>
    (\<forall>(d, i, k)\<in>set (stations s). \<forall>a. link_ap (wlinks s ! k) = Some a \<longrightarrow>
       line (wlinks t ! k) = Some (node_pos s i, node_pos s a))"
proof -
  from assms have "distinct (map (snd \<circ> snd) (stations s))" by (simp add: wifi_inv_def stations_ok_def)
  moreover have "live_link s k i" if "(d, i, k) \<in> set (stations s)" for d i k
    using station_live [OF assms that] .
  ultimately show ?thesis using each_drawn [of "stations s" s]
    by (auto simp: wifi_update_view_def act_simps)
qed

text \<open>
  A link is in no list of its station: when the station is moved, its line stays where it was
  until the view is updated.
\<close>

lemma each_points_other:
  "k \<notin> set ks \<Longrightarrow> wlinks (fst (act_each update_wifi_points ks s)) ! k = wlinks s ! k"
proof (induction ks arbitrary: s)
  case (Cons j ks)
  have "wlinks (fst (update_wifi_points j s)) ! k = wlinks s ! k"
    using Cons.prems by (auto simp: update_wifi_points_def set_link_def act_simps split: option.split)
  with Cons show ?case by (cases "update_wifi_points j s") (auto simp: act_simps split: sum.split)
qed (simp add: act_simps)

lemma station_line_stays:
  assumes "wifi_inv s" and "(d, i, k) \<in> set (stations s)" and "link_ap (wlinks s ! k) \<noteq> Some i"
  shows "wlinks (fst (move_wifi_node i p s)) ! k = wlinks s ! k"
proof -
  have "k \<notin> set (node_links s i)"
    using known_member [OF inv_known [OF assms(1)] station_live [OF assms(1,2)]] assms(3) by simp
  then show ?thesis by (simp add: move_wifi_node_def act_simps each_points_other)
qed

text \<open>The initializer means to hide a new link, but \<open>set_ap(None)\<close> returns at once: the link has no access point yet.\<close>

lemma new_link_visible: "shown (wlinks (fst (new_wifi_link i s)) ! length (wlinks s))"
  by (simp add: new_wifi_link_def act_simps set_ap_def)

text \<open>A destroyed link stays in the list of its access point.\<close>

lemma destroyed_link_listed: "node_links (fst (destroy_link k s)) = node_links s"
  by (simp add: destroy_link_def set_link_def act_simps)

end
