(* ===== verification/Viz_Axes.thy ===== *)
theory Viz_Axes
  imports Complex_Main Py_Prelude
begin

text \<open>
  The axes of the visualizer (\<open>src/src/visualizer/visualizer/hud.py\<close>): the choice of the divisions,
  the loops that draw a tick and a label for each of them, and the reuse of the labels.

  Coordinates are real numbers.  The labels are objects with a number; the adjustments and the
  conversion of pixels to the coordinates of the canvas are arguments.
\<close>

section \<open>Divisions\<close>

definition rint :: "real \<Rightarrow> int" where
  "rint x = \<lfloor>x + 1 / 2\<rfloor>"

definition pow10 :: "int \<Rightarrow> real" where
  "pow10 n = (if 0 \<le> n then 10 ^ nat n else 1 / 10 ^ nat (- n))"

text \<open>The division closest to a length: a power of ten, half of it or its double.\<close>

definition division :: "real \<Rightarrow> real" where
  "division y =
     (let d = pow10 (rint (log 10 y))
      in if \<bar>d / 2 - y\<bar> < \<bar>d - y\<bar> then d / 2
         else if \<bar>d * 2 - y\<bar> < \<bar>d - y\<bar> then d * 2 else d)"

text \<open>
  One round of the loop \<open>for n in range(5)\<close>.  The state is \<open>ndiv\<close> and the pair \<open>(x0, div)\<close>,
  which has no value before the first round.
\<close>

definition division_round :: "real \<Rightarrow> real \<Rightarrow> nat \<Rightarrow> int \<times> (real \<times> real) option \<Rightarrow> int \<times> (real \<times> real) option" where
  "division_round xi dx n st =
     (let d = division (dx / 5); x0 = d * of_int \<lceil>xi / d\<rceil> - d; text_width = dx / 5 / 2
      in (if n > 1 then rint (dx / text_width) else fst st, Some (x0, d)))"

definition compute_divisions :: "real \<Rightarrow> real \<Rightarrow> (real \<times> real) res" where
  "compute_divisions xi xf =
     (if \<not> xf > xi then Inl (Exception ''AssertionError'')
      else case snd (fold (division_round xi (xf - xi)) [0..<5] (5, None)) of
             None \<Rightarrow> Inl UnboundLocalError
           | Some r \<Rightarrow> Inr r)"

section \<open>Labels and axes\<close>

record axis_label =
  label_id :: nat
  label_visible :: bool
  label_font :: int
  label_value :: real
  label_at :: "real \<times> real"

datatype path_step = Segment real real real real

record axes =
  labels :: "axis_label list"
  made :: nat
  axes_visible :: bool
  hlines_visible :: bool
  vlines_visible :: bool
  hpath :: "path_step list"
  vpath :: "path_step list"
  hwidth :: real
  vwidth :: real

text \<open>What is seen of the canvas: its zoom and the corners of the visible rectangle.\<close>

record viewport =
  zoom_value :: "real option"
  corner1 :: "real \<times> real"
  corner2 :: "real \<times> real"

definition meter_pixels :: real where
  "meter_pixels = 3"

definition set_axes_visible :: "bool \<Rightarrow> axes \<Rightarrow> axes" where
  "set_axes_visible v a =
     (if v then a\<lparr>axes_visible := v, hlines_visible := True, vlines_visible := True\<rparr>
      else a\<lparr>axes_visible := v, hlines_visible := False, vlines_visible := False,
             labels := map (\<lambda>l. l\<lparr>label_visible := False\<rparr>) (labels a)\<rparr>)"

text \<open>
  \<open>get_label\<close> and the properties that are set on the label: the first unused label is shown
  again, or a new one is made.  The pool is \<open>(unused_labels, self.labels, made)\<close>.
\<close>

type_synonym label_pool = "axis_label list \<times> axis_label list \<times> nat"

definition get_label :: "int \<Rightarrow> real \<Rightarrow> real \<times> real \<Rightarrow> label_pool \<Rightarrow> label_pool" where
  "get_label font v q p =
     (case p of (unused, used, n) \<Rightarrow>
        case unused of
          [] \<Rightarrow> ([], used @ [\<lparr>label_id = n, label_visible = True, label_font = font, label_value = v, label_at = q\<rparr>], n + 1)
        | l # rest \<Rightarrow>
            (rest, used @ [l\<lparr>label_visible := True, label_font := font, label_value := v, label_at := q\<rparr>], n))"

text \<open>The loop \<open>while x < xf\<close> with the step \<open>x += xdiv\<close>.\<close>

partial_function (option) tick_loop :: "(real \<Rightarrow> 's \<Rightarrow> 's) \<Rightarrow> real \<Rightarrow> real \<Rightarrow> real \<Rightarrow> 's \<Rightarrow> 's option" where
  "tick_loop draw xf xdiv x s = (if x < xf then tick_loop draw xf xdiv (x + xdiv) (draw x s) else Some s)"

definition draw_htick :: "real \<Rightarrow> real \<Rightarrow> int \<Rightarrow> real \<Rightarrow> path_step list \<times> label_pool \<Rightarrow> path_step list \<times> label_pool" where
  "draw_htick yc offset font x st =
     (fst st @ [Segment (meter_pixels * x) (yc - offset) (meter_pixels * x) yc],
      get_label font x (meter_pixels * x, yc - offset) (snd st))"

definition draw_vtick :: "real \<Rightarrow> real \<Rightarrow> int \<Rightarrow> real \<Rightarrow> path_step list \<times> label_pool \<Rightarrow> path_step list \<times> label_pool" where
  "draw_vtick xc offset font y st =
     (fst st @ [Segment xc (meter_pixels * y) (xc + offset) (meter_pixels * y)],
      get_label font y (xc + offset, meter_pixels * y) (snd st))"

text \<open>
  The result is \<open>None\<close> when a loop does not end; otherwise the axes and what the method returns.
  When an assertion fails, the labels that are not yet in use again are gone.
\<close>

definition update_axes :: "viewport \<Rightarrow> axes \<Rightarrow> (axes \<times> unit res) option" where
  "update_axes vp a =
     (case zoom_value vp of
        None \<Rightarrow> Some (a, Inr ())
      | Some z \<Rightarrow>
          let unused = map (\<lambda>l. l\<lparr>label_visible := False\<rparr>) (labels a); a0 = a\<lparr>labels := []\<rparr>
          in if z = 0 then Some (a0, Inl ZeroDivisionError)
             else
               let offset = 10 / z; width = 5 / z; font = (if 0 \<le> 12 / z then \<lfloor>12 / z\<rfloor> else \<lceil>12 / z\<rceil>);
                   (x1, y1) = corner1 vp; (x2, y2) = corner2 vp;
                   yc = y2 - width / 2; xc = x1 + width / 2; a1 = a0\<lparr>hwidth := width\<rparr>
               in case compute_divisions (x1 / meter_pixels) (x2 / meter_pixels) of
                    Inl e \<Rightarrow> Some (a1, Inl e)
                  | Inr (x0, xdiv) \<Rightarrow>
                      Option.bind (tick_loop (draw_htick yc offset font) (x2 / meter_pixels) xdiv x0
                          ([Segment x1 yc x2 yc], unused, [], made a))
                        (\<lambda>(hp, unused1, used1, made1).
                          let a2 = a1\<lparr>hpath := hp, labels := used1, made := made1, vwidth := width\<rparr>
                          in case compute_divisions (y1 / meter_pixels) (y2 / meter_pixels) of
                               Inl e \<Rightarrow> Some (a2, Inl e)
                             | Inr (y0, ydiv) \<Rightarrow>
                                 Option.bind (tick_loop (draw_vtick xc offset font) (y2 / meter_pixels) ydiv y0
                                     ([Segment xc y1 xc y2], unused1, used1, made1))
                                   (\<lambda>(vp', unused2, used2, made2).
                                     Some (a2\<lparr>vpath := vp', labels := used2 @ unused2, made := made2\<rparr>, Inr ()))))"

text \<open>The initializer, and the handler of the four signals of the adjustments.\<close>

definition new_axes :: "viewport \<Rightarrow> (axes \<times> unit res) option" where
  "new_axes vp =
     update_axes vp \<lparr>labels = [], made = 0, axes_visible = True, hlines_visible = True, vlines_visible = True,
       hpath = [], vpath = [], hwidth = 1, vwidth = 1\<rparr>"

definition adjustment_changed :: "viewport \<Rightarrow> axes \<Rightarrow> (axes \<times> unit res) option" where
  "adjustment_changed vp a = (if axes_visible a then update_axes vp a else Some (a, Inr ()))"

section \<open>The divisions\<close>

lemma pow10_powr: "pow10 n = 10 powr of_int n"
  by (auto simp: pow10_def powr_real_of_int powr_minus divide_inverse)

lemma pow10_pos: "0 < pow10 n"
  by (simp add: pow10_powr)

lemma nearest_power:
  assumes "0 < y"
  shows "5 / 16 * pow10 (rint (log 10 y)) < y" and "y < 16 / 5 * pow10 (rint (log 10 y))"
proof -
  define n where "n = rint (log 10 y)"
  have n: "of_int n \<le> log 10 y + 1 / 2" "log 10 y + 1 / 2 < of_int n + 1"
    by (simp_all add: n_def rint_def)
  have y: "y = 10 powr log 10 y" using assms by simp
  have r: "10 powr (1 / 2) < (16 / 5 :: real)"
  proof -
    have "sqrt 10 < sqrt ((16 / 5)\<^sup>2)" by (subst real_sqrt_less_iff) (simp add: power2_eq_square)
    then show ?thesis by (simp add: powr_half_sqrt)
  qed
  have "10 powr (of_int n) \<le> 10 powr (log 10 y + 1 / 2)" using n by (intro powr_mono) auto
  also have "\<dots> = y * 10 powr (1 / 2)" using assms by (simp add: powr_add)
  also have "\<dots> < y * (16 / 5)" using r assms by simp
  finally show "5 / 16 * pow10 (rint (log 10 y)) < y" by (simp add: pow10_powr n_def)
  have "y = 10 powr log 10 y" by (rule y)
  also have "\<dots> < 10 powr (of_int n + 1 / 2)" using n by (intro powr_less_mono) auto
  also have "\<dots> = 10 powr of_int n * 10 powr (1 / 2)" by (simp add: powr_add)
  also have "\<dots> < 10 powr of_int n * (16 / 5)" using r by simp
  finally show "y < 16 / 5 * pow10 (rint (log 10 y))" by (simp add: pow10_powr n_def)
qed

lemma division_close:
  assumes "0 < y"
  shows "0 < division y" and "5 / 8 * division y < y" and "y < 8 / 5 * division y"
  using nearest_power [OF assms] pow10_pos [of "rint (log 10 y)"]
  by (auto simp: division_def Let_def abs_if split: if_splits)

text \<open>The five rounds give what the first gives: \<open>ndiv\<close> is not used after it is changed.\<close>

lemma compute_divisions_once:
  "compute_divisions xi xf =
     (if xi < xf then let d = division ((xf - xi) / 5) in Inr (d * of_int \<lceil>xi / d\<rceil> - d, d)
      else Inl (Exception ''AssertionError''))"
  by (simp add: compute_divisions_def division_round_def Let_def numeral_eq_Suc upt_rec)

lemma compute_divisions_range:
  assumes "xi < xf" and "compute_divisions xi xf = Inr (x0, d)"
  shows "0 < d" and "x0 < xi" and "xi \<le> x0 + d" and "3 * d < xf - xi" and "xf - xi < 8 * d"
proof -
  have d: "d = division ((xf - xi) / 5)" and x0: "x0 = d * of_int \<lceil>xi / d\<rceil> - d"
    using assms by (auto simp: compute_divisions_once Let_def)
  have "0 < (xf - xi) / 5" using assms(1) by simp
  from division_close [OF this] show p: "0 < d" and "3 * d < xf - xi" and "xf - xi < 8 * d" by (auto simp: d)
  have "of_int \<lceil>xi / d\<rceil> - 1 < xi / d" by linarith
  with p show "x0 < xi" by (simp add: x0 field_simps)
  have "xi \<le> of_int \<lceil>xi / d\<rceil> * d" using p le_of_int_ceiling [of "xi / d"] by (simp only: pos_divide_le_eq)
  then show "xi \<le> x0 + d" by (simp add: x0 mult.commute)
qed

section \<open>The ticks\<close>

definition tick_list :: "real \<Rightarrow> real \<Rightarrow> real \<Rightarrow> real list" where
  "tick_list xf d x = map (\<lambda>i. x + of_nat i * d) [0..<nat \<lceil>(xf - x) / d\<rceil>]"

lemma tick_list_step:
  assumes "0 < d"
  shows "tick_list xf d x = (if x < xf then x # tick_list xf d (x + d) else [])"
proof (cases "x < xf")
  case True
  define n where "n = nat \<lceil>(xf - (x + d)) / d\<rceil>"
  have "(xf - x) / d = (xf - (x + d)) / d + 1" using assms by (simp add: field_simps)
  then have "\<lceil>(xf - x) / d\<rceil> = \<lceil>(xf - (x + d)) / d\<rceil> + 1" by (metis ceiling_add_one)
  moreover have "0 < \<lceil>(xf - x) / d\<rceil>" using True assms by simp
  ultimately have n: "nat \<lceil>(xf - x) / d\<rceil> = Suc n" unfolding n_def by linarith
  have "[0..<Suc n] = 0 # map Suc [0..<n]" by (metis map_Suc_upt upt_conv_Cons zero_less_Suc)
  then have "map (\<lambda>i. x + of_nat i * d) [0..<Suc n] = x # map (\<lambda>i. x + d + of_nat i * d) [0..<n]"
    by (simp add: comp_def algebra_simps del: upt_Suc)
  then show ?thesis using True by (simp add: tick_list_def n n_def [symmetric] del: upt_Suc)
next
  case False
  then have "\<lceil>(xf - x) / d\<rceil> \<le> 0" using assms by (simp add: divide_le_0_iff ceiling_le_iff)
  with False show ?thesis by (simp add: tick_list_def)
qed

text \<open>The loop ends when the division is positive, and draws every tick once.\<close>

lemma tick_loop_draws:
  assumes "0 < d"
  shows "tick_loop draw xf d x s = Some (fold draw (tick_list xf d x) s)"
proof (induction "length (tick_list xf d x)" arbitrary: x s)
  case 0
  then show ?case using tick_list_step [OF assms, of xf x]
    by (subst tick_loop.simps) (auto split: if_splits)
next
  case (Suc n)
  then have "tick_list xf d x = x # tick_list xf d (x + d)" "x < xf"
    using tick_list_step [OF assms, of xf x] by (auto split: if_splits)
  with Suc show ?case by (subst tick_loop.simps) auto
qed

lemma tick_count:
  assumes "0 < d" and "x0 < xi" and "xi \<le> x0 + d" and "3 * d < xf - xi" and "xf - xi < 8 * d"
  shows "4 \<le> length (tick_list xf d x0)" and "length (tick_list xf d x0) \<le> 9"
proof -
  have "3 < (xf - x0) / d" "(xf - x0) / d < 9" using assms by (simp_all add: field_simps)
  then show "4 \<le> length (tick_list xf d x0)" "length (tick_list xf d x0) \<le> 9"
    by (simp_all add: tick_list_def le_nat_iff less_ceiling_iff ceiling_le_iff)
qed

text \<open>The ticks of an axis from \<open>xi\<close> to \<open>xf\<close>.\<close>

definition axis_ticks :: "real \<Rightarrow> real \<Rightarrow> real list" where
  "axis_ticks xi xf =
     (case compute_divisions xi xf of Inl e \<Rightarrow> [] | Inr (x0, d) \<Rightarrow> tick_list xf d x0)"

lemma axis_ticks_count: "xi < xf \<Longrightarrow> 4 \<le> length (axis_ticks xi xf) \<and> length (axis_ticks xi xf) \<le> 9"
  using compute_divisions_range [of xi xf] tick_count
  by (auto simp: axis_ticks_def compute_divisions_once Let_def)

section \<open>The labels\<close>

fun show_labels :: "(real \<times> int \<times> real \<times> real) list \<Rightarrow> label_pool \<Rightarrow> label_pool" where
  "show_labels [] p = p"
| "show_labels ((v, font, q) # vs) p = show_labels vs (get_label font v q p)"

lemma fold_htick:
  "snd (fold (draw_htick yc offset font) xs st) =
     show_labels (map (\<lambda>x. (x, font, meter_pixels * x, yc - offset)) xs) (snd st)"
  by (induction xs arbitrary: st) (auto simp: draw_htick_def)

lemma fold_vtick:
  "snd (fold (draw_vtick xc offset font) ys st) =
     show_labels (map (\<lambda>y. (y, font, xc + offset, meter_pixels * y)) ys) (snd st)"
  by (induction ys arbitrary: st) (auto simp: draw_vtick_def)

lemma show_labels_append: "show_labels (vs @ ws) p = show_labels ws (show_labels vs p)"
  by (induction vs p rule: show_labels.induct) auto

text \<open>The labels of a pool, and what showing some of them does.\<close>

definition pool_ids :: "label_pool \<Rightarrow> nat list" where
  "pool_ids p = (case p of (unused, used, n) \<Rightarrow> map label_id (used @ unused))"

definition pool_ok :: "label_pool \<Rightarrow> bool" where
  "pool_ok p \<longleftrightarrow> distinct (pool_ids p) \<and> (\<forall>k\<in>set (pool_ids p). k < snd (snd p)) \<and>
     list_all label_visible (fst (snd p)) \<and> list_all (\<lambda>l. \<not> label_visible l) (fst p)"

lemma get_label_ok: "pool_ok p \<Longrightarrow> pool_ok (get_label font v q p)"
  by (cases p; cases "fst p") (auto simp: pool_ok_def pool_ids_def get_label_def)

lemma get_label_adds:
  "map label_value (fst (snd (get_label font v q p))) = map label_value (fst (snd p)) @ [v]"
  "length (fst (get_label font v q p)) = length (fst p) - 1"
  by (cases p; cases "fst p"; simp add: get_label_def)+

lemma show_labels_ok: "pool_ok p \<Longrightarrow> pool_ok (show_labels vs p)"
  by (induction vs p rule: show_labels.induct) (auto intro: get_label_ok)

lemma show_labels_values:
  "map label_value (fst (snd (show_labels vs p))) = map label_value (fst (snd p)) @ map fst vs"
  "length (fst (show_labels vs p)) = length (fst p) - length vs"
  by (induction vs p rule: show_labels.induct) (auto simp: get_label_adds)

definition axes_ok :: "axes \<Rightarrow> bool" where
  "axes_ok a \<longleftrightarrow> distinct (map label_id (labels a)) \<and> (\<forall>l\<in>set (labels a). label_id l < made a)"

lemma update_axes_pool:
  assumes "zoom_value vp = Some z" and "z > 0" and "corner1 vp = (x1, y1)" and "corner2 vp = (x2, y2)"
    and x: "x1 / 3 < x2 / 3" and y: "y1 / 3 < y2 / 3"
  shows "\<exists>t qs P. update_axes vp a = Some (t, Inr ()) \<and>
    map fst qs = axis_ticks (x1 / 3) (x2 / 3) @ axis_ticks (y1 / 3) (y2 / 3) \<and>
    P = show_labels qs (map (\<lambda>l. l\<lparr>label_visible := False\<rparr>) (labels a), [], made a) \<and>
    labels t = fst (snd P) @ fst P \<and> made t = snd (snd P)"
proof -
  from x obtain x0 xd where hx: "compute_divisions (x1 / 3) (x2 / 3) = Inr (x0, xd)"
    by (auto simp: compute_divisions_once Let_def)
  from y obtain y0 yd where hy: "compute_divisions (y1 / 3) (y2 / 3) = Inr (y0, yd)"
    by (auto simp: compute_divisions_once Let_def)
  have pos: "0 < xd" "0 < yd"
    using compute_divisions_range(1) [OF x hx] compute_divisions_range(1) [OF y hy] by auto
  define hs vs where "hs = tick_list (x2 / 3) xd x0" and "vs = tick_list (y2 / 3) yd y0"
  define hid where "hid = map (\<lambda>l. l\<lparr>label_visible := False\<rparr>) (labels a)"
  define font where "font = (if 0 \<le> 12 / z then \<lfloor>12 / z\<rfloor> else \<lceil>12 / z\<rceil>)"
  define yc xc where "yc = y2 - 5 / z / 2" and "xc = x1 + 5 / z / 2"
  define H where "H = fold (draw_htick yc (10 / z) font) hs ([Segment x1 yc x2 yc], hid, [], made a)"
  define V where "V = fold (draw_vtick xc (10 / z) font) vs ([Segment xc y1 xc y2], snd H)"
  define qs where "qs = map (\<lambda>x. (x, font, meter_pixels * x, yc - 10 / z)) hs @
      map (\<lambda>y. (y, font, xc + 10 / z, meter_pixels * y)) vs"
  have "update_axes vp a = Some
      (a\<lparr>labels := fst (snd (snd V)) @ fst (snd V), hwidth := 5 / z, vwidth := 5 / z, hpath := fst H,
         made := snd (snd (snd V)), vpath := fst V\<rparr>, Inr ())"
    using assms(1,2) pos
    by (simp add: update_axes_def assms(3,4) meter_pixels_def hx hy tick_loop_draws hs_def vs_def Let_def
        case_prod_beta hid_def font_def yc_def xc_def H_def V_def)
  moreover have "snd V = show_labels qs (hid, [], made a)"
    by (simp add: V_def H_def qs_def fold_htick fold_vtick show_labels_append)
  moreover have "map fst qs = axis_ticks (x1 / 3) (x2 / 3) @ axis_ticks (y1 / 3) (y2 / 3)"
    by (simp add: qs_def comp_def axis_ticks_def hx hy hs_def vs_def)
  ultimately show ?thesis by (auto simp: hid_def)
qed

lemma pool_axes:
  assumes "axes_ok a" and "P = show_labels qs (map (\<lambda>l. l\<lparr>label_visible := False\<rparr>) (labels a), [], made a)"
    and "labels t = fst (snd P) @ fst P" and "made t = snd (snd P)"
  shows "axes_ok t" and "map label_value (filter label_visible (labels t)) = map fst qs"
    and "length (labels t) = max (length (labels a)) (length qs)"
proof -
  have "pool_ok (map (\<lambda>l. l\<lparr>label_visible := False\<rparr>) (labels a), [], made a)"
    using assms(1) by (auto simp: pool_ok_def pool_ids_def axes_ok_def list_all_iff comp_def)
  then have ok: "pool_ok P" unfolding assms(2) by (rule show_labels_ok)
  then show "axes_ok t" by (cases P) (auto simp: axes_ok_def pool_ok_def pool_ids_def assms(3,4))
  have v: "map label_value (fst (snd P)) = map fst qs" "length (fst P) = length (labels a) - length qs"
    by (simp_all add: assms(2) show_labels_values)
  have "filter label_visible (fst (snd P)) = fst (snd P)" "filter label_visible (fst P) = []"
    using ok by (auto simp: pool_ok_def list_all_iff)
  with v(1) show "map label_value (filter label_visible (labels t)) = map fst qs" by (simp add: assms(3))
  have "length (fst (snd P)) = length qs" using v(1) by (metis length_map)
  with v(2) show "length (labels t) = max (length (labels a)) (length qs)" by (simp add: assms(3))
qed

text \<open>
  C24. With a zoom and a visible rectangle the axes are always drawn: both loops end after four to
  nine ticks, the visible labels show exactly the ticks of the two axes, in their order, the others
  are hidden, and no label is used twice or lost.
\<close>

theorem axes_drawn:
  assumes "axes_ok a" and "zoom_value vp = Some z" and "z > 0"
    and "corner1 vp = (x1, y1)" and "corner2 vp = (x2, y2)" and "x1 < x2" and "y1 < y2"
  shows "\<exists>t hs vs. update_axes vp a = Some (t, Inr ()) \<and> axes_ok t \<and>
    hs = axis_ticks (x1 / 3) (x2 / 3) \<and> vs = axis_ticks (y1 / 3) (y2 / 3) \<and>
    length hs \<in> {4..9} \<and> length vs \<in> {4..9} \<and>
    map label_value (filter label_visible (labels t)) = hs @ vs \<and>
    length (labels t) = max (length (labels a)) (length (hs @ vs))"
proof -
  have x: "x1 / 3 < x2 / 3" and y: "y1 / 3 < y2 / 3" using assms by auto
  from update_axes_pool [OF assms(2-5) x y, of a] obtain t qs P where
    t: "update_axes vp a = Some (t, Inr ())"
    and q: "map fst qs = axis_ticks (x1 / 3) (x2 / 3) @ axis_ticks (y1 / 3) (y2 / 3)"
    and P: "P = show_labels qs (map (\<lambda>l. l\<lparr>label_visible := False\<rparr>) (labels a), [], made a)"
      "labels t = fst (snd P) @ fst P" "made t = snd (snd P)" by blast
  from q have "length qs = length (axis_ticks (x1 / 3) (x2 / 3) @ axis_ticks (y1 / 3) (y2 / 3))"
    by (metis length_map)
  with t q pool_axes [OF assms(1) P] axis_ticks_count [OF x] axis_ticks_count [OF y] show ?thesis by auto
qed

text \<open>Whatever the rectangle, the method ends and keeps the labels distinct.\<close>

lemma pool_labels_ok:
  assumes "pool_ok P" and "labels t = fst (snd P) \<or> labels t = fst (snd P) @ fst P" and "made t = snd (snd P)"
  shows "axes_ok t"
  using assms by (cases P) (auto simp: axes_ok_def pool_ok_def pool_ids_def)

lemma update_axes_total:
  assumes "axes_ok a"
  shows "\<exists>t r. update_axes vp a = Some (t, r) \<and> axes_ok t"
proof (cases "zoom_value vp")
  case None
  with assms show ?thesis by (simp add: update_axes_def)
next
  case (Some z)
  obtain x1 y1 x2 y2 where c: "corner1 vp = (x1, y1)" "corner2 vp = (x2, y2)" by fastforce
  have empty: "labels b = [] \<Longrightarrow> axes_ok b" for b by (simp add: axes_ok_def)
  define p where "p = (map (\<lambda>l. l\<lparr>label_visible := False\<rparr>) (labels a), [] :: axis_label list, made a)"
  have ok: "pool_ok (show_labels qs p)" for qs
    using assms by (intro show_labels_ok) (auto simp: p_def pool_ok_def pool_ids_def axes_ok_def list_all_iff comp_def)
  have div: "0 < d" if "compute_divisions xi xf = Inr (x0, d)" for xi xf x0 d
    using that compute_divisions_range(1) [of xi xf x0 d] by (auto simp: compute_divisions_once split: if_splits)
  show ?thesis
  proof (cases "z = 0")
    case False
    show ?thesis
    proof (cases "compute_divisions (x1 / 3) (x2 / 3)")
      case (Inl e)
      with Some False empty show ?thesis by (simp add: update_axes_def c Let_def meter_pixels_def)
    next
      case h: (Inr d)
      show ?thesis using Some False div h
        by (cases "compute_divisions (y1 / 3) (y2 / 3)"; cases d)
          (auto simp: update_axes_def c Let_def meter_pixels_def tick_loop_draws case_prod_beta fold_htick
            fold_vtick show_labels_append [symmetric] intro!: pool_labels_ok [OF ok [unfolded p_def]])
    qed
  qed (use Some empty in \<open>simp add: update_axes_def Let_def\<close>)
qed

definition sample_axes :: axes where
  "sample_axes = \<lparr>labels = [], made = 0, axes_visible = True, hlines_visible = True, vlines_visible = True,
     hpath = [], vpath = [], hwidth = 1, vwidth = 1\<rparr>"

definition sample_view :: viewport where
  "sample_view = \<lparr>zoom_value = Some 1, corner1 = (0, 0), corner2 = (300, 150)\<rparr>"

theorem axes_drawn_witness:
  "\<exists>t. update_axes sample_view sample_axes = Some (t, Inr ()) \<and>
     8 \<le> length (labels t) \<and> length (labels t) \<le> 18"
proof -
  have "axes_ok sample_axes" by (simp add: axes_ok_def sample_axes_def)
  from axes_drawn [OF this, of sample_view 1 0 0 300 150] show ?thesis
    by (auto simp: sample_view_def sample_axes_def)
qed

text \<open>
  When the axes are shown again, their lines are, but the labels stay hidden until an adjustment
  changes; when the rectangle is empty, the assertion loses every label.
\<close>

lemma labels_stay_hidden:
  "filter label_visible (labels (set_axes_visible True (set_axes_visible False a))) = []"
  by (simp add: set_axes_visible_def filter_empty_conv)

lemma labels_lost:
  "zoom_value vp = Some z \<Longrightarrow> z \<noteq> 0 \<Longrightarrow> fst (corner2 vp) \<le> fst (corner1 vp) \<Longrightarrow>
   \<exists>t. update_axes vp a = Some (t, Inl (Exception ''AssertionError'')) \<and> labels t = []"
  by (auto simp: update_axes_def Let_def compute_divisions_once meter_pixels_def split: prod.split)

end
