(* ===== verification/Ns3_Args.thy ===== *)
theory Ns3_Args
  imports Py_Strings
begin

text \<open>
  \<open>src/ns3\<close>, first part: the command line.  \<open>argparse\<close> gives a namespace, the attributes in the order in which they
  were set, and the arguments it does not know; both are arguments of \<open>parse_args\<close>, which merges the options of the
  sub-commands into one and finds the arguments that are passed on.
\<close>

section \<open>Namespaces\<close>

datatype pyval = VNone | VBool bool | VInt int | VStr string | VStrs "string list"

type_synonym namespace = "(string, pyval) dict"

fun py_truthy :: "pyval \<Rightarrow> bool" where
  "py_truthy VNone = False"
| "py_truthy (VBool b) = b"
| "py_truthy (VInt i) = (i \<noteq> 0)"
| "py_truthy (VStr s) = (s \<noteq> [])"
| "py_truthy (VStrs l) = (l \<noteq> [])"

definition getattribute :: "namespace \<Rightarrow> string \<Rightarrow> pyval res" where
  "getattribute args name = (case dict_find args name of None \<Rightarrow> Inl AttributeError | Some v \<Rightarrow> Inr v)"

section \<open>Options that are on or off\<close>

definition on_off :: "bool \<Rightarrow> string" where
  "on_off b = (if b then ''ON'' else ''OFF'')"

definition flag_arg :: "string \<Rightarrow> bool \<Rightarrow> string" where
  "flag_arg cmake_flag b = ''-DNS3_'' @ cmake_flag @ ''='' @ on_off b"

definition on_off_condition :: "namespace \<Rightarrow> string \<Rightarrow> string \<Rightarrow> string option res" where
  "on_off_condition args cmake_flag option_name =
     res_bind (getattribute args (''enable_'' @ option_name)) (\<lambda>enable_option.
     res_bind (getattribute args (''disable_'' @ option_name)) (\<lambda>disable_option.
     Inr (if enable_option \<noteq> VNone \<or> disable_option \<noteq> VNone
          then Some (flag_arg cmake_flag (py_truthy enable_option \<and> \<not> py_truthy disable_option))
          else None)))"

text \<open>The two arguments of an option; \<open>argparse\<close> turns dashes of a name into underscores.\<close>

definition attribute_name :: "string \<Rightarrow> string" where
  "attribute_name s = map (\<lambda>c. if c = CHR ''-'' then CHR ''_'' else c) s"

definition on_off_argument :: "string \<Rightarrow> string list" where
  "on_off_argument option_name = [attribute_name (''enable-'' @ option_name), attribute_name (''disable-'' @ option_name)]"

definition on_off_options :: "string list" where
  "on_off_options =
     [''asserts'', ''des-metrics'', ''build-version'', ''dpdk'', ''examples'', ''gcov'', ''gsl'', ''gtk'', ''logs'', ''monolib'',
      ''mpi'', ''python-bindings'', ''tests'', ''sanitizers'', ''static'', ''sudo'', ''verbose'', ''warnings'', ''werror'']"

definition cmake_options :: "(string \<times> string) list" where
  "cmake_options =
     [(''ASSERT'', ''asserts''), (''COVERAGE'', ''gcov''), (''DES_METRICS'', ''des_metrics''), (''DPDK'', ''dpdk''),
      (''ENABLE_BUILD_VERSION'', ''build_version''), (''ENABLE_SUDO'', ''sudo''), (''EXAMPLES'', ''examples''), (''GSL'', ''gsl''),
      (''GTK3'', ''gtk''), (''LOG'', ''logs''), (''MONOLIB'', ''monolib''), (''MPI'', ''mpi''),
      (''PYTHON_BINDINGS'', ''python_bindings''), (''SANITIZE'', ''sanitizers''), (''STATIC'', ''static''), (''TESTS'', ''tests''),
      (''VERBOSE'', ''verbose''), (''WARNINGS'', ''warnings''), (''WARNINGS_AS_ERRORS'', ''werror'')]"

definition on_off_args :: "namespace \<Rightarrow> string list res" where
  "on_off_args args =
     res_fold (\<lambda>(cmake_flag, option_name) acc.
       res_bind (on_off_condition args cmake_flag option_name) (\<lambda>arg.
       Inr (case arg of None \<Rightarrow> acc | Some a \<Rightarrow> acc @ [a]))) cmake_options []"

section \<open>parse\_args\<close>

text \<open>The attribute of an argument that every sub-command has.\<close>

definition destination :: "string \<Rightarrow> string \<Rightarrow> string" where
  "destination prog dest =
     (let subparser_name = str_strip (str_replace ''ns3'' [] prog)
      in if subparser_name \<noteq> [] then subparser_name @ ''_'' @ dest else dest)"

definition filtered_attributes :: "namespace \<Rightarrow> namespace" where
  "filtered_attributes args = filter (\<lambda>(x, v). \<not> is_substring ''disable'' x \<and> \<not> is_substring ''enable'' x) args"

text \<open>The values that are counted are equal to \<open>True\<close>; so is 1.\<close>

definition merged_flag :: "string \<Rightarrow> namespace \<Rightarrow> bool" where
  "merged_flag attribute args =
     list_ex (\<lambda>(x, v). is_substring attribute x \<and> (v = VBool True \<or> v = VInt 1)) (filtered_attributes args)"

fun int_value :: "pyval \<Rightarrow> int res" where
  "int_value (VBool b) = Inr (of_bool b)"
| "int_value (VInt i) = Inr i"
| "int_value (VStr s) = py_int s"
| "int_value _ = Inl TypeError"

text \<open>
  Every other attribute counts as \<open>max_cpu_threads\<close>, also those of the class, whose names have none of the merged names
  in them.
\<close>

definition merged_jobs :: "int \<Rightarrow> namespace \<Rightarrow> int res" where
  "merged_jobs max_cpu_threads args =
     res_fold (\<lambda>(x, v) acc. res_bind (if is_substring ''jobs'' x then int_value v else Inr max_cpu_threads) (\<lambda>i. Inr (min acc i)))
       (filtered_attributes args) max_cpu_threads"

definition set_missing :: "string \<Rightarrow> namespace \<Rightarrow> namespace" where
  "set_missing option args = (if dict_has args option then args else dict_set option (VBool False) args)"

definition positional_options :: "string list" where
  "positional_options = [''clean'', ''configure'', ''docs'', ''install'', ''run'', ''shell'', ''uninstall'', ''show'']"

definition unknown_message :: "string list \<Rightarrow> pyval \<Rightarrow> pyval \<Rightarrow> string" where
  "unknown_message unknown run configure =
     (let opts = str_join '', '' unknown; nl = [CHR 0x0A]
      in ''Unknown options were given: '' @ opts @ ''.'' @ nl @
         ''To see the allowed options add the `--help` option.'' @ nl @
         ''To forward configuration or runtime options, put them after '' @ [CHR 0x27] @ ''--'' @ [CHR 0x27] @ ''.'' @ nl @
         (case run of VStr target \<Rightarrow> if target \<noteq> [] then ''Try: ./ns3 run '' @ target @ '' -- '' @ opts @ nl else [] | _ \<Rightarrow> []) @
         (if py_truthy configure then ''Try: ./ns3 configure -- '' @ opts @ nl else []))"

definition after_separator :: "string list \<Rightarrow> string list option" where
  "after_separator argv = (case dropWhile (\<lambda>a. a \<noteq> ''--'') argv of [] \<Rightarrow> None | _ # rest \<Rightarrow> Some rest)"

definition program_args :: "string list \<Rightarrow> string list \<Rightarrow> namespace \<Rightarrow> string list res" where
  "program_args argv unknown args =
     (if unknown = [] then Inr []
      else (case after_separator argv of
              Some rest \<Rightarrow> Inr rest
            | None \<Rightarrow>
                res_bind (getattribute args ''run'') (\<lambda>run.
                res_bind (getattribute args ''configure'') (\<lambda>configure.
                Inl (Exception (unknown_message unknown run configure))))))"

text \<open>\<open>--help\<close> prints the usage and exits.\<close>

definition parse_args :: "int \<Rightarrow> string list \<Rightarrow> namespace \<times> string list \<Rightarrow> namespace res" where
  "parse_args max_cpu_threads argv known =
     (case known of (args, unknown) \<Rightarrow>
      res_bind (getattribute args ''help'') (\<lambda>help.
      if py_truthy help then Inl (SystemExit 0)
      else
        let args1 = fold (\<lambda>a args. dict_set a (VBool (merged_flag a args)) args) [''dry_run'', ''verbose'', ''quiet''] args
        in res_bind (merged_jobs max_cpu_threads args1) (\<lambda>jobs.
           let args2 = dict_set ''jobs'' (VInt jobs) args1;
               args3 = fold set_missing positional_options args2
           in res_bind (getattribute args3 ''run'') (\<lambda>run.
              res_bind (if py_truthy run then getattribute args3 ''enable_sudo'' else Inr VNone) (\<lambda>sudo.
              let args4 = (if py_truthy run \<and> sudo = VNone then dict_set ''enable_sudo'' (VBool True) args3 else args3)
              in res_bind (program_args argv unknown args4) (\<lambda>rest.
                 Inr (dict_set ''program_args'' (VStrs rest) args4)))))))"

section \<open>Merged attributes\<close>

lemma list_ex_dict_set:
  "(\<And>w. \<not> P (k, w)) \<Longrightarrow> list_ex P (dict_set k v d) = list_ex P d"
  by (induction d) (auto simp: dict_set_def)

lemma list_ex_filter: "list_ex P (filter Q l) = list_ex (\<lambda>x. Q x \<and> P x) l"
  by (induction l) auto

lemma merged_flag_set: "\<not> is_substring a k \<Longrightarrow> merged_flag a (dict_set k v args) = merged_flag a args"
  unfolding merged_flag_def filtered_attributes_def list_ex_filter by (rule list_ex_dict_set) simp

lemma merged_jobs_le:
  assumes "merged_jobs m args = Inr j"
  shows "j \<le> m"
  using assms unfolding merged_jobs_def
  by (rule res_fold_invariant [where P = "\<lambda>i. i \<le> m"]) (auto simp: res_bind_eq_Inr min_le_iff_disj)

text \<open>What a number of jobs is given as on the command line.\<close>

definition jobs_given :: "namespace \<Rightarrow> int list" where
  "jobs_given args =
     List.map_filter (\<lambda>(x, v). if is_substring ''jobs'' x then (case int_value v of Inr i \<Rightarrow> Some i | Inl e \<Rightarrow> None) else None)
       (filtered_attributes args)"

lemma merged_jobs_min:
  assumes "merged_jobs m args = Inr j"
  shows "j = Min (insert m (set (jobs_given args)))"
proof -
  have "j = fold min (List.map_filter (\<lambda>(x, v). if is_substring ''jobs'' x then (case int_value v of Inr i \<Rightarrow> Some i | Inl e \<Rightarrow> None) else None) l) a"
    if "res_fold (\<lambda>(x, v) acc. res_bind (if is_substring ''jobs'' x then int_value v else Inr m) (\<lambda>i. Inr (min acc i))) l a = Inr j"
      and "a \<le> m" for l a
    using that
    by (induction l arbitrary: a) (auto simp: res_bind_eq_Inr List.map_filter_simps min.commute min.absorb1 split: if_splits prod.splits)
  then have "j = fold min (jobs_given args) m"
    using assms by (simp add: merged_jobs_def jobs_given_def)
  then show ?thesis using Min.set_eq_fold [of m "jobs_given args"] by simp
qed

section \<open>Properties\<close>

text \<open>Every option that \<open>configure_cmake\<close> asks for is declared by \<open>parse_args\<close>.\<close>

definition declared :: "namespace \<Rightarrow> bool" where
  "declared args \<longleftrightarrow> list_all (\<lambda>o'. list_all (dict_has args) (on_off_argument o')) on_off_options"

lemma cmake_options_declared:
  assumes "declared args" and "(flag, opt) \<in> set cmake_options"
  shows "\<exists>e d. dict_find args (''enable_'' @ opt) = Some e \<and> dict_find args (''disable_'' @ opt) = Some d"
proof -
  have "list_all (\<lambda>(f, p). list_ex (\<lambda>o'. on_off_argument o' = [''enable_'' @ p, ''disable_'' @ p]) on_off_options) cmake_options"
    by code_simp
  then obtain o' where "o' \<in> set on_off_options" "on_off_argument o' = [''enable_'' @ opt, ''disable_'' @ opt]"
    using assms(2) by (auto simp: list_all_iff list_ex_iff)
  then show ?thesis using assms(1) unfolding declared_def list_all_iff by (force simp: dict_has_find)
qed

text \<open>What was asked for an option: nothing, on or off.\<close>

definition wanted :: "namespace \<Rightarrow> string \<Rightarrow> bool option" where
  "wanted args opt =
     (case (dict_find args (''enable_'' @ opt), dict_find args (''disable_'' @ opt)) of
        (Some e, Some d) \<Rightarrow> if e = VNone \<and> d = VNone then None else Some (py_truthy e \<and> \<not> py_truthy d)
      | _ \<Rightarrow> None)"

lemma flag_arg_eq: "flag_arg f b = flag_arg g c \<longleftrightarrow> f = g \<and> b = c"
proof
  assume "flag_arg f b = flag_arg g c"
  moreover have "split_last (CHR ''='') (flag_arg f b) = Some (''-DNS3_'' @ f, on_off b)" for f b
    using split_last_append [of "CHR ''=''" "on_off b" "''-DNS3_'' @ f"] by (simp add: flag_arg_def on_off_def)
  ultimately have "''-DNS3_'' @ f = ''-DNS3_'' @ g \<and> on_off b = on_off c" by (metis option.inject prod.inject)
  then show "f = g \<and> b = c" by (auto simp: on_off_def split: if_splits)
qed simp

lemma in_map_filter: "x \<in> set (List.map_filter g l) \<longleftrightarrow> (\<exists>y\<in>set l. g y = Some x)"
  by (induction l) (auto simp: List.map_filter_simps split: option.splits)

lemma on_off_args_eq:
  assumes "declared args"
  shows "on_off_args args = Inr (List.map_filter (\<lambda>(f, p). map_option (flag_arg f) (wanted args p)) cmake_options)"
proof -
  have c: "on_off_condition args f p = Inr (map_option (flag_arg f) (wanted args p))" if "(f, p) \<in> set cmake_options" for f p
    using cmake_options_declared [OF assms that] by (auto simp: on_off_condition_def getattribute_def wanted_def)
  have "res_fold (\<lambda>(cmake_flag, option_name) acc.
       res_bind (on_off_condition args cmake_flag option_name) (\<lambda>arg.
       Inr (case arg of None \<Rightarrow> acc | Some a \<Rightarrow> acc @ [a]))) os acc =
      Inr (acc @ List.map_filter (\<lambda>(f, p). map_option (flag_arg f) (wanted args p)) os)"
    if "set os \<subseteq> set cmake_options" for os acc using that
  proof (induction os arbitrary: acc)
    case (Cons fp os)
    obtain f p where fp: "fp = (f, p)" by fastforce
    show ?case using Cons.prems Cons.IH by (cases "wanted args p") (auto simp: fp c List.map_filter_simps)
  qed (simp add: List.map_filter_simps)
  from this [of cmake_options "[]"] show ?thesis by (simp add: on_off_args_def)
qed

text \<open>
  C29. Configuration flags: with the options that \<open>parse_args\<close> declares no attribute is missing, and the flag of an
  option is given to cmake exactly if the option was enabled or disabled, as \<open>ON\<close> only if it was enabled and not disabled.
\<close>

theorem on_off_args_correct:
  assumes "declared args" and "(flag, opt) \<in> set cmake_options"
  shows "\<exists>l. on_off_args args = Inr l \<and> (\<forall>b. flag_arg flag b \<in> set l \<longleftrightarrow> wanted args opt = Some b)"
proof -
  have "distinct (map fst cmake_options)" by code_simp
  then have u: "p = opt" if "(flag, p) \<in> set cmake_options" for p
    using that assms(2) by (meson eq_key_imp_eq_value)
  have "flag_arg flag b \<in> set (List.map_filter (\<lambda>(f, p). map_option (flag_arg f) (wanted args p)) cmake_options) \<longleftrightarrow>
      wanted args opt = Some b" for b
  proof
    assume "flag_arg flag b \<in> set (List.map_filter (\<lambda>(f, p). map_option (flag_arg f) (wanted args p)) cmake_options)"
    then obtain f p c where "(f, p) \<in> set cmake_options" "wanted args p = Some c" "flag_arg f c = flag_arg flag b"
      unfolding in_map_filter by auto
    then show "wanted args opt = Some b" using u by (auto simp: flag_arg_eq)
  next
    assume "wanted args opt = Some b"
    then show "flag_arg flag b \<in> set (List.map_filter (\<lambda>(f, p). map_option (flag_arg f) (wanted args p)) cmake_options)"
      unfolding in_map_filter by (intro bexI [OF _ assms(2)]) simp
  qed
  then show ?thesis using on_off_args_eq [OF assms(1)] by blast
qed

lemma in_dict_set: "x \<noteq> k \<Longrightarrow> (x, w) \<in> set (dict_set k v d) \<longleftrightarrow> (x, w) \<in> set d"
  by (induction d) (auto simp: dict_set_def)

lemma jobs_given_set: "\<not> is_substring ''jobs'' k \<Longrightarrow> set (jobs_given (dict_set k v args)) = set (jobs_given args)"
proof -
  assume "\<not> is_substring ''jobs'' k"
  then have "(x, w) \<in> set (dict_set k v args) \<longleftrightarrow> (x, w) \<in> set args" if "is_substring ''jobs'' x" for x w
    using that by (intro in_dict_set) auto
  then show ?thesis
    unfolding jobs_given_def filtered_attributes_def set_eq_iff in_map_filter by (fastforce split: if_splits)
qed

lemma find_set_missing:
  "dict_ok args \<Longrightarrow> k \<notin> set os \<Longrightarrow> dict_find (fold set_missing os args) k = dict_find args k"
  "dict_ok args \<Longrightarrow> dict_ok (fold set_missing os args)"
  by (induction os arbitrary: args) (auto simp: set_missing_def dict_ops)

lemma program_args_Inr:
  "program_args argv unknown args = Inr rest \<Longrightarrow> unknown = [] \<and> rest = [] \<or> after_separator argv = Some rest"
  by (auto simp: program_args_def res_bind_eq_Inr split: if_splits option.splits)

text \<open>
  Merged options: after the parsing \<open>--dry-run\<close>, \<open>--verbose\<close> and \<open>--quiet\<close> are set exactly if they were given to
  the program or to a sub-command, and the number of jobs is the least of those that were given, but never more
  than the number of threads.
\<close>

theorem parse_args_merges:
  assumes "parse_args threads argv (args, unknown) = Inr r" and "dict_ok args"
  shows "dict_find r ''dry_run'' = Some (VBool (merged_flag ''dry_run'' args)) \<and>
    dict_find r ''verbose'' = Some (VBool (merged_flag ''verbose'' args)) \<and>
    dict_find r ''quiet'' = Some (VBool (merged_flag ''quiet'' args)) \<and>
    (\<exists>j. dict_find r ''jobs'' = Some (VInt j) \<and> j \<le> threads \<and> j = Min (insert threads (set (jobs_given args)))) \<and>
    (\<exists>rest. dict_find r ''program_args'' = Some (VStrs rest) \<and> (unknown = [] \<and> rest = [] \<or> after_separator argv = Some rest))"
proof -
  let ?a = "fold (\<lambda>a args. dict_set a (VBool (merged_flag a args)) args) [''dry_run'', ''verbose'', ''quiet''] args"
  have ns: "\<not> is_substring ''verbose'' ''dry_run''" "\<not> is_substring ''quiet'' ''dry_run''" "\<not> is_substring ''quiet'' ''verbose''"
    "\<not> is_substring ''jobs'' ''dry_run''" "\<not> is_substring ''jobs'' ''verbose''" "\<not> is_substring ''jobs'' ''quiet''"
    by code_simp+
  have a: "dict_ok ?a" "dict_find ?a ''dry_run'' = Some (VBool (merged_flag ''dry_run'' args))"
      "dict_find ?a ''verbose'' = Some (VBool (merged_flag ''verbose'' args))"
      "dict_find ?a ''quiet'' = Some (VBool (merged_flag ''quiet'' args))" "set (jobs_given ?a) = set (jobs_given args)"
    using assms(2) by (simp_all add: dict_ops merged_flag_set [OF ns(1)] merged_flag_set [OF ns(2)] merged_flag_set [OF ns(3)]
        jobs_given_set [OF ns(4)] jobs_given_set [OF ns(5)] jobs_given_set [OF ns(6)])
  have "\<exists>j rest a4. merged_jobs threads ?a = Inr j \<and> r = dict_set ''program_args'' (VStrs rest) a4 \<and>
      program_args argv unknown a4 = Inr rest \<and>
      (a4 = fold set_missing positional_options (dict_set ''jobs'' (VInt j) ?a) \<or>
       a4 = dict_set ''enable_sudo'' (VBool True) (fold set_missing positional_options (dict_set ''jobs'' (VInt j) ?a)))"
    using assms(1) unfolding parse_args_def by (simp add: Let_def res_bind_eq_Inr split: if_splits) blast+
  then obtain j rest a4 where j: "merged_jobs threads ?a = Inr j" and r: "r = dict_set ''program_args'' (VStrs rest) a4"
      "program_args argv unknown a4 = Inr rest" and a4: "a4 = fold set_missing positional_options (dict_set ''jobs'' (VInt j) ?a) \<or>
       a4 = dict_set ''enable_sudo'' (VBool True) (fold set_missing positional_options (dict_set ''jobs'' (VInt j) ?a))" by blast
  have k: "dict_ok a4 \<and> dict_find a4 k = dict_find (dict_set ''jobs'' (VInt j) ?a) k" if "k \<notin> set positional_options" "k \<noteq> ''enable_sudo''" for k
    using a4 a(1) that find_set_missing [of "dict_set ''jobs'' (VInt j) ?a"] by (auto simp: dict_ops)
  have f: "dict_find r k = dict_find (dict_set ''jobs'' (VInt j) ?a) k"
    if "k \<notin> set positional_options" "k \<noteq> ''enable_sudo''" "k \<noteq> ''program_args''" for k
    using k [OF that(1,2)] that(3) by (simp add: r(1) dict_ops)
  have "dict_find r ''program_args'' = Some (VStrs rest)" using k [of "''jobs''"] by (simp add: r(1) dict_ops positional_options_def)
  moreover have "dict_find r ''jobs'' = Some (VInt j)" using f [of "''jobs''"] a(1) by (simp add: dict_ops positional_options_def)
  moreover have "dict_find r k = dict_find ?a k" if "k \<in> {''dry_run'', ''verbose'', ''quiet''}" for k
    using f [of k] a(1) that by (auto simp: dict_ops positional_options_def)
  ultimately show ?thesis
    using a(2-5) merged_jobs_le [OF j] merged_jobs_min [OF j] program_args_Inr [OF r(2)] by simp
qed

section \<open>Samples\<close>

definition sample_options :: namespace where
  "sample_options =
     concat (map (\<lambda>o'. map (\<lambda>n. (n, if n = ''enable_examples'' then VBool True else VNone)) (on_off_argument o')) on_off_options)"

theorem on_off_args_correct_witness:
  "\<exists>l. on_off_args sample_options = Inr l \<and> flag_arg ''EXAMPLES'' True \<in> set l \<and> flag_arg ''TESTS'' False \<notin> set l"
proof -
  have d: "declared sample_options" "(''EXAMPLES'', ''examples'') \<in> set cmake_options" "(''TESTS'', ''tests'') \<in> set cmake_options"
    "wanted sample_options ''examples'' = Some True" "wanted sample_options ''tests'' = None" by code_simp+
  show ?thesis using on_off_args_correct [OF d(1,2)] on_off_args_correct [OF d(1,3)] d(4,5) by auto
qed

definition sample_args :: namespace where
  "sample_args =
     [(''help'', VNone), (''dry_run'', VNone), (''run_dry_run'', VBool True), (''run_quiet'', VNone), (''verbose'', VBool False),
      (''jobs'', VInt 7), (''run_jobs'', VStr ''3''), (''run'', VStr ''first''), (''enable_sudo'', VBool False)]"

theorem parse_args_merges_witness:
  "\<exists>r. parse_args 7 [''run'', ''first'', ''--dry-run'', ''-j'', ''3'', ''--'', ''--x''] (sample_args, [''--x'']) = Inr r \<and>
    dict_find r ''dry_run'' = Some (VBool True) \<and> dict_find r ''quiet'' = Some (VBool False) \<and> dict_find r ''jobs'' = Some (VInt 3)"
proof -
  let ?p = "parse_args 7 [''run'', ''first'', ''--dry-run'', ''-j'', ''3'', ''--'', ''--x''] (sample_args, [''--x''])"
  have r: "?p = Inr (projr ?p)" by code_simp
  have v: "dict_ok sample_args" "merged_flag ''dry_run'' sample_args" "\<not> merged_flag ''quiet'' sample_args"
    "jobs_given sample_args = [7, 3]" by code_simp+
  show ?thesis using parse_args_merges [OF r v(1)] r v(2-4) by (intro exI [of _ "projr ?p"]) auto
qed

text \<open>An unknown option is dropped without a message if there is a separator anywhere after it.\<close>

lemma unknown_option_dropped:
  "parse_args 7 [''run'', ''first'', ''--bogus'', ''--'', ''--x''] (sample_args, [''--bogus'', ''--x'']) \<noteq> Inl e \<and>
   program_args [''run'', ''first'', ''--bogus'', ''--'', ''--x''] [''--bogus'', ''--x''] sample_args = Inr [''--x'']"
proof -
  have "\<exists>r. parse_args 7 [''run'', ''first'', ''--bogus'', ''--'', ''--x''] (sample_args, [''--bogus'', ''--x'']) = Inr r"
    by (rule exI) code_simp
  then show ?thesis by (auto simp: program_args_def after_separator_def)
qed

end
