(* ===== verification/Ns3_Shell.thy ===== *)
theory Ns3_Shell
  imports Ns3_Args Test_Jobs
begin

text \<open>
  \<open>src/ns3\<close>, second part: what the script finds and changes.  The state has the files and directories by their
  absolute names, the files with the suid bit, the environment, the processes that were started, the commands that are kept to be printed at the end, and what was
  printed.  The surrounding system is the record \<open>machine\<close>: what a process does to the files, with its return code and
  output, and what the variables of a lock file are.  POSIX path names are assumed.
\<close>

section \<open>State\<close>

text \<open>A file holds text, or what \<open>json.dump\<close> wrote.\<close>

datatype content = Text string | Json "(string, string) dict"

record shell =
  files :: "(string, content) dict"
  dirs :: "string list"
  suid :: "string list"
  executed :: "(string list \<times> string) list"
  print_buffer :: string
  printed :: "string list"
  run_verbose :: bool
  out_dir :: string
  env :: "(string, string) dict"

text \<open>The variables of a lock file; \<open>None\<close> for one that is not set.\<close>

record lock =
  l_modules :: "string list"
  l_contrib :: "string list option"
  l_profile :: "string option"
  l_version :: "string option"
  l_examples :: bool
  l_sudo :: bool
  l_tests :: bool
  l_python :: "bool option"
  l_scan :: "bool option"
  l_programs :: "string list option"
  l_scripts :: "string list option"
  l_out_dir :: "string option"

type_synonym disk = "(string, content) dict \<times> string list \<times> string list"

record machine =
  ns3_path :: string
  lock_file :: string
  launch_dir :: path
  which :: "string \<Rightarrow> string option"
  exec_lock :: "content \<Rightarrow> lock"
  process :: "(string, string) dict \<Rightarrow> string list \<Rightarrow> string \<Rightarrow> disk \<Rightarrow> disk \<times> int \<times> string \<times> string"

type_synonym 'a script = "(shell, 'a) act"

definition default_lock :: lock where
  "default_lock =
     \<lparr>l_modules = [], l_contrib = None, l_profile = None, l_version = None, l_examples = False, l_sudo = False, l_tests = False,
      l_python = None, l_scan = None, l_programs = None, l_scripts = None, l_out_dir = None\<rparr>"

section \<open>Messages and exits\<close>

definition print_line :: "string \<Rightarrow> unit script" where
  "print_line t = act_upd (\<lambda>s. s\<lparr>printed := printed s @ [t]\<rparr>)"

definition print_and_buffer :: "string \<Rightarrow> unit script" where
  "print_and_buffer message = act_upd (\<lambda>s. s\<lparr>print_buffer := print_buffer s @ [CHR 0x0A] @ message\<rparr>)"

definition exit_with :: "int \<Rightarrow> 'a script" where
  "exit_with code = act_fail (SystemExit code)"

definition exit_handler :: "bool \<Rightarrow> shell \<Rightarrow> shell" where
  "exit_handler dry_run s =
     (if \<not> dry_run \<and> \<not> run_verbose s then s
      else if print_buffer s = [] then s
      else s\<lparr>printed := printed s @
             (if dry_run then [''The following commands would be executed:'']
              else if run_verbose s then [''Finished executing the following commands:''] else []) @
             [drop 1 (print_buffer s)]\<rparr>)"

definition project_not_configured :: "'a script" where
  "project_not_configured =
     act_then (print_line ''You need to configure ns-3 first: try ./ns3 configure'') (exit_with 1)"

section \<open>Files\<close>

definition below :: "string \<Rightarrow> string \<Rightarrow> bool" where
  "below dir f \<longleftrightarrow> f = dir \<or> str_startswith f (dir @ ''/'')"

definition exists_path :: "string \<Rightarrow> shell \<Rightarrow> bool" where
  "exists_path p s \<longleftrightarrow> dict_has (files s) p \<or> p \<in> set (dirs s)"

definition dirname :: "string \<Rightarrow> string" where
  "dirname p = str_join ''/'' (butlast (str_split (CHR ''/'') p))"

definition relative :: "machine \<Rightarrow> string \<Rightarrow> string \<Rightarrow> string" where
  "relative m p start = relpath_str (launch_dir m) p start"

text \<open>\<open>glob\<close> with \<open>**\<close>: files below a directory, none of whose components starts with a dot.\<close>

definition glob_below :: "string \<Rightarrow> (string \<Rightarrow> bool) \<Rightarrow> shell \<Rightarrow> string list" where
  "glob_below base P s =
     filter (\<lambda>f. str_startswith f (base @ ''/'') \<and>
       (let parts = str_split (CHR ''/'') (drop (length base + 1) f)
        in list_all (\<lambda>c. c \<noteq> [] \<and> hd c \<noteq> CHR ''.'') parts \<and> P (last parts))) (map fst (files s))"

definition cmake_caches :: "machine \<Rightarrow> shell \<Rightarrow> string list" where
  "cmake_caches m s = glob_below (ns3_path m) (\<lambda>n. n = ''CMakeCache.txt'') s"

definition scratch_sources :: "machine \<Rightarrow> shell \<Rightarrow> string list" where
  "scratch_sources m s = glob_below (ns3_path m @ ''/scratch'') (\<lambda>n. str_endswith n ''.cc'') s"

definition remove_tree :: "string \<Rightarrow> unit script" where
  "remove_tree d = act_upd (\<lambda>s. s\<lparr>files := filter (\<lambda>(f, c). \<not> below d f) (files s), dirs := filter (\<lambda>f. \<not> below d f) (dirs s)\<rparr>)"

definition make_dir :: "string \<Rightarrow> unit script" where
  "make_dir d = act_upd (\<lambda>s. s\<lparr>dirs := (if d \<in> set (dirs s) then dirs s else dirs s @ [d])\<rparr>)"

definition remove_file :: "string \<Rightarrow> unit script" where
  "remove_file f = act_upd (\<lambda>s. s\<lparr>files := dict_rem f (files s)\<rparr>)"

definition write_content :: "string \<Rightarrow> content \<Rightarrow> unit script" where
  "write_content f c = act_upd (\<lambda>s. s\<lparr>files := dict_set f c (files s)\<rparr>)"

definition read_content :: "string \<Rightarrow> content script" where
  "read_content f = act_read (\<lambda>s. case dict_find (files s) f of None \<Rightarrow> Inl OSError | Some c \<Rightarrow> Inr c)"

fun text_of :: "content \<Rightarrow> string" where
  "text_of (Text t) = t"
| "text_of (Json d) = []"

section \<open>Processes\<close>

text \<open>A process gets an environment, its arguments and a directory; it may change the disk, and has a return code and output.\<close>

definition run_in :: "machine \<Rightarrow> (string, string) dict \<Rightarrow> string list \<Rightarrow> string \<Rightarrow> (int \<times> string \<times> string) script" where
  "run_in m e argv wd s =
     (case process m e argv wd (files s, dirs s, suid s) of ((fs, ds, us), code, out, err) \<Rightarrow>
      (s\<lparr>files := fs, dirs := ds, suid := us, executed := executed s @ [(argv, wd)]\<rparr>, Inr (code, out, err)))"

definition run_process :: "machine \<Rightarrow> string list \<Rightarrow> string \<Rightarrow> (int \<times> string \<times> string) script" where
  "run_process m argv wd s = run_in m (env s) argv wd s"

section \<open>Lock file and clean\<close>

text \<open>\<open>exec\<close> of the lock file in the global scope.\<close>

definition load_globals :: "machine \<Rightarrow> unit script" where
  "load_globals m s =
     (case dict_find (files s) (lock_file m) of
        None \<Rightarrow> (s, Inr ())
      | Some c \<Rightarrow> (case l_out_dir (exec_lock m c) of None \<Rightarrow> (s, Inr ()) | Some d \<Rightarrow> (s\<lparr>out_dir := d\<rparr>, Inr ())))"

definition lock_modules :: "lock \<Rightarrow> string list res" where
  "lock_modules l =
     (if l_modules l = [] then Inr []
      else res_bind (case l_contrib l of None \<Rightarrow> Inl KeyError | Some c \<Rightarrow> Inr c) (\<lambda>contrib.
           let mods = l_modules l @ contrib
           in res_bind (case l_python l of None \<Rightarrow> Inl KeyError | Some b \<Rightarrow> Inr b) (\<lambda>python.
              Inr (mods @ (if l_tests l then map (\<lambda>x. x @ ''-test'') mods else []) @
                   (if l_scan l = Some True then map (\<lambda>x. x @ ''-apiscan'') mods else []) @
                   (if python then map (\<lambda>x. x @ ''-bindings'') mods else [])))))"

definition check_lock_data :: "machine \<Rightarrow> (lock \<times> string list option) script" where
  "check_lock_data m s =
     (case dict_find (files s) (lock_file m) of
        Some c \<Rightarrow>
          if out_dir s = [] then (s, Inr (default_lock, None))
          else (s, res_bind (lock_modules (exec_lock m c)) (\<lambda>mods. Inr (exec_lock m c, Some mods)))
      | None \<Rightarrow> (s, Inr (default_lock, None)))"

definition clean_cmake_artifacts :: "machine \<Rightarrow> bool \<Rightarrow> unit script" where
  "clean_cmake_artifacts m dry_run =
     act_bind (act_read (\<lambda>s. Inr (out_dir s))) (\<lambda>out.
     act_then (print_and_buffer (''rm -R '' @ relative m out (ns3_path m)))
     (act_then (act_when (\<not> dry_run) (remove_tree out))
     (act_bind (act_read (\<lambda>s. Inr (cmake_caches m s))) (\<lambda>caches.
      act_then (act_each (\<lambda>f.
        act_then (print_and_buffer (''rm -R '' @ relative m (dirname f) (ns3_path m)))
          (act_when (\<not> dry_run) (remove_tree (dirname f)))) caches)
      (act_bind (act_read (\<lambda>s. Inr (exists_path (lock_file m) s))) (\<lambda>ex.
       act_when ex
         (act_then (print_and_buffer (''rm '' @ relative m (lock_file m) (ns3_path m)))
           (act_when (\<not> dry_run) (remove_file (lock_file m))))))))))"

section \<open>Clean\<close>

lemma act_each_pure:
  "(\<And>x s. f x s = (g x s, Inr ())) \<Longrightarrow> act_each f xs s = (fold g xs s, Inr ())"
proof -
  assume f: "\<And>x s. f x s = (g x s, Inr ())"
  have "act_map f xs s = (fold g xs s, Inr (replicate (length xs) ()))"
    by (induction xs arbitrary: s) (simp_all add: act_simps f)
  then show ?thesis by (simp add: act_each_def act_simps)
qed

lemma str_join_snoc: "ws \<noteq> [] \<Longrightarrow> str_join sep (ws @ [w]) = str_join sep ws @ sep @ w"
  by (induction sep ws rule: str_join.induct) auto

lemma dirname_basename:
  assumes "CHR ''/'' \<in> set p"
  shows "p = dirname p @ ''/'' @ basename p"
proof -
  let ?l = "str_split (CHR ''/'') p"
  have "?l \<noteq> [p]" using assms str_split_no_sep [of p "CHR ''/''" p] by force
  moreover have "p = str_join ''/'' ?l" by (simp add: str_join_split)
  ultimately have "butlast ?l \<noteq> []" by (cases ?l rule: rev_cases) auto
  then have "str_join ''/'' ?l = dirname p @ ''/'' @ basename p"
    using str_join_snoc [of "butlast ?l" "''/''" "last ?l"] by (simp add: dirname_def basename_def)
  then show ?thesis by (simp add: str_join_split)
qed

lemma below_dirname: "CHR ''/'' \<in> set p \<Longrightarrow> below (dirname p) p"
  using dirname_basename [of p] startswith_iff [of p "dirname p @ ''/''"] by (auto simp: below_def)

lemma cache_below: "c \<in> set (cmake_caches m s) \<Longrightarrow> below (dirname c) c"
  by (intro below_dirname) (auto simp: cmake_caches_def glob_below_def startswith_iff)

lemma glob_below_files:
  "files t = filter (\<lambda>(f, c). Q f) (files s) \<Longrightarrow> glob_below base P t = filter Q (glob_below base P s)"
  by (auto simp: glob_below_def filter_map comp_def split_def intro!: arg_cong [where f = "map fst"] filter_cong)

lemma fold_remove_files:
  "files (fold (\<lambda>x s. fst (remove_tree (d x) (f x s))) xs s) = filter (\<lambda>(f, c). \<not> list_ex (\<lambda>x. below (d x) f) xs) (files s)"
  if "\<And>x s. files (f x s) = files s"
  by (induction xs arbitrary: s) (auto simp: that remove_tree_def act_simps intro!: filter_cong)

text \<open>
  Clean removes the output directory, every folder with a cache of cmake and the lock file, so that no cache is left, and
  no other file.
\<close>

theorem clean_removes:
  assumes "dict_ok (files s)"
  shows "\<exists>t. clean_cmake_artifacts m False s = (t, Inr ()) \<and> cmake_caches m t = [] \<and>
    (\<forall>f. dict_find (files t) f =
      (if f = lock_file m \<or> below (out_dir s) f \<or> list_ex (\<lambda>c. \<not> below (out_dir s) c \<and> below (dirname c) f) (cmake_caches m s)
       then None else dict_find (files s) f))"
proof -
  define msg where "msg = (\<lambda>d. ''rm -R '' @ relative m d (ns3_path m))"
  define lock_msg where "lock_msg = ''rm '' @ relative m (lock_file m) (ns3_path m)"
  have msg: "''rm -R '' @ relative m d (ns3_path m) = msg d" for d by (simp add: msg_def)
  let ?o = "out_dir s" and ?g = "\<lambda>f s. fst (remove_tree (dirname f) (fst (print_and_buffer (msg (dirname f)) s)))"
  define s1 where "s1 = fst (remove_tree ?o (fst (print_and_buffer (msg ?o) s)))"
  define s2 where "s2 = fold ?g (cmake_caches m s1) s1"
  define t where "t = (if exists_path (lock_file m) s2 then fst (remove_file (lock_file m) (fst (print_and_buffer lock_msg s2))) else s2)"
  have each: "act_each (\<lambda>f. act_then (print_and_buffer (msg (dirname f))) (remove_tree (dirname f))) l u = (fold ?g l u, Inr ())" for l u
    by (rule act_each_pure) (simp add: act_simps print_and_buffer_def remove_tree_def)
  have run: "clean_cmake_artifacts m False s = (t, Inr ())"
    unfolding clean_cmake_artifacts_def act_when_def msg lock_msg_def [symmetric] not_False_eq_True if_True
    using each by (simp add: act_simps t_def s2_def s1_def) (simp add: print_and_buffer_def remove_tree_def remove_file_def act_simps)
  have f1: "files s1 = filter (\<lambda>(f, c). \<not> below ?o f) (files s)"
    by (simp add: s1_def remove_tree_def print_and_buffer_def act_simps)
  have c1: "cmake_caches m s1 = filter (\<lambda>f. \<not> below ?o f) (cmake_caches m s)"
    unfolding cmake_caches_def by (rule glob_below_files [OF f1])
  have f2: "files s2 = filter (\<lambda>(f, c). \<not> list_ex (\<lambda>x. below (dirname x) f) (cmake_caches m s1)) (files s1)"
    unfolding s2_def by (rule fold_remove_files) (simp add: print_and_buffer_def act_simps)
  have c2: "cmake_caches m s2 = []"
  proof -
    have "cmake_caches m s2 = filter (\<lambda>f. \<not> list_ex (\<lambda>x. below (dirname x) f) (cmake_caches m s1)) (cmake_caches m s1)"
      using glob_below_files [OF f2] by (simp add: cmake_caches_def)
    then show ?thesis using cache_below [of _ m s1] by (auto simp: filter_empty_conv list_ex_iff)
  qed
  have ok: "dict_ok (files s2)" using assms by (auto simp: f2 f1 dict_ok_def distinct_map_filter)
  have ft: "dict_find (files t) f = (if f = lock_file m then None else dict_find (files s2) f)" for f
    using ok by (auto simp: t_def remove_file_def print_and_buffer_def act_simps dict_ops exists_path_def dict_has_find)
  have d2: "dict_find (files s2) f =
      (if below ?o f \<or> list_ex (\<lambda>c. \<not> below ?o c \<and> below (dirname c) f) (cmake_caches m s) then None else dict_find (files s) f)" for f
    unfolding f2 f1 c1 dict_find_filter by (auto simp: list_ex_iff)
  have "files t = files s2 \<or> files t = dict_rem (lock_file m) (files s2)"
    by (simp add: t_def remove_file_def print_and_buffer_def act_simps)
  then have "set (cmake_caches m t) \<subseteq> set (cmake_caches m s2)"
    by (auto simp: cmake_caches_def glob_below_def dict_rem_def AList.delete_eq)
  then show ?thesis using run ft d2 c2 by (intro exI [of _ t]) simp
qed

text \<open>A dry run of it only notes the commands.\<close>

lemma clean_dry_run:
  "act_keeps (\<lambda>s. (files s, dirs s, suid s, executed s) = d) (clean_cmake_artifacts m True)"
  unfolding clean_cmake_artifacts_def act_when_def act_each_def
  by (auto intro!: keeps_intros act_keeps_upd simp: print_and_buffer_def)

section \<open>A sample machine\<close>

definition sample_machine :: machine where
  "sample_machine =
     \<lparr>ns3_path = ''/ns3'', lock_file = ''/ns3/.lock'', launch_dir = [''ns3''],
      which = (\<lambda>p. if p \<in> {''cmake'', ''make''} then Some (''/usr/bin/'' @ p) else None),
      exec_lock = (\<lambda>c. default_lock\<lparr>l_modules := [''ns3-core''], l_contrib := Some [], l_python := Some False, l_profile := Some ''default'',
        l_version := Some ''3.36'', l_programs := Some [''/ns3/build/examples/ns3.36-first-default''], l_scripts := Some []\<rparr>),
      process = (\<lambda>e argv wd disk. (disk, 0, if tl argv = [''--version''] then ''cmake version 3.22.1'' else [], []))\<rparr>"

definition sample_shell :: shell where
  "sample_shell =
     \<lparr>files = [(''/ns3/.lock'', Text []), (''/ns3/cache/CMakeCache.txt'', Text (''build_profile:INTERNAL=default'' @ [CHR 0x0A] @ ''CMAKE_GENERATOR:INTERNAL=Ninja'')),
        (''/ns3/build/examples/ns3.36-first-default'', Text []), (''/ns3/scratch/a.cc'', Text [])],
      dirs = [''/ns3'', ''/ns3/cache'', ''/ns3/build''], suid = [], executed = [], print_buffer = [], printed = [], run_verbose = True,
      out_dir = ''/ns3/build'', env = []\<rparr>"

theorem clean_removes_witness:
  "\<exists>t. clean_cmake_artifacts sample_machine False sample_shell = (t, Inr ()) \<and>
     dict_find (files t) ''/ns3/cache/CMakeCache.txt'' = None \<and> dict_find (files t) ''/ns3/scratch/a.cc'' = Some (Text [])"
proof -
  have "dict_ok (files sample_shell)" by code_simp
  from clean_removes [OF this, of sample_machine] obtain t where
    t: "clean_cmake_artifacts sample_machine False sample_shell = (t, Inr ())"
       "\<And>f. dict_find (files t) f = (if f = lock_file sample_machine \<or> below (out_dir sample_shell) f \<or>
          list_ex (\<lambda>c. \<not> below (out_dir sample_shell) c \<and> below (dirname c) f) (cmake_caches sample_machine sample_shell)
        then None else dict_find (files sample_shell) f)" by blast
  have "list_ex (\<lambda>c. \<not> below (out_dir sample_shell) c \<and> below (dirname c) ''/ns3/cache/CMakeCache.txt'') (cmake_caches sample_machine sample_shell)"
    "\<not> (''/ns3/scratch/a.cc'' = lock_file sample_machine \<or> below (out_dir sample_shell) ''/ns3/scratch/a.cc'' \<or>
      list_ex (\<lambda>c. \<not> below (out_dir sample_shell) c \<and> below (dirname c) ''/ns3/scratch/a.cc'') (cmake_caches sample_machine sample_shell))"
    "dict_find (files sample_shell) ''/ns3/scratch/a.cc'' = Some (Text [])" by code_simp+
  then show ?thesis using t by auto
qed

end
