(* ===== verification/Ns3_Cmake.thy ===== *)
theory Ns3_Cmake
  imports Ns3_Shell
begin

text \<open>
  \<open>src/ns3\<close>, third part: finding the cache of cmake, configuring, building and the refresh of a cache with its
  settings.
\<close>

section \<open>Options\<close>

text \<open>
  The namespace that \<open>parse_args\<close> returns, as far as the rest of the script reads it.  \<open>o_build\<close> is \<open>None\<close> if there
  is no attribute \<open>build\<close>; a positional option that was not given is empty or false.
\<close>

record ns3_options =
  o_build :: "string list option"
  o_configure :: bool
  o_clean :: bool
  o_install :: bool
  o_uninstall :: bool
  o_shell :: bool
  o_run :: string
  o_docs :: string
  o_show :: string
  o_dry_run :: bool
  o_quiet :: bool
  o_verbose :: bool
  o_run_verbose :: bool
  o_jobs :: int
  o_program_args :: "string list"
  o_no_build :: bool
  o_command_template :: "string option"
  o_cwd :: "string option"
  o_gdb :: bool
  o_lldb :: bool
  o_valgrind :: bool
  o_visualize :: bool
  o_enable_sudo :: bool
  o_build_profile :: "string option"
  o_G :: "string option"
  o_cxx_standard :: "string option"
  o_on_off :: namespace
  o_lcov_zerocounters :: "bool option"
  o_output_directory :: "string option"
  o_with_brite :: "string option"
  o_with_click :: "string option"
  o_with_openflow :: "string option"
  o_prefix :: "string option"
  o_enable_modules :: "string option"
  o_disable_modules :: "string option"
  o_force_refresh :: bool
  o_trace_cmake_perf :: bool

section \<open>The cache\<close>

text \<open>The part of a line after the last \<open>=\<close>.\<close>

definition after_equals :: "string \<Rightarrow> string" where
  "after_equals line = last (str_split (CHR ''='') line)"

text \<open>The folder and the generator that have been found; an empty generator counts as none.\<close>

type_synonym found = "string option \<times> string"

definition found_both :: "found \<Rightarrow> bool" where
  "found_both r \<longleftrightarrow> fst r \<noteq> None \<and> snd r \<noteq> []"

definition cache_line :: "string option \<Rightarrow> string \<Rightarrow> string \<Rightarrow> found \<Rightarrow> found" where
  "cache_line build_profile f line r =
     (let folder = (if is_substring ''build_profile:INTERNAL'' line
                    then (case build_profile of
                            None \<Rightarrow> Some (dirname f)
                          | Some p \<Rightarrow> if p = [] \<or> p = after_equals line then Some (dirname f) else fst r)
                    else fst r);
          generator = (if is_substring ''CMAKE_GENERATOR:'' line then after_equals line else snd r)
      in (folder, generator))"

fun cache_lines :: "string option \<Rightarrow> string \<Rightarrow> string list \<Rightarrow> found \<Rightarrow> found" where
  "cache_lines build_profile f [] r = r"
| "cache_lines build_profile f (line # rest) r =
     (if found_both r then r else cache_lines build_profile f rest (cache_line build_profile f line r))"

fun search_caches :: "string option \<Rightarrow> (string \<times> string) list \<Rightarrow> found \<Rightarrow> found" where
  "search_caches build_profile [] r = r"
| "search_caches build_profile ((f, t) # rest) r =
     (if found_both r then r
      else search_caches build_profile rest (cache_lines build_profile f (str_split (CHR 0x0A) t) (None, [])))"

definition cmake_generator_map :: "(string, string) dict" where
  "cmake_generator_map = [(''ninja'', ''Ninja''), (''make'', ''Unix Makefiles''), (''xcodebuild'', ''Xcode'')]"

definition search_cmake_cache :: "machine \<Rightarrow> string option \<Rightarrow> (string option \<times> string) script" where
  "search_cmake_cache m build_profile s =
     (s, let caches = map (\<lambda>f. (f, case dict_find (files s) f of None \<Rightarrow> [] | Some c \<Rightarrow> text_of c)) (cmake_caches m s);
             r = search_caches build_profile caches (None, [])
         in if snd r \<noteq> [] then Inr r
            else (case filter (\<lambda>g. which m g \<noteq> None) (map fst cmake_generator_map) of
                    [] \<Rightarrow> Inl (Exception ''No generator available.'')
                  | g # _ \<Rightarrow> res_bind (dict_get cmake_generator_map g) (\<lambda>name. Inr (fst r, name))))"

definition project_configured :: "string option \<Rightarrow> shell \<Rightarrow> bool" where
  "project_configured folder s =
     (case folder of None \<Rightarrow> False
      | Some d \<Rightarrow> d \<noteq> [] \<and> exists_path d s \<and> exists_path (d @ ''/CMakeCache.txt'') s)"

definition check_config :: "string option \<Rightarrow> unit script" where
  "check_config folder =
     (case folder of
        None \<Rightarrow> project_not_configured
      | Some d \<Rightarrow>
          act_bind (act_read (\<lambda>s. Inr (exists_path (d @ ''/ns3config.txt'') s))) (\<lambda>ex.
          if ex then act_bind (read_content (d @ ''/ns3config.txt'')) (\<lambda>c. print_line (text_of c))
          else project_not_configured))"

section \<open>Versions\<close>

definition parse_version :: "string \<Rightarrow> int list res" where
  "parse_version version_str =
     res_fold (\<lambda>w acc. res_bind (py_int w) (\<lambda>i. Inr (acc @ [i]))) (str_split (CHR ''.'') version_str) []"

text \<open>The order of tuples.\<close>

fun tuple_less :: "int list \<Rightarrow> int list \<Rightarrow> bool" where
  "tuple_less [] ys = (ys \<noteq> [])"
| "tuple_less (x # xs) [] = False"
| "tuple_less (x # xs) (y # ys) = (x < y \<or> x = y \<and> tuple_less xs ys)"

text \<open>The first match of \<open>version (.*)\<close>.\<close>

fun find_version :: "string \<Rightarrow> string option" where
  "find_version [] = None"
| "find_version (c # cs) =
     (case re_lit ''version '' (c # cs) of
        Some rest \<Rightarrow> Some (takeWhile (\<lambda>x. x \<noteq> CHR 0x0A) rest)
      | None \<Rightarrow> find_version cs)"

text \<open>\<open>subprocess.check_output\<close> starts \<open>cmake --version\<close> in the directory of the script, also in a dry run.\<close>

definition working_dir :: "machine \<Rightarrow> string" where
  "working_dir m = path_str (launch_dir m)"

definition cmake_check_version :: "machine \<Rightarrow> (string \<times> string) script" where
  "cmake_check_version m =
     (case which m ''cmake'' of
        None \<Rightarrow> act_then (print_line ''Error:  CMake not found; please install version 3.10 or greater, or modify $PATH'') (exit_with 1)
      | Some cmake \<Rightarrow>
          act_bind (run_process m [cmake, ''--version''] (working_dir m)) (\<lambda>(code, out, err).
          if code \<noteq> 0 then act_fail (Exception ''CalledProcessError'') else
          act_bind (act_lift (case find_version out of None \<Rightarrow> Inl IndexError | Some v \<Rightarrow> Inr v)) (\<lambda>version.
          act_bind (act_lift (parse_version version)) (\<lambda>v.
          act_bind (act_lift (parse_version ''3.10.0'')) (\<lambda>least.
          if tuple_less v least
          then act_then (print_line (''Error:  CMake found at '' @ cmake @ '' but version '' @ version @ '' is older than 3.10'')) (exit_with 1)
          else act_ret (cmake, version))))))"

section \<open>Configuration\<close>

definition opt_arg :: "string \<Rightarrow> string option \<Rightarrow> string list" where
  "opt_arg flag v = (case v of None \<Rightarrow> [] | Some t \<Rightarrow> [flag @ t])"

definition profile_args :: "string \<Rightarrow> string list res" where
  "profile_args build_profile =
     (let p = str_lower build_profile
      in if p \<notin> {''debug'', ''default'', ''release'', ''optimized''} then Inl (Exception ''Unknown build type'')
         else Inr ((if p = ''debug'' then [''-DCMAKE_BUILD_TYPE=debug'', ''-DNS3_ASSERT=ON'', ''-DNS3_LOG=ON'', ''-DNS3_WARNINGS_AS_ERRORS=ON'']
                    else if p = ''default'' then [''-DCMAKE_BUILD_TYPE=default'', ''-DNS3_ASSERT=ON'', ''-DNS3_LOG=ON'', ''-DNS3_WARNINGS_AS_ERRORS=OFF'']
                    else [''-DCMAKE_BUILD_TYPE=release'', ''-DNS3_ASSERT=OFF'', ''-DNS3_LOG=OFF'', ''-DNS3_WARNINGS_AS_ERRORS=OFF'']) @
                   [''-DNS3_NATIVE_OPTIMIZATIONS='' @ on_off (p = ''optimized'')]))"

text \<open>The arguments that only a new cache gets.\<close>

definition new_cache_args :: "ns3_options \<Rightarrow> string list res" where
  "new_cache_args args =
     res_bind (profile_args (case o_build_profile args of None \<Rightarrow> ''default'' | Some p \<Rightarrow> p)) (\<lambda>p.
     Inr (opt_arg ''-DCMAKE_CXX_STANDARD='' (o_cxx_standard args) @ p))"

definition given_generator :: "bool \<Rightarrow> string \<Rightarrow> ns3_options \<Rightarrow> string option" where
  "given_generator configured generator args =
     (case o_G args of Some g \<Rightarrow> Some g | None \<Rightarrow> if configured then None else Some generator)"

definition truthy_arg :: "string \<Rightarrow> string option \<Rightarrow> string list" where
  "truthy_arg flag v = (case v of None \<Rightarrow> [] | Some t \<Rightarrow> if t = [] then [] else [flag @ t])"

definition configure_args :: "machine \<Rightarrow> string \<Rightarrow> ns3_options \<Rightarrow> bool \<Rightarrow> string \<Rightarrow> string \<Rightarrow> string list res" where
  "configure_args m cmake args configured folder generator =
     res_bind (if configured then Inr [] else new_cache_args args) (\<lambda>fresh.
     res_bind (on_off_args (o_on_off args)) (\<lambda>flags.
     Inr ([cmake] @ fresh @ flags @
       (case o_lcov_zerocounters args of None \<Rightarrow> [] | Some b \<Rightarrow> [''-DNS3_COVERAGE_ZERO_COUNTERS='' @ on_off b]) @
       opt_arg ''-DNS3_OUTPUT_DIRECTORY='' (o_output_directory args) @
       opt_arg ''-DNS3_WITH_BRITE='' (o_with_brite args) @
       opt_arg ''-DNS3_WITH_CLICK='' (o_with_click args) @
       opt_arg ''-DNS3_WITH_OPENFLOW='' (o_with_openflow args) @
       opt_arg ''-DCMAKE_INSTALL_PREFIX='' (o_prefix args) @
       truthy_arg ''-DNS3_ENABLED_MODULES='' (o_enable_modules args) @
       truthy_arg ''-DNS3_DISABLED_MODULES='' (o_disable_modules args) @
       (case given_generator configured generator args of None \<Rightarrow> [] | Some g \<Rightarrow> if g = [] then [] else [''-G'', g]) @
       (if o_trace_cmake_perf args
        then [''--profiling-format=google-trace'',
              ''--profiling-output='' @ path_join (relative m (ns3_path m) folder) ''cmake_performance_trace.log''] else []) @
       o_program_args args @ [''..''])))"

definition buffer_command :: "machine \<Rightarrow> string \<Rightarrow> string \<Rightarrow> unit script" where
  "buffer_command m folder command =
     print_and_buffer (''cd '' @ relative m folder (ns3_path m) @ ''; '' @ command @ '' ; cd '' @ relative m (ns3_path m) folder)"

definition update_scratches_list :: "machine \<Rightarrow> string \<Rightarrow> unit script" where
  "update_scratches_list m folder =
     act_bind (act_read (\<lambda>s. Inr (scratch_sources m s))) (\<lambda>srcs.
     write_content (path_join folder ''ns3scratches'') (Text (str_join [CHR 0x0A] srcs)))"

definition configure_cmake :: "machine \<Rightarrow> string \<Rightarrow> ns3_options \<Rightarrow> string option \<Rightarrow> string \<Rightarrow> bool \<Rightarrow> unit script" where
  "configure_cmake m cmake args current generator dry_run =
     act_bind (act_read (\<lambda>s. Inr (project_configured current s))) (\<lambda>configured.
     let folder = (if configured then the current else ns3_path m @ ''/cmake-cache'')
     in act_bind (act_read (\<lambda>s. Inr (exists_path folder s))) (\<lambda>ex.
        act_then (act_when (\<not> configured \<and> \<not> ex)
          (act_then (print_and_buffer (''mkdir '' @ relative m folder (ns3_path m))) (act_when (\<not> dry_run) (make_dir folder))))
        (act_bind (act_lift (configure_args m cmake args configured folder generator)) (\<lambda>cmake_args.
         act_then (buffer_command m folder (str_join '' '' cmake_args))
          (act_when (\<not> dry_run)
            (act_bind (run_process m cmake_args folder) (\<lambda>(code, out, err).
             act_then (act_when (code \<noteq> 0) (exit_with code)) (update_scratches_list m folder))))))))"

definition refresh_cmake :: "machine \<Rightarrow> string \<Rightarrow> unit script" where
  "refresh_cmake m folder =
     act_bind (act_lift (case which m ''cmake'' of None \<Rightarrow> Inl TypeError | Some c \<Rightarrow> Inr c)) (\<lambda>cmake.
     act_bind (run_process m [cmake, ''..''] folder) (\<lambda>(code, out, err).
     act_then (act_when (code \<noteq> 0) (exit_with code)) (update_scratches_list m folder)))"

section \<open>Building\<close>

definition build_command :: "int list \<Rightarrow> int \<Rightarrow> string option \<Rightarrow> string" where
  "build_command version jobs target =
     ''cmake --build . '' @ (if tuple_less version [3, 12, 0] then [] else ''-j '' @ str_int jobs) @
     (case target of None \<Rightarrow> [] | Some t \<Rightarrow> if t = [] then [] else '' --target '' @ t)"

definition cmake_build :: "machine \<Rightarrow> string option \<Rightarrow> ns3_options \<Rightarrow> string option \<Rightarrow> unit script" where
  "cmake_build m folder args target =
     act_bind (cmake_check_version m) (\<lambda>(cmake, version).
     act_bind (act_lift (parse_version version)) (\<lambda>v.
     act_bind (act_lift (case folder of None \<Rightarrow> Inl TypeError | Some d \<Rightarrow> Inr d)) (\<lambda>d.
     act_then (buffer_command m d (build_command v (o_jobs args) target))
       (act_when (\<not> o_dry_run args)
         (act_bind (act_read (\<lambda>s. Inr (if o_verbose args then dict_set ''VERBOSE'' ''1'' (env s) else env s))) (\<lambda>e.
          act_bind (run_in m e (str_words (build_command v (o_jobs args) target)) d) (\<lambda>(code, out, err).
          act_then (act_when (code \<noteq> 0 \<and> o_quiet args) (act_then (print_line out) (print_line err)))
            (act_when (code \<noteq> 0) (exit_with code)))))))))"

section \<open>Refresh with the settings of the cache\<close>

text \<open>
  A line of the cache that matches \<open>(NS3_.*):.*=(.*)\<close>: the value is what follows the last \<open>=\<close>, the name ends at the last
  colon before it and starts at the first \<open>NS3_\<close>.
\<close>

fun from_first :: "string \<Rightarrow> string \<Rightarrow> string option" where
  "from_first p [] = None"
| "from_first p (c # cs) = (if str_startswith (c # cs) p then Some (c # cs) else from_first p cs)"

definition match_setting :: "string \<Rightarrow> (string \<times> string) option" where
  "match_setting line =
     (case split_last (CHR ''='') line of
        None \<Rightarrow> None
      | Some (left, value) \<Rightarrow>
          (case split_last (CHR '':'') left of
             None \<Rightarrow> None
           | Some (name, kind) \<Rightarrow> map_option (\<lambda>n. (n, value)) (from_first ''NS3_'' name)))"

text \<open>A line that matches \<open>(name):.*=(.*)\<close>.\<close>

definition match_named :: "string \<Rightarrow> string \<Rightarrow> (string \<times> string) option" where
  "match_named name line =
     (case from_first (name @ '':'') line of
        None \<Rightarrow> None
      | Some rest \<Rightarrow> map_option (\<lambda>(left, value). (name, value)) (split_last (CHR ''='') (drop (length name + 1) rest)))"

definition cache_names :: "string list" where
  "cache_names = [''CMAKE_BUILD_TYPE'', ''CMAKE_GENERATOR'', ''CMAKE_CXX_COMPILER'', ''CMAKE_CXX_FLAGS'', ''CMAKE_C_COMPILER'',
     ''CMAKE_C_FLAGS'', ''CMAKE_INSTALL_PREFIX'']"

definition cache_settings :: "string \<Rightarrow> (string, string) dict" where
  "cache_settings contents =
     (let lines = str_split (CHR 0x0A) contents
      in fold (\<lambda>(k, v). dict_set k v)
           (List.map_filter match_setting lines @ concat (map (\<lambda>n. List.map_filter (match_named n) lines) cache_names)) [])"

definition extract_cmakecache_settings :: "string option \<Rightarrow> (string, string) dict script" where
  "extract_cmakecache_settings folder =
     act_bind (act_lift (case folder of None \<Rightarrow> Inl TypeError | Some d \<Rightarrow> Inr d)) (\<lambda>d.
     act_bind (read_content (d @ ''/CMakeCache.txt'')) (\<lambda>c.
     act_lift (dict_del ''NS3_INT64X64-STRINGS'' (cache_settings (text_of c)))))"

text \<open>\<open>settings.json\<close> is a name relative to the directory in which the script was started.\<close>

definition settings_bak_file :: string where
  "settings_bak_file = ''settings.json''"

definition refresh_settings :: "string option \<Rightarrow> (string, string) dict script" where
  "refresh_settings folder =
     act_bind (act_read (\<lambda>s. Inr (dict_find (files s) settings_bak_file))) (\<lambda>bak.
     case bak of
       None \<Rightarrow> extract_cmakecache_settings folder
     | Some (Json d) \<Rightarrow> act_ret d
     | Some (Text t) \<Rightarrow> act_fail (ValueError ''Expecting value''))"

definition refresh_args :: "string \<Rightarrow> (string, string) dict \<Rightarrow> string list" where
  "refresh_args cmake settings =
     [cmake] @ map (\<lambda>(k, v). ''-D'' @ k @ ''='' @ v) (filter (\<lambda>(k, v). v \<noteq> []) settings) @ [''..'']"

definition delete_message :: "machine \<Rightarrow> string \<Rightarrow> string" where
  "delete_message m d = (let cache_path = relative m d (ns3_path m) in ''rm -R '' @ cache_path @ ''; mkdir '' @ cache_path)"

definition refresh_message :: "machine \<Rightarrow> string \<Rightarrow> string list \<Rightarrow> string" where
  "refresh_message m d cmake_args =
     ''cd '' @ relative m (ns3_path m) d @ ''; '' @ str_join '' '' cmake_args @ '' ; cd '' @ relative m d (ns3_path m)"

definition refresh_failed :: string where
  "refresh_failed = ''Reconfiguring CMake to force refresh failed. A backup of the settings was saved in '' @ settings_bak_file"

definition reconfigure_cmake_to_force_refresh :: "machine \<Rightarrow> string \<Rightarrow> string option \<Rightarrow> bool \<Rightarrow> unit script" where
  "reconfigure_cmake_to_force_refresh m cmake folder dry_run =
     act_bind (refresh_settings folder) (\<lambda>settings.
     act_bind (act_lift (case folder of None \<Rightarrow> Inl TypeError | Some d \<Rightarrow> Inr d)) (\<lambda>d.
     let cmake_args = refresh_args cmake settings
     in act_then (print_and_buffer (delete_message m d))
        (act_then (act_when (\<not> dry_run)
           (act_bind (act_read (\<lambda>s. Inr (exists_path d s))) (\<lambda>ex.
            if ex then act_then (remove_tree d) (make_dir d) else act_fail OSError)))
        (act_then (write_content settings_bak_file (Json settings))
        (act_then (print_and_buffer (refresh_message m d cmake_args))
          (act_when (\<not> dry_run)
            (act_bind (run_process m cmake_args d) (\<lambda>(code, out, err).
             act_then (if code = 0 then remove_file settings_bak_file
                       else act_fail (Exception refresh_failed))
               (update_scratches_list m d)))))))))"

definition configuration_step :: "machine \<Rightarrow> string option \<Rightarrow> string \<Rightarrow> ns3_options \<Rightarrow> unit script" where
  "configuration_step m folder generator args =
     act_bind (cmake_check_version m) (\<lambda>(cmake, version).
     if o_force_refresh args
     then act_then (reconfigure_cmake_to_force_refresh m cmake folder (o_dry_run args)) (exit_with 0)
     else act_then (configure_cmake m cmake args folder generator (o_dry_run args)) (exit_with 0))"

section \<open>The cache that is found\<close>

definition profile_line :: "string option \<Rightarrow> string \<Rightarrow> bool" where
  "profile_line profile line \<longleftrightarrow> is_substring ''build_profile:INTERNAL'' line \<and>
     (profile = None \<or> profile = Some [] \<or> profile = Some (after_equals line))"

definition generator_line :: "string \<Rightarrow> string \<Rightarrow> bool" where
  "generator_line generator line \<longleftrightarrow> is_substring ''CMAKE_GENERATOR:'' line \<and> after_equals line = generator"

text \<open>What was found comes from one cache.\<close>

definition from_cache :: "string option \<Rightarrow> string \<Rightarrow> string list \<Rightarrow> found \<Rightarrow> bool" where
  "from_cache profile f lines r \<longleftrightarrow>
     (fst r = None \<or> fst r = Some (dirname f) \<and> list_ex (profile_line profile) lines) \<and>
     (snd r = [] \<or> list_ex (generator_line (snd r)) lines)"

lemma cache_line_eq:
  "cache_line profile f line r =
     (if profile_line profile line then Some (dirname f) else fst r,
      if is_substring ''CMAKE_GENERATOR:'' line then after_equals line else snd r)"
  by (auto simp: cache_line_def profile_line_def Let_def split: option.splits)

lemma cache_lines_from:
  "from_cache profile f all r \<Longrightarrow> set lines \<subseteq> set all \<Longrightarrow> from_cache profile f all (cache_lines profile f lines r)"
proof (induction lines arbitrary: r)
  case (Cons line lines)
  have "from_cache profile f all (cache_line profile f line r)"
    using Cons.prems by (auto simp: from_cache_def cache_line_eq list_ex_iff generator_line_def)
  then show ?case using Cons by simp
qed simp

lemma search_caches_from:
  "search_caches profile caches r = r \<or> search_caches profile caches r = (None, []) \<or>
   (\<exists>(f, t)\<in>set caches. from_cache profile f (str_split (CHR 0x0A) t) (search_caches profile caches r))"
proof (induction profile caches r rule: search_caches.induct)
  case (2 profile f t rest r)
  let ?lines = "str_split (CHR 0x0A) t"
  have "from_cache profile f ?lines (cache_lines profile f ?lines (None, []))"
    by (rule cache_lines_from) (simp_all add: from_cache_def)
  then show ?case using 2 by (cases "found_both r") auto
qed simp

text \<open>A cache that has both lines is enough.\<close>

lemma cache_lines_finds:
  assumes "list_ex (profile_line profile) lines \<or> fst r \<noteq> None"
    and "list_ex (is_substring ''CMAKE_GENERATOR:'') lines \<or> snd r \<noteq> []"
    and "list_all (\<lambda>l. is_substring ''CMAKE_GENERATOR:'' l \<longrightarrow> after_equals l \<noteq> []) lines"
  shows "found_both (cache_lines profile f lines r)"
  using assms
proof (induction lines arbitrary: r)
  case (Cons line lines)
  show ?case
  proof (cases "found_both r")
    case False
    have "found_both (cache_lines profile f lines (cache_line profile f line r))"
      by (rule Cons.IH) (use Cons.prems in \<open>auto simp: cache_line_eq\<close>)
    then show ?thesis using False by simp
  qed simp
qed (simp add: found_both_def)

definition complete_cache :: "string option \<Rightarrow> string \<Rightarrow> bool" where
  "complete_cache profile t \<longleftrightarrow>
     (let lines = str_split (CHR 0x0A) t
      in list_ex (profile_line profile) lines \<and> list_ex (is_substring ''CMAKE_GENERATOR:'') lines \<and>
         list_all (\<lambda>l. is_substring ''CMAKE_GENERATOR:'' l \<longrightarrow> after_equals l \<noteq> []) lines)"

lemma search_caches_finds:
  "list_ex (\<lambda>(f, t). complete_cache profile t) caches \<or> found_both r \<Longrightarrow> found_both (search_caches profile caches r)"
proof (induction profile caches r rule: search_caches.induct)
  case (2 profile f t rest r)
  have "complete_cache profile t \<Longrightarrow> found_both (cache_lines profile f (str_split (CHR 0x0A) t) (None, []))"
    by (rule cache_lines_finds) (simp_all add: complete_cache_def Let_def)
  then show ?case using 2 by auto
qed simp

definition cache_text :: "shell \<Rightarrow> string \<Rightarrow> string" where
  "cache_text s f = (case dict_find (files s) f of None \<Rightarrow> [] | Some c \<Rightarrow> text_of c)"

text \<open>
  C27. The cache: a folder that is found is that of a cache with the build profile, the generator is the one of that cache or
  one that is installed, nothing changes, and a folder is found if there is a cache with the profile and a generator.
\<close>

theorem search_cmake_cache_correct:
  assumes "search_cmake_cache m profile s = (t, Inr (folder, generator))"
  shows "t = s \<and>
    (\<forall>d. folder = Some d \<longrightarrow> (\<exists>f\<in>set (cmake_caches m s). d = dirname f \<and> list_ex (profile_line profile) (str_split (CHR 0x0A) (cache_text s f)) \<and>
      (list_ex (generator_line generator) (str_split (CHR 0x0A) (cache_text s f)) \<or>
       (\<exists>g. which m g \<noteq> None \<and> dict_find cmake_generator_map g = Some generator)))) \<and>
    (list_ex (\<lambda>f. complete_cache profile (cache_text s f)) (cmake_caches m s) \<longrightarrow> folder \<noteq> None)"
proof -
  define caches where "caches = map (\<lambda>f. (f, cache_text s f)) (cmake_caches m s)"
  define r where "r = search_caches profile caches (None, [])"
  have run: "t = s" "folder = fst r"
      "snd r \<noteq> [] \<and> generator = snd r \<or> snd r = [] \<and> (\<exists>g. which m g \<noteq> None \<and> dict_find cmake_generator_map g = Some generator)"
    using assms unfolding search_cmake_cache_def cache_text_def [symmetric] caches_def [symmetric]
    by (auto simp: r_def Let_def dict_simps filter_eq_Cons_iff res_bind_eq_Inr split: if_splits list.splits)
  have "\<exists>f\<in>set (cmake_caches m s). d = dirname f \<and> list_ex (profile_line profile) (str_split (CHR 0x0A) (cache_text s f)) \<and>
      (list_ex (generator_line generator) (str_split (CHR 0x0A) (cache_text s f)) \<or>
       (\<exists>g. which m g \<noteq> None \<and> dict_find cmake_generator_map g = Some generator))" if "folder = Some d" for d
  proof -
    have "\<exists>(f, t)\<in>set caches. from_cache profile f (str_split (CHR 0x0A) t) r"
      using search_caches_from [of profile caches "(None, [])"] that run(2) unfolding r_def by auto
    then show ?thesis using run that unfolding caches_def from_cache_def by fastforce
  qed
  moreover have "folder \<noteq> None" if "list_ex (\<lambda>f. complete_cache profile (cache_text s f)) (cmake_caches m s)"
    using search_caches_finds [of profile caches "(None, [])"] that run(2)
    by (auto simp: caches_def r_def found_both_def list_ex_iff)
  ultimately show ?thesis using run(1) by blast
qed

section \<open>The settings of a cache\<close>

lemma from_first_prefix: "p \<noteq> [] \<Longrightarrow> from_first p (p @ s) = Some (p @ s)"
  by (cases p) (simp_all add: str_startswith_def)

lemma match_setting_line:
  assumes "str_startswith k ''NS3_''" and "CHR '':'' \<notin> set ty" and "CHR ''='' \<notin> set v"
  shows "match_setting (k @ '':'' @ ty @ ''='' @ v) = Some (k, v)"
proof -
  obtain k' where k: "k = ''NS3_'' @ k'" using assms(1) by (auto simp: startswith_iff)
  have "split_last (CHR ''='') (k @ '':'' @ ty @ ''='' @ v) = Some (k @ '':'' @ ty, v)"
    using split_last_append [OF assms(3), of "k @ '':'' @ ty"] by simp
  moreover have "split_last (CHR '':'') (k @ '':'' @ ty) = Some (k, ty)" using split_last_append [OF assms(2), of k] by simp
  moreover have "from_first ''NS3_'' k = Some k" unfolding k by (rule from_first_prefix) simp
  ultimately show ?thesis by (simp add: match_setting_def)
qed

lemma named_keys: "(k, v) \<in> set (concat (map (\<lambda>n. List.map_filter (match_named n) lines) cache_names)) \<Longrightarrow> k \<in> set cache_names"
  by (auto simp: in_map_filter match_named_def split: option.splits)

lemma map_of_only:
  assumes "(k, v) \<in> set l" and "\<And>w. (k, w) \<in> set l \<Longrightarrow> w = v"
  shows "map_of l k = Some v"
proof -
  obtain w where "map_of l k = Some w" using assms(1) by (metis domD map_of_eq_None_iff not_None_eq weak_map_of_SomeI)
  then show ?thesis using assms(2) map_of_SomeD by metis
qed

text \<open>
  Settings: a setting of ns-3 in the cache, whatever other lines there are, is read back with its value, if the value
  has no equals sign and no other line is for the same name.
\<close>

theorem setting_kept:
  assumes "list_all (\<lambda>l. CHR 0x0A \<notin> set l) lines" and "k @ '':'' @ ty @ ''='' @ v \<in> set lines"
    and "str_startswith k ''NS3_''" and "CHR '':'' \<notin> set ty" and "CHR ''='' \<notin> set v"
    and "list_all (\<lambda>l. case match_setting l of None \<Rightarrow> True | Some (k', v') \<Rightarrow> k' = k \<longrightarrow> v' = v) lines"
  shows "dict_find (cache_settings (str_join [CHR 0x0A] lines)) k = Some v"
proof -
  let ?kvs = "List.map_filter match_setting lines @ concat (map (\<lambda>n. List.map_filter (match_named n) lines) cache_names)"
  have "lines \<noteq> []" using assms(2) by auto
  then have l: "str_split (CHR 0x0A) (str_join [CHR 0x0A] lines) = lines"
    using assms(1) by (intro str_split_join) (auto simp: list_all_iff)
  have "k \<notin> set cache_names" using assms(3) by (auto simp: cache_names_def str_startswith_def)
  then have only: "w = v" if "(k, w) \<in> set ?kvs" for w
  proof -
    have "(k, w) \<in> set (List.map_filter match_setting lines)"
      using that named_keys [of k w lines] \<open>k \<notin> set cache_names\<close> unfolding set_append by blast
    then obtain l where "l \<in> set lines" "match_setting l = Some (k, w)" unfolding in_map_filter by blast
    then show "w = v" using assms(6) by (auto simp: list_all_iff)
  qed
  have kv: "(k, v) \<in> set ?kvs"
    using match_setting_line [OF assms(3-5)] assms(2) by (auto simp: in_map_filter)
  have "map_of (rev ?kvs) k = Some v"
    by (rule map_of_only) (simp_all only: set_rev kv only)
  then show ?thesis unfolding cache_settings_def Let_def l by (subst dict.find_fold_upd) simp_all
qed

text \<open>A value with an equals sign is cut off.\<close>

lemma flags_truncated:
  "cache_settings ''CMAKE_CXX_FLAGS:STRING=-std=c++17'' = [(''CMAKE_CXX_FLAGS'', ''c++17'')]"
  by code_simp

section \<open>The backup of the settings\<close>

text \<open>
  C28. Recovery: if cmake fails in a forced refresh, after the cache was deleted, then the script raises, and the settings are
  in the backup, from which the next refresh takes them.
\<close>

theorem refresh_recovers:
  assumes "refresh_settings (Some d) s = (s, Inr settings)" and "exists_path d s" and "dict_ok (files s)"
    and "\<And>disk. fst (snd (process m (env s) (refresh_args cmake settings) d disk)) \<noteq> 0"
    and "\<And>disk. dict_find (fst (fst (process m (env s) (refresh_args cmake settings) d disk))) settings_bak_file =
           dict_find (fst disk) settings_bak_file"
  shows "\<exists>t msg. reconfigure_cmake_to_force_refresh m cmake (Some d) False s = (t, Inl (Exception msg)) \<and>
    refresh_settings (Some d) t = (t, Inr settings)"
proof -
  let ?p = "process m (env s) (refresh_args cmake settings) d"
  let ?b1 = "delete_message m d" and ?b2 = "refresh_message m d (refresh_args cmake settings)"
  define u1 where "u1 = fst (print_and_buffer ?b1 s)"
  define u2 where "u2 = fst (remove_tree d u1)"
  define u3 where "u3 = fst (make_dir d u2)"
  define u4 where "u4 = fst (write_content settings_bak_file (Json settings) u3)"
  define s1 where "s1 = fst (print_and_buffer ?b2 u4)"
  note defs = u1_def u2_def u3_def u4_def s1_def print_and_buffer_def write_content_def make_dir_def remove_tree_def act_simps
  define t where "t = fst (run_process m (refresh_args cmake settings) d s1)"
  have e: "env s1 = env s" by (simp add: defs)
  have "dict_ok (filter (\<lambda>(f, c). \<not> below d f) (files s))" using assms(3) by (auto simp: dict_ok_def distinct_map_filter)
  then have b: "dict_find (files s1) settings_bak_file = Some (Json settings)"
    by (simp add: defs dict_ops)
  obtain fs ds us code out err where p: "?p (files s1, dirs s1, suid s1) = ((fs, ds, us), code, out, err)" by (metis surj_pair)
  have code: "code \<noteq> 0" "dict_find fs settings_bak_file = Some (Json settings)"
    using assms(4,5) [of "(files s1, dirs s1, suid s1)"] b by (simp_all add: p)
  have t: "run_process m (refresh_args cmake settings) d s1 = (t, Inr (code, out, err))" "files t = fs"
    by (simp_all add: t_def run_process_def run_in_def e p)
  have ex: "exists_path d u1" using assms(2) by (simp add: exists_path_def defs)
  have steps: "print_and_buffer ?b1 s = (u1, Inr ())" "remove_tree d u1 = (u2, Inr ())" "make_dir d u2 = (u3, Inr ())"
      "write_content settings_bak_file (Json settings) u3 = (u4, Inr ())" "print_and_buffer ?b2 u4 = (s1, Inr ())"
    by (simp_all add: defs)
  have "reconfigure_cmake_to_force_refresh m cmake (Some d) False s = (t, Inl (Exception refresh_failed))"
    unfolding reconfigure_cmake_to_force_refresh_def Let_def act_when_def
    using t(1) code(1) ex by (simp add: act_simps assms(1) steps)
  moreover have "refresh_settings (Some d) t = (t, Inr settings)" using code(2) t(2) by (simp add: refresh_settings_def act_simps)
  ultimately show ?thesis by blast
qed

section \<open>Samples\<close>

theorem search_cmake_cache_correct_witness:
  "\<exists>f. f \<in> set (cmake_caches sample_machine sample_shell) \<and> dirname f = ''/ns3/cache'' \<and>
     list_ex (profile_line (Some ''default'')) (str_split (CHR 0x0A) (cache_text sample_shell f))"
proof -
  have "search_cmake_cache sample_machine (Some ''default'') sample_shell = (sample_shell, Inr (Some ''/ns3/cache'', ''Ninja''))"
    by code_simp
  from search_cmake_cache_correct [OF this] show ?thesis by auto
qed

theorem setting_kept_witness:
  "dict_find (cache_settings (str_join [CHR 0x0A] [''// comment'', ''NS3_EXAMPLES:BOOL=ON'', ''CMAKE_C_FLAGS:STRING=-g''])) ''NS3_EXAMPLES'' = Some ''ON''"
  by (rule setting_kept [of _ _ "''BOOL''"]; code_simp)

theorem refresh_recovers_witness:
  "\<exists>t msg. reconfigure_cmake_to_force_refresh (sample_machine\<lparr>process := (\<lambda>e argv wd disk. (disk, 1, [], []))\<rparr>) ''/usr/bin/cmake''
       (Some ''/ns3/cache'') False (sample_shell\<lparr>files := (settings_bak_file, Json [(''NS3_LOG'', ''ON'')]) # files sample_shell\<rparr>) = (t, Inl (Exception msg)) \<and>
     refresh_settings (Some ''/ns3/cache'') t = (t, Inr [(''NS3_LOG'', ''ON'')])"
proof -
  let ?s = "sample_shell\<lparr>files := (settings_bak_file, Json [(''NS3_LOG'', ''ON'')]) # files sample_shell\<rparr>"
  have s: "refresh_settings (Some ''/ns3/cache'') ?s = (?s, Inr [(''NS3_LOG'', ''ON'')])" "exists_path ''/ns3/cache'' ?s" "dict_ok (files ?s)"
    by code_simp+
  show ?thesis by (rule refresh_recovers [OF s]) simp_all
qed

end
