(* ===== verification/Ns3_Targets.thy ===== *)
theory Ns3_Targets
  imports Ns3_Cmake
begin

text \<open>
  \<open>src/ns3\<close>, fourth part: the names under which programs can be given, the targets of cmake they stand for, and the
  building of a list of targets.
\<close>

section \<open>Shortcuts\<close>

text \<open>The two dictionaries of \<open>get_program_shortcuts\<close>: programs and longest shortcuts by shortcut.\<close>

record shortcuts =
  program_map :: "(string, string list) dict"
  longest_map :: "(string, string list) dict"

definition str_plus :: "string \<Rightarrow> string option \<Rightarrow> string res" where
  "str_plus a b = (case b of None \<Rightarrow> Inl TypeError | Some t \<Rightarrow> Inr (a @ t))"

text \<open>The components of the name of a program below the output directory, without prefix and suffix.\<close>

definition program_path :: "string \<Rightarrow> string option \<Rightarrow> string option \<Rightarrow> string \<Rightarrow> string list res" where
  "program_path out profile version program =
     (let temp_path = tl (str_split (CHR ''/'') (str_replace out [] program))
      in if temp_path = [] then Inl IndexError
         else res_bind (str_plus ''-'' profile) (\<lambda>suf.
              res_bind (str_plus ''ns'' version) (\<lambda>pre.
              let name = str_replace (pre @ ''-'') [] (str_replace suf [] (last temp_path));
                  path1 = butlast temp_path @ [name]
              in Inr (if ''scratch'' \<in> set path1 \<and> 3 < length path1
                      then let subdir = str_join ''_'' (drop 2 (butlast path1) @ [[]])
                           in butlast path1 @ [str_replace subdir [] name]
                      else path1))))"

definition add_longest :: "string \<Rightarrow> string \<Rightarrow> (string, string list) dict \<Rightarrow> (string, string list) dict" where
  "add_longest shortcut longest d =
     dict_set shortcut ((case dict_find d shortcut of None \<Rightarrow> [] | Some l \<Rightarrow> l) @ [longest]) d"

definition add_shortcut :: "string \<Rightarrow> string \<Rightarrow> string \<Rightarrow> shortcuts \<Rightarrow> shortcuts" where
  "add_shortcut program longest shortcut sc =
     sc\<lparr>longest_map := add_longest shortcut longest (longest_map sc), program_map := dict_set shortcut [program] (program_map sc)\<rparr>"

fun add_shortcuts :: "string \<Rightarrow> bool \<Rightarrow> string \<Rightarrow> string list \<Rightarrow> shortcuts \<Rightarrow> shortcuts" where
  "add_shortcuts program source longest [] sc = sc"
| "add_shortcuts program source longest (c # cs) sc =
     (let shortcut = str_join ''/'' (c # cs); longest' = (if longest = [] then shortcut else longest);
          sc1 = add_shortcut program longest' shortcut sc;
          sc2 = (if source then add_shortcut program longest' (shortcut @ ''.cc'') sc1 else sc1)
      in add_shortcuts program source longest' cs sc2)"

definition add_program :: "machine \<Rightarrow> shell \<Rightarrow> string option \<Rightarrow> string option \<Rightarrow> string \<Rightarrow> shortcuts \<Rightarrow> shortcuts res" where
  "add_program m s profile version program sc =
     (if is_substring ''pch_exec'' program then Inr sc
      else res_bind (program_path (out_dir s) profile version program) (\<lambda>temp_path.
           Inr (add_shortcuts (str_strip program)
             (exists_path (path_join (ns3_path m) (str_join ''/'' temp_path @ ''.cc'')) s) [] temp_path sc)))"

definition filter_collisions :: "shortcuts \<Rightarrow> (string, string list) dict" where
  "filter_collisions sc =
     fold (\<lambda>(k, l) d. dict_set k l d) (filter (\<lambda>(k, l). 1 < length l) (longest_map sc)) (program_map sc)"

fun add_script :: "string \<Rightarrow> string list \<Rightarrow> (string, string list) dict \<Rightarrow> (string, string list) dict" where
  "add_script program [] d = d"
| "add_script program (c # cs) d = add_script program cs (dict_set (str_join ''/'' (c # cs)) [program] d)"

definition scratch_scripts :: "machine \<Rightarrow> shell \<Rightarrow> string list" where
  "scratch_scripts m s =
     filter (\<lambda>f. dirname f = ns3_path m @ ''/scratch'' \<and> str_endswith f ''.py'' \<and> hd (basename f) \<noteq> CHR ''.'') (map fst (files s))"

definition get_program_shortcuts :: "machine \<Rightarrow> string option \<Rightarrow> string option \<Rightarrow> (string, string list) dict script" where
  "get_program_shortcuts m profile version s =
     (s, case dict_find (files s) (lock_file m) of
           None \<Rightarrow> Inl OSError
         | Some c \<Rightarrow>
             let l = exec_lock m c
             in res_bind (case l_programs l of None \<Rightarrow> Inl KeyError | Some ps \<Rightarrow> Inr ps) (\<lambda>programs.
                res_bind (res_fold (add_program m s profile version) programs \<lparr>program_map = [], longest_map = []\<rparr>) (\<lambda>sc.
                res_bind (case l_scripts l of None \<Rightarrow> Inl KeyError | Some ps \<Rightarrow> Inr ps) (\<lambda>scripts.
                let all = (if scripts = [] then [] else scripts @ scratch_scripts m s)
                in Inr (fold (\<lambda>p. add_script (str_strip p) (str_split (CHR ''/'') (str_replace (ns3_path m) [] p))) all
                          (filter_collisions sc))))))"

section \<open>Targets\<close>

text \<open>The version in a pattern: a dot stands for any character.\<close>

fun re_version :: "string \<Rightarrow> string \<Rightarrow> string option" where
  "re_version [] s = Some s"
| "re_version (p # ps) [] = None"
| "re_version (p # ps) (c # cs) = (if p = CHR ''.'' \<and> c \<noteq> CHR 0x0A \<or> p = c then re_version ps cs else None)"

text \<open>What is before the last occurrence of a text.\<close>

fun before_last :: "string \<Rightarrow> string \<Rightarrow> string option" where
  "before_last p [] = (if p = [] then Some [] else None)"
| "before_last p (c # cs) =
     (case before_last p cs of
        Some u \<Rightarrow> Some (c # u)
      | None \<Rightarrow> if str_startswith (c # cs) p then Some [] else None)"

text \<open>
  The groups of \<open>(.*)ns<version>-(.*)<suffix>\<close>: the last prefix that has a suffix after it, and the last suffix.  There is
  no second match, since no suffix is left.
\<close>

fun match_program :: "string \<Rightarrow> string \<Rightarrow> string \<Rightarrow> (string \<times> string) option" where
  "match_program pre suf [] = None"
| "match_program pre suf (c # cs) =
     (case match_program pre suf cs of
        Some (u, v) \<Rightarrow> Some (c # u, v)
      | None \<Rightarrow>
          (case re_version pre (c # cs) of
             None \<Rightarrow> None
           | Some rest \<Rightarrow> map_option (\<lambda>v. ([], v)) (before_last suf rest)))"

definition get_target_to_build :: "string \<Rightarrow> string option \<Rightarrow> string option \<Rightarrow> string option script" where
  "get_target_to_build path version profile =
     (if is_substring ''.py'' path then act_ret None
      else act_bind (act_lift (if profile = Some ''release'' then Inr [] else str_plus ''-'' profile)) (\<lambda>suf.
           act_bind (act_lift (str_plus ''ns'' (Some (case version of None \<Rightarrow> ''None'' | Some v \<Rightarrow> v)))) (\<lambda>pre.
           case match_program (pre @ ''-'') suf path of
             None \<Rightarrow> act_then (print_line (''Target to build does not exist: '' @ path)) (exit_with 1)
           | Some (u, v) \<Rightarrow>
               act_bind (act_read (\<lambda>s. Inr (out_dir s))) (\<lambda>out.
               act_ret (Some (if is_substring ''scratch'' path
                 then drop 1 (map (\<lambda>c. if c = CHR ''/'' then CHR ''_'' else c) (str_replace out [] (u @ v)))
                 else last (str_split (CHR ''/'') (u @ v))))))))"

definition check_ambiguous_target :: "string \<Rightarrow> string \<Rightarrow> (string, string list) dict \<Rightarrow> string script" where
  "check_ambiguous_target target_type target programs =
     act_bind (act_lift (dict_get programs target)) (\<lambda>l.
     if 1 < length l
     then act_then (print_line (target_type @ '' target '' @ [CHR 0x22] @ target @ [CHR 0x22] @ '' is ambiguous. Try one of these: '' @
            [CHR 0x22] @ str_join ([CHR 0x22] @ '', '' @ [CHR 0x22]) l @ [CHR 0x22])) (exit_with 1)
     else act_lift (py_index l 0))"

definition remove_overlapping_path :: "string \<Rightarrow> string \<Rightarrow> string res" where
  "remove_overlapping_path base target =
     (case dropWhile (\<lambda>c. c \<in> set (str_split (CHR ''/'') base)) (str_split (CHR ''/'') target) of
        [] \<Rightarrow> Inl IndexError
      | rest \<Rightarrow> Inr (str_join ''/'' rest))"

section \<open>Building targets\<close>

definition non_executable_targets :: "string list" where
  "non_executable_targets =
     [''apiscan-all'', ''check-version'', ''cmake-format'', ''docs'', ''doxygen'', ''doxygen-no-build'', ''sphinx'', ''manual'', ''models'',
      ''timeTraceReport'', ''tutorial'', ''contributing'', ''install'', ''uninstall'']"

definition doc_target :: "string \<Rightarrow> string" where
  "doc_target target =
     (if target \<in> {''contributing'', ''manual'', ''models'', ''tutorial''} then ''sphinx_'' @ target
      else if target = ''docs'' then ''sphinx'' else target)"

definition build_target :: "machine \<Rightarrow> string list \<Rightarrow> string option \<Rightarrow> string option \<Rightarrow> string \<Rightarrow> string option script" where
  "build_target m modules version profile target =
     (if target \<in> set modules then act_ret (Some (''lib'' @ target))
      else if target \<notin> set non_executable_targets then get_target_to_build target version profile
      else act_then (act_when (target = ''check-version'') (act_upd (\<lambda>s. s\<lparr>run_verbose := False\<rparr>)))
             (act_ret (Some (doc_target target))))"

text \<open>The loop over the list of targets, to which \<open>docs\<close> appends while it runs.\<close>

function build_targets :: "machine \<Rightarrow> string option \<Rightarrow> ns3_options \<Rightarrow> string list \<Rightarrow> string option \<Rightarrow> string option \<Rightarrow> string list \<Rightarrow> unit script" where
  "build_targets m folder args modules version profile [] = act_ret ()"
| "build_targets m folder args modules version profile (target # rest) =
     act_bind (build_target m modules version profile target) (\<lambda>t.
     act_then (cmake_build m folder args t)
       (build_targets m folder args modules version profile
          (if target = ''docs'' \<and> target \<notin> set modules then rest @ [''doxygen''] else rest)))"
  by pat_completeness auto
termination
  by (relation "measure (\<lambda>(m, folder, args, modules, version, profile, ts). length ts + length (filter (\<lambda>t. t = ''docs'') ts))")
    (auto simp: le_imp_less_Suc)

definition build_step :: "machine \<Rightarrow> ns3_options \<Rightarrow> bool \<Rightarrow> string option \<Rightarrow> string option \<Rightarrow> string list \<Rightarrow> string option \<Rightarrow> string option \<Rightarrow> unit script" where
  "build_step m args build_and_run target_to_run folder modules version profile =
     act_then (act_when (o_build args = Some []) (cmake_build m folder args None))
     (act_then (case o_build args of None \<Rightarrow> act_ret () | Some ts \<Rightarrow> build_targets m folder args modules version profile ts)
       (act_when build_and_run
         (act_bind (act_lift (attr target_to_run)) (\<lambda>t.
          act_bind (get_target_to_build t version profile) (\<lambda>target. cmake_build m folder args target)))))"

section \<open>What a shortcut stands for\<close>

text \<open>An entry: a shortcut, the longest shortcut of its program, and the program.\<close>

type_synonym entry = "string \<times> string \<times> string"

fun path_tails :: "string list \<Rightarrow> string list list" where
  "path_tails [] = []"
| "path_tails (c # cs) = (c # cs) # path_tails cs"

definition shortcut_names :: "bool \<Rightarrow> string list \<Rightarrow> string list" where
  "shortcut_names source path =
     concat (map (\<lambda>p. str_join ''/'' p # (if source then [str_join ''/'' p @ ''.cc''] else [])) (path_tails path))"

definition path_entries :: "string \<Rightarrow> bool \<Rightarrow> string list \<Rightarrow> entry list" where
  "path_entries program source path = map (\<lambda>n. (n, str_join ''/'' path, program)) (shortcut_names source path)"

definition program_entries :: "machine \<Rightarrow> shell \<Rightarrow> string option \<Rightarrow> string option \<Rightarrow> string \<Rightarrow> entry list" where
  "program_entries m s profile version program =
     (if is_substring ''pch_exec'' program then []
      else (case program_path (out_dir s) profile version program of
              Inl e \<Rightarrow> []
            | Inr path \<Rightarrow>
                path_entries (str_strip program) (exists_path (path_join (ns3_path m) (str_join ''/'' path @ ''.cc'')) s) path))"

definition script_entries :: "machine \<Rightarrow> string \<Rightarrow> (string \<times> string list) list" where
  "script_entries m p = map (\<lambda>t. (str_join ''/'' t, [str_strip p])) (path_tails (str_split (CHR ''/'') (str_replace (ns3_path m) [] p)))"

definition enter :: "entry \<Rightarrow> shortcuts \<Rightarrow> shortcuts" where
  "enter e sc = (case e of (n, l, p) \<Rightarrow> add_shortcut p l n sc)"

lemma add_shortcuts_enter:
  assumes "longest \<noteq> []"
  shows "add_shortcuts program source longest path sc =
    fold enter (map (\<lambda>n. (n, longest, program)) (shortcut_names source path)) sc"
  using assms by (induction path arbitrary: sc) (auto simp: shortcut_names_def enter_def Let_def)

lemma add_shortcuts_entries: "add_shortcuts program source [] path sc = fold enter (path_entries program source path) sc"
proof (cases path)
  case (Cons c cs)
  show ?thesis
  proof (cases "str_join ''/'' path = []")
    case True
    then have "cs = []" "c = []" using Cons by (cases cs; simp)+
    then show ?thesis by (simp add: Cons path_entries_def shortcut_names_def enter_def)
  next
    case False
    then show ?thesis using add_shortcuts_enter [OF False, of program source cs]
      by (auto simp: Cons path_entries_def shortcut_names_def enter_def Let_def)
  qed
qed (simp add: path_entries_def shortcut_names_def)

lemma add_program_entries:
  "add_program m s profile version program sc = Inr sc' \<Longrightarrow> sc' = fold enter (program_entries m s profile version program) sc"
  by (auto simp: add_program_def program_entries_def add_shortcuts_entries res_bind_eq_Inr split: if_splits)

lemma add_programs_entries:
  "res_fold (add_program m s profile version) ps sc = Inr sc' \<Longrightarrow>
   sc' = fold enter (concat (map (program_entries m s profile version) ps)) sc"
  by (induction ps arbitrary: sc) (auto simp: res_bind_eq_Inr dest!: add_program_entries)

definition for_name :: "string \<Rightarrow> entry list \<Rightarrow> entry list" where
  "for_name n es = filter (\<lambda>e. fst e = n) es"

definition entered :: "entry list \<Rightarrow> shortcuts" where
  "entered es = fold enter es \<lparr>program_map = [], longest_map = []\<rparr>"

lemma entered_ok: "dict_ok (program_map (entered es)) \<and> dict_ok (longest_map (entered es))"
  by (induction es rule: rev_induct) (auto simp: entered_def enter_def add_shortcut_def add_longest_def dict_ops split: prod.splits)

lemma entered_find:
  "dict_find (program_map (entered es)) n = (if for_name n es = [] then None else Some [snd (snd (last (for_name n es)))]) \<and>
   dict_find (longest_map (entered es)) n = (if for_name n es = [] then None else Some (map (fst \<circ> snd) (for_name n es)))"
proof (induction es rule: rev_induct)
  case (snoc e es)
  obtain k l p where e: "e = (k, l, p)" by (metis prod_cases3)
  have en: "entered (es @ [(k, l, p)]) = add_shortcut p l k (entered es)" by (simp add: entered_def enter_def)
  show ?case using snoc entered_ok [of es]
    by (auto simp: en add_shortcut_def add_longest_def dict_ops for_name_def e)
qed (simp add: entered_def for_name_def)

text \<open>A shortcut of several programs stands for the longest shortcuts of all of them.\<close>

definition meaning :: "entry list \<Rightarrow> string list option" where
  "meaning es = (case es of [] \<Rightarrow> None | [(n, l, p)] \<Rightarrow> Some [p] | _ \<Rightarrow> Some (map (fst \<circ> snd) es))"

lemma map_of_rev_filter:
  "dict_ok d \<Longrightarrow> map_of (rev (filter (\<lambda>(k, v). P v) d)) k = (case dict_find d k of None \<Rightarrow> None | Some v \<Rightarrow> if P v then Some v else None)"
proof -
  assume d: "dict_ok d"
  then have r: "distinct (map fst (rev (filter (\<lambda>(k, v). P v) d)))"
    by (simp add: dict_ok_def distinct_map_filter rev_map [symmetric])
  have "map_of (rev (filter (\<lambda>(k, v). P v) d)) k = Some v \<longleftrightarrow> dict_find d k = Some v \<and> P v" for v
    using map_of_eq_Some_iff [OF r, of k v] map_of_eq_Some_iff [of d k v] d by (auto simp: dict_find_def dict_ok_def)
  then show ?thesis by (cases "map_of (rev (filter (\<lambda>(k, v). P v) d)) k") (fastforce split: option.splits)+
qed

lemma filter_collisions_find:
  "dict_ok (filter_collisions (entered es))" "dict_find (filter_collisions (entered es)) n = meaning (for_name n es)"
proof -
  let ?c = "filter (\<lambda>(k, l). 1 < length l) (longest_map (entered es))"
  have ok: "dict_ok (program_map (entered es))" "dict_ok (longest_map (entered es))" using entered_ok by simp_all
  show "dict_ok (filter_collisions (entered es))" unfolding filter_collisions_def by (rule dict.fold_upd_ok [OF ok(1)])
  show "dict_find (filter_collisions (entered es)) n = meaning (for_name n es)"
    unfolding filter_collisions_def dict.find_fold_upd [OF ok(1)] map_of_rev_filter [OF ok(2)]
    using entered_find [of es n] by (auto simp: meaning_def split: list.splits)
qed

lemma add_script_entries:
  "add_script p path d = fold (\<lambda>(k, v). dict_set k v) (map (\<lambda>t. (str_join ''/'' t, [p])) (path_tails path)) d"
  by (induction path arbitrary: d) simp_all

lemma add_scripts_entries:
  "fold (\<lambda>p. add_script (str_strip p) (str_split (CHR ''/'') (str_replace (ns3_path m) [] p))) ps d =
   fold (\<lambda>(k, v). dict_set k v) (concat (map (script_entries m) ps)) d"
  by (induction ps arbitrary: d) (simp_all add: add_script_entries script_entries_def)

text \<open>
  C26. Shortcuts: every name of a program below the output directory, from any of its directories on, with or without
  the extension of its source, stands for the program if it is the only one of that name, and for the longest
  shortcuts of all of them otherwise; a name of a script stands for the last script of that name.
\<close>

theorem shortcuts_correct:
  assumes "get_program_shortcuts m profile version s = (t, Inr d)" and "dict_find (files s) (lock_file m) = Some c"
    and "l_programs (exec_lock m c) = Some programs" and "l_scripts (exec_lock m c) = Some scripts"
  shows "dict_find d name =
    (case map_of (rev (concat (map (script_entries m) (if scripts = [] then [] else scripts @ scratch_scripts m s)))) name of
       Some script \<Rightarrow> Some script
     | None \<Rightarrow> meaning (for_name name (concat (map (program_entries m s profile version) programs))))"
proof -
  obtain sc where sc: "res_fold (add_program m s profile version) programs \<lparr>program_map = [], longest_map = []\<rparr> = Inr sc"
      "d = fold (\<lambda>(k, v). dict_set k v) (concat (map (script_entries m) (if scripts = [] then [] else scripts @ scratch_scripts m s))) (filter_collisions sc)"
    using assms by (auto simp: get_program_shortcuts_def Let_def res_bind_eq_Inr add_scripts_entries)
  then have "sc = entered (concat (map (program_entries m s profile version) programs))"
    by (simp add: entered_def add_programs_entries)
  then show ?thesis using sc(2) by (auto simp: dict.find_fold_upd filter_collisions_find split: option.splits)
qed

section \<open>The target of a program\<close>

lemma str_split_append: "str_split c (u @ c # v) = str_split c u @ str_split c v"
proof (induction u)
  case (Cons a u)
  then show ?case by (cases "str_split c u") auto
qed simp

lemma str_split_single: "c \<notin> set v \<Longrightarrow> str_split c v = [v]"
  by (induction v) auto

lemma re_version_self: "CHR 0x0A \<notin> set p \<Longrightarrow> re_version p (p @ s) = Some s"
  by (induction p) auto

lemma before_last_short: "length s < length p \<Longrightarrow> before_last p s = None"
  by (induction s) (auto simp: str_startswith_def)

lemma before_last_suffix: "before_last p (u @ p) = Some u"
proof (induction u)
  case Nil
  show ?case by (cases p) (simp_all add: before_last_short str_startswith_def)
qed simp

lemma match_program_name:
  assumes "CHR 0x0A \<notin> set pre" and "pre \<noteq> []" and "match_program pre suf (tl (pre @ name @ suf)) = None"
  shows "match_program pre suf (u @ pre @ name @ suf) = Some (u, name)"
proof (induction u)
  case Nil
  obtain c cs where p: "pre @ name @ suf = c # cs" using assms(2) by (cases pre) auto
  then show ?case using assms(3) re_version_self [OF assms(1), of "name @ suf"] by (simp add: before_last_suffix)
qed simp

definition name_suffix :: "string \<Rightarrow> string" where
  "name_suffix profile = (if profile = ''release'' then [] else ''-'' @ profile)"

text \<open>
  Targets: an executable outside of scratch, whose file has the version as its prefix and the profile as its suffix,
  is built by the target that has the name of the program.
\<close>

theorem target_of_program:
  assumes "path = dir @ ''/'' @ (''ns'' @ version @ ''-'') @ name @ name_suffix profile"
    and "\<not> is_substring ''.py'' path" and "\<not> is_substring ''scratch'' path"
    and "CHR ''/'' \<notin> set name" and "CHR 0x0A \<notin> set version"
    and "match_program (''ns'' @ version @ ''-'') (name_suffix profile) (tl ((''ns'' @ version @ ''-'') @ name @ name_suffix profile)) = None"
  shows "get_target_to_build path (Some version) (Some profile) s = (s, Inr (Some name))"
proof -
  have "match_program (''ns'' @ version @ ''-'') (name_suffix profile) ((dir @ ''/'') @ (''ns'' @ version @ ''-'') @ name @ name_suffix profile) =
      Some (dir @ ''/'', name)"
    by (rule match_program_name) (use assms(5,6) in auto)
  then have m: "match_program (''ns'' @ version @ ''-'') (name_suffix profile) path = Some (dir @ ''/'', name)" by (simp add: assms(1))
  have "last (str_split (CHR ''/'') (d @ CHR ''/'' # name)) = name" for d
    using assms(4) by (simp add: str_split_append str_split_single)
  then show ?thesis using assms(2,3) m
    by (auto simp: get_target_to_build_def name_suffix_def str_plus_def act_simps split: if_splits)
qed

section \<open>Samples\<close>

theorem shortcuts_correct_witness:
  "\<exists>t d. get_program_shortcuts sample_machine (Some ''default'') (Some ''3.36'') sample_shell = (t, Inr d) \<and>
     dict_find d ''first'' = Some [''/ns3/build/examples/ns3.36-first-default'']"
proof -
  let ?r = "get_program_shortcuts sample_machine (Some ''default'') (Some ''3.36'') sample_shell"
  let ?l = "[''/ns3/build/examples/ns3.36-first-default'']"
  have r: "?r = (sample_shell, Inr (projr (snd ?r)))"
    "dict_find (files sample_shell) (lock_file sample_machine) = Some (Text [])" by code_simp+
  have l: "l_programs (exec_lock sample_machine (Text [])) = Some ?l" "l_scripts (exec_lock sample_machine (Text [])) = Some []"
    by (simp_all add: sample_machine_def default_lock_def)
  have "meaning (for_name ''first'' (concat (map (program_entries sample_machine sample_shell (Some ''default'') (Some ''3.36'')) ?l))) = Some ?l"
    by code_simp
  then show ?thesis using shortcuts_correct [OF r l, of "''first''"] r(1) by auto
qed

theorem target_of_program_witness:
  "get_target_to_build ''/ns3/build/examples/ns3.36-first-default'' (Some ''3.36'') (Some ''default'') sample_shell =
     (sample_shell, Inr (Some ''first''))"
  by (rule target_of_program [where dir = "''/ns3/build/examples''"]; code_simp)

text \<open>A Python script has no target, so that everything is built for it.\<close>

lemma script_builds_all: "get_target_to_build ''/ns3/examples/first.py'' version profile s = (s, Inr None)"
  by (simp add: get_target_to_build_def act_simps str_startswith_def)

text \<open>Of two scripts of the same name only the last can be given by that name, without a message.\<close>

lemma scripts_shadowed:
  "dict_find (fold (\<lambda>p. add_script (str_strip p) (str_split (CHR ''/'') (str_replace ''/ns3'' [] p))) [''/ns3/a/x.py'', ''/ns3/b/x.py''] [])
     ''x.py'' = Some [''/ns3/b/x.py'']"
  by code_simp

section \<open>Names below the output directory\<close>

lemma remove_overlapping_path_below:
  assumes "hd (str_split (CHR ''/'') rest) \<notin> set (str_split (CHR ''/'') out)"
  shows "remove_overlapping_path out (out @ ''/'' @ rest) = Inr rest"
proof -
  have "dropWhile (\<lambda>c. c \<in> set (str_split (CHR ''/'') out)) (str_split (CHR ''/'') (out @ CHR ''/'' # rest)) = str_split (CHR ''/'') rest"
    unfolding str_split_append using assms by (cases "str_split (CHR ''/'') rest") (auto simp: dropWhile_append2)
  moreover have "str_join ''/'' (str_split (CHR ''/'') rest) = rest" by (rule str_join_split)
  ultimately show ?thesis by (cases "str_split (CHR ''/'') rest") (simp_all add: remove_overlapping_path_def)
qed

text \<open>A directory below the output directory that has the name of one above it is lost, and the executable is not found.\<close>

lemma overlap_removes_too_much:
  "remove_overlapping_path ''/home/examples/build'' ''/home/examples/build/examples/ns3.36-first-default'' = Inr ''ns3.36-first-default''"
  by code_simp

end
