(* ===== verification/Ns3_Main.thy ===== *)
theory Ns3_Main
  imports Ns3_Targets
begin

text \<open>
  \<open>src/ns3\<close>, last part: running a program, the suid bits and \<open>main\<close>.  Passwords and interrupts from the keyboard are
  not modelled.
\<close>

section \<open>Running\<close>

definition custom_env :: "shell \<Rightarrow> (string, string) dict" where
  "custom_env s =
     [(''PATH'', out_dir s @ ''/lib''), (''PYTHONPATH'', out_dir s @ ''/bindings/python''), (''LD_LIBRARY_PATH'', out_dir s @ ''/lib'')]"

definition run_env :: "shell \<Rightarrow> (string, string) dict" where
  "run_env s =
     fold (\<lambda>(key, value) e. case dict_find e key of Some old \<Rightarrow> dict_set key (old @ '':'' @ value) e | None \<Rightarrow> dict_set key value e)
       (custom_env s) (env s)"

text \<open>\<open>template % text\<close>: exactly one \<open>%s\<close>.\<close>

fun format_one :: "string option \<Rightarrow> string \<Rightarrow> string res" where
  "format_one arg [] = (if arg = None then Inr [] else Inl TypeError)"
| "format_one arg [c] =
     (if c = CHR ''%'' then Inl (ValueError ''incomplete format'') else res_bind (format_one arg []) (\<lambda>r. Inr (c # r)))"
| "format_one arg (c # d # cs) =
     (if c \<noteq> CHR ''%'' then res_bind (format_one arg (d # cs)) (\<lambda>r. Inr (c # r))
      else if d = CHR ''%'' then res_bind (format_one arg cs) (\<lambda>r. Inr (c # r))
      else if d = CHR ''s'' then (case arg of None \<Rightarrow> Inl TypeError | Some t \<Rightarrow> res_bind (format_one None cs) (\<lambda>r. Inr (t @ r)))
      else Inl (ValueError ''unsupported format character''))"

definition debugger :: "machine \<Rightarrow> bool \<Rightarrow> string \<Rightarrow> string \<Rightarrow> string list res" where
  "debugger m given name flag =
     (if \<not> given then Inr [] else (case which m name of None \<Rightarrow> Inl TypeError | Some p \<Rightarrow> Inr [p, flag]))"

definition template_command :: "machine \<Rightarrow> shell \<Rightarrow> string option \<Rightarrow> string \<Rightarrow> string list \<Rightarrow> (string \<times> string list) res" where
  "template_command m s template target target_args =
     (case template of
        None \<Rightarrow> Inr (target, target_args)
      | Some t \<Rightarrow>
          if t = [] then Inr (target, target_args)
          else res_bind (format_one (Some target) t) (\<lambda>text.
               case str_words text of
                 [] \<Rightarrow> Inl IndexError
               | cmd # rest \<Rightarrow>
                   let a = rest @ target_args;
                       ci = (case dict_find (env s) ''MPI_CI'' of None \<Rightarrow> False | Some v \<Rightarrow> v \<noteq> []);
                       b = (if cmd \<in> {''mpiexec'', ''mpirun''} \<and> ci
                            then [''--allow-run-as-root''] @ (if which m ''ompi_info'' \<noteq> None then [''--oversubscribe''] else []) @ a else a)
                   in Inr (cmd, b)))"

text \<open>The directory, the program, and the whole command with a debugger in front and the arguments.\<close>

definition run_command :: "machine \<Rightarrow> shell \<Rightarrow> ns3_options \<Rightarrow> string option \<Rightarrow> string list \<Rightarrow> (string \<times> string \<times> string list) res" where
  "run_command m s args target_to_run target_args =
     (let a0 = target_args @ o_program_args args
      in if o_shell args then Inr (ns3_path m, ''bash'', [''bash''] @ a0)
         else res_bind (attr target_to_run) (\<lambda>target.
           let python = is_substring ''.py'' target;
               a1 = (if python then target # a0 else a0);
               t1 = (if python then ''python3'' else target);
               wd = (case o_cwd args of None \<Rightarrow> ns3_path m | Some d \<Rightarrow> if d = [] then ns3_path m else d)
           in res_bind (debugger m (o_valgrind args) ''valgrind'' ''--leak-check=full'') (\<lambda>d1.
              res_bind (debugger m (o_gdb args) ''gdb'' ''--args'') (\<lambda>d2.
              res_bind (debugger m (o_lldb args) ''lldb'' ''--'') (\<lambda>d3.
              let a2 = (if o_visualize args then a1 @ [''--SimulatorImplementationType=ns3::VisualSimulatorImpl''] else a1)
              in res_bind (template_command m s (o_command_template args) t1 a2) (\<lambda>(t2, a3).
                 Inr (wd, t2, d1 @ d2 @ d3 @ [t2] @ a3)))))))"

definition exported_variables :: "shell \<Rightarrow> string" where
  "exported_variables s =
     ''export '' @ concat (map (\<lambda>(k, v). k @ ''='' @ (if k = ''PATH'' then ''$PATH:'' @ out_dir s @ ''/lib'' else v) @ '' '') (custom_env s))"

definition run_step :: "machine \<Rightarrow> ns3_options \<Rightarrow> string option \<Rightarrow> string list \<Rightarrow> unit script" where
  "run_step m args target_to_run target_args =
     act_bind (act_read (\<lambda>s. run_command m s args target_to_run target_args)) (\<lambda>(wd, program, argv).
     act_bind (act_read (\<lambda>s. Inr (run_verbose s \<or> o_dry_run args, exported_variables s, run_env s))) (\<lambda>(verbose, exports, e).
     act_then (act_when verbose
       (print_and_buffer (''cd '' @ relative m (ns3_path m) wd @ ''; '' @ exports @ ''; '' @ str_join '' '' argv)))
     (act_when (\<not> o_dry_run args)
       (act_bind (run_in m e argv wd) (\<lambda>(code, out, err).
        if code \<noteq> 0
        then act_then (print_line (''Command '' @ [CHR 0x27] @ str_join '' '' (relative m program (ns3_path m) # tl argv) @ [CHR 0x27] @
               '' returned non-zero exit status '' @ str_int code @ ''.'')) (exit_with code)
        else exit_with 0)))))"

section \<open>Suid bits\<close>

definition sudo_command :: "machine \<Rightarrow> string list \<Rightarrow> string script" where
  "sudo_command m command =
     act_bind (run_process m ([''sudo'', ''-S''] @ command) (path_str (launch_dir m))) (\<lambda>(code, out, err).
     act_bind (run_process m [''sudo'', ''-k''] (path_str (launch_dir m))) (\<lambda>_.
     if is_substring ''try again'' err then act_fail (Exception ''Incorrect sudo password'') else act_ret out))"

definition sudo_target :: "machine \<Rightarrow> bool \<Rightarrow> string \<Rightarrow> unit script" where
  "sudo_target m dry_run target =
     act_bind (act_read (\<lambda>s. Inr (exists_path target s \<and> target \<notin> set (suid s)))) (\<lambda>needed.
     let rel = relative m target (ns3_path m); chown = ''chown root '' @ rel; chmod = ''chmod u+s '' @ rel
     in act_when needed
       (act_then (print_and_buffer (str_join ''; '' [chown, chmod]))
       (act_when (\<not> dry_run)
         (act_bind (sudo_command m (str_words chown)) (\<lambda>out.
          act_then (act_when (out \<noteq> []) (act_fail (Exception ''Failed to chown: '')))
          (act_bind (sudo_command m (str_words chmod)) (\<lambda>out.
           act_when (out \<noteq> []) (act_fail (Exception ''Failed to chmod: '')))))))))"

text \<open>The set of targets is iterated in the order of the list.\<close>

definition sudo_step :: "machine \<Rightarrow> ns3_options \<Rightarrow> string option \<Rightarrow> string list \<Rightarrow> unit script" where
  "sudo_step m args target_to_run configure_post_build =
     (if which m ''sudo'' = None then act_fail (Exception ''Sudo is required by --enable-sudo, but it was not found'')
      else act_each (sudo_target m (o_dry_run args))
             (remdups (configure_post_build @ (case target_to_run of None \<Rightarrow> [] | Some t \<Rightarrow> if t = [] then [] else [t]))))"

section \<open>main\<close>

definition refuse_run_as_root :: "unit script" where
  "refuse_run_as_root =
     act_bind (act_read (\<lambda>s. Inr (dict_find (env s) ''USER''))) (\<lambda>user.
     act_when (user = Some ''root'')
       (act_fail (Exception ''Refusing to run as root. --enable-sudo will request your password when needed'')))"

text \<open>\<open>pybindgen\<close> is the directory beside the repository, if there is one.\<close>

definition prepare_env :: "string option \<Rightarrow> unit script" where
  "prepare_env pybindgen =
     act_upd (\<lambda>s. let e = dict_set ''CLICOLOR'' ''1'' (env s)
       in s\<lparr>env := (case pybindgen of None \<Rightarrow> e
            | Some d \<Rightarrow> dict_set ''PYTHONPATH'' ((case dict_find e ''PYTHONPATH'' of None \<Rightarrow> [] | Some v \<Rightarrow> v) @ '':'' @ d) e)\<rparr>)"

text \<open>The targets that \<open>install\<close>, \<open>uninstall\<close>, \<open>docs\<close> and \<open>show version\<close> stand for.\<close>

definition positional_build :: "ns3_options \<Rightarrow> ns3_options" where
  "positional_build args =
     (let a1 = (if o_install args then args\<lparr>o_build := Some [''install'']\<rparr> else args)
      in if o_uninstall a1 then a1\<lparr>o_build := Some [''uninstall'']\<rparr> else a1)"

definition docs_message :: string where
  "docs_message = ''The '' @ [CHR 0x22] @ ''./ns3 docs doxygen'' @ [CHR 0x22] @ '' and '' @ [CHR 0x22] @ ''./ns3 docs all'' @ [CHR 0x22] @
     '' commands,'' @ [CHR 0x0A] @ ''require examples and tests to generate introspected documentation.'' @ [CHR 0x0A] @
     ''Try '' @ [CHR 0x22] @ ''./ns3 docs doxygen-no-build'' @ [CHR 0x22] @ '' or enable examples and tests.''"

definition docs_build :: "lock \<Rightarrow> ns3_options \<Rightarrow> ns3_options script" where
  "docs_build info args =
     (if o_docs args = [] then act_ret args
      else let b = (if o_docs args \<noteq> ''all'' then [o_docs args] else [''sphinx'', ''doxygen''])
           in if ''doxygen'' \<in> set b \<and> (\<not> l_examples info \<or> \<not> l_tests info)
              then act_then (print_line docs_message) (exit_with 1)
              else act_ret (args\<lparr>o_build := Some b\<rparr>))"

definition show_profile :: "lock \<Rightarrow> ns3_options \<Rightarrow> unit script" where
  "show_profile info args =
     act_when (o_show args = ''profile'')
       (case l_profile info of
          Some p \<Rightarrow> if p = [] then project_not_configured else print_line (''Build profile: '' @ p)
        | None \<Rightarrow> project_not_configured)"

definition unquote :: "string \<Rightarrow> string" where
  "unquote t =
     (if t \<noteq> [] \<and> hd t \<in> {CHR 0x22, CHR 0x27} \<and> last t \<in> {CHR 0x22, CHR 0x27} then slice t 1 (-1) else t)"

text \<open>The program and its arguments; \<open>args.run\<close> is not empty here.\<close>

definition split_target :: "string \<Rightarrow> (string \<times> string list) res" where
  "split_target run = (case str_words (unquote run) of [] \<Rightarrow> Inl IndexError | t # ts \<Rightarrow> Inr (t, ts))"

definition check_scratches :: "machine \<Rightarrow> string option \<Rightarrow> unit script" where
  "check_scratches m folder =
     (case folder of
        None \<Rightarrow> act_ret ()
      | Some d \<Rightarrow>
          act_bind (act_read (\<lambda>s. Inr (scratch_sources m s, dict_find (files s) (path_join d ''ns3scratches'')))) (\<lambda>(srcs, old).
          case old of
            None \<Rightarrow> act_ret ()
          | Some c \<Rightarrow> act_when (str_split (CHR 0x0A) (text_of c) \<noteq> srcs) (refresh_cmake m d)))"

text \<open>The steps with the cache; \<open>None\<close> is the return of \<open>main\<close> after the configuration was shown.\<close>

definition cache_step :: "machine \<Rightarrow> lock \<Rightarrow> ns3_options \<Rightarrow> string option option script" where
  "cache_step m info args =
     act_bind (search_cmake_cache m (l_profile info)) (\<lambda>(folder, generator).
     if o_show args = ''config'' then act_then (check_config folder) (act_ret None)
     else act_then (check_scratches m folder)
       (act_then (act_when (o_configure args) (configuration_step m folder generator args))
       (act_bind (act_read (\<lambda>s. Inr (project_configured folder s))) (\<lambda>ok.
        if ok then act_ret (Some folder) else project_not_configured))))"

definition find_program :: "(string, string list) dict \<Rightarrow> string \<Rightarrow> string script" where
  "find_program programs target =
     (if dict_has programs target then check_ambiguous_target ''Run'' target programs
      else act_bind (act_read (\<lambda>s. Inr (is_substring ''.py'' target \<and> exists_path target s))) (\<lambda>ok.
           if ok then act_ret target else act_fail (Exception (''Couldn't find the specified program: '' @ target))))"

definition complete_targets :: "(string, string list) dict \<Rightarrow> ns3_options \<Rightarrow> ns3_options script" where
  "complete_targets programs args =
     (case o_build args of
        None \<Rightarrow> act_ret args
      | Some ts \<Rightarrow>
          act_bind (act_map (\<lambda>t. if dict_has programs t then check_ambiguous_target ''Build'' t programs else act_ret t) ts) (\<lambda>ts'.
          act_ret (args\<lparr>o_build := Some ts'\<rparr>)))"

text \<open>The name of the executable, which has to exist.\<close>

definition locate_target :: "ns3_options \<Rightarrow> bool \<Rightarrow> string option \<Rightarrow> string option \<Rightarrow> string option script" where
  "locate_target args run_only folder target_to_run =
     (case target_to_run of
        None \<Rightarrow> act_ret None
      | Some target \<Rightarrow>
          if o_shell args \<or> target = [] \<or> is_substring ''.py'' target then act_ret (Some target)
          else act_bind (act_read (\<lambda>s. Inr (out_dir s))) (\<lambda>out.
               act_bind (act_lift (remove_overlapping_path out target)) (\<lambda>t1.
               act_bind (act_read (\<lambda>s. Inr (
                 if folder = None \<and> is_substring ''scratch'' t1 \<and> run_only
                 then let waf = str_replace (basename t1) (o_run args) t1 in if exists_path (out @ ''/'' @ waf) s then waf else t1
                 else t1))) (\<lambda>t2.
               let t3 = out @ ''/'' @ t2
               in act_bind (act_read (\<lambda>s. Inr (exists_path t3 s))) (\<lambda>ex.
                  if \<not> is_substring ''.py'' t3 \<and> \<not> ex then act_fail (Exception ''Executable has not been built yet'')
                  else act_ret (Some t3))))))"

text \<open>From the moment at which the targets are known.\<close>

definition build_and_run_step :: "machine \<Rightarrow> lock \<Rightarrow> string list \<Rightarrow> ns3_options \<Rightarrow> string option \<Rightarrow> (string \<times> string list) option \<Rightarrow> unit script" where
  "build_and_run_step m info modules args folder run =
     act_bind (get_program_shortcuts m (l_profile info) (l_version info)) (\<lambda>programs.
     act_bind (case run of None \<Rightarrow> act_ret None
               | Some (t, ts) \<Rightarrow> act_bind (find_program programs t) (\<lambda>p. act_ret (Some p))) (\<lambda>target.
     act_bind (complete_targets programs args) (\<lambda>args1.
     act_then (act_when (\<not> (run \<noteq> None \<and> o_no_build args1))
       (build_step m args1 (run \<noteq> None) target folder modules (l_version info) (l_profile info)))
     (act_bind (locate_target args1 (run \<noteq> None \<and> o_no_build args1) folder target) (\<lambda>located.
      act_then (act_when (l_sudo info \<or> run \<noteq> None \<and> o_enable_sudo args1)
        (act_bind (act_lift (if l_sudo info then res_fold (\<lambda>(k, l) acc. res_bind (py_index l 0) (\<lambda>p. Inr (acc @ [p]))) programs [] else Inr []))
          (sudo_step m args1 located)))
      (act_when (o_shell args1 \<or> run \<noteq> None)
        (run_step m args1 located (case run of None \<Rightarrow> [] | Some (t, ts) \<Rightarrow> ts))))))))"

text \<open>From the moment at which the options for the documentation are known.\<close>

definition after_docs :: "machine \<Rightarrow> lock \<Rightarrow> string list option \<Rightarrow> ns3_options \<Rightarrow> unit script" where
  "after_docs m info modules args3 =
     act_then (show_profile info args3)
       (let args4 = (if o_show args3 = ''version'' then args3\<lparr>o_build := Some [''check-version'']\<rparr> else args3);
            running = o_run args4 \<noteq> []
        in act_then (act_when running (act_upd (\<lambda>s. s\<lparr>run_verbose := o_run_verbose args4\<rparr>)))
          (act_bind (if running then act_bind (act_lift (split_target (o_run args4))) (\<lambda>r. act_ret (Some r)) else act_ret None) (\<lambda>run.
           act_bind (if running \<and> o_no_build args4 then act_ret (Some None) else cache_step m info args4) (\<lambda>cached.
           case cached of
             None \<Rightarrow> act_ret ()
           | Some folder \<Rightarrow>
               (case modules of
                  None \<Rightarrow> project_not_configured
                | Some mods \<Rightarrow> build_and_run_step m info (map (str_replace ''ns3-'' []) mods) args4 folder run)))))"

text \<open>\<open>bare\<close>: no argument was given at all, which builds everything.\<close>

definition ns3_body :: "machine \<Rightarrow> bool \<Rightarrow> ns3_options \<Rightarrow> unit script" where
  "ns3_body m bare args0 =
     (let args1 = (if bare then args0\<lparr>o_build := Some []\<rparr> else args0)
      in act_then (load_globals m)
        (if o_clean args1 then clean_cmake_artifacts m (o_dry_run args1)
         else act_bind (check_lock_data m) (\<lambda>(info, modules).
              act_bind (docs_build info (positional_build args1)) (after_docs m info modules))))"

text \<open>The handler that prints the commands runs in any case, once the arguments are parsed.\<close>

definition ns3_main :: "machine \<Rightarrow> string option \<Rightarrow> bool \<Rightarrow> ns3_options res \<Rightarrow> unit script" where
  "ns3_main m pybindgen bare parsed =
     act_then refuse_run_as_root
     (act_then (prepare_env pybindgen)
     (act_bind (act_lift parsed) (\<lambda>args s.
       case ns3_body m bare args s of (s', r) \<Rightarrow> (exit_handler (o_dry_run args) s', r))))"

section \<open>Dry runs\<close>

text \<open>
  What a dry run must leave as it is: the disk, and the list of the processes, to which only calls of
  \<open>cmake --version\<close> are added.
\<close>

definition disk_of :: "shell \<Rightarrow> disk" where
  "disk_of s = (files s, dirs s, suid s)"

definition version_call :: "machine \<Rightarrow> string list \<times> string" where
  "version_call m = ([the (which m ''cmake''), ''--version''], working_dir m)"

definition untouched :: "(string list \<times> string) \<times> shell \<Rightarrow> shell \<Rightarrow> bool" where
  "untouched d s \<longleftrightarrow> disk_of s = disk_of (snd d) \<and> (\<exists>n. executed s = executed (snd d) @ replicate n (fst d))"

definition safe :: "(string list \<times> string) \<times> shell \<Rightarrow> 'a script \<Rightarrow> bool" where
  "safe d a \<longleftrightarrow> act_keeps (untouched d) a"

text \<open>What cmake documents: \<open>cmake --version\<close> changes no file.\<close>

definition version_harmless :: "machine \<Rightarrow> bool" where
  "version_harmless m \<longleftrightarrow> (\<forall>e disk. fst (process m e (fst (version_call m)) (snd (version_call m)) disk) = disk)"

definition lawful :: "machine \<Rightarrow> (string list \<times> string) \<times> shell \<Rightarrow> bool" where
  "lawful m d \<longleftrightarrow> fst d = version_call m \<and> version_harmless m"

named_theorems safe_intros \<open>actions that touch nothing\<close>

lemmas safe_basic [safe_intros] = keeps_intros [where P = "untouched d" for d, folded safe_def]

lemmas safe_then = act_keeps_then [where P = "untouched d" for d, folded safe_def]
lemmas safe_bind = act_keeps_bind [where P = "untouched d" for d, folded safe_def]
lemmas safe_if = act_keeps_if [where P = "untouched d" for d, folded safe_def]
lemmas safe_prod = act_keeps_prod [where P = "untouched d" for d, folded safe_def]

lemma safe_option [safe_intros]:
  "safe d a \<Longrightarrow> (\<And>x. safe d (f x)) \<Longrightarrow> safe d (case v of None \<Rightarrow> a | Some x \<Rightarrow> f x)"
  by (cases v) simp_all

lemma safe_let [safe_intros]: "(\<And>x. safe d (f x)) \<Longrightarrow> safe d (let x = v in f x)"
  by simp

lemma safe_same: "(\<And>s. disk_of (fst (a s)) = disk_of s \<and> executed (fst (a s)) = executed s) \<Longrightarrow> safe d a"
  by (simp add: safe_def act_keeps_def untouched_def)

lemma safe_messages [safe_intros]:
  "safe d (print_line t)" "safe d (print_and_buffer t)" "safe d (exit_with code)" "safe d (buffer_command m f t)"
  by (auto intro!: safe_same simp: print_line_def print_and_buffer_def exit_with_def buffer_command_def act_simps disk_of_def)

lemma safe_readers [safe_intros]:
  "safe d (load_globals m)" "safe d (check_lock_data m)" "safe d (search_cmake_cache m p)" "safe d (get_program_shortcuts m p v)"
  "safe d (read_content f)"
  by (auto intro!: safe_same simp: load_globals_def check_lock_data_def search_cmake_cache_def get_program_shortcuts_def read_content_def
      act_simps disk_of_def split: option.splits)

lemma safe_not_configured [safe_intros]: "safe d project_not_configured"
  unfolding project_not_configured_def by (intro safe_intros)

lemma safe_check_config [safe_intros]: "safe d (check_config f)"
  unfolding check_config_def by (intro safe_intros)

lemma safe_version_call:
  assumes "lawful m d" and "which m ''cmake'' = Some cmake"
  shows "safe d (run_process m [cmake, ''--version''] (working_dir m))"
proof -
  have c: "fst d = ([cmake, ''--version''], working_dir m)" using assms by (simp add: lawful_def version_call_def)
  have p: "fst (process m e [cmake, ''--version''] (working_dir m) disk) = disk" for e disk
    using assms unfolding lawful_def version_harmless_def version_call_def by (simp only: option.sel fst_conv snd_conv)
  have "untouched d (fst (run_process m [cmake, ''--version''] (working_dir m) s))" if u: "untouched d s" for s
  proof -
    obtain n where n: "executed s = executed (snd d) @ replicate n (fst d)" using u by (auto simp: untouched_def)
    obtain code out err where r: "process m (env s) [cmake, ''--version''] (working_dir m) (files s, dirs s, suid s) = ((files s, dirs s, suid s), code, out, err)"
      using p [of "env s" "(files s, dirs s, suid s)"] by (metis prod.collapse)
    have "executed (snd d) @ replicate n (fst d) @ [fst d] = executed (snd d) @ replicate (Suc n) (fst d)"
      by (simp add: replicate_append_same)
    with n u show ?thesis unfolding untouched_def run_process_def run_in_def r
      by (auto simp: disk_of_def c [symmetric] intro: exI [of _ "Suc n"])
  qed
  then show ?thesis by (simp add: safe_def act_keeps_def)
qed

lemma safe_check_version [safe_intros]:
  assumes "lawful m d"
  shows "safe d (cmake_check_version m)"
proof (cases "which m ''cmake''")
  case None
  then show ?thesis unfolding cmake_check_version_def by (simp add: safe_intros)
next
  case (Some cmake)
  show ?thesis unfolding cmake_check_version_def Some option.case
    by (intro safe_intros safe_version_call [OF assms Some])
qed

lemma safe_configure [safe_intros]: "safe d (configure_cmake m cmake args f g True)"
  unfolding configure_cmake_def Let_def by (simp add: act_when_def) (intro safe_intros)

lemma safe_build [safe_intros]: "lawful m d \<Longrightarrow> o_dry_run args \<Longrightarrow> safe d (cmake_build m f args t)"
  unfolding cmake_build_def by (simp add: act_when_def) (intro safe_intros)

lemma safe_each [safe_intros]: "(\<And>x. safe d (f x)) \<Longrightarrow> safe d (act_each f xs)"
  unfolding act_each_def by (intro safe_intros)

lemma safe_clean [safe_intros]: "safe d (clean_cmake_artifacts m True)"
  unfolding clean_cmake_artifacts_def by (simp add: act_when_def) (intro safe_intros)

lemma safe_verbose [safe_intros]: "safe d (act_upd (\<lambda>s. s\<lparr>run_verbose := b\<rparr>))"
  by (rule safe_same) (simp add: act_simps disk_of_def)

lemma safe_target [safe_intros]: "safe d (get_target_to_build p v q)"
  unfolding get_target_to_build_def by (intro safe_intros)

lemma safe_ambiguous [safe_intros]: "safe d (check_ambiguous_target k t ps)"
  unfolding check_ambiguous_target_def by (intro safe_intros)

lemma safe_build_target [safe_intros]: "safe d (build_target m mods v p t)"
  unfolding build_target_def by (intro safe_intros)

lemma safe_build_targets [safe_intros]: "lawful m d \<Longrightarrow> o_dry_run args \<Longrightarrow> safe d (build_targets m f args mods v p ts)"
  by (induction m f args mods v p ts rule: build_targets.induct) (simp_all add: safe_intros)

lemma safe_build_step [safe_intros]: "lawful m d \<Longrightarrow> o_dry_run args \<Longrightarrow> safe d (build_step m args b t f mods v p)"
  unfolding build_step_def by (intro safe_intros)

lemma safe_run_step [safe_intros]: "o_dry_run args \<Longrightarrow> safe d (run_step m args t ts)"
  unfolding run_step_def by (simp add: act_when_def) (intro safe_intros)

lemma safe_sudo_target [safe_intros]: "b \<Longrightarrow> safe d (sudo_target m b t)"
  unfolding sudo_target_def Let_def by (simp add: act_when_def) (intro safe_intros)

lemma safe_sudo_step [safe_intros]: "o_dry_run args \<Longrightarrow> safe d (sudo_step m args t ts)"
  unfolding sudo_step_def by (intro safe_intros)

lemma safe_find_program [safe_intros]: "safe d (find_program ps t)"
  unfolding find_program_def by (intro safe_intros)

lemma safe_locate [safe_intros]: "safe d (locate_target args b f t)"
  unfolding locate_target_def Let_def by (intro safe_intros)

lemma safe_show_profile [safe_intros]: "safe d (show_profile info args)"
  unfolding show_profile_def by (intro safe_intros)

text \<open>The arguments of a dry run without a forced refresh; they stay so.\<close>

definition dry :: "ns3_options \<Rightarrow> bool" where
  "dry args \<longleftrightarrow> o_dry_run args \<and> \<not> (o_configure args \<and> o_force_refresh args)"

lemma dry_build [simp]: "dry (args\<lparr>o_build := b\<rparr>) = dry args"
  by (simp add: dry_def)

lemma safe_bind_gives:
  "safe d a \<Longrightarrow> act_gives (\<lambda>_. True) R a \<Longrightarrow> (\<And>x. R x \<Longrightarrow> safe d (f x)) \<Longrightarrow> safe d (act_bind a f)"
  unfolding safe_def by (rule act_keeps_bind_gives)

lemma docs_build_dry: "dry args \<Longrightarrow> act_gives (\<lambda>_. True) dry (docs_build info args)"
  by (auto simp: act_gives_def docs_build_def Let_def act_simps print_line_def exit_with_def split: sum.splits)

lemma complete_targets_dry: "dry args \<Longrightarrow> act_gives (\<lambda>_. True) dry (complete_targets ps args)"
  by (auto simp: act_gives_def complete_targets_def act_simps split: option.splits sum.splits prod.splits)

lemma safe_docs_build: "safe d (docs_build info args)"
  unfolding docs_build_def Let_def by (intro safe_intros)

lemma safe_complete_targets: "safe d (complete_targets ps args)"
  unfolding complete_targets_def by (intro safe_intros)

text \<open>The list of scratch sources that the last configuration noted is the current one.\<close>

definition scratches_current :: "machine \<Rightarrow> shell \<Rightarrow> bool" where
  "scratches_current m s \<longleftrightarrow>
     list_all (\<lambda>(f, c). str_endswith f ''ns3scratches'' \<longrightarrow> str_split (CHR 0x0A) (text_of c) = scratch_sources m s) (files s)"

lemma path_join_ends: "str_endswith (path_join d f) f"
  by (auto simp: path_join_def str_endswith_def)

lemma safe_scratches:
  assumes "scratches_current m (snd d)"
  shows "safe d (check_scratches m f)"
proof -
  have "untouched d (fst (check_scratches m f s))" if t: "untouched d s" for s
  proof (cases f)
    case (Some p)
    have eq: "files s = files (snd d)" "scratch_sources m s = scratch_sources m (snd d)"
      using t by (simp_all add: untouched_def disk_of_def scratch_sources_def glob_below_def)
    have "str_split (CHR 0x0A) (text_of c) = scratch_sources m s" if "dict_find (files s) (path_join p ''ns3scratches'') = Some c" for c
      using assms that path_join_ends [of p "''ns3scratches''"] unfolding scratches_current_def eq list_all_iff dict_find_def
      by (blast dest: map_of_SomeD)
    then show ?thesis using t by (auto simp: check_scratches_def Some act_simps act_when_def split: option.splits)
  qed (simp add: check_scratches_def act_simps t)
  then show ?thesis by (simp add: safe_def act_keeps_def)
qed

lemma safe_cache_step:
  assumes "lawful m d" and "dry args" and "scratches_current m (snd d)"
  shows "safe d (cache_step m info args)"
proof -
  have c: "safe d (act_when (o_configure args) (configuration_step m f g args))" for f g
  proof (cases "o_configure args")
    case True
    then have "\<not> o_force_refresh args" "o_dry_run args" using assms(2) by (simp_all add: dry_def)
    then show ?thesis unfolding configuration_step_def using assms(1) by (simp add: safe_intros)
  qed (simp add: act_when_def safe_intros)
  show ?thesis unfolding cache_step_def by (intro safe_intros safe_scratches [OF assms(3)] c)
qed

lemma safe_build_and_run: "lawful m d \<Longrightarrow> dry args \<Longrightarrow> safe d (build_and_run_step m info mods args f run)"
  unfolding build_and_run_step_def
  by (intro safe_intros safe_bind_gives [OF safe_complete_targets complete_targets_dry]) (simp_all add: dry_def)

lemma positional_build_dry [simp]: "dry (positional_build args) = dry args"
  by (simp add: positional_build_def Let_def)

lemma safe_after_docs:
  assumes "lawful m d" and "dry args" and "scratches_current m (snd d)"
  shows "safe d (after_docs m info modules args)"
proof -
  have v: "dry (if o_show args = ''version'' then args\<lparr>o_build := Some [''check-version'']\<rparr> else args)" using assms(2) by simp
  show ?thesis unfolding after_docs_def Let_def
    by (intro safe_intros safe_cache_step [OF assms(1) v assms(3)] safe_build_and_run [OF assms(1) v])
qed

lemma safe_body:
  assumes "lawful m d" and "dry args" and "scratches_current m (snd d)"
  shows "safe d (ns3_body m bare args)"
proof -
  let ?a = "if bare then args\<lparr>o_build := Some []\<rparr> else args"
  have a: "dry (positional_build ?a)" using assms(2) by simp
  have dr: "o_dry_run ?a" using assms(2) by (simp add: dry_def)
  have docs: "safe d (act_bind (docs_build info (positional_build ?a)) (after_docs m info modules))" for info modules
    by (rule safe_bind_gives [OF safe_docs_build docs_build_dry [OF a] safe_after_docs [OF assms(1) _ assms(3)]])
  have clean: "safe d (clean_cmake_artifacts m (o_dry_run ?a))" using dr safe_clean by simp
  show ?thesis unfolding ns3_body_def Let_def
    by (rule safe_then [OF safe_readers(1)], rule safe_if [OF clean], rule safe_bind [OF safe_readers(2)], rule safe_prod, rule docs)
qed

section \<open>Properties\<close>

text \<open>
  C25. Dry runs: with \<open>--dry-run\<close> no file or directory is changed, and no process is started but \<open>cmake --version\<close>, which cmake
  documents to change nothing, whatever the command is, except when a refresh is forced or when the scratch
  sources are not those that the last configuration noted.
\<close>

theorem dry_run_safe:
  assumes "o_dry_run args" and "\<not> (o_configure args \<and> o_force_refresh args)" and "scratches_current m s"
    and "version_harmless m" and "fst (ns3_main m pybindgen bare (Inr args) s) = t"
  shows "(files t, dirs t, suid t) = (files s, dirs s, suid s) \<and>
    (\<exists>n. executed t = executed s @ replicate n ([the (which m ''cmake''), ''--version''], working_dir m))"
proof -
  let ?d = "(version_call m, s)"
  have "dry args" using assms(1,2) by (simp add: dry_def)
  have l: "lawful m ?d" "scratches_current m (snd ?d)" using assms(3,4) by (simp_all add: lawful_def)
  have h: "untouched ?d (exit_handler b u) = untouched ?d u" for b u by (simp add: exit_handler_def untouched_def disk_of_def)
  have "safe ?d (act_bind (act_lift (Inr args)) (\<lambda>args s. case ns3_body m bare args s of (s', r) \<Rightarrow> (exit_handler (o_dry_run args) s', r)))"
    using safe_body [OF l(1) \<open>dry args\<close> l(2), of bare] h by (simp add: safe_def act_keeps_def act_simps case_prod_beta)
  moreover have "safe ?d (prepare_env pybindgen)"
    by (rule safe_same) (simp add: prepare_env_def Let_def act_simps disk_of_def)
  moreover have "safe ?d refuse_run_as_root" unfolding refuse_run_as_root_def by (intro safe_intros)
  ultimately have "safe ?d (ns3_main m pybindgen bare (Inr args))" unfolding ns3_main_def by (intro safe_then)
  moreover have "untouched ?d s" by (auto simp: untouched_def intro: exI [of _ 0])
  ultimately have "untouched ?d t" using assms(5) by (auto simp: safe_def act_keeps_def)
  then show ?thesis by (simp add: untouched_def disk_of_def version_call_def)
qed

lemma run_env_find:
  assumes "dict_ok (env s)" and "(key, value) \<in> set (custom_env s)"
  shows "dict_find (run_env s) key = Some (case dict_find (env s) key of None \<Rightarrow> value | Some old \<Rightarrow> old @ '':'' @ value)"
  using assms by (auto simp: run_env_def custom_env_def dict_ops split: option.splits)

text \<open>
  Running: the program is started once, in an environment in which the libraries of the build are added to what
  was set before, and the exit status of the script is the one of the program.
\<close>

theorem run_step_status:
  assumes "run_command m s args target ts = Inr (wd, program, argv)" and "\<not> o_dry_run args" and "dict_ok (env s)"
    and "process m (run_env s) argv wd (files s, dirs s, suid s) = (disk, code, out, err)"
  shows "\<exists>t. run_step m args target ts s = (t, Inl (SystemExit code)) \<and> executed t = executed s @ [(argv, wd)] \<and>
    dict_find (run_env s) ''LD_LIBRARY_PATH'' =
      Some (case dict_find (env s) ''LD_LIBRARY_PATH'' of None \<Rightarrow> out_dir s @ ''/lib'' | Some old \<Rightarrow> old @ '':'' @ out_dir s @ ''/lib'')"
proof -
  obtain fs ds us where d: "disk = (fs, ds, us)" by (metis prod_cases3)
  have e: "dict_find (run_env s) ''LD_LIBRARY_PATH'' =
      Some (case dict_find (env s) ''LD_LIBRARY_PATH'' of None \<Rightarrow> out_dir s @ ''/lib'' | Some old \<Rightarrow> old @ '':'' @ out_dir s @ ''/lib'')"
    by (rule run_env_find [OF assms(3)]) (simp add: custom_env_def)
  show ?thesis using assms(1,2,4) unfolding e
    by (auto simp: run_step_def act_simps act_when_def print_and_buffer_def print_line_def exit_with_def run_in_def d)
qed

section \<open>Samples\<close>

definition sample_run :: ns3_options where
  "sample_run =
     \<lparr>o_build = None, o_configure = False, o_clean = False, o_install = False, o_uninstall = False, o_shell = False,
      o_run = ''first'', o_docs = [], o_show = [], o_dry_run = False, o_quiet = False, o_verbose = False, o_run_verbose = True,
      o_jobs = 3, o_program_args = [''--n=1''], o_no_build = False, o_command_template = None, o_cwd = None, o_gdb = False,
      o_lldb = False, o_valgrind = False, o_visualize = False, o_enable_sudo = False, o_build_profile = None, o_G = None,
      o_cxx_standard = None, o_on_off = [], o_lcov_zerocounters = None, o_output_directory = None, o_with_brite = None,
      o_with_click = None, o_with_openflow = None, o_prefix = None, o_enable_modules = None, o_disable_modules = None,
      o_force_refresh = False, o_trace_cmake_perf = False\<rparr>"

text \<open>The target of the program is built, then it is run.\<close>

lemma sample_session:
  "snd (ns3_main sample_machine None False (Inr sample_run) sample_shell) = Inl (SystemExit 0) \<and>
   executed (fst (ns3_main sample_machine None False (Inr sample_run) sample_shell)) =
     [([''/usr/bin/cmake'', ''--version''], ''/ns3''),
      ([''cmake'', ''--build'', ''.'', ''-j'', ''3'', ''--target'', ''first''], ''/ns3/cache''),
      ([''/ns3/build/examples/ns3.36-first-default'', ''--n=1''], ''/ns3'')]"
  by code_simp

theorem dry_run_safe_witness:
  "\<exists>n. executed (fst (ns3_main sample_machine None False (Inr (sample_run\<lparr>o_dry_run := True\<rparr>)) sample_shell)) =
     replicate n ([''/usr/bin/cmake'', ''--version''], ''/ns3'')"
proof -
  have s: "scratches_current sample_machine sample_shell" "which sample_machine ''cmake'' = Some ''/usr/bin/cmake''"
    "working_dir sample_machine = ''/ns3''" "executed sample_shell = []" by code_simp+
  have "version_harmless sample_machine" by (simp add: version_harmless_def sample_machine_def)
  from dry_run_safe [OF _ _ s(1) this refl, of "sample_run\<lparr>o_dry_run := True\<rparr>" None False] show ?thesis
    by (simp add: s(2-4) sample_run_def)
qed

theorem run_step_status_witness:
  "\<exists>t. run_step sample_machine sample_run (Some ''/ns3/build/x'') [] sample_shell = (t, Inl (SystemExit 0)) \<and>
     executed t = [([''/ns3/build/x'', ''--n=1''], ''/ns3'')]"
proof -
  have r: "run_command sample_machine sample_shell sample_run (Some ''/ns3/build/x'') [] = Inr (''/ns3'', ''/ns3/build/x'', [''/ns3/build/x'', ''--n=1''])"
    "\<not> o_dry_run sample_run" "dict_ok (env sample_shell)" "executed sample_shell = []" by code_simp+
  have p: "process sample_machine e [''/ns3/build/x'', ''--n=1''] wd disk = (disk, 0, [], [])" for e wd disk by (simp add: sample_machine_def)
  show ?thesis using run_step_status [OF r(1-3) p] r(4) by auto
qed

text \<open>When the scratch sources have changed, a dry run starts cmake; and a forced refresh writes the backup in a dry run.\<close>

lemma dry_run_starts_cmake:
  "executed (fst (ns3_main sample_machine None False (Inr (sample_run\<lparr>o_dry_run := True\<rparr>))
     (sample_shell\<lparr>files := (''/ns3/cache/ns3scratches'', Text ''old'') # files sample_shell\<rparr>))) = [([''/usr/bin/cmake'', ''..''], ''/ns3/cache''), ([''/usr/bin/cmake'', ''--version''], ''/ns3'')]"
  by code_simp

lemma dry_run_writes_backup:
  "dict_has (files (fst (reconfigure_cmake_to_force_refresh sample_machine ''/usr/bin/cmake'' (Some ''/ns3/cache'') True
     (sample_shell\<lparr>files := (''/ns3/cache/CMakeCache.txt'', Text (''NS3_INT64X64-STRINGS:INTERNAL=a'' @ [CHR 0x0A] @ ''NS3_LOG:BOOL=ON'')) #
        files sample_shell\<rparr>)))) settings_bak_file"
  by code_simp

end
