(* ===== verification/Flow_Results.thy ===== *)
theory Flow_Results
  imports Py_Strings
begin

text \<open>
  The reader of the flow monitor's results (\<open>src/src/flow-monitor/examples/flowmon-parse-results.py\<close>):
  the flows of an XML document, their five-tuples and probe statistics, and the report.

  An element is a tree with a tag, attributes and children, which is what \<open>ElementTree\<close> gives;
  \<open>find_all\<close> is \<open>findall\<close> on a path of tags.  The flows are objects that \<open>self.flows\<close> and
  \<open>flow_map\<close> share: the model keeps the objects in a list and \<open>flow_map\<close> holds their positions.
  Floats are exact rationals; the texts of the infinities and of \<open>nan\<close>, which \<open>float\<close> accepts, are refused.
\<close>

section \<open>Elements\<close>

datatype element = Element (tag: string) (attrib: "(string, string) dict") (children: "element list")

fun find_all :: "string list \<Rightarrow> element \<Rightarrow> element list" where
  "find_all [] el = [el]"
| "find_all (t # ts) el = concat (map (find_all ts) (filter (\<lambda>c. tag c = t) (children el)))"

definition find_first :: "string \<Rightarrow> element \<Rightarrow> element option" where
  "find_first t el = find (\<lambda>c. tag c = t) (children el)"

definition get_attr :: "element \<Rightarrow> string \<Rightarrow> string option" where
  "get_attr el k = dict_find (attrib el) k"

text \<open>\<open>int\<close> and \<open>float\<close> of an attribute: both raise \<open>TypeError\<close> on \<open>None\<close>.\<close>

definition int_attr :: "element \<Rightarrow> string \<Rightarrow> int res" where
  "int_attr el k = (case get_attr el k of None \<Rightarrow> Inl TypeError | Some s \<Rightarrow> py_int s)"

definition float_attr :: "element \<Rightarrow> string \<Rightarrow> rat res" where
  "float_attr el k = (case get_attr el k of None \<Rightarrow> Inl TypeError | Some s \<Rightarrow> py_float s)"

definition parse_time_ns :: "string option \<Rightarrow> rat res" where
  "parse_time_ns tm =
     (case tm of None \<Rightarrow> Inl AttributeError
      | Some t \<Rightarrow> if str_endswith t ''ns'' then py_float (slice_to t (-2)) else Inl (ValueError t))"

section \<open>Five-tuples, histograms and flows\<close>

record five_tuple =
  sourceAddress :: "string option"
  destinationAddress :: "string option"
  protocol :: int
  sourcePort :: int
  destinationPort :: int

definition FiveTuple :: "element \<Rightarrow> five_tuple res" where
  "FiveTuple el =
     res_bind (int_attr el ''sourcePort'') (\<lambda>sp.
     res_bind (int_attr el ''destinationPort'') (\<lambda>dp.
     res_bind (int_attr el ''protocol'') (\<lambda>p.
     Inr \<lparr>sourceAddress = get_attr el ''sourceAddress'',
          destinationAddress = get_attr el ''destinationAddress'',
          protocol = p, sourcePort = sp, destinationPort = dp\<rparr>)))"

type_synonym histogram = "(rat \<times> rat \<times> int) list"

definition add_bin :: "element \<Rightarrow> histogram \<Rightarrow> histogram res" where
  "add_bin b bins =
     res_bind (float_attr b ''start'') (\<lambda>s.
     res_bind (float_attr b ''width'') (\<lambda>w.
     res_bind (int_attr b ''count'') (\<lambda>n. Inr (bins @ [(s, w, n)]))))"

definition Histogram :: "element option \<Rightarrow> histogram res" where
  "Histogram el = (case el of None \<Rightarrow> Inr [] | Some e \<Rightarrow> res_fold add_bin (find_all [''bin''] e) [])"

record probe_stats =
  probeId :: int
  packets :: int
  bytes :: rat
  delayFromFirstProbe :: pynum

record flow =
  flowId :: int
  rx_duration :: rat
  probe_stats_unsorted :: "probe_stats list"
  hopCount :: pynum
  delayMean :: "rat option"
  packetSizeMean :: "rat option"
  rxBitrate :: "rat option"
  txBitrate :: "rat option"
  packetLossRatio :: "rat option"
  flowInterruptionsHistogram :: "histogram option"
  fiveTuple :: "five_tuple option"

definition duration :: "element \<Rightarrow> string \<Rightarrow> string \<Rightarrow> rat res" where
  "duration el end start =
     res_bind (parse_time_ns (get_attr el end)) (\<lambda>b.
     res_bind (parse_time_ns (get_attr el start)) (\<lambda>a. Inr ((b - a) / 10 ^ 9)))"

text \<open>\<open>float(flow_el.get('delaySum')[:-2])\<close>: the last two characters are cut off unread.\<close>

definition delay_sum :: "element \<Rightarrow> rat res" where
  "delay_sum el =
     (case get_attr el ''delaySum'' of None \<Rightarrow> Inl TypeError | Some s \<Rightarrow> py_float (slice_to s (-2)))"

definition hop_count :: "element \<Rightarrow> rat \<Rightarrow> pynum res" where
  "hop_count el rx =
     (if rx \<noteq> 0 then res_bind (float_attr el ''timesForwarded'') (\<lambda>n. Inr (PFlt (n / rx + 1)))
      else Inr (PInt (-1000)))"

definition delay_and_size :: "element \<Rightarrow> rat \<Rightarrow> (rat option \<times> rat option) res" where
  "delay_and_size el rx =
     (if rx \<noteq> 0
      then res_bind (delay_sum el) (\<lambda>d.
           res_bind (float_attr el ''rxBytes'') (\<lambda>b. Inr (Some (d / rx / 10 ^ 9), Some (b / rx))))
      else Inr (None, None))"

definition bitrate :: "element \<Rightarrow> string \<Rightarrow> rat \<Rightarrow> rat option res" where
  "bitrate el k d =
     (if d > 0 then res_bind (float_attr el k) (\<lambda>b. Inr (Some (b * 8 / d))) else Inr None)"

definition loss_ratio :: "rat \<Rightarrow> rat \<Rightarrow> rat option res" where
  "loss_ratio rx lost =
     (if rx = 0 then Inr None
      else if rx + lost = 0 then Inl ZeroDivisionError
      else Inr (Some (lost / (rx + lost))))"

definition interruptions :: "element \<Rightarrow> histogram option res" where
  "interruptions el =
     (case find_first ''flowInterruptionsHistogram'' el of None \<Rightarrow> Inr None
      | Some h \<Rightarrow> res_bind (Histogram (Some h)) (\<lambda>b. Inr (Some b)))"

definition Flow :: "element \<Rightarrow> flow res" where
  "Flow el =
     res_bind (int_attr el ''flowId'') (\<lambda>k.
     res_bind (float_attr el ''rxPackets'') (\<lambda>rx.
     res_bind (float_attr el ''txPackets'') (\<lambda>tx.
     res_bind (duration el ''timeLastTxPacket'' ''timeFirstTxPacket'') (\<lambda>tx_dur.
     res_bind (duration el ''timeLastRxPacket'' ''timeFirstRxPacket'') (\<lambda>rx_dur.
     res_bind (hop_count el rx) (\<lambda>hops.
     res_bind (delay_and_size el rx) (\<lambda>(delay, size).
     res_bind (bitrate el ''rxBytes'' rx_dur) (\<lambda>rxr.
     res_bind (bitrate el ''txBytes'' tx_dur) (\<lambda>txr.
     res_bind (float_attr el ''lostPackets'') (\<lambda>lost.
     res_bind (loss_ratio rx lost) (\<lambda>ratio.
     res_bind (interruptions el) (\<lambda>hist.
     Inr \<lparr>flowId = k, rx_duration = rx_dur, probe_stats_unsorted = [], hopCount = hops,
          delayMean = delay, packetSizeMean = size, rxBitrate = rxr, txBitrate = txr,
          packetLossRatio = ratio, flowInterruptionsHistogram = hist,
          fiveTuple = None\<rparr>))))))))))))"

section \<open>Simulations\<close>

type_synonym flow_store = "flow list \<times> (int, nat) dict"

definition add_flow :: "element \<Rightarrow> flow_store \<Rightarrow> flow_store res" where
  "add_flow el st =
     res_bind (Flow el) (\<lambda>f.
     case st of (flows, flow_map) \<Rightarrow> Inr (flows @ [f], dict_set (flowId f) (length flows) flow_map))"

definition update_flow :: "int \<Rightarrow> (flow \<Rightarrow> flow) \<Rightarrow> flow_store \<Rightarrow> flow_store res" where
  "update_flow k g st =
     (case st of (flows, flow_map) \<Rightarrow>
        res_bind (dict_get flow_map k) (\<lambda>i. Inr (flows[i := g (flows ! i)], flow_map)))"

definition add_tuple :: "element \<Rightarrow> flow_store \<Rightarrow> flow_store res" where
  "add_tuple el st =
     res_bind (int_attr el ''flowId'') (\<lambda>k.
     res_bind (FiveTuple el) (\<lambda>t.
     update_flow k (\<lambda>f. f\<lparr>fiveTuple := Some t\<rparr>) st))"

definition probe_delay :: "element \<Rightarrow> int \<Rightarrow> pynum res" where
  "probe_delay el n =
     (if n > 0
      then res_bind (parse_time_ns (get_attr el ''delayFromFirstProbeSum'')) (\<lambda>d. Inr (PFlt (d / of_int n)))
      else Inr (PInt 0))"

definition add_stats :: "int \<Rightarrow> element \<Rightarrow> flow_store \<Rightarrow> flow_store res" where
  "add_stats probe el st =
     res_bind (int_attr el ''flowId'') (\<lambda>k.
     res_bind (int_attr el ''packets'') (\<lambda>n.
     res_bind (float_attr el ''bytes'') (\<lambda>b.
     res_bind (probe_delay el n) (\<lambda>d.
     update_flow k (\<lambda>f. f\<lparr>probe_stats_unsorted := probe_stats_unsorted f @
         [\<lparr>probeId = probe, packets = n, bytes = b, delayFromFirstProbe = d\<rparr>]\<rparr>) st))))"

definition add_probe :: "element \<Rightarrow> flow_store \<Rightarrow> flow_store res" where
  "add_probe el st =
     res_bind (int_attr el ''index'') (\<lambda>probe. res_fold (add_stats probe) (find_all [''FlowStats''] el) st)"

definition Simulation :: "element \<Rightarrow> flow list res" where
  "Simulation el =
     (case find_all [''Ipv4FlowClassifier''] el of
        [classifier] \<Rightarrow>
          res_bind (res_fold add_flow (find_all [''FlowStats'', ''Flow''] el) ([], [])) (\<lambda>s1.
          res_bind (res_fold add_tuple (find_all [''Flow''] classifier) s1) (\<lambda>s2.
          res_bind (res_fold add_probe (find_all [''FlowProbes'', ''FlowProbe''] el) s2) (\<lambda>s3.
          Inr (fst s3))))
      | _ \<Rightarrow> Inl (ValueError ''values to unpack''))"

section \<open>The report\<close>

text \<open>
  The state is what was printed.  Opening the file raises or gives the events of \<open>iterparse\<close>,
  with the error that ends them when the text is not well-formed.
\<close>

datatype xml_event = Start element | End element

type_synonym xml_source = "string \<Rightarrow> (xml_event list \<times> py_error option) res"

definition emit :: "string \<Rightarrow> (string, unit) act" where
  "emit s = act_upd (\<lambda>out. out @ s)"

definition emit_line :: "string \<Rightarrow> (string, unit) act" where
  "emit_line s = emit (s @ [CHR 0x0A])"

fun scan_events :: "xml_event list \<Rightarrow> int \<Rightarrow> flow list list \<Rightarrow> (string, flow list list) act" where
  "scan_events [] level sim_list = act_ret sim_list"
| "scan_events (Start el # evs) level sim_list = scan_events evs (level + 1) sim_list"
| "scan_events (End el # evs) level sim_list =
     (if level - 1 = 0 \<and> tag el = ''FlowMonitor''
      then act_bind (act_lift (Simulation el)) (\<lambda>sim.
           act_then (emit ''.'') (scan_events evs (level - 1) (sim_list @ [sim])))
      else scan_events evs (level - 1) sim_list)"

definition protocol_names :: "(int, string) dict" where
  "protocol_names = [(6, ''TCP''), (17, ''UDP'')]"

definition str_of :: "string option \<Rightarrow> string" where
  "str_of s = (case s of None \<Rightarrow> ''None'' | Some t \<Rightarrow> t)"

definition flow_title :: "flow \<Rightarrow> five_tuple \<Rightarrow> string \<Rightarrow> string" where
  "flow_title f t proto =
     ''FlowID: '' @ str_int (flowId f) @ '' ('' @ proto @ '' '' @ str_of (sourceAddress t) @ ''/'' @
     str_int (sourcePort t) @ '' --> '' @ str_of (destinationAddress t) @ ''/'' @
     str_int (destinationPort t) @ '')''"

definition measure_line :: "string \<Rightarrow> string \<Rightarrow> rat \<Rightarrow> rat option \<Rightarrow> string" where
  "measure_line name unit scale x =
     [CHR 0x09] @ name @ '': '' @
     (case x of None \<Rightarrow> ''None'' | Some v \<Rightarrow> fixed2 (v * scale) @ '' '' @ unit)"

definition print_flow :: "flow \<Rightarrow> (string, unit) act" where
  "print_flow f =
     act_bind (act_lift (attr (fiveTuple f))) (\<lambda>t.
     act_bind (act_lift (dict_get protocol_names (protocol t))) (\<lambda>proto.
     act_then (emit_line (flow_title f t proto))
     (act_then (emit_line (measure_line ''TX bitrate'' ''kbit/s'' (1 / 1000) (txBitrate f)))
     (act_then (emit_line (measure_line ''RX bitrate'' ''kbit/s'' (1 / 1000) (rxBitrate f)))
     (act_then (emit_line (measure_line ''Mean Delay'' ''ms'' 1000 (delayMean f)))
     (emit_line (measure_line ''Packet Loss Ratio'' ''%'' 100 (packetLossRatio f))))))))"

fun print_flows :: "flow list \<Rightarrow> (string, unit) act" where
  "print_flows [] = act_ret ()"
| "print_flows (f # fs) = act_then (print_flow f) (print_flows fs)"

definition report_main :: "xml_source \<Rightarrow> string list \<Rightarrow> (string, unit) act" where
  "report_main open_xml argv =
     act_bind (act_lift (py_index argv 1)) (\<lambda>name.
     act_bind (act_lift (open_xml name)) (\<lambda>(evs, err).
     act_then (emit ''Reading XML file  '')
     (act_bind (scan_events evs 0 []) (\<lambda>sim_list.
     act_then (case err of None \<Rightarrow> act_ret () | Some e \<Rightarrow> act_fail e)
     (act_then (emit_line '' done.'') (print_flows (concat sim_list)))))))"

section \<open>What the classifier and the probes say\<close>

text \<open>
  The entries of the document, read without the objects: a five-tuple or a statistics record
  together with the flow it is for.
\<close>

fun res_map :: "('a \<Rightarrow> 'b res) \<Rightarrow> 'a list \<Rightarrow> 'b list res" where
  "res_map f [] = Inr []"
| "res_map f (x # xs) = res_bind (f x) (\<lambda>y. res_bind (res_map f xs) (\<lambda>ys. Inr (y # ys)))"

definition tuple_entry :: "element \<Rightarrow> (int \<times> five_tuple) res" where
  "tuple_entry el = res_bind (int_attr el ''flowId'') (\<lambda>k. res_bind (FiveTuple el) (\<lambda>t. Inr (k, t)))"

definition stats_entry :: "int \<Rightarrow> element \<Rightarrow> (int \<times> probe_stats) res" where
  "stats_entry probe el =
     res_bind (int_attr el ''flowId'') (\<lambda>k.
     res_bind (int_attr el ''packets'') (\<lambda>n.
     res_bind (float_attr el ''bytes'') (\<lambda>b.
     res_bind (probe_delay el n) (\<lambda>d.
     Inr (k, \<lparr>probeId = probe, packets = n, bytes = b, delayFromFirstProbe = d\<rparr>)))))"

definition probe_entries :: "element \<Rightarrow> (int \<times> probe_stats) list res" where
  "probe_entries el =
     res_bind (int_attr el ''index'') (\<lambda>probe. res_map (stats_entry probe) (find_all [''FlowStats''] el))"

text \<open>A flow completed: the last five-tuple for its id, and all its statistics in order.\<close>

definition complete :: "(int \<times> five_tuple) list \<Rightarrow> (int \<times> probe_stats) list \<Rightarrow> flow \<Rightarrow> flow" where
  "complete ts ss f =
     f\<lparr>fiveTuple := map_of (rev ts) (flowId f),
       probe_stats_unsorted := map snd (filter (\<lambda>(k, s). k = flowId f) ss)\<rparr>"

text \<open>Of several flows with one id only the last one is completed: \<open>flow_map\<close> knows no other.\<close>

fun complete_all :: "(int \<times> five_tuple) list \<Rightarrow> (int \<times> probe_stats) list \<Rightarrow> flow list \<Rightarrow> flow list" where
  "complete_all ts ss [] = []"
| "complete_all ts ss (f # fs) =
     (if flowId f \<in> set (map flowId fs) then f else complete ts ss f) # complete_all ts ss fs"

definition simulation_spec :: "element \<Rightarrow> flow list res" where
  "simulation_spec el =
     (case find_all [''Ipv4FlowClassifier''] el of
        [classifier] \<Rightarrow>
          res_bind (res_map Flow (find_all [''FlowStats'', ''Flow''] el)) (\<lambda>fs.
          res_bind (res_map tuple_entry (find_all [''Flow''] classifier)) (\<lambda>ts.
          res_bind (res_map probe_entries (find_all [''FlowProbes'', ''FlowProbe''] el)) (\<lambda>sss.
          if fst ` set (ts) \<union> fst ` set (concat sss) \<subseteq> flowId ` set fs
          then Inr (complete_all ts (concat sss) fs) else Inl KeyError)))
      | _ \<Rightarrow> Inl (ValueError ''values to unpack''))"

section \<open>Updates through the dictionary\<close>

type_synonym flow_update = "int \<times> (flow \<Rightarrow> flow)"

definition keeps_id :: "flow_update \<Rightarrow> bool" where
  "keeps_id u \<longleftrightarrow> (\<forall>f. flowId (snd u f) = flowId f)"

definition apply_update :: "flow_update \<Rightarrow> flow \<Rightarrow> flow" where
  "apply_update u f = (if flowId f = fst u then snd u f else f)"

fun update_last :: "flow_update \<Rightarrow> flow list \<Rightarrow> flow list" where
  "update_last u [] = []"
| "update_last u (f # fs) =
     (if flowId f \<in> set (map flowId fs) then f else apply_update u f) # update_last u fs"

text \<open>The dictionary holds the last position of each id.\<close>

definition store_ok :: "flow_store \<Rightarrow> bool" where
  "store_ok st \<longleftrightarrow> dict_ok (snd st) \<and>
     (\<forall>k i. dict_find (snd st) k = Some i \<longleftrightarrow>
        i < length (fst st) \<and> flowId (fst st ! i) = k \<and> k \<notin> set (map flowId (drop (Suc i) (fst st))))"

lemma res_map_Inr: "res_map f xs = Inr ys \<longleftrightarrow> list_all2 (\<lambda>x y. f x = Inr y) xs ys"
  by (induction xs arbitrary: ys) (auto simp: res_simps list_all2_Cons1)

lemma update_last_ids [simp]: "keeps_id u \<Longrightarrow> map flowId (update_last u fs) = map flowId fs"
  by (induction fs) (auto simp: apply_update_def keeps_id_def)

lemma update_last_absent: "fst u \<notin> set (map flowId fs) \<Longrightarrow> update_last u fs = fs"
  by (induction fs) (auto simp: apply_update_def)

lemma update_last_nth:
  "i < length fs \<Longrightarrow> flowId (fs ! i) = k \<Longrightarrow> k \<notin> set (map flowId (drop (Suc i) fs)) \<Longrightarrow>
   fs[i := g (fs ! i)] = update_last (k, g) fs"
proof (induction fs arbitrary: i)
  case (Cons f fs)
  show ?case
  proof (cases i)
    case 0
    with Cons.prems show ?thesis by (simp add: apply_update_def update_last_absent)
  next
    case (Suc j)
    with Cons.prems have "fs ! j \<in> set fs" "flowId (fs ! j) = k" by auto
    then have "k \<in> set (map flowId fs)" by force
    with Suc Cons show ?thesis by (auto simp: apply_update_def)
  qed
qed simp

lemma store_ok_known: "store_ok (fs, m) \<Longrightarrow> dict_find m k = None \<longleftrightarrow> k \<notin> set (map flowId fs)"
proof -
  assume ok: "store_ok (fs, m)"
  have ex: "\<exists>i. i < length fs \<and> flowId (fs ! i) = k \<and> k \<notin> set (map flowId (drop (Suc i) fs))"
    if "k \<in> set (map flowId fs)"
    using that
  proof (induction fs)
    case (Cons f fs)
    show ?case
    proof (cases "k \<in> set (map flowId fs)")
      case True
      with Cons.IH obtain i where "i < length fs \<and> flowId (fs ! i) = k \<and> k \<notin> set (map flowId (drop (Suc i) fs))"
        by blast
      then show ?thesis by (intro exI [of _ "Suc i"]) simp
    next
      case False
      with Cons.prems show ?thesis by (intro exI [of _ 0]) auto
    qed
  qed simp
  show ?thesis
  proof (cases "dict_find m k")
    case None
    with ok ex show ?thesis by (metis fst_conv option.distinct(1) snd_conv store_ok_def)
  next
    case (Some i)
    with ok have "i < length fs" "flowId (fs ! i) = k" by (auto simp: store_ok_def)
    then have "k \<in> set (map flowId fs)" by force
    with Some show ?thesis by simp
  qed
qed

lemma update_flow_last:
  assumes "store_ok (fs, m)"
  shows "update_flow k g (fs, m) = Inr st \<longleftrightarrow> k \<in> set (map flowId fs) \<and> st = (update_last (k, g) fs, m)"
proof (cases "dict_find m k")
  case None
  with store_ok_known [OF assms, of k] show ?thesis by (simp add: update_flow_def dict_get_find)
next
  case (Some i)
  moreover from this store_ok_known [OF assms, of k] have "k \<in> set (map flowId fs)" by simp
  moreover from Some assms have "fs[i := g (fs ! i)] = update_last (k, g) fs"
    by (intro update_last_nth) (auto simp: store_ok_def)
  ultimately show ?thesis by (auto simp: update_flow_def dict_get_find)
qed

lemma store_ok_ids: "map flowId fs' = map flowId fs \<Longrightarrow> store_ok (fs', m) = store_ok (fs, m)"
proof -
  assume e: "map flowId fs' = map flowId fs"
  then have "length fs' = length fs" by (metis length_map)
  moreover have "map flowId (drop n fs') = map flowId (drop n fs)" for n using e by (metis drop_map)
  moreover have "flowId (fs' ! i) = flowId (fs ! i)" if "i < length fs" for i
    using e that \<open>length fs' = length fs\<close> by (metis nth_map)
  ultimately show ?thesis by (auto simp: store_ok_def)
qed

lemma store_ok_add:
  assumes "store_ok (fs, m)"
  shows "store_ok (fs @ [f], dict_set (flowId f) (length fs) m)"
proof -
  from assms have ok: "dict_ok m" by (simp add: store_ok_def)
  have "dict_find (dict_set (flowId f) (length fs) m) k = Some i \<longleftrightarrow>
      i < length (fs @ [f]) \<and> flowId ((fs @ [f]) ! i) = k \<and>
      k \<notin> set (map flowId (drop (Suc i) (fs @ [f])))" for k i
    using assms unfolding store_ok_def
    by (auto simp: dict_ops ok nth_append split: if_splits)
  with ok show ?thesis by (simp add: store_ok_def dict_ops)
qed

section \<open>The loops of \<open>Simulation\<close>\<close>

lemma fold_add_flow:
  "store_ok (fs, m) \<Longrightarrow>
   \<exists>m'. (\<forall>gs. res_map Flow els = Inr gs \<longrightarrow> store_ok (fs @ gs, m')) \<and>
     res_fold add_flow els (fs, m) = res_bind (res_map Flow els) (\<lambda>gs. Inr (fs @ gs, m'))"
proof (induction els arbitrary: fs m)
  case (Cons e els)
  show ?case
  proof (cases "Flow e")
    case (Inr f)
    from Cons.IH [OF store_ok_add [OF Cons.prems, of f]] obtain m' where
      "\<forall>gs. res_map Flow els = Inr gs \<longrightarrow> store_ok ((fs @ [f]) @ gs, m')"
      "res_fold add_flow els (fs @ [f], dict_set (flowId f) (length fs) m) =
         res_bind (res_map Flow els) (\<lambda>gs. Inr ((fs @ [f]) @ gs, m'))" by blast
    moreover have "add_flow e (fs, m) = Inr (fs @ [f], dict_set (flowId f) (length fs) m)"
      by (simp add: add_flow_def Inr)
    ultimately show ?thesis
      by (intro exI [of _ m']) (auto simp: Inr res_simps res_bind_assoc)
  qed (simp add: add_flow_def)
qed auto

lemma fold_update_last_ids:
  "list_all keeps_id us \<Longrightarrow> map flowId (fold update_last us fs) = map flowId fs"
  by (induction us arbitrary: fs) auto

lemma fold_blocks:
  assumes step: "\<And>e fs st. store_ok (fs, m) \<Longrightarrow> step e (fs, m) = Inr st \<longleftrightarrow>
      (\<exists>us. upd e = Inr us \<and> fst ` set us \<subseteq> set (map flowId fs) \<and> st = (fold update_last us fs, m))"
    and keeps: "\<And>e us. upd e = Inr us \<Longrightarrow> list_all keeps_id us"
    and "store_ok (fs, m)"
  shows "res_fold step es (fs, m) = Inr st \<longleftrightarrow>
      (\<exists>uss. res_map upd es = Inr uss \<and> fst ` set (concat uss) \<subseteq> set (map flowId fs) \<and>
         st = (fold update_last (concat uss) fs, m))"
  using assms(3)
proof (induction es arbitrary: fs)
  case (Cons e es)
  have ids: "map flowId (fold update_last us fs) = map flowId fs"
    "store_ok (fold update_last us fs, m)" if "upd e = Inr us" for us
    using fold_update_last_ids [OF keeps [OF that], of fs] Cons.prems
      store_ok_ids [OF fold_update_last_ids [OF keeps [OF that], of fs]] by blast+
  have "res_fold step (e # es) (fs, m) = Inr st \<longleftrightarrow>
      (\<exists>us. upd e = Inr us \<and> fst ` set us \<subseteq> set (map flowId fs) \<and>
         res_fold step es (fold update_last us fs, m) = Inr st)"
    by (auto simp: res_simps step [OF Cons.prems])
  also have "\<dots> \<longleftrightarrow> (\<exists>us. upd e = Inr us \<and> fst ` set us \<subseteq> set (map flowId fs) \<and>
       (\<exists>uss. res_map upd es = Inr uss \<and> fst ` set (concat uss) \<subseteq> set (map flowId fs) \<and>
          st = (fold update_last (concat uss) (fold update_last us fs), m)))"
  proof -
    have "res_fold step es (fold update_last us fs, m) = Inr st \<longleftrightarrow>
       (\<exists>uss. res_map upd es = Inr uss \<and> fst ` set (concat uss) \<subseteq> set (map flowId fs) \<and>
          st = (fold update_last (concat uss) (fold update_last us fs), m))" if "upd e = Inr us" for us
      using Cons.IH [OF ids(2) [OF that]] unfolding ids(1) [OF that] .
    then show ?thesis by blast
  qed
  also have "\<dots> \<longleftrightarrow> (\<exists>uss. res_map upd (e # es) = Inr uss \<and>
       fst ` set (concat uss) \<subseteq> set (map flowId fs) \<and> st = (fold update_last (concat uss) fs, m))"
    (is "?l \<longleftrightarrow> ?r")
  proof
    assume ?l
    then obtain us uss where "upd e = Inr us" "fst ` set us \<subseteq> set (map flowId fs)"
      "res_map upd es = Inr uss" "fst ` set (concat uss) \<subseteq> set (map flowId fs)"
      "st = (fold update_last (concat uss) (fold update_last us fs), m)" by blast
    then show ?r by (intro exI [of _ "us # uss"]) (simp add: image_Un)
  next
    assume ?r
    then obtain us uss where "upd e = Inr us" "res_map upd es = Inr uss"
      "fst ` set (concat (us # uss)) \<subseteq> set (map flowId fs)"
      "st = (fold update_last (concat (us # uss)) fs, m)" by (auto simp: res_simps)
    then show ?l by (auto simp: image_Un)
  qed
  finally show ?case .
qed (auto simp: res_simps)

definition set_tuple :: "int \<times> five_tuple \<Rightarrow> flow_update" where
  "set_tuple x = (fst x, \<lambda>f. f\<lparr>fiveTuple := Some (snd x)\<rparr>)"

definition put_stats :: "int \<times> probe_stats \<Rightarrow> flow_update" where
  "put_stats x = (fst x, \<lambda>f. f\<lparr>probe_stats_unsorted := probe_stats_unsorted f @ [snd x]\<rparr>)"

lemma keeps_id_updates [simp]: "keeps_id (set_tuple x)" "keeps_id (put_stats y)"
  by (simp_all add: keeps_id_def set_tuple_def put_stats_def)

lemma fst_updates [simp]: "fst (set_tuple x) = fst x" "fst (put_stats y) = fst y"
  by (simp_all add: set_tuple_def put_stats_def)

lemma res_map_bind:
  "res_map (\<lambda>e. res_bind (entry e) (\<lambda>x. Inr (h x))) es = res_bind (res_map entry es) (\<lambda>xs. Inr (map h xs))"
proof (induction es)
  case (Cons e es)
  then show ?case by (cases "entry e"; cases "res_map entry es") simp_all
qed simp

lemma concat_single: "concat (map (\<lambda>x. [h x]) xs) = map h xs"
  by (induction xs) auto

lemma ids_single:
  "fst ` set (concat (map (\<lambda>x. [set_tuple x]) ts)) = fst ` set ts"
  "fst ` set (concat (map (\<lambda>x. [put_stats x]) ss)) = fst ` set ss"
  "fst ` set (map put_stats ss) = fst ` set ss"
  by (simp_all add: concat_single image_image del: set_concat)

lemma add_tuple_update:
  assumes "store_ok (fs, m)"
  shows "add_tuple e (fs, m) = Inr st \<longleftrightarrow>
    (\<exists>us. res_bind (tuple_entry e) (\<lambda>x. Inr [set_tuple x]) = Inr us \<and>
       fst ` set us \<subseteq> set (map flowId fs) \<and> st = (fold update_last us fs, m))"
  by (auto simp: add_tuple_def tuple_entry_def res_simps update_flow_last [OF assms] set_tuple_def)

lemma add_stats_update:
  assumes "store_ok (fs, m)"
  shows "add_stats p e (fs, m) = Inr st \<longleftrightarrow>
    (\<exists>us. res_bind (stats_entry p e) (\<lambda>x. Inr [put_stats x]) = Inr us \<and>
       fst ` set us \<subseteq> set (map flowId fs) \<and> st = (fold update_last us fs, m))"
  by (auto simp: add_stats_def stats_entry_def res_simps update_flow_last [OF assms] put_stats_def)

lemma fold_entries:
  assumes step: "\<And>e fs st. store_ok (fs, m) \<Longrightarrow> step e (fs, m) = Inr st \<longleftrightarrow>
      (\<exists>us. res_bind (entry e) (\<lambda>x. Inr (h x)) = Inr us \<and>
         fst ` set us \<subseteq> set (map flowId fs) \<and> st = (fold update_last us fs, m))"
    and keeps: "\<And>x. list_all keeps_id (h x)"
    and ok: "store_ok (fs, m)"
  shows "res_fold step es (fs, m) = Inr st \<longleftrightarrow>
      (\<exists>xs. res_map entry es = Inr xs \<and> fst ` set (concat (map h xs)) \<subseteq> set (map flowId fs) \<and>
         st = (fold update_last (concat (map h xs)) fs, m))"
proof -
  have "res_fold step es (fs, m) = Inr st \<longleftrightarrow>
      (\<exists>uss. res_map (\<lambda>e. res_bind (entry e) (\<lambda>x. Inr (h x))) es = Inr uss \<and>
         fst ` set (concat uss) \<subseteq> set (map flowId fs) \<and> st = (fold update_last (concat uss) fs, m))"
    using keeps by (intro fold_blocks [OF step _ ok]) (auto simp: res_simps)
  then show ?thesis unfolding res_map_bind res_bind_eq_Inr by blast
qed

lemma fold_add_tuple:
  assumes "store_ok (fs, m)"
  shows "res_fold add_tuple es (fs, m) = Inr st \<longleftrightarrow>
    (\<exists>ts. res_map tuple_entry es = Inr ts \<and> fst ` set ts \<subseteq> set (map flowId fs) \<and>
       st = (fold update_last (map set_tuple ts) fs, m))"
  using fold_entries [where step = add_tuple and entry = tuple_entry and h = "\<lambda>x. [set_tuple x]"
      and es = es and st = st, OF add_tuple_update _ assms] unfolding ids_single concat_single
  by (simp add: image_image)

lemma fold_add_stats:
  assumes "store_ok (fs, m)"
  shows "res_fold (add_stats p) es (fs, m) = Inr st \<longleftrightarrow>
    (\<exists>ss. res_map (stats_entry p) es = Inr ss \<and> fst ` set ss \<subseteq> set (map flowId fs) \<and>
       st = (fold update_last (map put_stats ss) fs, m))"
  using fold_entries [where step = "add_stats p" and entry = "stats_entry p" and h = "\<lambda>x. [put_stats x]"
      and es = es and st = st, OF add_stats_update _ assms] unfolding ids_single concat_single
  by (simp add: image_image)

lemma add_probe_update:
  assumes "store_ok (fs, m)"
  shows "add_probe e (fs, m) = Inr st \<longleftrightarrow>
    (\<exists>us. res_bind (probe_entries e) (\<lambda>ss. Inr (map put_stats ss)) = Inr us \<and>
       fst ` set us \<subseteq> set (map flowId fs) \<and> st = (fold update_last us fs, m))"
  unfolding add_probe_def probe_entries_def res_bind_eq_Inr fold_add_stats [OF assms]
  by (auto simp: ids_single(3) simp del: set_map)

lemma fold_add_probe:
  assumes "store_ok (fs, m)"
  shows "res_fold add_probe es (fs, m) = Inr st \<longleftrightarrow>
    (\<exists>sss. res_map probe_entries es = Inr sss \<and> fst ` set (concat sss) \<subseteq> set (map flowId fs) \<and>
       st = (fold update_last (map put_stats (concat sss)) fs, m))"
  using fold_entries [where step = add_probe and entry = probe_entries and h = "map put_stats"
      and es = es and st = st, OF add_probe_update _ assms]
  unfolding map_concat [symmetric] ids_single by (simp add: list_all_iff)

lemma fold_update_last_Cons:
  "list_all keeps_id us \<Longrightarrow>
   fold update_last us (f # fs) =
     (if flowId f \<in> set (map flowId fs) then f else fold apply_update us f) # fold update_last us fs"
proof (induction us arbitrary: f fs)
  case (Cons u us)
  then have "flowId (apply_update u f) = flowId f" "set (map flowId (update_last u fs)) = set (map flowId fs)"
    by (simp_all add: apply_update_def keeps_id_def del: set_map)
  with Cons show ?case by (simp del: set_map)
qed simp

lemma fold_update_last_Nil [simp]: "fold update_last us [] = []"
  by (induction us) auto

lemma fold_set_tuple:
  "fold apply_update (map set_tuple ts) f =
     f\<lparr>fiveTuple := (case map_of (rev ts) (flowId f) of None \<Rightarrow> fiveTuple f | Some t \<Rightarrow> Some t)\<rparr>"
  by (induction ts rule: rev_induct) (auto simp: apply_update_def set_tuple_def split: option.split)

lemma fold_put_stats:
  "fold apply_update (map put_stats ss) f =
     f\<lparr>probe_stats_unsorted := probe_stats_unsorted f @ map snd (filter (\<lambda>(k, s). k = flowId f) ss)\<rparr>"
  by (induction ss rule: rev_induct) (auto simp: apply_update_def put_stats_def)

lemma fold_updates_complete:
  assumes "list_all (\<lambda>f. fiveTuple f = None \<and> probe_stats_unsorted f = []) fs"
  shows "fold update_last (map set_tuple ts @ map put_stats ss) fs = complete_all ts ss fs"
  using assms
proof (induction fs)
  case (Cons f fs)
  then have "fold apply_update (map set_tuple ts @ map put_stats ss) f = complete ts ss f"
    by (simp add: fold_set_tuple fold_put_stats complete_def split: option.split)
  with Cons show ?case by (subst fold_update_last_Cons) (auto simp: list_all_iff)
qed (simp del: fold_append)

lemma Flow_fresh: "Flow e = Inr f \<Longrightarrow> fiveTuple f = None \<and> probe_stats_unsorted f = []"
  by (auto simp: Flow_def res_simps split: prod.splits)

lemma fold_tuples_probes:
  assumes "store_ok (fs, m)"
  shows "(\<exists>s2 s3. res_fold add_tuple cs (fs, m) = Inr s2 \<and> res_fold add_probe ps s2 = Inr s3 \<and>
       flows = fst s3) \<longleftrightarrow>
    (\<exists>ts sss. res_map tuple_entry cs = Inr ts \<and> res_map probe_entries ps = Inr sss \<and>
       fst ` set ts \<union> fst ` set (concat sss) \<subseteq> flowId ` set fs \<and>
       flows = fold update_last (map set_tuple ts @ map put_stats (concat sss)) fs)"
proof -
  have *: "map flowId (fold update_last (map set_tuple ts) fs) = map flowId fs" for ts
    by (rule fold_update_last_ids) (simp add: list_all_iff)
  have "store_ok (fold update_last (map set_tuple ts) fs, m)" for ts
    using store_ok_ids [OF *] assms by blast
  note probes = fold_add_probe [OF this, unfolded * set_map]
  note tuples = fold_add_tuple [OF assms, unfolded set_map]
  show ?thesis by (auto simp: probes tuples simp del: set_concat)
qed

lemma fold_fresh_complete:
  assumes "res_map Flow els = Inr fs"
  shows "fold update_last (map set_tuple ts @ map put_stats ss) fs = complete_all ts ss fs"
  using assms Flow_fresh
  by (intro fold_updates_complete) (fastforce simp: res_map_Inr list_all2_conv_all_nth list_all_length)

lemma simulation_loops:
  "res_bind (res_fold add_flow F ([], [])) (\<lambda>s1. res_bind (res_fold add_tuple C s1) (\<lambda>s2.
     res_bind (res_fold add_probe P s2) (\<lambda>s3. Inr (fst s3)))) = Inr flows \<longleftrightarrow>
   res_bind (res_map Flow F) (\<lambda>fs. res_bind (res_map tuple_entry C) (\<lambda>ts.
     res_bind (res_map probe_entries P) (\<lambda>sss.
     if fst ` set ts \<union> fst ` set (concat sss) \<subseteq> flowId ` set fs
     then Inr (complete_all ts (concat sss) fs) else Inl KeyError))) = Inr flows"
proof (cases "res_map Flow F")
  case (Inl e)
  with fold_add_flow [of "[]" "[]" F] show ?thesis by (auto simp: store_ok_def)
next
  case (Inr fs)
  with fold_add_flow [of "[]" "[]" F] obtain m where
    m: "store_ok (fs, m)" "res_fold add_flow F ([], []) = Inr (fs, m)" by (auto simp: store_ok_def)
  show ?thesis
    using fold_tuples_probes [OF m(1), of C P flows]
    unfolding fold_fresh_complete [OF Inr] m(2) Inr res_bind_simps res_bind_eq_Inr
    by (auto simp del: set_concat split: if_splits)
qed

section \<open>The flows of a document\<close>

text \<open>
  C31. \<open>Simulation\<close> succeeds exactly when the document has one IPv4 classifier, every element
  parses and every entry of the classifier and of the probes names a flow; the flows are then
  those of the document in order, each with the last five-tuple and all the statistics for its id
  in the order of the document.  Of several flows with one id, only the last is completed.
\<close>

theorem simulation_reads: "Simulation el = Inr flows \<longleftrightarrow> simulation_spec el = Inr flows"
  unfolding Simulation_def simulation_spec_def
  by (auto simp: simulation_loops simp del: find_all.simps split: list.split)

section \<open>The events of a document\<close>

fun doc_events :: "element \<Rightarrow> xml_event list" where
  "doc_events (Element t a cs) =
     Start (Element t a cs) # concat (map doc_events cs) @ [End (Element t a cs)]"

text \<open>Inside an open element nothing is read: the loop waits for the end of the root.\<close>

lemma scan_nested:
  "0 < level \<Longrightarrow> scan_events (doc_events el @ evs) level sims = scan_events evs level sims"
proof (induction el arbitrary: level evs rule: doc_events.induct)
  case (1 t a cs)
  have "scan_events (concat (map doc_events ds) @ rest) (level + 1) sims = scan_events rest (level + 1) sims"
    if "set ds \<subseteq> set cs" for ds rest
    using that 1 by (induction ds) auto
  from this [of cs] 1(2) show ?case by simp
qed

lemma scan_document:
  "scan_events (doc_events d) 0 [] =
     (if tag d = ''FlowMonitor''
      then act_bind (act_lift (Simulation d)) (\<lambda>sim. act_then (emit ''.'') (act_ret [sim]))
      else act_ret [])"
proof (cases d)
  case (Element t a cs)
  have "scan_events (concat (map doc_events ds) @ rest) 1 [] = scan_events rest 1 []" for ds rest
    by (induction ds) (auto simp: scan_nested)
  then show ?thesis by (simp add: Element)
qed

section \<open>What is printed\<close>

definition printable :: "flow \<Rightarrow> bool" where
  "printable f = (case fiveTuple f of None \<Rightarrow> False | Some t \<Rightarrow> protocol t \<in> {6, 17})"

definition flow_text :: "flow \<Rightarrow> string" where
  "flow_text f =
     (case fiveTuple f of None \<Rightarrow> []
      | Some t \<Rightarrow> unlines
         [flow_title f t (if protocol t = 6 then ''TCP'' else ''UDP''),
          measure_line ''TX bitrate'' ''kbit/s'' (1 / 1000) (txBitrate f),
          measure_line ''RX bitrate'' ''kbit/s'' (1 / 1000) (rxBitrate f),
          measure_line ''Mean Delay'' ''ms'' 1000 (delayMean f),
          measure_line ''Packet Loss Ratio'' ''%'' 100 (packetLossRatio f)])"

text \<open>The flow at which the report stops decides the error.\<close>

definition report_result :: "flow list \<Rightarrow> unit res" where
  "report_result rest =
     (case rest of [] \<Rightarrow> Inr ()
      | f # fs \<Rightarrow> Inl (if fiveTuple f = None then AttributeError else KeyError))"

lemma print_flow_printable: "printable f \<Longrightarrow> print_flow f out = (out @ flow_text f, Inr ())"
  by (auto simp: printable_def print_flow_def flow_text_def protocol_names_def dict_get_def emit_line_def
      emit_def unlines_def act_simps split: option.splits)

lemma print_flow_not_printable: "\<not> printable f \<Longrightarrow> print_flow f out = (out, report_result (f # fs))"
  by (auto simp: printable_def print_flow_def report_result_def protocol_names_def dict_get_def
      act_simps split: option.splits)

lemma print_flows_until:
  "print_flows fs out =
     (out @ concat (map flow_text (takeWhile printable fs)), report_result (dropWhile printable fs))"
proof (induction fs arbitrary: out)
  case (Cons f fs)
  then show ?case
    by (cases "printable f")
      (simp_all add: act_simps print_flow_printable print_flow_not_printable [where fs = fs],
        simp add: report_result_def)
qed (simp add: report_result_def act_simps)

text \<open>
  C32. The report, called with one file name, on a well-formed document with the root \<open>FlowMonitor\<close> from which
  \<open>Simulation\<close> reads the flows without an exception: it prints the flows in their order, one title and
  four measures each, up to the first flow without a five-tuple (\<open>AttributeError\<close>) or with another
  protocol than TCP and UDP (\<open>KeyError\<close>); it succeeds exactly when there is no such flow.
\<close>

theorem report_lists_flows:
  assumes "open_xml name = Inr (doc_events d, None)" and "tag d = ''FlowMonitor''"
    and "Simulation d = Inr flows"
  shows "report_main open_xml [script, name] [] =
    (unlines [''Reading XML file  . done.''] @ concat (map flow_text (takeWhile printable flows)),
     report_result (dropWhile printable flows))"
proof -
  have "py_index [script, name] 1 = Inr name" by (simp add: py_index_def)
  with assms show ?thesis
    by (simp add: report_main_def scan_document act_simps emit_def emit_line_def unlines_def
        print_flows_until)
qed

text \<open>Documents with flows and their five-tuples.\<close>

definition sample_flow :: "string \<Rightarrow> string \<Rightarrow> string \<Rightarrow> element" where
  "sample_flow k rx lost = Element ''Flow''
     [(''flowId'', k), (''timeFirstTxPacket'', ''+1e9ns''), (''timeFirstRxPacket'', ''+1.5e9ns''),
      (''timeLastTxPacket'', ''+3e9ns''), (''timeLastRxPacket'', ''+3.5e9ns''), (''delaySum'', ''+2e7ns''),
      (''txBytes'', ''80''), (''rxBytes'', ''40''), (''txPackets'', ''8''), (''rxPackets'', rx),
      (''lostPackets'', lost), (''timesForwarded'', ''4'')] []"

definition sample_tuple :: "string \<Rightarrow> element" where
  "sample_tuple k = Element ''Flow''
     [(''flowId'', k), (''sourceAddress'', ''10.0.0.1''), (''destinationAddress'', ''10.0.0.2''),
      (''protocol'', ''6''), (''sourcePort'', ''13''), (''destinationPort'', ''9'')] []"

definition sample_results :: "element list \<Rightarrow> element list \<Rightarrow> element" where
  "sample_results flows tuples = Element ''FlowMonitor'' []
     [Element ''FlowStats'' [] flows, Element ''Ipv4FlowClassifier'' [] tuples,
      Element ''FlowProbes'' []
        [Element ''FlowProbe'' [(''index'', ''0'')]
           [Element ''FlowStats'' [(''flowId'', ''1''), (''packets'', ''4''), (''bytes'', ''40''),
              (''delayFromFirstProbeSum'', ''+0.0ns'')] []]]]"

definition sample_flows :: "element \<Rightarrow> flow list" where
  "sample_flows d = (case Simulation d of Inl e \<Rightarrow> [] | Inr fs \<Rightarrow> fs)"

theorem report_lists_flows_witness:
  "let d = sample_results [sample_flow ''1'' ''4'' ''4''] [sample_tuple ''1'']
   in report_main (\<lambda>name. Inr (doc_events d, None)) [''script'', ''results.xml''] [] =
     (unlines [''Reading XML file  . done.''] @
      concat (map flow_text (takeWhile printable (sample_flows d))), Inr ()) \<and>
    length (sample_flows d) = 1"
proof -
  let ?d = "sample_results [sample_flow ''1'' ''4'' ''4''] [sample_tuple ''1'']"
  have s: "Simulation ?d = Inr (sample_flows ?d)" by code_simp
  have t: "tag ?d = ''FlowMonitor''" by code_simp
  have r: "report_result (dropWhile printable (sample_flows ?d)) = Inr ()" by code_simp
  have l: "length (sample_flows ?d) = 1" by code_simp
  from report_lists_flows [OF _ t s, of "\<lambda>name. Inr (doc_events ?d, None)" "''results.xml''" "''script''"] r l
  show ?thesis by (simp add: Let_def)
qed

section \<open>The measures of a flow\<close>

text \<open>
  The loss ratio is at least 0 and below 1, the number of hops at least 1 and the rates are not
  negative when the counters are not.
\<close>

lemma flow_measures:
  assumes "Flow el = Inr f"
    and "float_attr el ''rxPackets'' = Inr rx" "0 < rx"
    and "float_attr el ''lostPackets'' = Inr lost" "0 \<le> lost"
    and "float_attr el ''timesForwarded'' = Inr n" "0 \<le> n"
  shows "\<exists>r. packetLossRatio f = Some r \<and> 0 \<le> r \<and> r < 1 \<and> (r = 0 \<longleftrightarrow> lost = 0)"
    and "1 \<le> num_val (hopCount f)"
  using assms
  by (auto simp: Flow_def res_simps loss_ratio_def hop_count_def split: prod.splits if_splits)

lemma flow_rates:
  assumes "Flow el = Inr f"
  shows "rxBitrate f = None \<longleftrightarrow> rx_duration f \<le> 0"
    and "\<And>b. float_attr el ''rxBytes'' = Inr b \<Longrightarrow> 0 < rx_duration f \<Longrightarrow> rxBitrate f = Some (b * 8 / rx_duration f)"
  using assms by (auto simp: Flow_def res_simps bitrate_def split: prod.splits if_splits)

text \<open>A flow that received nothing has no loss ratio, even when all its packets are lost.\<close>

lemma lost_flow_unrated:
  assumes "Flow el = Inr f" and "float_attr el ''rxPackets'' = Inr 0"
  shows "packetLossRatio f = None" and "delayMean f = None" and "hopCount f = PInt (-1000)"
  using assms
  by (auto simp: Flow_def res_simps loss_ratio_def delay_and_size_def hop_count_def split: prod.splits)

text \<open>
  A flow that the IPv4 classifier does not list, such as a flow over IPv6, has no five-tuple, and
  neither has the first of two flows with one id: the report ends there with \<open>AttributeError\<close>.
\<close>

lemma simulation_Inr:
  assumes "Simulation el = Inr flows" and "find_all [''Ipv4FlowClassifier''] el = [c]"
  shows "\<exists>fs ts ss. res_map Flow (find_all [''FlowStats'', ''Flow''] el) = Inr fs \<and>
     res_map tuple_entry (find_all [''Flow''] c) = Inr ts \<and> flows = complete_all ts ss fs"
  using assms(1) unfolding Simulation_def assms(2) list.case simulation_loops
  unfolding res_bind_eq_Inr by (auto simp del: find_all.simps split: if_splits)

lemma complete_all_unlisted:
  "k \<notin> fst ` set ts \<Longrightarrow> list_all (\<lambda>f. fiveTuple f = None) fs \<Longrightarrow>
   f \<in> set (complete_all ts ss fs) \<Longrightarrow> flowId f = k \<Longrightarrow> fiveTuple f = None"
  by (induction fs) (auto simp: complete_def map_of_eq_None_iff split: if_splits)

lemma unlisted_flow_unclassified:
  assumes "Simulation el = Inr flows" and "find_all [''Ipv4FlowClassifier''] el = [c]"
    and "f \<in> set flows" and "\<And>e. e \<in> set (find_all [''Flow''] c) \<Longrightarrow> int_attr e ''flowId'' \<noteq> Inr (flowId f)"
  shows "fiveTuple f = None"
proof -
  from simulation_Inr [OF assms(1,2)] obtain fs ts ss where
    *: "res_map Flow (find_all [''FlowStats'', ''Flow''] el) = Inr fs"
    "res_map tuple_entry (find_all [''Flow''] c) = Inr ts" "flows = complete_all ts ss fs" by blast
  have "list_all (\<lambda>f. fiveTuple f = None) fs"
    using *(1) Flow_fresh by (fastforce simp: res_map_Inr list_all2_conv_all_nth list_all_length)
  moreover have "flowId f \<notin> fst ` set ts"
  proof
    assume "flowId f \<in> fst ` set ts"
    then obtain i t where i: "i < length ts" "ts ! i = (flowId f, t)" by (auto simp: in_set_conv_nth)
    from *(2) i have "i < length (find_all [''Flow''] c)"
      "tuple_entry (find_all [''Flow''] c ! i) = Inr (flowId f, t)"
      by (simp_all add: res_map_Inr list_all2_conv_all_nth del: find_all.simps)
    then show False using assms(4) [OF nth_mem] by (auto simp: tuple_entry_def res_simps simp del: find_all.simps)
  qed
  ultimately show ?thesis using complete_all_unlisted assms(3) *(3) by blast
qed

lemma complete_all_shadowed:
  "i < j \<Longrightarrow> j < length fs \<Longrightarrow> flowId (fs ! i) = flowId (fs ! j) \<Longrightarrow> complete_all ts ss fs ! i = fs ! i"
proof (induction fs arbitrary: i j)
  case (Cons f fs)
  show ?case
  proof (cases i)
    case 0
    with Cons.prems have "fs ! (j - 1) \<in> set fs" "flowId f = flowId (fs ! (j - 1))"
      by (auto simp: nth_Cons')
    then have "flowId f \<in> set (map flowId fs)" by force
    with 0 show ?thesis by simp
  next
    case (Suc i')
    with Cons.prems Cons.IH [of i' "j - 1"] show ?thesis by (cases j) auto
  qed
qed simp

lemma complete_all_ids [simp]: "map flowId (complete_all ts ss fs) = map flowId fs"
  by (induction fs) (auto simp: complete_def)

lemma duplicate_flow_unclassified:
  assumes "Simulation el = Inr flows" and "find_all [''Ipv4FlowClassifier''] el = [c]"
    and "i < j" and "j < length flows" and "flowId (flows ! i) = flowId (flows ! j)"
  shows "fiveTuple (flows ! i) = None"
proof -
  from simulation_Inr [OF assms(1,2)] obtain fs ts ss where
    *: "res_map Flow (find_all [''FlowStats'', ''Flow''] el) = Inr fs" "flows = complete_all ts ss fs" by blast
  have l: "length flows = length fs" using complete_all_ids [of ts ss fs] *(2) by (metis length_map)
  have ids: "flowId (flows ! n) = flowId (fs ! n)" if "n < length fs" for n
    using complete_all_ids [of ts ss fs] *(2) that l by (metis nth_map)
  from assms(3-5) l ids have "flows ! i = fs ! i" unfolding *(2) by (intro complete_all_shadowed) auto
  moreover have "fiveTuple (fs ! i) = None"
  proof -
    from *(1) assms(3,4) l have "Flow (find_all [''FlowStats'', ''Flow''] el ! i) = Inr (fs ! i)"
      by (simp add: res_map_Inr list_all2_conv_all_nth del: find_all.simps)
    with Flow_fresh show ?thesis by blast
  qed
  ultimately show ?thesis by simp
qed

end
