(* ===== verification/Module_Scan.thy ===== *)
theory Module_Scan
  imports Topsort Py_Strings "HOL-Library.List_Lexorder" "HOL-Library.Char_ord"
begin

text \<open>
  The scanners of the Python bindings, \<open>src/bindings/python/ns3modulescan.py\<close> and
  \<open>ns3modulescan-modular.py\<close>: the path of a header inside ns-3, the hook that annotates a
  declaration before it is wrapped, and the sections of the modules in the order of their
  dependencies, which \<open>topsort\<close> gives.

  What \<open>pygccxml\<close> says of a declaration is the record \<open>cpp_decl\<close>.  The scanned names are plain
  ASCII, so that \<open>%r\<close> of a string puts it in single quotes.
\<close>

section \<open>\<open>os.path\<close>\<close>

definition is_slash :: "char \<Rightarrow> bool" where
  "is_slash c \<longleftrightarrow> c = CHR ''/''"

definition path_split :: "string \<Rightarrow> string \<times> string" where
  "path_split p =
     (case split_last (CHR ''/'') p of
        None \<Rightarrow> ([], p)
      | Some (u, v) \<Rightarrow>
          let head = u @ ''/''
          in (if list_all is_slash head then head else rev (dropWhile is_slash (rev head)), v))"

definition path_join2 :: "string \<Rightarrow> string \<Rightarrow> string" where
  "path_join2 a b =
     (if str_startswith b ''/'' then b
      else if a = [] \<or> str_endswith a ''/'' then a @ b
      else a @ ''/'' @ b)"

definition path_join :: "string list \<Rightarrow> string res" where
  "path_join l = (case l of [] \<Rightarrow> Inl TypeError | a # bs \<Rightarrow> Inr (foldl path_join2 a bs))"

lemma path_split_shorter: "length (fst (path_split p)) \<le> length p"
  and path_split_same: "length (fst (path_split p)) = length p \<Longrightarrow> fst (path_split p) = p"
proof -
  have "length (fst (path_split p)) \<le> length p \<and> (length (fst (path_split p)) = length p \<longrightarrow> fst (path_split p) = p)"
  proof (cases "split_last (CHR ''/'') p")
    case (Some uv)
    obtain u v where uv: "uv = (u, v)" by (cases uv)
    from split_last_Some Some uv have p: "p = u @ CHR ''/'' # v" by blast
    have l: "length (dropWhile is_slash (rev (u @ ''/''))) \<le> length u"
      using length_dropWhile_le [of is_slash "rev u"] by (simp add: is_slash_def)
    show ?thesis
    proof (cases "list_all is_slash (u @ ''/'')")
      case True
      then have "fst (path_split p) = u @ ''/''" by (simp add: path_split_def Some uv Let_def)
      with p show ?thesis by (cases v) auto
    next
      case False
      then have "fst (path_split p) = rev (dropWhile is_slash (rev (u @ ''/'')))"
        unfolding path_split_def Some uv option.case prod.case Let_def if_not_P [OF False] by simp
      with l p show ?thesis by simp
    qed
  next
    case None
    then have "fst (path_split p) = []" by (simp add: path_split_def)
    then show ?thesis by (cases p) auto
  qed
  then show "length (fst (path_split p)) \<le> length p"
    and "length (fst (path_split p)) = length p \<Longrightarrow> fst (path_split p) = p" by blast+
qed

section \<open>The path inside ns-3\<close>

text \<open>The loop of \<open>ns3modulescan-modular.py\<close>, and that of \<open>ns3modulescan.py\<close>, which may run for ever.\<close>

function relative_loop :: "string \<Rightarrow> string list \<Rightarrow> string res" where
  "relative_loop head l =
     (if head = [] then Inl (Exception ''AssertionError'')
      else if fst (path_split head) = head then Inl (ValueError [])
      else if snd (path_split head) = ''ns3'' then path_join l
      else relative_loop (fst (path_split head)) (snd (path_split head) # l))"
  by pat_completeness auto
termination
  by (relation "measure (\<lambda>(head, l). length head)")
    (use path_split_shorter path_split_same in \<open>auto simp: less_le\<close>)

declare relative_loop.simps [simp del]

definition get_ns3_relative_path :: "string \<Rightarrow> string option res" where
  "get_ns3_relative_path path =
     (if path = [] then Inr None else res_bind (relative_loop path []) (\<lambda>h. Inr (Some h)))"

partial_function (option) old_relative_loop :: "string \<Rightarrow> string list \<Rightarrow> string res option" where
  "old_relative_loop head l =
     (if head = [] then Some (Inl (Exception ''AssertionError''))
      else if snd (path_split head) = ''ns3'' then Some (path_join l)
      else old_relative_loop (fst (path_split head)) (snd (path_split head) # l))"

definition old_get_ns3_relative_path :: "string \<Rightarrow> string res option" where
  "old_get_ns3_relative_path path = old_relative_loop path []"

section \<open>Annotations\<close>

datatype annotation =
    Text string
  | Nothing
  | Yes
  | Params "(string, (string, string) dict) dict"

definition type_annotations :: "(string, (string, annotation) dict) dict" where
  "type_annotations =
    [
     (''::ns3::AttributeChecker'',
      [(''automatic_type_narrowing'', Text ''true''), (''allow_subclassing'', Text ''false'')]),
     (''::ns3::AttributeValue'',
      [(''automatic_type_narrowing'', Text ''true''), (''allow_subclassing'', Text ''false'')]),
     (''::ns3::CommandLine'',
      [(''allow_subclassing'', Text ''true'')]),
     (''::ns3::NscTcpL4Protocol'',
      [(''ignore'', Text ''true'')]),
     (''ns3::RandomVariable::RandomVariable(ns3::RandomVariableBase const & variable) [constructor]'',
      [(''ignore'', Nothing)]),
     (''ns3::RandomVariableBase * ns3::RandomVariable::Peek() const [member function]'',
      [(''ignore'', Nothing)]),
     (''void ns3::RandomVariable::GetSeed(uint32_t * seed) const [member function]'',
      [(''params'', Params [(''seed'', [(''direction'', ''out''), (''array_length'', ''6'')])])]),
     (''bool ns3::TypeId::LookupAttributeByName(std::string name, ns3::TypeId::AttributeInformation * info) const [member function]'',
      [(''params'', Params [(''info'', [(''transfer_ownership'', ''false'')])])]),
     (''static bool ns3::TypeId::LookupByNameFailSafe(std::string name, ns3::TypeId * tid) [member function]'',
      [(''ignore'', Nothing)]),
     (''bool ns3::TraceSourceAccessor::ConnectWithoutContext(ns3::ObjectBase * obj, ns3::CallbackBase const & cb) const [member function]'',
      [(''params'', Params [(''obj'', [(''transfer_ownership'', ''false'')])])]),
     (''bool ns3::TraceSourceAccessor::Connect(ns3::ObjectBase * obj, std::string context, ns3::CallbackBase const & cb) const [member function]'',
      [(''params'', Params [(''obj'', [(''transfer_ownership'', ''false'')])])]),
     (''bool ns3::TraceSourceAccessor::DisconnectWithoutContext(ns3::ObjectBase * obj, ns3::CallbackBase const & cb) const [member function]'',
      [(''params'', Params [(''obj'', [(''transfer_ownership'', ''false'')])])]),
     (''bool ns3::TraceSourceAccessor::Disconnect(ns3::ObjectBase * obj, std::string context, ns3::CallbackBase const & cb) const [member function]'',
      [(''params'', Params [(''obj'', [(''transfer_ownership'', ''false'')])])]),
     (''bool ns3::AttributeAccessor::Set(ns3::ObjectBase * object, ns3::AttributeValue const & value) const [member function]'',
      [(''params'', Params [(''object'', [(''transfer_ownership'', ''false'')])])]),
     (''ns3::EmpiricalVariable::EmpiricalVariable(ns3::RandomVariableBase const & variable) [constructor]'',
      [(''ignore'', Nothing)]),
     (''static ns3::AttributeList * ns3::AttributeList::GetGlobal() [member function]'',
      [(''caller_owns_return'', Text ''false'')]),
     (''void ns3::CommandLine::Parse(int argc, char * * argv) const [member function]'',
      [(''ignore'', Nothing)]),
     (''extern void ns3::PythonCompleteConstruct(ns3::Ptr<ns3::Object> object, ns3::TypeId typeId, ns3::AttributeList const & attributes) [free function]'',
      [(''ignore'', Nothing)]),
     (''ns3::Ptr<ns3::Ipv4RoutingProtocol> ns3::Ipv4ListRouting::GetRoutingProtocol(uint32_t index, int16_t & priority) const [member function]'',
      [(''params'', Params [(''priority'', [(''direction'', ''out'')])])]),
     (''ns3::Ipv4RoutingTableEntry * ns3::GlobalRouter::GetInjectedRoute(uint32_t i) [member function]'',
      [(''params'', Params [(''return'', [(''caller_owns_return'', ''false'')])])]),
     (''ns3::Ipv4RoutingTableEntry * ns3::Ipv4GlobalRouting::GetRoute(uint32_t i) const [member function]'',
      [(''params'', Params [(''return'', [(''caller_owns_return'', ''false'')])])]),
     (''::ns3::TestCase'',
      [(''ignore'', Text ''true'')]),
     (''::ns3::TestRunner'',
      [(''ignore'', Text ''true'')]),
     (''::ns3::TestSuite'',
      [(''ignore'', Text ''true'')])]"

datatype decl_kind =
    Class_Decl
  | Enum_Decl
  | Free_Function
  | Member_Function
  | Constructor_Decl
  | Other_Calldef
  | Other_Decl

text \<open>
  \<open>template_files\<close> is \<open>None\<close> for a class that is no template instantiation; otherwise it has, for
  each template parameter, the file of its declaration, if it has a location.
\<close>

record cpp_decl =
  file_name :: string
  kind :: decl_kind
  decl_name :: string
  parent_name :: string
  decl_text :: string
  decl_string :: string
  template_args :: "string list"
  template_files :: "string option list option"

record hook_state =
  global_annotations :: "(string, annotation) dict"
  parameter_annotations :: "(string, (string, string) dict) dict"
  annotation_table :: "(string, (string, annotation) dict) dict"
  default_values :: "string option list"

definition dict_update :: "('k, 'v) dict \<Rightarrow> ('k, 'v) dict \<Rightarrow> ('k, 'v) dict" where
  "dict_update d e = fold (\<lambda>(k, v). dict_set k v) e d"

definition annotate :: "string \<Rightarrow> annotation \<Rightarrow> (hook_state, unit) act" where
  "annotate k v = act_upd (\<lambda>s. s\<lparr>global_annotations := dict_set k v (global_annotations s)\<rparr>)"

definition is_calldef :: "decl_kind \<Rightarrow> bool" where
  "is_calldef k \<longleftrightarrow> k \<in> {Free_Function, Member_Function, Constructor_Decl, Other_Calldef}"

definition fix_default :: "string option \<Rightarrow> string option" where
  "fix_default v =
     (if v = Some ''ns3::MilliSeconds( )'' then Some ''ns3::MilliSeconds(0)''
      else if v = Some ''ns3::Seconds( )'' then Some ''ns3::Seconds(0)'' else v)"

text \<open>The three special cases of member functions, and the default values of the arguments.\<close>

definition annotate_function :: "cpp_decl \<Rightarrow> (hook_state, unit) act" where
  "annotate_function d =
     act_then (act_when (kind d = Member_Function \<and> parent_name d = ''Object'' \<and> decl_name d = ''GetObject'' \<and>
                         template_args d = [''ns3::Object''])
                (annotate ''template_instance_names'' (Text ''ns3::Object=>GetObject'')))
     (act_then (act_when (kind d = Member_Function \<and> parent_name d = ''Simulator'' \<and> str_startswith (decl_name d) ''Schedule'')
                (annotate ''ignore'' Nothing))
     (act_then (act_when (kind d = Member_Function \<and> parent_name d = ''Simulator'' \<and> decl_name d = ''Run'')
                (annotate ''ignore'' Yes))
     (act_when (is_calldef (kind d))
                (act_upd (\<lambda>s. s\<lparr>default_values := map fix_default (default_values s)\<rparr>)))))"

text \<open>The modules of the template parameters; a file outside ns-3 is passed over.\<close>

fun parameter_modules :: "(string, string) dict \<Rightarrow> string option list \<Rightarrow> string list res" where
  "parameter_modules headers_map [] = Inr []"
| "parameter_modules headers_map (None # ts) = parameter_modules headers_map ts"
| "parameter_modules headers_map (Some f # ts) =
     (case get_ns3_relative_path f of
        Inl (ValueError m) \<Rightarrow> parameter_modules headers_map ts
      | Inl e \<Rightarrow> Inl e
      | Inr None \<Rightarrow> Inl KeyError
      | Inr (Some h) \<Rightarrow>
          res_bind (dict_get headers_map h) (\<lambda>m.
          res_bind (parameter_modules headers_map ts) (\<lambda>ms. Inr (m # ms))))"

definition class_module :: "(string, string) dict \<Rightarrow> string \<Rightarrow> cpp_decl \<Rightarrow> string \<Rightarrow> string res" where
  "class_module headers_map modname d definition_module =
     (case template_files d of
        None \<Rightarrow> Inr definition_module
      | Some files \<Rightarrow>
          res_bind (parameter_modules headers_map files) (\<lambda>ms.
          Inr (if modname \<in> set ms then modname else definition_module)))"

definition underscores :: "string \<Rightarrow> string" where
  "underscores s = str_replace ''-'' ''_'' s"

text \<open>The result says whether the hook has returned.\<close>

definition annotate_class :: "(string, string) dict \<Rightarrow> string \<Rightarrow> cpp_decl \<Rightarrow> string \<Rightarrow> (hook_state, bool) act" where
  "annotate_class headers_map modname d definition_module =
     act_bind (act_lift (class_module headers_map modname d definition_module)) (\<lambda>owner.
     act_then (act_when (owner \<noteq> modname) (annotate ''import_from_module'' (Text (''ns.'' @ underscores owner))))
     (if str_startswith (decl_string d) ''::ns3::SimpleRefCount<'' then
        act_then (annotate ''incref_method'' (Text ''Ref''))
        (act_then (annotate ''decref_method'' (Text ''Unref''))
        (act_then (annotate ''peekref_method'' (Text ''GetReferenceCount''))
        (act_then (annotate ''automatic_type_narrowing'' (Text ''true'')) (act_ret True))))
      else if str_startswith (decl_string d) ''::ns3::Callback<'' \<or>
              str_startswith (decl_string d) ''::ns3::TracedCallback<'' \<or>
              str_startswith (decl_string d) ''::ns3::Ptr<'' then
        act_then (annotate ''ignore'' Nothing) (act_ret True)
      else
        act_then (act_upd (\<lambda>s. case dict_find (annotation_table s) (decl_string d) of
              None \<Rightarrow> s
            | Some as \<Rightarrow> s\<lparr>global_annotations := dict_update (global_annotations s) as\<rparr>))
          (act_ret False)))"

text \<open>
  The annotations of a function: those under \<open>params\<close> go to the parameters and are deleted from
  the table, the others go to the function.
\<close>

definition annotate_from_table :: "cpp_decl \<Rightarrow> hook_state \<Rightarrow> hook_state" where
  "annotate_from_table d s =
     (case dict_find (annotation_table s) (decl_text d) of
        None \<Rightarrow> s
      | Some as \<Rightarrow>
          let ps = (case dict_find as ''params'' of Some (Params p) \<Rightarrow> p | _ \<Rightarrow> []);
              rest = dict_rem ''params'' as
          in s\<lparr>parameter_annotations := dict_update (parameter_annotations s) ps,
               annotation_table := dict_set (decl_text d) rest (annotation_table s),
               global_annotations := dict_update (global_annotations s) rest\<rparr>)"

definition annotate_free_function :: "string \<Rightarrow> cpp_decl \<Rightarrow> string \<Rightarrow> (hook_state, bool) act" where
  "annotate_free_function modname d definition_module =
     (if definition_module \<noteq> modname \<or> decl_name d = ''PeekPointer''
      then act_then (annotate ''ignore'' Nothing) (act_ret True) else act_ret False)"

definition comment :: "string \<Rightarrow> string \<Rightarrow> cpp_decl \<Rightarrow> string" where
  "comment header definition_module d =
     header @ '' (module '' @ [CHR 0x27] @ definition_module @ [CHR 0x27] @ ''): '' @ decl_text d"

definition annotate_declaration :: "(string, string) dict \<Rightarrow> string \<Rightarrow> cpp_decl \<Rightarrow> string \<Rightarrow> (hook_state, unit) act" where
  "annotate_declaration headers_map modname d definition_module =
     act_bind (if kind d = Class_Decl then annotate_class headers_map modname d definition_module
               else act_ret False) (\<lambda>returned.
     if returned then act_ret ()
     else
       act_then (act_when (kind d = Enum_Decl \<and> definition_module \<noteq> modname)
          (annotate ''import_from_module'' (Text (''ns.'' @ definition_module))))
       (act_bind (if kind d = Free_Function then annotate_free_function modname d definition_module
                  else act_ret False) (\<lambda>returned.
        if returned then act_ret ()
        else act_when (kind d \<in> {Free_Function, Member_Function, Constructor_Decl})
               (act_upd (annotate_from_table d)))))"

definition pre_scan_hook :: "(string, string) dict \<Rightarrow> string \<Rightarrow> cpp_decl \<Rightarrow> (hook_state, unit) act" where
  "pre_scan_hook headers_map modname d =
     (case get_ns3_relative_path (file_name d) of
        Inl (ValueError m) \<Rightarrow> act_ret ()
      | Inl e \<Rightarrow> act_fail e
      | Inr None \<Rightarrow> act_ret ()
      | Inr (Some header) \<Rightarrow>
          if header = [] then act_ret ()
          else
            act_bind (act_lift (dict_get headers_map header)) (\<lambda>definition_module.
            act_then (annotate ''pygen_comment'' (Text (comment header definition_module d)))
            (act_then (annotate_function d) (annotate_declaration headers_map modname d definition_module))))"

section \<open>Sections\<close>

text \<open>
  \<open>ns3_module_scan\<close> of \<open>ns3modulescan.py\<close>, up to the scan.  A module has dependencies and
  headers.  Under Python 3 the keys of a dictionary have no method \<open>sort\<close>.
\<close>

type_synonym ns3_modules = "(string, string list \<times> string list) dict"

definition module_graph :: "ns3_modules \<Rightarrow> (string \<times> string) list" where
  "module_graph ms =
     concat (map (\<lambda>m. map (\<lambda>dep. (dep, m)) (sort (case dict_find ms m of None \<Rightarrow> [] | Some (deps, hs) \<Rightarrow> deps)))
       (sort (map fst ms)))"

definition section_name :: "string \<Rightarrow> string" where
  "section_name m = ''ns3_module_'' @ underscores m"

definition add_section :: "ns3_modules \<Rightarrow> nat \<times> string \<Rightarrow> (string, string) dict \<times> (string, int) dict \<Rightarrow>
    ((string, string) dict \<times> (string, int) dict) res" where
  "add_section ms x st =
     (case st of (headers_map, precedences) \<Rightarrow>
        res_bind (dict_get ms (snd x)) (\<lambda>(deps, hs).
        Inr (fold (\<lambda>h. dict_set h (section_name (snd x))) hs headers_map,
             dict_set (section_name (snd x)) (int (fst x)) precedences)))"

definition module_sections :: "bool \<Rightarrow> (string list \<Rightarrow> string list) \<Rightarrow> ns3_modules \<Rightarrow>
    string topsort_error + ((string, string) dict \<times> (string, int) dict)" where
  "module_sections py3 key_order ms =
     (if py3 then Inl (Raised AttributeError)
      else case topsort key_order (module_graph ms) of
             Inl e \<Rightarrow> Inl e
           | Inr mods \<Rightarrow>
               (case res_fold (add_section ms) (enumerate 0 mods) ([], []) of
                  Inl e \<Rightarrow> Inl (Raised e)
                | Inr r \<Rightarrow> Inr r))"

definition classify :: "(string, string) dict \<Rightarrow> string \<Rightarrow> string" where
  "classify headers_map file =
     (case dict_find headers_map (snd (path_split file)) of None \<Rightarrow> ''__main__'' | Some s \<Rightarrow> s)"

definition get_section_precedence :: "(string, int) dict \<Rightarrow> string \<Rightarrow> int res" where
  "get_section_precedence precedences s =
     (if s = ''__main__'' then Inr (-1) else dict_get precedences s)"

section \<open>The list of callbacks\<close>

text \<open>
  \<open>scan_callback_classes\<close>: a class is its name and, if it is a template instantiation, the
  template parameters.  The state is the text of the file.
\<close>

type_synonym cpp_class = "string \<times> string list option"

definition repr_list :: "string list \<Rightarrow> string" where
  "repr_list ws = ''['' @ str_join '', '' (map (\<lambda>w. [CHR 0x27] @ w @ [CHR 0x27]) ws) @ '']''"

definition callback_line :: "string list \<Rightarrow> string" where
  "callback_line ps = ''    '' @ repr_list ps @ '','' @ [CHR 0x0A]"

definition scan_callback_class :: "cpp_class \<Rightarrow> (string, unit) act" where
  "scan_callback_class c =
     (if \<not> str_startswith (fst c) ''Callback<'' then act_ret ()
      else case snd c of
             None \<Rightarrow> act_fail (Exception ''AssertionError'')
           | Some ps \<Rightarrow> act_upd (\<lambda>t. t @ callback_line ps))"

definition scan_callback_classes :: "cpp_class list \<Rightarrow> (string, unit) act" where
  "scan_callback_classes cs =
     act_then (act_upd (\<lambda>t. t @ ''callback_classes = ['' @ [CHR 0x0A]))
     (act_then (act_each scan_callback_class cs) (act_upd (\<lambda>t. t @ '']'' @ [CHR 0x0A])))"

text \<open>The header that is scanned: one of the module's own, or that of the module in one of two places.\<close>

definition scan_header :: "(string \<Rightarrow> bool) \<Rightarrow> string \<Rightarrow> string \<Rightarrow> string \<Rightarrow> string" where
  "scan_header exists_file top_builddir modname output_file_name =
     (let own = path_join2 (fst (path_split output_file_name)) ''scan-header.h'';
          plain = path_join2 (path_join2 top_builddir ''ns3'') (modname @ ''-module.h'')
      in if exists_file own then own
         else if exists_file plain then plain
         else path_join2 (path_join2 (path_join2 top_builddir ''include'') ''ns3'') (modname @ ''-module.h''))"

section \<open>Headers inside and outside ns-3\<close>

text \<open>A path with plain components, absolute.\<close>

definition plain_component :: "string \<Rightarrow> bool" where
  "plain_component c \<longleftrightarrow> c \<noteq> [] \<and> CHR ''/'' \<notin> set c"

lemma last_plain: "plain_component c \<Longrightarrow> last c \<noteq> CHR ''/''"
  by (metis last_in_set plain_component_def)

definition abs_path :: "string list \<Rightarrow> string" where
  "abs_path cs = concat (map (\<lambda>c. CHR ''/'' # c) cs)"

lemma path_split_root: "path_split ''/'' = (''/'', [])"
  by code_simp

lemma path_split_snoc:
  assumes "plain_component c" and "list_all plain_component cs"
  shows "path_split (abs_path (cs @ [c])) = (if cs = [] then ''/'' else abs_path cs, c)"
proof -
  have sl: "split_last (CHR ''/'') (abs_path (cs @ [c])) = Some (abs_path cs, c)"
    using assms split_last_append [of "CHR ''/''" c "abs_path cs"] by (simp add: abs_path_def plain_component_def)
  show ?thesis
  proof (cases cs rule: rev_cases)
    case Nil
    then show ?thesis using sl by (simp add: path_split_def abs_path_def is_slash_def)
  next
    case (snoc ds e)
    with assms have e: "e \<noteq> []" and "\<not> is_slash (last e)"
      using last_plain [of e] by (auto simp: plain_component_def is_slash_def)
    moreover have "rev (abs_path cs @ ''/'') = CHR ''/'' # rev e @ rev (abs_path ds @ ''/'')"
      by (simp add: snoc abs_path_def)
    ultimately have "dropWhile is_slash (rev (abs_path cs @ ''/'')) = rev (abs_path cs)"
      using e by (cases e rule: rev_cases) (auto simp: is_slash_def snoc abs_path_def)
    moreover have "\<not> list_all is_slash (abs_path cs @ ''/'')"
      using e \<open>\<not> is_slash (last e)\<close> by (auto simp: snoc abs_path_def list_all_iff)
    ultimately show ?thesis using snoc
      unfolding path_split_def sl option.case prod.case Let_def by simp
  qed
qed

lemma abs_path_not_Nil [simp]: "abs_path (cs @ [c]) \<noteq> []"
  by (simp add: abs_path_def)

lemma relative_loop_step:
  assumes "plain_component c" and "list_all plain_component cs"
  shows "relative_loop (abs_path (cs @ [c])) l =
    (if c = ''ns3'' then path_join l else relative_loop (if cs = [] then ''/'' else abs_path cs) (c # l))"
proof -
  have "fst (path_split (abs_path (cs @ [c]))) \<noteq> abs_path (cs @ [c])"
    using assms by (simp add: path_split_snoc) (auto simp: plain_component_def abs_path_def)
  with assms show ?thesis
    by (subst relative_loop.simps) (simp add: path_split_snoc)
qed

lemma relative_loop_root: "relative_loop ''/'' l = Inl (ValueError [])"
  by (subst relative_loop.simps) (simp add: path_split_root)

lemma relative_loop_after:
  assumes "list_all plain_component (us @ vs)" and "''ns3'' \<notin> set vs"
  shows "relative_loop (abs_path (us @ [''ns3''] @ vs)) l = path_join (vs @ l)"
  using assms
proof (induction vs arbitrary: l rule: rev_induct)
  case Nil
  have "plain_component ''ns3''" by code_simp
  with Nil show ?case by (simp add: relative_loop_step)
next
  case (snoc v vs)
  have "plain_component ''ns3''" by code_simp
  with snoc.prems have "list_all plain_component (us @ [''ns3''] @ vs)" "plain_component v" "v \<noteq> ''ns3''" by auto
  with snoc relative_loop_step [of v "us @ [''ns3''] @ vs" l] show ?case by simp
qed

lemma relative_loop_outside:
  assumes "list_all plain_component cs" and "''ns3'' \<notin> set cs" and "cs \<noteq> []"
  shows "relative_loop (abs_path cs) l = Inl (ValueError [])"
  using assms
proof (induction cs arbitrary: l rule: rev_induct)
  case (snoc c cs)
  then show ?case using relative_loop_step [of c cs l]
    by (cases "cs = []") (auto simp: relative_loop_root)
qed simp

lemma path_join2_plain:
  assumes "a \<noteq> []" and "last a \<noteq> CHR ''/''" and "plain_component b"
  shows "path_join2 a b = a @ ''/'' @ b"
  using assms
  by (cases b; cases a rule: rev_cases)
    (auto simp: path_join2_def plain_component_def str_startswith_def str_endswith_def)

lemma foldl_join:
  "a \<noteq> [] \<Longrightarrow> last a \<noteq> CHR ''/'' \<Longrightarrow> list_all plain_component bs \<Longrightarrow>
   foldl path_join2 a bs = str_join ''/'' (a # bs)"
proof (induction bs arbitrary: a)
  case (Cons b bs)
  then have b: "b \<noteq> []" "last b \<noteq> CHR ''/''"
    using last_plain by (auto simp: plain_component_def)
  with Cons have "foldl path_join2 a (b # bs) = str_join ''/'' ((a @ ''/'' @ b) # bs)"
    by (simp add: path_join2_plain)
  then show ?case by (cases bs) auto
qed simp

lemma path_join_components:
  assumes "list_all plain_component vs" and "vs \<noteq> []"
  shows "path_join vs = Inr (str_join ''/'' vs)"
proof -
  obtain a bs where vs: "vs = a # bs" using assms(2) by (cases vs) auto
  with assms have "a \<noteq> []" "last a \<noteq> CHR ''/''" using last_plain by (auto simp: plain_component_def)
  with assms show ?thesis by (simp add: path_join_def vs foldl_join del: foldl.simps str_join.simps)
qed

lemma old_loop_root: "old_relative_loop ''/'' l = None"
proof -
  have "head \<noteq> ''/''" if "old_relative_loop head l = Some r" for head l r
  proof (rule old_relative_loop.raw_induct [of "\<lambda>h l r. h \<noteq> ''/''", OF _ that])
    fix rec :: "string \<Rightarrow> string list \<Rightarrow> string res option" and h l y
    assume IH: "\<And>h l y. rec h l = Some y \<Longrightarrow> h \<noteq> ''/''"
      and eq: "(if h = [] then Some (Inl (Exception ''AssertionError''))
        else if snd (path_split h) = ''ns3'' then Some (path_join l)
        else rec (fst (path_split h)) (snd (path_split h) # l)) = Some y"
    show "h \<noteq> ''/''"
    proof
      assume "h = ''/''"
      with eq have "rec ''/'' ([] # l) = Some y" by (simp add: path_split_root)
      from IH [OF this] show False by simp
    qed
  qed
  then show ?thesis by (cases "old_relative_loop ''/'' l") auto
qed

lemma old_loop_outside:
  assumes "list_all plain_component cs" and "''ns3'' \<notin> set cs" and "cs \<noteq> []"
  shows "old_relative_loop (abs_path cs) l = None"
  using assms
proof (induction cs arbitrary: l rule: rev_induct)
  case (snoc c cs)
  then show ?case using path_split_snoc [of c cs] abs_path_not_Nil [of cs c]
    by (cases "cs = []"; subst old_relative_loop.simps) (auto simp: old_loop_root)
qed simp

text \<open>
  C30. A header is named by its path below the last directory \<open>ns3\<close>, for an absolute path of plain components (not empty
  and without a slash) with something below that directory.  An absolute path without
  such a directory is refused with \<open>ValueError\<close>, which the hook takes as a declaration of another
  library, and the loop of the older script never ends there.
\<close>

theorem relative_path_correct:
  assumes "list_all plain_component (us @ vs)" and "vs \<noteq> []" and "''ns3'' \<notin> set vs"
  shows "get_ns3_relative_path (abs_path (us @ [''ns3''] @ vs)) = Inr (Some (str_join ''/'' vs)) \<and>
    get_ns3_relative_path (abs_path vs) = Inl (ValueError []) \<and>
    old_get_ns3_relative_path (abs_path vs) = None"
proof -
  have "abs_path (us @ [''ns3''] @ vs) \<noteq> []" "abs_path vs \<noteq> []" using assms(2) by (auto simp: abs_path_def)
  moreover have "relative_loop (abs_path (us @ [''ns3''] @ vs)) [] = Inr (str_join ''/'' vs)"
    using relative_loop_after [OF assms(1,3)] path_join_components [of vs] assms by simp
  moreover have "relative_loop (abs_path vs) [] = Inl (ValueError [])"
    using assms by (intro relative_loop_outside) auto
  moreover have "old_relative_loop (abs_path vs) [] = None" using assms by (intro old_loop_outside) auto
  ultimately show ?thesis by (simp add: get_ns3_relative_path_def old_get_ns3_relative_path_def)
qed

theorem relative_path_correct_witness:
  "get_ns3_relative_path ''/b/ns3/log.h'' = Inr (Some ''log.h'') \<and>
   get_ns3_relative_path ''/log.h'' = Inl (ValueError []) \<and>
   old_get_ns3_relative_path ''/log.h'' = None"
  using relative_path_correct [of "[''b'']" "[''log.h'']"]
  by (simp add: abs_path_def plain_component_def)

section \<open>Sections follow the dependencies\<close>

definition depends :: "ns3_modules \<Rightarrow> (string \<times> string) set" where
  "depends ms = {(d, m). \<exists>deps hs. dict_find ms m = Some (deps, hs) \<and> d \<in> set deps}"

lemma set_pairs_of:
  "set (concat (map (\<lambda>m. map (\<lambda>d. (d, m)) (sort (f m))) (sort ks))) = {(d, m). m \<in> set ks \<and> d \<in> set (f m)}"
  by auto

lemma set_module_graph: "set (module_graph ms) = depends ms"
proof -
  have "m \<in> set (map fst ms)" if "dict_find ms m \<noteq> None" for m
    using that keys_dict_find [of m ms] by simp
  moreover have "d \<in> set (case dict_find ms m of None \<Rightarrow> [] | Some (deps, hs) \<Rightarrow> deps) \<longleftrightarrow>
      (\<exists>deps hs. dict_find ms m = Some (deps, hs) \<and> d \<in> set deps)" for d m
    by (cases "dict_find ms m") auto
  ultimately show ?thesis unfolding module_graph_def set_pairs_of depends_def by blast
qed

lemma fold_sections:
  assumes "list_all (dict_has ms) mods" and "distinct (map section_name mods)" and "dict_ok sp0"
  shows "\<exists>hm sp. res_fold (add_section ms) (enumerate n mods) (hm0, sp0) = Inr (hm, sp) \<and>
    (\<forall>i<length mods. dict_find sp (section_name (mods ! i)) = Some (int (n + i))) \<and>
    (\<forall>s. s \<notin> section_name ` set mods \<longrightarrow> dict_find sp s = dict_find sp0 s)"
  using assms
proof (induction mods arbitrary: n hm0 sp0)
  case (Cons m mods)
  from Cons.prems(1) obtain deps hs where m: "dict_find ms m = Some (deps, hs)" by (auto simp: dict_has_find)
  let ?sp = "dict_set (section_name m) (int n) sp0"
  have ok: "dict_ok ?sp" using Cons.prems(3) by (simp add: dict_ops)
  from Cons.IH [OF _ _ ok, of "Suc n" "fold (\<lambda>h. dict_set h (section_name m)) hs hm0"] Cons.prems obtain hm sp where
    IH: "res_fold (add_section ms) (enumerate (Suc n) mods) (fold (\<lambda>h. dict_set h (section_name m)) hs hm0, ?sp) = Inr (hm, sp)"
    "\<forall>i<length mods. dict_find sp (section_name (mods ! i)) = Some (int (Suc n + i))"
    "\<forall>s. s \<notin> section_name ` set mods \<longrightarrow> dict_find sp s = dict_find ?sp s" by auto
  have "section_name m \<notin> section_name ` set mods" using Cons.prems(2) by simp
  with IH(3) Cons.prems(3) have "dict_find sp (section_name m) = Some (int n)" by (simp add: dict_ops)
  moreover have "add_section ms (n, m) (hm0, sp0) = Inr (fold (\<lambda>h. dict_set h (section_name m)) hs hm0, ?sp)"
    by (simp add: add_section_def dict_get_find m)
  ultimately show ?case using IH Cons.prems(3)
    by (intro exI [of _ hm] exI [of _ sp]) (auto simp: nth_Cons' dict_ops)
qed simp

lemma topological_before:
  assumes "topological_order pairs ans" and "(d, m) \<in> set pairs"
  shows "\<exists>i j. i < j \<and> j < length ans \<and> ans ! i = d \<and> ans ! j = m"
proof -
  from assms(2) have "m \<in> snd ` set pairs" by force
  with assms(1) have "m \<in> set ans" by (simp add: topological_order_def nodes_def)
  then obtain j where j: "j < length ans" "ans ! j = m" by (auto simp: in_set_conv_nth)
  from assms(1) j(1) have "\<forall>e\<in>set pairs. snd e = ans ! j \<longrightarrow> fst e \<in> set (take j ans)"
    by (simp add: topological_order_def)
  with assms(2) j(2) have "d \<in> set (take j ans)" by (metis fst_conv snd_conv)
  then obtain i where "i < j" "ans ! i = d" using j by (auto simp: in_set_conv_nth)
  with j show ?thesis by blast
qed

text \<open>
  When the dependencies are modules without a cycle and no two modules get one section, every
  module that has or is a dependency gets a section, and its precedence is above those of the
  sections of its dependencies (under Python 2; under Python 3 the method raises at once).
\<close>

theorem sections_follow_dependencies:
  assumes "permutes_keys key_order" and "acyclic (depends ms)"
    and "\<And>d m. (d, m) \<in> depends ms \<Longrightarrow> dict_has ms d"
    and "inj_on section_name (set (map fst ms))"
  shows "\<exists>hm sp. module_sections False key_order ms = Inr (hm, sp) \<and>
    (\<forall>(d, m)\<in>depends ms. \<exists>i j. get_section_precedence sp (section_name d) = Inr i \<and>
       get_section_precedence sp (section_name m) = Inr j \<and> i < j)"
proof -
  from topsort_orders [OF assms(1), of "module_graph ms"] assms(2) obtain mods where
    t: "topsort key_order (module_graph ms) = Inr mods" "topological_order (module_graph ms) mods"
    by (auto simp: set_module_graph)
  have mods: "set mods = fst ` depends ms \<union> snd ` depends ms" "distinct mods"
    using t(2) by (auto simp: topological_order_def nodes_def set_module_graph)
  have "dict_has ms m" if "m \<in> set mods" for m
  proof -
    from that have "\<exists>d. (m, d) \<in> depends ms \<or> (d, m) \<in> depends ms" unfolding mods(1) by auto
    then show ?thesis using assms(3)
      by (elim exE disjE) (blast, auto simp: depends_def dict_has_find)
  qed
  then have has: "list_all (dict_has ms) mods" by (simp add: list_all_iff)
  then have "set mods \<subseteq> set (map fst ms)"
    by (auto simp: list_all_iff dict_has_find keys_dict_find simp del: set_map)
  then have "distinct (map section_name mods)"
    using mods(2) assms(4) by (simp add: distinct_map inj_on_subset)
  from fold_sections [OF has this dict_ok_Nil, of 0 "[]"] obtain hm sp where
    sp: "res_fold (add_section ms) (enumerate 0 mods) ([], []) = Inr (hm, sp)"
    "\<forall>i<length mods. dict_find sp (section_name (mods ! i)) = Some (int i)" by auto
  have "\<exists>i j. get_section_precedence sp (section_name d) = Inr i \<and>
      get_section_precedence sp (section_name m) = Inr j \<and> i < j" if dm: "(d, m) \<in> depends ms" for d m
  proof -
    from topological_before [OF t(2), of d m] dm set_module_graph obtain i j where
      "i < j" "j < length mods" "mods ! i = d" "mods ! j = m" by blast
    with sp(2) show ?thesis
      by (intro exI [of _ "int i"] exI [of _ "int j"])
        (auto simp: get_section_precedence_def section_name_def dict_get_find)
  qed
  with sp t show ?thesis by (auto simp: module_sections_def)
qed

definition sample_modules :: ns3_modules where
  "sample_modules =
     [(''wifi'', ([''core''], [''wifi.h''])), (''core'', ([], [''log.h''])), (''alone'', ([], [''alone.h'']))]"

theorem sections_follow_dependencies_witness:
  "\<exists>hm sp. module_sections False rev sample_modules = Inr (hm, sp) \<and>
     (\<exists>i j. get_section_precedence sp (section_name ''core'') = Inr i \<and>
        get_section_precedence sp (section_name ''wifi'') = Inr j \<and> i < j)"
proof -
  have d: "depends sample_modules = {(''core'', ''wifi'')}"
    by (auto simp: depends_def sample_modules_def dict_find_def split: if_splits)
  have a: "acyclic (depends sample_modules)"
    unfolding d by (auto simp: acyclic_def trancl_insert)
  have h: "dict_has sample_modules d'" if "(d', m) \<in> depends sample_modules" for d' m
    using that unfolding d by (simp add: sample_modules_def dict_has_def)
  have "map section_name (map fst sample_modules) = [''ns3_module_wifi'', ''ns3_module_core'', ''ns3_module_alone'']"
    by code_simp
  then have i: "inj_on section_name (set (map fst sample_modules))"
    by (intro eq_card_imp_inj_on) (auto simp: sample_modules_def)
  from sections_follow_dependencies [OF permutes_keys_rev a h i] show ?thesis unfolding d by simp
qed

text \<open>
  A module without dependencies on which no other depends is not in the graph: it gets no
  section, and its headers are classified into the main one.
\<close>

lemma isolated_module_dropped:
  "(case module_sections False rev sample_modules of Inl e \<Rightarrow> False
    | Inr (hm, sp) \<Rightarrow> classify hm ''ns3/alone.h'' = ''__main__'' \<and> \<not> dict_has sp (section_name ''alone''))"
  by code_simp

section \<open>The hook\<close>

text \<open>Declarations of other libraries are left alone.\<close>

lemma hook_outside:
  assumes "list_all plain_component cs" and "''ns3'' \<notin> set cs" and "cs \<noteq> []" and "file_name d = abs_path cs"
  shows "pre_scan_hook headers_map modname d s = (s, Inr ())"
proof -
  have "abs_path cs \<noteq> []" using assms(3) by (auto simp: abs_path_def)
  then have "get_ns3_relative_path (abs_path cs) = Inl (ValueError [])"
    using relative_loop_outside [OF assms(1-3)] by (simp add: get_ns3_relative_path_def)
  then show ?thesis by (simp add: pre_scan_hook_def assms(4) act_simps)
qed

text \<open>A declaration in a header of ns-3, and the module that owns the header.\<close>

definition owned_by :: "(string, string) dict \<Rightarrow> cpp_decl \<Rightarrow> string \<Rightarrow> bool" where
  "owned_by headers_map d owner \<longleftrightarrow>
     (\<exists>h. get_ns3_relative_path (file_name d) = Inr (Some h) \<and> h \<noteq> [] \<and> dict_find headers_map h = Some owner)"

lemma annotate_function_keeps:
  "annotation_table (fst (annotate_function d s)) = annotation_table s"
  "parameter_annotations (fst (annotate_function d s)) = parameter_annotations s"
  "dict_ok (global_annotations s) \<Longrightarrow> dict_ok (global_annotations (fst (annotate_function d s)))"
  by (simp_all add: annotate_function_def act_when_def annotate_def act_simps dict_ops)

lemma annotate_function_returns: "snd (annotate_function d s) = Inr ()"
  by (simp add: annotate_function_def act_when_def annotate_def act_simps)

lemma hook_owned:
  assumes "owned_by headers_map d owner"
  shows "\<exists>s1. pre_scan_hook headers_map modname d s = annotate_declaration headers_map modname d owner s1 \<and>
    annotation_table s1 = annotation_table s \<and> parameter_annotations s1 = parameter_annotations s \<and>
    (dict_ok (global_annotations s) \<longrightarrow> dict_ok (global_annotations s1))"
proof -
  from assms obtain h where h: "get_ns3_relative_path (file_name d) = Inr (Some h)" "h \<noteq> []"
    "dict_find headers_map h = Some owner" by (auto simp: owned_by_def)
  define s0 where "s0 = s\<lparr>global_annotations := dict_set ''pygen_comment'' (Text (comment h owner d)) (global_annotations s)\<rparr>"
  obtain s1 where f: "annotate_function d s0 = (s1, Inr ())"
    using annotate_function_returns [of d s0] by (metis surjective_pairing)
  have "annotate ''pygen_comment'' (Text (comment h owner d)) s = (s0, Inr ())"
    by (simp add: annotate_def act_simps s0_def)
  then have "pre_scan_hook headers_map modname d s = annotate_declaration headers_map modname d owner s1"
    by (simp add: pre_scan_hook_def h dict_get_find act_simps f)
  moreover have "annotation_table s1 = annotation_table s0" "parameter_annotations s1 = parameter_annotations s0"
    "dict_ok (global_annotations s0) \<Longrightarrow> dict_ok (global_annotations s1)"
    using annotate_function_keeps [where d = d and s = s0] by (simp_all add: f)
  ultimately show ?thesis by (intro exI [of _ s1]) (simp add: s0_def dict_ops)
qed

text \<open>A free function of another module is ignored, and an enumeration of another module is imported.\<close>

lemma foreign_function_ignored:
  assumes "owned_by headers_map d owner" and "owner \<noteq> modname" and "kind d = Free_Function"
    and "dict_ok (global_annotations s)"
  shows "\<exists>t. pre_scan_hook headers_map modname d s = (t, Inr ()) \<and>
    dict_find (global_annotations t) ''ignore'' = Some Nothing \<and> annotation_table t = annotation_table s"
  using hook_owned [OF assms(1), of modname s] assms(2-4)
  by (auto simp: annotate_declaration_def act_simps annotate_free_function_def annotate_def act_when_def dict_ops)

lemma foreign_enum_imported:
  assumes "owned_by headers_map d owner" and "owner \<noteq> modname" and "kind d = Enum_Decl"
    and "dict_ok (global_annotations s)"
  shows "\<exists>t. pre_scan_hook headers_map modname d s = (t, Inr ()) \<and>
    dict_find (global_annotations t) ''import_from_module'' = Some (Text (''ns.'' @ owner))"
  using hook_owned [OF assms(1), of modname s] assms(2-4)
  by (auto simp: annotate_declaration_def act_simps annotate_def act_when_def dict_ops)

text \<open>
  The annotations of the parameters of a function are taken out of the table: whoever asks for the
  same function again does not get them.
\<close>

lemma parameters_annotated:
  assumes "owned_by headers_map d owner" and "kind d \<in> {Member_Function, Constructor_Decl}"
    and "dict_find (annotation_table s) (decl_text d) = Some as" and "dict_ok (annotation_table s)"
  shows "\<exists>t. pre_scan_hook headers_map modname d s = (t, Inr ()) \<and>
    parameter_annotations t = dict_update (parameter_annotations s)
      (case dict_find as ''params'' of Some (Params p) \<Rightarrow> p | _ \<Rightarrow> []) \<and>
    dict_find (annotation_table t) (decl_text d) = Some (dict_rem ''params'' as)"
  using hook_owned [OF assms(1), of modname s] assms(2-4)
  by (auto simp: annotate_declaration_def act_simps act_when_def annotate_from_table_def Let_def dict_ops)

lemma parameters_annotated_once:
  assumes "owned_by headers_map d owner" and "kind d \<in> {Member_Function, Constructor_Decl}"
    and "dict_find (annotation_table s) (decl_text d) = Some as" and "dict_ok (annotation_table s)" and "dict_ok as"
    and "pre_scan_hook headers_map modname d s = (t, Inr ())"
    and "annotation_table u = annotation_table t" and "dict_ok (annotation_table u)" and "parameter_annotations u = []"
  shows "parameter_annotations (fst (pre_scan_hook headers_map modname d u)) = []"
proof -
  from parameters_annotated [OF assms(1-4), of modname] assms(6)
  have "dict_find (annotation_table u) (decl_text d) = Some (dict_rem ''params'' as)" by (auto simp: assms(7))
  from parameters_annotated [OF assms(1,2) this assms(8), of modname] show ?thesis
    using assms(5,9) by (auto simp: dict_ops dict_update_def)
qed

lemma type_annotations_ok: "dict_ok type_annotations"
  by code_simp

section \<open>The file of callbacks\<close>

text \<open>The file lists the parameters of the callback classes, unless one of them is no instantiation.\<close>

definition callbacks_of :: "cpp_class list \<Rightarrow> cpp_class list" where
  "callbacks_of cs = filter (\<lambda>c. str_startswith (fst c) ''Callback<'') cs"

lemma each_callback:
  "list_all (\<lambda>c. snd c \<noteq> None) (callbacks_of cs) \<Longrightarrow>
   act_each scan_callback_class cs t = (t @ concat (map (\<lambda>c. callback_line (the (snd c))) (callbacks_of cs)), Inr ())"
proof (induction cs arbitrary: t)
  case (Cons c cs)
  show ?case
  proof (cases "str_startswith (fst c) ''Callback<''")
    case True
    with Cons.prems obtain ps where "snd c = Some ps" by (auto simp: callbacks_of_def)
    with True Cons show ?thesis by (simp add: act_simps scan_callback_class_def callbacks_of_def)
  next
    case False
    with Cons show ?thesis by (simp add: act_simps scan_callback_class_def callbacks_of_def)
  qed
qed (simp add: act_simps callbacks_of_def)

lemma callbacks_listed:
  assumes "list_all (\<lambda>c. snd c \<noteq> None) (callbacks_of cs)"
  shows "scan_callback_classes cs [] =
    (unlines [''callback_classes = [''] @ concat (map (\<lambda>c. callback_line (the (snd c))) (callbacks_of cs)) @
     unlines ['']''], Inr ())"
  using each_callback [OF assms] by (simp add: scan_callback_classes_def act_simps unlines_def)

end
