(* ===== verification/Smart_Pointers.thy ===== *)
theory Smart_Pointers
  imports Py_Strings
begin

text \<open>
  The type transformation for the smart pointers of ns-3, \<open>SmartPointerTransformation\<close> of
  \<open>src/bindings/python/ns3modulegen_core_customizations.py\<close>: how the name of a pointer type is
  read, what the handler of a parameter or a return value is made with, and the C++ expressions.
  The registration with \<open>pybindgen\<close> and the handler itself are not part of the model.
\<close>

section \<open>Model\<close>

text \<open>The group of \<open>(ns3::|::ns3::|)Ptr<([^>]+)>\s*$\<close>, if the name matches.\<close>

definition drop_namespace :: "string \<Rightarrow> string" where
  "drop_namespace s =
     (if str_startswith s ''ns3::'' then drop 5 s
      else if str_startswith s ''::ns3::'' then drop 7 s else s)"

definition rx_match :: "string \<Rightarrow> string option" where
  "rx_match name =
     (case re_lit ''Ptr<'' (drop_namespace name) of
        None \<Rightarrow> None
      | Some r \<Rightarrow>
          let g = takeWhile (\<lambda>c. c \<noteq> CHR ''>'') r; rest = dropWhile (\<lambda>c. c \<noteq> CHR ''>'') r
          in if g \<noteq> [] \<and> rest \<noteq> [] \<and> list_all is_space (tl rest) then Some g else None)"

definition get_untransformed_type_traits :: "string \<Rightarrow> string option \<times> bool" where
  "get_untransformed_type_traits name =
     (case rx_match name of
        None \<Rightarrow> (None, False)
      | Some g \<Rightarrow>
          let name1 = str_strip g;
              (name2, const2) = (if str_startswith name1 ''const '' then (drop 6 name1, True) else (name1, False));
              (name3, const3) = (if str_endswith name2 '' const'' then (take (length name2 - 6) name2, True) else (name2, const2));
              new_name = name3 @ '' *''
          in (Some (if str_startswith new_name ''::'' then drop 2 new_name else new_name), const3))"

definition get_untransformed_name :: "string \<Rightarrow> string option" where
  "get_untransformed_name name = fst (get_untransformed_type_traits name)"

datatype handler_kind = Parameter_Handler | Return_Handler | Other_Handler

record handler =
  handler_kind :: handler_kind
  handler_ctype :: string
  handler_kwargs :: "(string, bool) dict"
  untransformed_ctype :: string

definition correct_ctype :: "string \<Rightarrow> bool \<Rightarrow> string" where
  "correct_ctype orig is_const =
     ''ns3::Ptr< '' @ slice_to orig (-2) @ (if is_const then '' const >'' else '' >'')"

definition create_type_handler :: "handler_kind \<Rightarrow> string \<Rightarrow> (string, bool) dict \<Rightarrow> handler res" where
  "create_type_handler k ctype kwargs =
     res_bind (case k of
         Parameter_Handler \<Rightarrow> Inr (dict_set ''transfer_ownership'' False kwargs)
       | Return_Handler \<Rightarrow> Inr (dict_set ''caller_owns_return'' False kwargs)
       | Other_Handler \<Rightarrow> Inl (Exception ''AssertionError'')) (\<lambda>kw.
     case get_untransformed_type_traits ctype of
       (None, is_const) \<Rightarrow> Inl TypeError
     | (Some orig, is_const) \<Rightarrow>
         Inr \<lparr>handler_kind = k, handler_ctype = correct_ctype orig is_const, handler_kwargs = kw,
              untransformed_ctype = orig\<rparr>)"

definition untransform :: "handler \<Rightarrow> string \<Rightarrow> string" where
  "untransform h e = ''const_cast<'' @ untransformed_ctype h @ ''> (ns3::PeekPointer ('' @ e @ ''))''"

definition transform :: "handler \<Rightarrow> string \<Rightarrow> string res" where
  "transform h e =
     res_bind (py_index (untransformed_ctype h) (-1)) (\<lambda>c.
     if c \<noteq> CHR ''*'' then Inl (Exception ''AssertionError'')
     else Inr (''ns3::Ptr< '' @ slice_to (untransformed_ctype h) (-1) @ '' > ('' @ e @ '')''))"

section \<open>Names\<close>

text \<open>
  The name of a class that is not a template: it has no blank and no closing bracket, is not the word \<open>const\<close> and does not
  start in the global namespace; a class of the global namespace has \<open>::\<close> before its name.
\<close>

definition class_name :: "string \<Rightarrow> bool" where
  "class_name c \<longleftrightarrow> c \<noteq> [] \<and> c \<noteq> ''const'' \<and> list_all (\<lambda>x. \<not> is_space x \<and> x \<noteq> CHR ''>'') c \<and> \<not> str_startswith c ''::''"

datatype const_place = No_Const | Const_Before | Const_After | Const_Both

fun with_const :: "const_place \<Rightarrow> string \<Rightarrow> string" where
  "with_const No_Const c = c"
| "with_const Const_Before c = ''const '' @ c"
| "with_const Const_After c = c @ '' const''"
| "with_const Const_Both c = ''const '' @ c @ '' const''"

definition blanks :: "string \<Rightarrow> bool" where
  "blanks s \<longleftrightarrow> list_all is_space s"

definition pointer_name :: "string \<Rightarrow> string \<Rightarrow> string \<Rightarrow> string \<Rightarrow> string \<Rightarrow> string" where
  "pointer_name ns b1 t b2 b3 = ns @ ''Ptr<'' @ b1 @ t @ b2 @ ''>'' @ b3"

lemma strip_blanks:
  assumes "blanks b1" and "blanks b2" and "t \<noteq> []" and "\<not> is_space (hd t)" and "\<not> is_space (last t)"
  shows "str_strip (b1 @ t @ b2) = t"
proof -
  have "dropWhile is_space (b1 @ t @ b2) = t @ b2"
    using assms by (cases t) (auto simp: blanks_def list_all_iff dropWhile_append2)
  moreover have "dropWhile is_space (rev b2 @ rev t) = rev t"
    using assms by (subst dropWhile_append2) (auto simp: blanks_def list_all_iff dropWhile_eq_self_iff hd_rev)
  ultimately show ?thesis by (simp add: str_strip_def str_strip_chars_def)
qed

lemma drop_namespace_ptr:
  assumes "ns \<in> {[], ''ns3::'', ''::ns3::''}"
  shows "re_lit ''Ptr<'' (drop_namespace (ns @ ''Ptr<'' @ r)) = Some r"
  using assms by (auto simp: drop_namespace_def str_startswith_def re_lit_def)

lemma rx_match_pointer:
  assumes "ns \<in> {[], ''ns3::'', ''::ns3::''}" and "g \<noteq> []" and "CHR ''>'' \<notin> set g" and "blanks b3"
  shows "rx_match (ns @ ''Ptr<'' @ g @ ''>'' @ b3) = Some g"
proof -
  have "takeWhile (\<lambda>c. c \<noteq> CHR ''>'') (g @ ''>'' @ b3) = g" "dropWhile (\<lambda>c. c \<noteq> CHR ''>'') (g @ ''>'' @ b3) = ''>'' @ b3"
    using assms(3) by (auto simp: takeWhile_append dropWhile_append)
  with assms drop_namespace_ptr [OF assms(1), of "g @ ''>'' @ b3"] show ?thesis
    by (simp add: rx_match_def blanks_def)
qed

lemma class_name_chars:
  assumes "class_name c" and "g \<in> {[], ''::''}"
  shows "g @ c \<noteq> []" and "\<not> is_space (hd (g @ c))" and "\<not> is_space (last (g @ c))" and "CHR ''>'' \<notin> set (g @ c)"
    and "CHR '' '' \<notin> set (g @ c)" and "g @ c \<noteq> ''const''"
proof -
  have c: "c \<noteq> []" "\<forall>x\<in>set c. \<not> is_space x \<and> x \<noteq> CHR ''>''" "c \<noteq> ''const''"
    using assms(1) by (simp_all add: class_name_def list_all_iff)
  have sp: "is_space (CHR '' '')" "\<not> is_space (CHR '':'')" by (simp_all add: is_space_def)
  have "(g @ c \<noteq> [] \<and> \<not> is_space (hd (g @ c)) \<and> \<not> is_space (last (g @ c))) \<and>
    (CHR ''>'' \<notin> set (g @ c) \<and> CHR '' '' \<notin> set (g @ c)) \<and> g @ c \<noteq> ''const''"
  proof (cases "g = []")
    case True
    with c sp(1) last_in_set [OF c(1)] hd_in_set [OF c(1)] show ?thesis by (metis append_Nil)
  next
    case False
    with assms(2) have g: "g = ''::''" by simp
    have "CHR ''>'' \<notin> set c" "CHR '' '' \<notin> set c" "\<not> is_space (last c)" using c sp(1) last_in_set [OF c(1)] by metis+
    with c(1) sp(2) show ?thesis by (simp add: g)
  qed
  then show "g @ c \<noteq> []" and "\<not> is_space (hd (g @ c))" and "\<not> is_space (last (g @ c))" and "CHR ''>'' \<notin> set (g @ c)"
    and "CHR '' '' \<notin> set (g @ c)" and "g @ c \<noteq> ''const''" by blast+
qed

text \<open>A class name is neither preceded nor followed by a qualifier, since it has no blank.\<close>

lemma no_qualifier:
  assumes "CHR '' '' \<notin> set c"
  shows "\<not> str_startswith c ''const ''" and "\<not> str_endswith c '' const''"
proof -
  have "CHR '' '' \<in> set (take (length ''const '') c)" if "str_startswith c ''const ''"
    using that by (simp add: str_startswith_def)
  with assms show "\<not> str_startswith c ''const ''" by (meson in_set_takeD)
  have "CHR '' '' \<in> set (drop (length c - length '' const'') c)" if "str_endswith c '' const''"
    using that by (simp add: str_endswith_def)
  with assms show "\<not> str_endswith c '' const''" by (meson in_set_dropD)
qed

lemma startswith_colons: "str_startswith (c @ '' *'') ''::'' \<longleftrightarrow> str_startswith c ''::''"
  by (cases c; cases "tl c") (auto simp: str_startswith_def)

lemma drop_global:
  assumes "class_name c" and "g \<in> {[], ''::''}"
  shows "(if str_startswith ((g @ c) @ '' *'') ''::'' then drop 2 ((g @ c) @ '' *'') else (g @ c) @ '' *'') = c @ '' *''"
  unfolding startswith_colons using assms by (auto simp: class_name_def str_startswith_def)

definition drop_const :: "string \<Rightarrow> string \<times> bool" where
  "drop_const name1 =
     (let (name2, const2) = (if str_startswith name1 ''const '' then (drop 6 name1, True) else (name1, False))
      in if str_endswith name2 '' const'' then (take (length name2 - 6) name2, True) else (name2, const2))"

lemma drop_const_with_const:
  assumes "CHR '' '' \<notin> set d" and "d \<noteq> ''const''"
  shows "drop_const (with_const p d) = (d, p \<noteq> No_Const)"
proof -
  note q = no_qualifier [OF assms(1)]
  have a: "\<not> str_startswith (d @ '' const'') ''const ''"
  proof
    assume "str_startswith (d @ '' const'') ''const ''"
    then obtain r where "d @ '' const'' = ''const '' @ r" unfolding startswith_iff by blast
    with assms show False
      by (auto simp: append_eq_append_conv2 append_eq_Cons_conv Cons_eq_append_conv)
  qed
  have after: "str_endswith (d @ '' const'') '' const''" "take (length (d @ '' const'') - 6) (d @ '' const'') = d"
    by (simp_all add: str_endswith_def)
  have before: "str_startswith (''const '' @ r) ''const ''" "drop 6 (''const '' @ r) = r" for r
    by (simp_all add: str_startswith_def)
  show ?thesis
    by (cases p) (simp_all only: drop_const_def Let_def with_const.simps before after q a if_True if_False prod.case
      const_place.distinct simp_thms)
qed

lemma traits_of_match:
  assumes "rx_match name = Some m" and "str_strip m = with_const p (g @ c)" and "class_name c" and "g \<in> {[], ''::''}"
  shows "get_untransformed_type_traits name = (Some (c @ '' *''), p \<noteq> No_Const)"
proof -
  note ch = class_name_chars [OF assms(3,4)]
  have "get_untransformed_type_traits name =
    (let (name3, const3) = drop_const (str_strip m); new_name = name3 @ '' *''
     in (Some (if str_startswith new_name ''::'' then drop 2 new_name else new_name), const3))"
    unfolding get_untransformed_type_traits_def assms(1) option.case drop_const_def Let_def
    by (simp split: prod.split)
  also have "\<dots> = (Some (c @ '' *''), p \<noteq> No_Const)"
    unfolding assms(2) drop_const_with_const [OF ch(5,6)] Let_def prod.case drop_global [OF assms(3,4)] ..
  finally show ?thesis .
qed

lemma with_const_ends:
  assumes "class_name c" and "g \<in> {[], ''::''}"
  shows "with_const p (g @ c) \<noteq> []" and "\<not> is_space (hd (with_const p (g @ c)))"
    and "\<not> is_space (last (with_const p (g @ c)))" and "CHR ''>'' \<notin> set (with_const p (g @ c))"
proof -
  define d where "d = g @ c"
  have "with_const p d \<noteq> [] \<and> \<not> is_space (hd (with_const p d)) \<and> \<not> is_space (last (with_const p d)) \<and>
    CHR ''>'' \<notin> set (with_const p d)"
    using class_name_chars(1-4) [OF assms, folded d_def] by (cases p) (simp_all add: is_space_def)
  then show "with_const p (g @ c) \<noteq> []" and "\<not> is_space (hd (with_const p (g @ c)))"
    and "\<not> is_space (last (with_const p (g @ c)))" and "CHR ''>'' \<notin> set (with_const p (g @ c))"
    unfolding d_def by blast+
qed

lemma blanks_no_bracket: "blanks b \<Longrightarrow> CHR ''>'' \<notin> set b"
  using is_space_def [of "CHR ''>''"] by (auto simp: blanks_def list_all_iff)

lemma traits_of_pointer:
  assumes "ns \<in> {[], ''ns3::'', ''::ns3::''}" and "class_name c" and "g \<in> {[], ''::''}"
    and "blanks b1" and "blanks b2" and "blanks b3"
  shows "get_untransformed_type_traits (pointer_name ns b1 (with_const p (g @ c)) b2 b3) =
    (Some (c @ '' *''), p \<noteq> No_Const)"
proof -
  note w = with_const_ends [OF assms(2,3), of p]
  have "b1 @ with_const p (g @ c) @ b2 \<noteq> []" using w(1) by simp
  moreover have "CHR ''>'' \<notin> set (b1 @ with_const p (g @ c) @ b2)"
    using w(4) blanks_no_bracket [OF assms(4)] blanks_no_bracket [OF assms(5)] by simp
  ultimately have "rx_match (ns @ ''Ptr<'' @ (b1 @ with_const p (g @ c) @ b2) @ ''>'' @ b3) = Some (b1 @ with_const p (g @ c) @ b2)"
    by (rule rx_match_pointer [OF assms(1) _ _ assms(6)])
  then have "rx_match (pointer_name ns b1 (with_const p (g @ c)) b2 b3) = Some (b1 @ with_const p (g @ c) @ b2)"
    by (simp add: pointer_name_def)
  from traits_of_match [OF this strip_blanks [OF assms(4,5) w(1-3)] assms(2,3)] show ?thesis .
qed

lemma correct_ctype_name:
  "correct_ctype (c @ '' *'') is_const =
   pointer_name ''ns3::'' '' '' (with_const (if is_const then Const_After else No_Const) ([] @ c)) '' '' []"
  by (simp add: correct_ctype_def pointer_name_def slice_to_def slice_pos_def)

text \<open>The names that are recognised: what is in the brackets has no closing bracket, and only blanks follow.\<close>

lemma drop_namespace_split: "\<exists>ns \<in> {[], ''ns3::'', ''::ns3::''}. name = ns @ drop_namespace name"
proof -
  consider r where "name = ''ns3::'' @ r" | r where "\<not> str_startswith name ''ns3::''" "name = ''::ns3::'' @ r"
    | "\<not> str_startswith name ''ns3::''" "\<not> str_startswith name ''::ns3::''"
    unfolding startswith_iff by blast
  then show ?thesis
    by cases (auto simp: drop_namespace_def str_startswith_def)
qed

lemma rx_match_form:
  assumes "rx_match name = Some t"
  shows "\<exists>ns \<in> {[], ''ns3::'', ''::ns3::''}. \<exists>b. name = ns @ ''Ptr<'' @ t @ ''>'' @ b \<and> t \<noteq> [] \<and> CHR ''>'' \<notin> set t \<and> blanks b"
proof -
  from assms obtain r where r: "re_lit ''Ptr<'' (drop_namespace name) = Some r"
    and t: "t = takeWhile (\<lambda>c. c \<noteq> CHR ''>'') r" "t \<noteq> []" "dropWhile (\<lambda>c. c \<noteq> CHR ''>'') r \<noteq> []"
      "list_all is_space (tl (dropWhile (\<lambda>c. c \<noteq> CHR ''>'') r))"
    by (auto simp: rx_match_def Let_def split: option.splits if_splits)
  define b where "b = tl (dropWhile (\<lambda>c. c \<noteq> CHR ''>'') r)"
  have "dropWhile (\<lambda>c. c \<noteq> CHR ''>'') r = CHR ''>'' # b"
    using hd_dropWhile [OF t(3)] t(3) by (cases "dropWhile (\<lambda>c. c \<noteq> CHR ''>'') r") (auto simp: b_def)
  then have "r = t @ CHR ''>'' # b" unfolding t(1) by (metis takeWhile_dropWhile_id)
  moreover have "drop_namespace name = ''Ptr<'' @ r"
    using r unfolding re_lit_def by (auto simp: startswith_iff split: if_splits)
  moreover have "CHR ''>'' \<notin> set t" unfolding t(1) by (auto dest: set_takeWhileD)
  moreover obtain ns where "ns \<in> {[], ''ns3::'', ''::ns3::''}" "name = ns @ drop_namespace name"
    using drop_namespace_split by blast
  moreover have "blanks b" using t(4) by (simp add: blanks_def b_def)
  ultimately show ?thesis using t(2) by (intro bexI [of _ ns] exI [of _ b]) auto
qed

lemma unmatched_iff:
  "fst (get_untransformed_type_traits name) = None \<longleftrightarrow>
   (\<nexists>ns t b. ns \<in> {[], ''ns3::'', ''::ns3::''} \<and> name = ns @ ''Ptr<'' @ t @ ''>'' @ b \<and> t \<noteq> [] \<and> CHR ''>'' \<notin> set t \<and> blanks b)"
proof -
  have "fst (get_untransformed_type_traits name) = None \<longleftrightarrow> rx_match name = None"
    by (auto simp: get_untransformed_type_traits_def Let_def split: option.splits prod.splits)
  then show ?thesis using rx_match_form [of name] rx_match_pointer by (metis option.exhaust option.distinct(1))
qed

text \<open>
  C38. The name of a smart pointer to a class that is not a template is read with any of the three spellings of the
  namespace, with \<open>const\<close> and exactly one blank before the class, after it, on both sides or not at all,
  with or without \<open>::\<close> before the class, and with any blanks inside the brackets and at the end: the
  result is the plain pointer to the class, without that \<open>::\<close>, and whether it is constant.  The type that the handler is
  made with reads back to the same.  A name is recognised at all exactly if what is in the brackets is not empty and
  has no closing bracket, which leaves out the pointers to template classes.
\<close>

theorem smart_pointer_names:
  assumes "ns \<in> {[], ''ns3::'', ''::ns3::''}" and "class_name c" and "g \<in> {[], ''::''}"
    and "blanks b1" and "blanks b2" and "blanks b3"
  shows "get_untransformed_type_traits (pointer_name ns b1 (with_const p (g @ c)) b2 b3) = (Some (c @ '' *''), p \<noteq> No_Const) \<and>
    get_untransformed_type_traits (correct_ctype (c @ '' *'') is_const) = (Some (c @ '' *''), is_const) \<and>
    (fst (get_untransformed_type_traits name) = None \<longleftrightarrow>
      (\<nexists>ns t b. ns \<in> {[], ''ns3::'', ''::ns3::''} \<and> name = ns @ ''Ptr<'' @ t @ ''>'' @ b \<and> t \<noteq> [] \<and> CHR ''>'' \<notin> set t \<and> blanks b))"
proof -
  have "blanks '' ''" "blanks []" by (simp_all add: blanks_def is_space_def)
  then have "get_untransformed_type_traits (correct_ctype (c @ '' *'') is_const) = (Some (c @ '' *''), is_const)"
    unfolding correct_ctype_name using assms(2)
    by (subst traits_of_pointer) auto
  with traits_of_pointer [OF assms] unmatched_iff [of name] show ?thesis by blast
qed

theorem smart_pointer_names_witness:
  "get_untransformed_type_traits ''::ns3::Ptr< const ::ns3::Node>'' = (Some ''ns3::Node *'', True) \<and>
   get_untransformed_type_traits (correct_ctype ''ns3::Node *'' True) = (Some ''ns3::Node *'', True)"
proof -
  have c: "class_name ''ns3::Node''" by code_simp
  have b: "blanks '' ''" "blanks []" by code_simp+
  from smart_pointer_names [OF _ c _ b(1,2,2), of "''::ns3::''" "''::''" Const_Before True] show ?thesis
    by (simp add: pointer_name_def)
qed

text \<open>A second blank between \<open>const\<close> and the class stays in the name of the class.\<close>

lemma second_blank_kept:
  "get_untransformed_type_traits ''ns3::Ptr<const  ns3::Node>'' = (Some '' ns3::Node *'', True) \<and>
   get_untransformed_type_traits ''ns3::Ptr<const  ::ns3::Node>'' = (Some '' ::ns3::Node *'', True)"
  by code_simp

text \<open>The handler of a pointer never owns the object, and a pointer to a template class is not recognised.\<close>

lemma handler_never_owns:
  assumes "create_type_handler k ctype kwargs = Inr h" and "dict_ok kwargs"
  shows "dict_find (handler_kwargs h) (if k = Parameter_Handler then ''transfer_ownership'' else ''caller_owns_return'') = Some False"
  using assms
  by (auto simp: create_type_handler_def res_simps dict_ops split: handler_kind.splits prod.splits option.splits)

lemma template_pointer_unmatched:
  "get_untransformed_name ''ns3::Ptr<ns3::Queue<ns3::Packet> >'' = None \<and>
   create_type_handler Parameter_Handler ''ns3::Ptr<ns3::Queue<ns3::Packet> >'' [] = Inl TypeError"
  by code_simp

lemma transform_pointer:
  assumes "untransformed_ctype h = c @ '' *''"
  shows "transform h e = Inr (''ns3::Ptr< '' @ c @ ''  > ('' @ e @ '')'')"
proof -
  have "py_index (c @ '' *'') (-1) = Inr (CHR ''*'')" by (simp add: py_index_last)
  moreover have "slice_to (c @ '' *'') (-1) = c @ '' ''" by (simp add: slice_to_def slice_pos_def nat_add_distrib)
  ultimately show ?thesis by (simp add: transform_def assms)
qed

end
