(* ===== verification/Callback_Classes.thy ===== *)
theory Callback_Classes
  imports Py_Strings
begin

text \<open>
  The callbacks of the bindings: \<open>register_callback_classes\<close>, with the parameter handler it makes for each
  callback type, \<open>generate_callback_classes\<close>, which writes a C++ class for each, and the code for the
  construction of objects, all of \<open>src/bindings/python/ns3modulegen_core_customizations.py\<close>.

  The type system of \<open>pybindgen\<close> is an argument, the record \<open>typehandlers\<close>: how a type is parsed, which
  types are known, what a lookup by name finds, whether the helper class of a class cannot be constructed (known after
  its forward declarations are generated) and the text of a wrapper.  Each of them may raise.  A handler is named by
  its position among the registered ones, a C++ class by a number.
\<close>

section \<open>Model\<close>

record ('r, 'p) typehandlers =
  parse_type :: "string \<Rightarrow> (string \<times> bool) res"
  new_return :: "string \<Rightarrow> bool \<Rightarrow> 'r res"
  new_parameter :: "string \<Rightarrow> string \<Rightarrow> bool \<Rightarrow> 'p res"
  cpp_class :: "'p \<Rightarrow> nat option"
  forward_declarations :: "nat \<Rightarrow> bool res"
  lookup_return :: "string \<Rightarrow> nat option"
  lookup_parameter :: "string \<Rightarrow> nat option"
  generate_wrapper :: "(nat \<Rightarrow> bool) \<Rightarrow> 'r \<Rightarrow> 'p list \<Rightarrow> string res"

record callback_parameter =
  CTYPES :: "string list"
  PYTHON_CALLBACK_IMPL_NAME :: string
  TEMPLATE_ARGS :: "string list"
  DISABLED :: bool

datatype sink_item = Writeln string | Indent | Unindent | Wrapper string

record generation =
  handlers :: "callback_parameter list"
  helper_class :: "nat \<Rightarrow> bool"
  helper_class_disabled :: "nat \<Rightarrow> bool"
  after_forward_declarations :: "sink_item list list"
  warned :: "string list"

definition cls_name :: "string list \<Rightarrow> string" where
  "cls_name template_parameters = ''ns3::Callback< '' @ str_join '', '' template_parameters @ '' >''"

definition impl_name :: "nat \<Rightarrow> string" where
  "impl_name callback_impl_num = ''PythonCallbackImpl'' @ str_nat callback_impl_num"

definition callback_handler :: "nat \<times> string list \<Rightarrow> callback_parameter" where
  "callback_handler = (\<lambda>(n, template_parameters).
     \<lparr>CTYPES = [cls_name template_parameters], PYTHON_CALLBACK_IMPL_NAME = impl_name n,
      TEMPLATE_ARGS = template_parameters, DISABLED = False\<rparr>)"

definition register_callback_classes :: "string list list \<Rightarrow> callback_parameter list" where
  "register_callback_classes callbacks = map callback_handler (enumerate 0 callbacks)"

definition class_text :: "string \<Rightarrow> string list \<Rightarrow> string" where
  "class_text class_name template_parameters = unlines
    ['''',
     ''class '' @ class_name @ '' : public ns3::CallbackImpl<'' @ str_join '', '' template_parameters @ ''>'',
     ''{'',
     ''public:'',
     ''    PyObject *m_callback;'',
     ''    '' @ class_name @ ''(PyObject *callback)'',
     ''    {'',
     ''        Py_INCREF(callback);'',
     ''        m_callback = callback;'',
     ''    }'',
     ''    virtual ~'' @ class_name @ ''()'',
     ''    {'',
     ''        PyGILState_STATE __py_gil_state;'',
     ''        __py_gil_state = (PyEval_ThreadsInitialized() ? PyGILState_Ensure() : (PyGILState_STATE) 0);'',
     ''        Py_DECREF(m_callback);'',
     ''        m_callback = NULL;'',
     ''        PyGILState_Release(__py_gil_state);'',
     ''    }'',
     '''',
     ''    virtual bool IsEqual(ns3::Ptr<const ns3::CallbackImplBase> other_base) const'',
     ''    {'',
     ''        const '' @ class_name @ '' *other = dynamic_cast<const '' @ class_name @ ''*> (ns3::PeekPointer (other_base));'',
     ''        if (other != NULL)'',
     ''            return (other->m_callback == m_callback);'',
     ''        else'',
     ''            return false;'',
     ''    }'',
     '''']"

text \<open>The two exceptions of \<open>pybindgen\<close> that say that a type is not known.\<close>

definition type_unknown :: "py_error \<Rightarrow> bool" where
  "type_unknown e \<longleftrightarrow> e \<in> {Exception ''TypeLookupError'', Exception ''TypeConfigurationError''}"

definition return_type :: "('r, 'p) typehandlers \<Rightarrow> string list \<Rightarrow> 'r option res" where
  "return_type h template_parameters =
     res_bind (py_index template_parameters 0) (\<lambda>callback_return.
     res_bind (parse_type h callback_return) (\<lambda>(ctype, is_const).
     case new_return h ctype is_const of
       Inr r \<Rightarrow> Inr (Some r)
     | Inl e \<Rightarrow> if type_unknown e then Inr None else Inl e))"

text \<open>The helper class of a parameter is dropped if it cannot be constructed.\<close>

definition check_helper :: "('r, 'p) typehandlers \<Rightarrow> 'p \<Rightarrow> (generation, unit) act" where
  "check_helper h p =
     (case cpp_class h p of
        None \<Rightarrow> act_ret ()
      | Some c \<Rightarrow>
          act_bind (act_read (\<lambda>s. if helper_class s c then forward_declarations h c else Inr False))
            (\<lambda>cannot_be_constructed.
          act_when cannot_be_constructed
            (act_upd (\<lambda>s. s\<lparr>helper_class := (helper_class s)(c := False),
                             helper_class_disabled := (helper_class_disabled s)(c := True)\<rparr>))))"

definition argument :: "('r, 'p) typehandlers \<Rightarrow> nat \<times> string \<Rightarrow> (generation, 'p option) act" where
  "argument h = (\<lambda>(arg_num, arg_type).
     act_bind (act_lift (parse_type h arg_type)) (\<lambda>(ctype, is_const).
     act_catch
       (act_bind (act_lift (new_parameter h ctype (''arg'' @ str_nat (arg_num + 1)) is_const)) (\<lambda>p.
        act_then (check_helper h p) (act_ret (Some p))))
       (\<lambda>e. if type_unknown e
            then act_then (act_upd (\<lambda>s. s\<lparr>warned := warned s @ [arg_type]\<rparr>)) (act_ret None)
            else act_fail e)))"

definition callback_parameters :: "string list \<Rightarrow> string list" where
  "callback_parameters template_parameters =
     filter (\<lambda>arg. arg \<noteq> ''ns3::empty'') (slice_from template_parameters 1)"

definition disable :: "nat option \<Rightarrow> generation \<Rightarrow> generation" where
  "disable found s =
     (case found of
        None \<Rightarrow> s
      | Some k \<Rightarrow> s\<lparr>handlers := (handlers s)[k := (handlers s ! k)\<lparr>DISABLED := True\<rparr>]\<rparr>)"

definition generate_callback_class ::
  "('r, 'p) typehandlers \<Rightarrow> nat \<times> string list \<Rightarrow> (generation, unit) act" where
  "generate_callback_class h = (\<lambda>(callback_impl_num, template_parameters).
     act_bind (act_lift (return_type h template_parameters)) (\<lambda>r.
     case r of
       None \<Rightarrow> act_upd (\<lambda>s. s\<lparr>warned := warned s @ [hd template_parameters]\<rparr>)
     | Some r \<Rightarrow>
         act_bind (act_map (argument h) (enumerate 0 (callback_parameters template_parameters))) (\<lambda>arguments.
         if None \<in> set arguments
         then act_then (act_upd (disable (lookup_return h (cls_name template_parameters))))
                (act_upd (disable (lookup_parameter h (cls_name template_parameters))))
         else
           act_bind (act_read (\<lambda>s. generate_wrapper h (helper_class s) r (map the arguments))) (\<lambda>text.
           act_upd (\<lambda>s. s\<lparr>after_forward_declarations := after_forward_declarations s @
             [[Writeln (class_text (impl_name callback_impl_num) template_parameters), Indent, Wrapper text,
               Unindent, Writeln (''};'' @ [CHR 0x0A])]]\<rparr>)))))"

definition generate_callback_classes ::
  "('r, 'p) typehandlers \<Rightarrow> string list list \<Rightarrow> (generation, unit) act" where
  "generate_callback_classes h callbacks = act_each (generate_callback_class h) (enumerate 0 callbacks)"

section \<open>Code of the wrappers\<close>

text \<open>
  The code that the handlers write.  A declared variable gets a name of its own, which \<open>pybindgen\<close> chooses
  from the names in the block: the argument \<open>unique\<close>.
\<close>

datatype code_item =
    Code string
  | Cleanup_Code string
  | Error_Check string "string option"
  | Code_Indent
  | Code_Unindent

record code_block =
  variables :: "(string \<times> string \<times> string option) list"
  code :: "code_item list"

definition declare_variable ::
  "(string list \<Rightarrow> string \<Rightarrow> string) \<Rightarrow> string \<Rightarrow> string \<Rightarrow> string option \<Rightarrow> code_block \<Rightarrow> string \<times> code_block" where
  "declare_variable unique ctype name init b =
     (let v = unique (map (\<lambda>(t, n, i). n) (variables b)) name
      in (v, b\<lparr>variables := variables b @ [(ctype, v, init)]\<rparr>))"

definition write_code :: "code_item list \<Rightarrow> code_block \<Rightarrow> code_block" where
  "write_code items b = b\<lparr>code := code b @ items\<rparr>"

text \<open>\<open>CallbackImplProxyMethod.generate_python_call\<close>, on the parameters that were built.\<close>

definition generate_python_call ::
  "(string list \<Rightarrow> string \<Rightarrow> string) \<Rightarrow> string list \<Rightarrow> code_block \<Rightarrow> code_block res" where
  "generate_python_call unique build_params before_call =
     res_bind (py_index build_params 0) (\<lambda>format.
     res_bind (py_index format 0) (\<lambda>c.
     let build_params = (if c = CHR 0x22 then build_params[0 := ''(char *) '' @ format] else build_params);
         (args, b) = declare_variable unique ''PyObject*'' ''args'' None before_call
     in Inr (write_code
       [Code (args @ '' = Py_BuildValue('' @ str_join '', '' build_params @ '');''),
        Cleanup_Code (''Py_DECREF('' @ args @ '');''),
        Code (''py_retval = PyObject_CallObject(m_callback, '' @ args @ '');''),
        Error_Check ''py_retval == NULL'' None,
        Cleanup_Code ''Py_DECREF(py_retval);''] b)))"

record wrapper =
  declarations :: code_block
  parse_params :: "(string \<times> string list \<times> string \<times> bool) list"
  before_call :: code_block
  call_params :: "string list"

definition callable_check :: "string \<Rightarrow> string \<Rightarrow> code_item" where
  "callable_check py_callback name =
     Error_Check (''!PyCallable_Check('' @ py_callback @ '')'')
       (Some (''PyErr_SetString(PyExc_TypeError, '' @ [CHR 0x22] @ ''parameter '' @ [CHR 0x27] @ name @ [CHR 0x27] @
              '' must be callbale'' @ [CHR 0x22] @ '');''))"

text \<open>\<open>PythonCallbackParameter.convert_python_to_c\<close>: the parameter with and without a default value.\<close>

definition convert_required ::
  "(string list \<Rightarrow> string \<Rightarrow> string) \<Rightarrow> callback_parameter \<Rightarrow> string \<Rightarrow> wrapper \<Rightarrow> wrapper" where
  "convert_required unique c name w =
     (let (py_callback, d) = declare_variable unique ''PyObject*'' name None (declarations w);
          (callback_impl, d) = declare_variable unique (''ns3::Ptr<'' @ PYTHON_CALLBACK_IMPL_NAME c @ ''>'')
            (name @ ''_cb_impl'') None d
      in \<lparr>declarations = d,
          parse_params = parse_params w @ [(''O'', [''&'' @ py_callback], name, False)],
          before_call = write_code
            [callable_check py_callback name,
             Code (callback_impl @ '' = ns3::Create<'' @ PYTHON_CALLBACK_IMPL_NAME c @ ''> ('' @ py_callback @ '');'')]
            (before_call w),
          call_params = call_params w @
            [''ns3::Callback<'' @ str_join '', '' (TEMPLATE_ARGS c) @ ''> ('' @ callback_impl @ '')'']\<rparr>)"

definition convert_optional ::
  "(string list \<Rightarrow> string \<Rightarrow> string) \<Rightarrow> callback_parameter \<Rightarrow> string \<Rightarrow> string \<Rightarrow> wrapper \<Rightarrow> wrapper" where
  "convert_optional unique c name default_value w =
     (let cb = ''ns3::Callback<'' @ str_join '', '' (TEMPLATE_ARGS c) @ ''>'';
          (py_callback, d) = declare_variable unique ''PyObject*'' name (Some ''NULL'') (declarations w);
          (v, d) = declare_variable unique cb (name @ ''_value'') (Some default_value) d
      in \<lparr>declarations = d,
          parse_params = parse_params w @ [(''O'', [''&'' @ py_callback], name, True)],
          before_call = write_code
            [Code (''if ('' @ py_callback @ '') {''), Code_Indent,
             callable_check py_callback name,
             Code (v @ '' = '' @ cb @ '' (ns3::Create<'' @ PYTHON_CALLBACK_IMPL_NAME c @ ''> ('' @ py_callback @ ''));''),
             Code_Unindent, Code ''}'']
            (before_call w),
          call_params = call_params w @ [v]\<rparr>)"

definition convert_python_to_c ::
  "(string list \<Rightarrow> string \<Rightarrow> string) \<Rightarrow> callback_parameter \<Rightarrow> string \<Rightarrow> string option \<Rightarrow> wrapper \<Rightarrow> wrapper res" where
  "convert_python_to_c unique c name default_value w =
     (if DISABLED c then Inl (Exception ''CodeGenerationError'')
      else case default_value of
        None \<Rightarrow> Inr (convert_required unique c name w)
      | Some v \<Rightarrow> Inr (convert_optional unique c name v w))"

text \<open>\<open>PythonCallbackParameter.convert_c_to_python\<close>: a callback that C++ hands to Python is not supported.\<close>

definition convert_c_to_python :: "callback_parameter \<Rightarrow> wrapper \<Rightarrow> wrapper res" where
  "convert_c_to_python c w = Inl (Exception ''NotSupportedError'')"

section \<open>Construction of objects and default values\<close>

record object_class =
  full_name :: string
  not_constructible :: bool
  incomplete_type :: bool

text \<open>
  \<open>ns3_object_instance_creation_function\<close>.  The first message has two fields and one argument, so the
  formatting raises.
\<close>

definition ns3_object_instance_creation_function ::
  "object_class \<Rightarrow> string \<Rightarrow> string \<Rightarrow> string \<Rightarrow> code_block \<Rightarrow> code_block res" where
  "ns3_object_instance_creation_function cls lvalue parameters construct_type_name b =
     (if lvalue = [] \<or> str_startswith lvalue ''None'' then Inl (Exception ''AssertionError'')
      else if not_constructible cls then Inl TypeError
      else if incomplete_type cls then Inl (Exception ''CodeGenerationError'')
      else Inr (write_code [Code (lvalue @ '' = new '' @ construct_type_name @ ''('' @ parameters @ '');''),
                       Code (lvalue @ ''->Ref ();'')] b))"

definition ns3_object_post_instance_creation_function :: "string \<Rightarrow> code_block \<Rightarrow> code_block" where
  "ns3_object_post_instance_creation_function lvalue =
     write_code [Code (''ns3::CompleteConstruct('' @ lvalue @ '');'')]"

text \<open>A parameter: the class it refers to, its default value and the type of that value.\<close>

record method_parameter =
  class_ref :: "string option"
  default_value :: "string option"
  default_value_type :: "string option"

definition fix_parameter :: "method_parameter \<Rightarrow> method_parameter" where
  "fix_parameter p =
     (if class_ref p = Some ''AttributeValue'' \<and> default_value p \<noteq> None \<and> default_value_type p = None
      then p\<lparr>default_value_type := Some ''ns3::EmptyAttributeValue''\<rparr> else p)"

definition Attribute_customizations :: "method_parameter list list list \<Rightarrow> method_parameter list list list" where
  "Attribute_customizations classes = map (map (map fix_parameter)) classes"

definition add_std_ios_openmode :: "code_block \<Rightarrow> code_block" where
  "add_std_ios_openmode = write_code
     (map (\<lambda>flag. Code (''PyModule_AddIntConstant(m, (char *) '' @ [CHR 0x22] @ ''STD_IOS_'' @ map upper_char flag @
        [CHR 0x22] @ '', std::ios::'' @ flag @ '');''))
      [''in'', ''out'', ''ate'', ''app'', ''trunc'', ''binary''])"

text \<open>
  \<open>ErrorHandler.handle_error\<close> of \<open>ns3modulegen-modular.py\<close>: the stack of the wrapper is reversed in place, and the
  warning is given for the first entry in the file of the definitions, if there is one.
\<close>

definition handle_error :: "string \<Rightarrow> (string \<times> nat) list \<Rightarrow> (string \<times> nat) list \<times> (string \<times> nat) option" where
  "handle_error apidefs_file stack = (rev stack, find (\<lambda>l. fst l = apidefs_file) (rev stack))"

section \<open>Callback classes\<close>

text \<open>
  Whether a type is known, by the specification: the two exceptions of \<open>type_unknown\<close> say that it is not, any other one
  leaves the loop, as does every exception of the parser.
\<close>

definition attempt :: "(string \<times> bool) res \<Rightarrow> (string \<times> bool \<Rightarrow> 'a res) \<Rightarrow> bool res" where
  "attempt parsed new =
     res_bind parsed (\<lambda>x. case new x of
        Inr _ \<Rightarrow> Inr True
      | Inl e \<Rightarrow> if type_unknown e then Inr False else Inl e)"

definition return_known :: "('r, 'p) typehandlers \<Rightarrow> string list \<Rightarrow> bool res" where
  "return_known h tp = attempt (parse_type h (hd tp)) (\<lambda>(t, c). new_return h t c)"

text \<open>The helper classes that there are, as they were at the start of the run.\<close>

definition helper_made :: "('r, 'p) typehandlers \<Rightarrow> (nat \<Rightarrow> bool) \<Rightarrow> 'p \<Rightarrow> 'p res" where
  "helper_made h helper p =
     (case cpp_class h p of
        None \<Rightarrow> Inr p
      | Some c \<Rightarrow> if helper c then res_bind (forward_declarations h c) (\<lambda>_. Inr p) else Inr p)"

definition parameter_known :: "('r, 'p) typehandlers \<Rightarrow> (nat \<Rightarrow> bool) \<Rightarrow> nat \<times> string \<Rightarrow> bool res" where
  "parameter_known h helper = (\<lambda>(n, t).
     attempt (parse_type h t)
       (\<lambda>(t, c). res_bind (new_parameter h t (''arg'' @ str_nat (n + 1)) c) (helper_made h helper)))"

fun all_known :: "bool res list \<Rightarrow> bool res" where
  "all_known [] = Inr True"
| "all_known (x # xs) = res_bind x (\<lambda>a. res_bind (all_known xs) (\<lambda>b. Inr (a \<and> b)))"

definition parameters_known :: "('r, 'p) typehandlers \<Rightarrow> (nat \<Rightarrow> bool) \<Rightarrow> string list \<Rightarrow> bool res" where
  "parameters_known h helper tp =
     all_known (map (parameter_known h helper) (enumerate 0 (filter (\<lambda>t. t \<noteq> ''ns3::empty'') (tl tp))))"

text \<open>What becomes of a callback.\<close>

datatype fate = Written | Disabled | Skipped | Raised py_error

definition fate :: "('r, 'p) typehandlers \<Rightarrow> (nat \<Rightarrow> bool) \<Rightarrow> string list \<Rightarrow> fate" where
  "fate h helper tp =
     (case return_known h tp of
        Inl e \<Rightarrow> Raised e
      | Inr False \<Rightarrow> Skipped
      | Inr True \<Rightarrow>
          (case parameters_known h helper tp of
             Inl e \<Rightarrow> Raised e
           | Inr ok \<Rightarrow> if ok then Written else Disabled))"

text \<open>The handlers that the wrapper of a callback is made of.\<close>

definition made_return :: "('r, 'p) typehandlers \<Rightarrow> string list \<Rightarrow> 'r res" where
  "made_return h tp = res_bind (parse_type h (hd tp)) (\<lambda>(t, c). new_return h t c)"

definition made_parameter :: "('r, 'p) typehandlers \<Rightarrow> nat \<times> string \<Rightarrow> 'p res" where
  "made_parameter h = (\<lambda>(n, t).
     res_bind (parse_type h t) (\<lambda>(t, c). new_parameter h t (''arg'' @ str_nat (n + 1)) c))"

lemma return_type_made:
  assumes "tp \<noteq> []" and "return_type h tp = Inr (Some r)"
  shows "made_return h tp = Inr r"
proof -
  have i: "py_index tp 0 = Inr (hd tp)" using assms(1) by (simp add: py_index_def hd_conv_nth)
  show ?thesis
    using assms(2) by (cases "parse_type h (hd tp)")
      (auto simp: i return_type_def made_return_def res_simps split: sum.splits if_splits)
qed

lemma return_type_known:
  assumes "tp \<noteq> []"
  shows "map_sum id (\<lambda>r. r \<noteq> None) (return_type h tp) = return_known h tp"
proof -
  have i: "py_index tp 0 = Inr (hd tp)" using assms by (simp add: py_index_def hd_conv_nth)
  show ?thesis
    by (cases "parse_type h (hd tp)")
      (auto simp: i return_type_def return_known_def attempt_def res_simps split: sum.split prod.split)
qed

text \<open>A helper class whose declarations cannot be generated stays as it was.\<close>

definition helpers_kept :: "('r, 'p) typehandlers \<Rightarrow> (nat \<Rightarrow> bool) \<Rightarrow> generation \<Rightarrow> bool" where
  "helpers_kept h helper s \<longleftrightarrow> (\<forall>c e. forward_declarations h c = Inl e \<longrightarrow> helper_class s c = helper c)"

definition output_kept :: "generation \<Rightarrow> generation \<Rightarrow> bool" where
  "output_kept s s' \<longleftrightarrow> handlers s' = handlers s \<and> after_forward_declarations s' = after_forward_declarations s"

lemma output_kept_trans [trans]: "output_kept s s' \<Longrightarrow> output_kept s' s'' \<Longrightarrow> output_kept s s''"
  by (simp add: output_kept_def)

lemma check_helper_made:
  assumes "helpers_kept h helper s" and "check_helper h p s = (s', r)"
  shows "map_sum id (\<lambda>_. p) r = helper_made h helper p" and "helpers_kept h helper s'" and "output_kept s s'"
proof -
  have "map_sum id (\<lambda>_. p) r = helper_made h helper p \<and> helpers_kept h helper s' \<and> output_kept s s'"
  proof (cases "cpp_class h p")
    case None
    with assms show ?thesis by (auto simp: check_helper_def helper_made_def act_simps output_kept_def)
  next
    case (Some c)
    with assms show ?thesis
      by (cases "forward_declarations h c")
        (auto simp: check_helper_def helper_made_def helpers_kept_def output_kept_def act_simps act_when_def res_simps
          split: if_splits)
  qed
  then show "map_sum id (\<lambda>_. p) r = helper_made h helper p" "helpers_kept h helper s'" "output_kept s s'" by blast+
qed

lemma catch_unknown:
  "act_catch m (\<lambda>e. if type_unknown e then f else act_fail e) s =
   (case m s of (s', Inl e) \<Rightarrow> if type_unknown e then f s' else (s', Inl e) | (s', Inr x) \<Rightarrow> (s', Inr x))"
  by (auto simp: act_catch_def act_simps type_unknown_def split: prod.split sum.split py_error.split)

lemma argument_known:
  assumes "helpers_kept h helper s" and "argument h (n, t) s = (s', r)"
  shows "map_sum id (\<lambda>p. p \<noteq> None) r = parameter_known h helper (n, t) \<and> helpers_kept h helper s' \<and> output_kept s s' \<and>
    (\<forall>p. r = Inr (Some p) \<longrightarrow> made_parameter h (n, t) = Inr p)"
proof (cases "parse_type h t")
  case (Inl e)
  with assms show ?thesis
    by (auto simp: argument_def parameter_known_def attempt_def act_simps res_simps output_kept_def)
next
  case (Inr x)
  obtain ct c where x: "x = (ct, c)" by (cases x)
  define p where "p = new_parameter h ct (''arg'' @ str_nat (n + 1)) c"
  have run: "argument h (n, t) s = (case act_bind (act_lift p) (\<lambda>p. act_then (check_helper h p) (act_ret (Some p))) s of
      (s', Inl e) \<Rightarrow> if type_unknown e then act_then (act_upd (\<lambda>s. s\<lparr>warned := warned s @ [t]\<rparr>)) (act_ret None) s' else (s', Inl e)
    | (s', Inr x) \<Rightarrow> (s', Inr x))"
    unfolding argument_def p_def by (simp add: Inr x act_simps catch_unknown)
  have spec: "parameter_known h helper (n, t) =
      (case res_bind p (helper_made h helper) of Inr _ \<Rightarrow> Inr True | Inl e \<Rightarrow> if type_unknown e then Inr False else Inl e)"
    by (simp add: parameter_known_def attempt_def Inr x res_simps p_def)
  have made: "made_parameter h (n, t) = p" by (simp add: made_parameter_def Inr x res_simps p_def)
  have warn: "helpers_kept h helper (u\<lparr>warned := ws\<rparr>) = helpers_kept h helper u" "output_kept s (u\<lparr>warned := ws\<rparr>) = output_kept s u"
    for u ws by (simp_all add: helpers_kept_def output_kept_def)
  show ?thesis
  proof (cases p)
    case (Inl e)
    with assms show ?thesis unfolding run spec made
      by (auto simp: act_simps res_simps warn output_kept_def split: if_splits)
  next
    case (Inr q)
    obtain s1 r1 where c: "check_helper h q s = (s1, r1)" by fastforce
    note m = check_helper_made [OF assms(1) c]
    show ?thesis
      using assms(2) m(2,3) c Inr unfolding run spec made
      by (cases r1) (auto simp: act_simps res_simps warn m(1) [symmetric] split: if_splits)
  qed
qed

lemma arguments_known:
  assumes "helpers_kept h helper s" and "act_map (argument h) xs s = (s', r)"
  shows "map_sum id (\<lambda>rs. None \<notin> set rs) r = all_known (map (parameter_known h helper) xs) \<and>
    helpers_kept h helper s' \<and> output_kept s s' \<and>
    (\<forall>rs. r = Inr rs \<longrightarrow> None \<notin> set rs \<longrightarrow> list_all2 (\<lambda>x p. made_parameter h x = Inr p) xs (map the rs))"
  using assms
proof (induction xs arbitrary: s s' r)
  case Nil
  then show ?case by (auto simp: act_simps output_kept_def)
next
  case (Cons x xs)
  obtain s1 r1 where 1: "argument h x s = (s1, r1)" by fastforce
  obtain n t where x: "x = (n, t)" by (cases x)
  note k = argument_known [OF Cons.prems(1) 1 [unfolded x], folded x]
  obtain s2 r2 where 2: "act_map (argument h) xs s1 = (s2, r2)" by fastforce
  from Cons.IH [OF conjunct1 [OF conjunct2 [OF k]] 2] have i: "map_sum id (\<lambda>rs. None \<notin> set rs) r2 = all_known (map (parameter_known h helper) xs)"
    "helpers_kept h helper s2" "output_kept s1 s2"
    "\<forall>rs. r2 = Inr rs \<longrightarrow> None \<notin> set rs \<longrightarrow> list_all2 (\<lambda>x p. made_parameter h x = Inr p) xs (map the rs)" by blast+
  from k have k1: "parameter_known h helper x = map_sum id (\<lambda>p. p \<noteq> None) r1" by simp
  show ?case
  proof (cases r1)
    case (Inl e)
    with Cons.prems(2) 1 k show ?thesis by (auto simp: act_simps k1 res_simps)
  next
    case (Inr p)
    with Cons.prems(2) 1 2 i k output_kept_trans [of s s1 s2] show ?thesis
      by (cases p; cases r2) (auto simp: act_simps k1 res_simps i(1) [symmetric])
  qed
qed

text \<open>The first item of the text of a class, which has its name, and the handlers that are left.\<close>

definition class_head :: "nat \<times> string list \<Rightarrow> sink_item" where
  "class_head = (\<lambda>(n, tp). Writeln (class_text (impl_name n) tp))"

definition disabled_handlers ::
  "('r, 'p) typehandlers \<Rightarrow> (nat \<Rightarrow> bool) \<Rightarrow> nat \<times> string list \<Rightarrow> callback_parameter list \<Rightarrow> callback_parameter list" where
  "disabled_handlers h helper = (\<lambda>(n, tp) hs. if fate h helper tp = Disabled then hs[n := (hs ! n)\<lparr>DISABLED := True\<rparr>] else hs)"

definition written :: "('r, 'p) typehandlers \<Rightarrow> (nat \<Rightarrow> bool) \<Rightarrow> (nat \<times> string list) list \<Rightarrow> (nat \<times> string list) list" where
  "written h helper = filter (\<lambda>(n, tp). fate h helper tp = Written)"

text \<open>The exceptions of a callback: those of its types, and those of the wrapper.\<close>

definition may_raise :: "('r, 'p) typehandlers \<Rightarrow> (nat \<Rightarrow> bool) \<Rightarrow> string list \<Rightarrow> py_error \<Rightarrow> bool" where
  "may_raise h helper tp e \<longleftrightarrow>
     fate h helper tp = Raised e \<or>
     fate h helper tp = Written \<and>
     (\<exists>helper' r ps. made_return h tp = Inr r \<and>
        list_all2 (\<lambda>x p. made_parameter h x = Inr p) (enumerate 0 (filter (\<lambda>t. t \<noteq> ''ns3::empty'') (tl tp))) ps \<and>
        generate_wrapper h helper' r ps = Inl e)"

lemma callback_parameters_tl: "tp \<noteq> [] \<Longrightarrow> callback_parameters tp = filter (\<lambda>t. t \<noteq> ''ns3::empty'') (tl tp)"
  by (cases tp) (simp_all add: callback_parameters_def slice_from_def slice_pos_def)

lemma generate_step:
  assumes "tp \<noteq> []" and "lookup_parameter h (cls_name tp) = Some n" and "lookup_return h (cls_name tp) = None"
    and "helpers_kept h helper s" and "generate_callback_class h (n, tp) s = (s', r)"
  shows "helpers_kept h helper s' \<and>
    (r = Inr () \<and> (\<forall>e. fate h helper tp \<noteq> Raised e) \<and> handlers s' = disabled_handlers h helper (n, tp) (handlers s) \<and>
       map hd (after_forward_declarations s') =
         map hd (after_forward_declarations s) @ map class_head (written h helper [(n, tp)]) \<or>
     (\<exists>e. r = Inl e \<and> may_raise h helper tp e \<and> output_kept s s'))"
proof -
  note rt = return_type_known [OF assms(1), of h, symmetric]
  obtain s1 ra where a: "act_map (argument h) (enumerate 0 (callback_parameters tp)) s = (s1, ra)" by fastforce
  from arguments_known [OF assms(4) a] have k: "parameters_known h helper tp = map_sum id (\<lambda>rs. None \<notin> set rs) ra"
    "helpers_kept h helper s1" "output_kept s s1"
    "\<forall>rs. ra = Inr rs \<longrightarrow> None \<notin> set rs \<longrightarrow>
      list_all2 (\<lambda>x p. made_parameter h x = Inr p) (enumerate 0 (filter (\<lambda>t. t \<noteq> ''ns3::empty'') (tl tp))) (map the rs)"
    unfolding parameters_known_def callback_parameters_tl [OF assms(1)] by simp_all
  note run = assms(5) [unfolded generate_callback_class_def prod.case]
  show ?thesis
  proof (cases "return_type h tp")
    case (Inl e)
    with run rt assms(4) show ?thesis
      by (auto simp: act_simps fate_def may_raise_def output_kept_def)
  next
    case (Inr x)
    show ?thesis
    proof (cases x)
      case None
      with Inr run rt assms(4) show ?thesis
        by (auto simp: act_simps fate_def disabled_handlers_def written_def helpers_kept_def)
    next
      case (Some r')
      note rk = rt [unfolded Inr Some, simplified]
      show ?thesis
      proof (cases ra)
        case (Inl e)
        with Inr Some run rk a k(1-3) show ?thesis by (auto simp: act_simps fate_def may_raise_def)
      next
        case rs: (Inr rs)
        note unkept = helpers_kept_def output_kept_def
        have f: "fate h helper tp = (if None \<in> set rs then Disabled else Written)"
          by (simp add: fate_def rk k(1) rs)
        show ?thesis
        proof (cases "None \<in> set rs")
          case True
          with Inr Some run a k(2,3) rs f assms(2,3) show ?thesis
            by (auto simp: act_simps disabled_handlers_def written_def disable_def unkept)
        next
          case False
          have m: "may_raise h helper tp e" if "generate_wrapper h (helper_class s1) r' (map the rs) = Inl e" for e
            using that k(4) return_type_made [OF assms(1) Inr [unfolded Some]] False rs f
            unfolding may_raise_def by auto
          with False Inr Some run a k(2,3) rs f show ?thesis
            by (cases "generate_wrapper h (helper_class s1) r' (map the rs)")
              (auto simp: act_simps disabled_handlers_def written_def class_head_def unkept)
        qed
      qed
    qed
  qed
qed

text \<open>The loop stops at the first callback that raises; the callbacks before it are dealt with.\<close>

definition own_handler :: "('r, 'p) typehandlers \<Rightarrow> nat \<times> string list \<Rightarrow> bool" where
  "own_handler h = (\<lambda>(n, tp). tp \<noteq> [] \<and> lookup_parameter h (cls_name tp) = Some n \<and> lookup_return h (cls_name tp) = None)"

lemma written_Cons: "written h helper (x # xs) = written h helper [x] @ written h helper xs"
  by (simp add: written_def)

lemma generate_loop:
  assumes "list_all (own_handler h) cs" and "helpers_kept h helper s"
    and "act_each (generate_callback_class h) cs s = (s', r)"
  shows "\<exists>k \<le> length cs. (\<forall>x\<in>set (take k cs). \<forall>e. fate h helper (snd x) \<noteq> Raised e) \<and>
    handlers s' = fold (disabled_handlers h helper) (take k cs) (handlers s) \<and>
    map hd (after_forward_declarations s') =
      map hd (after_forward_declarations s) @ map class_head (written h helper (take k cs)) \<and>
    (case r of Inr _ \<Rightarrow> k = length cs | Inl e \<Rightarrow> k < length cs \<and> may_raise h helper (snd (cs ! k)) e)"
  using assms
proof (induction cs arbitrary: s)
  case Nil
  then show ?case by (auto simp: act_simps written_def)
next
  case (Cons x cs)
  obtain n tp where x: "x = (n, tp)" by (cases x)
  obtain s1 r1 where 1: "generate_callback_class h (n, tp) s = (s1, r1)" by fastforce
  from Cons.prems(1) have l: "tp \<noteq> []" "lookup_parameter h (cls_name tp) = Some n" "lookup_return h (cls_name tp) = None"
    by (simp_all add: x own_handler_def)
  note step = generate_step [OF l Cons.prems(2) 1]
  show ?case
  proof (cases r1)
    case (Inl e)
    with step have "may_raise h helper tp e" "output_kept s s1" by auto
    moreover have "s' = s1" "r = Inl e" using Cons.prems(3) 1 Inl by (simp_all add: x act_simps)
    ultimately show ?thesis by (intro exI [of _ 0]) (simp add: x output_kept_def written_def)
  next
    case (Inr u)
    with step have st: "\<forall>e. fate h helper tp \<noteq> Raised e" "handlers s1 = disabled_handlers h helper x (handlers s)"
      "map hd (after_forward_declarations s1) = map hd (after_forward_declarations s) @ map class_head (written h helper [x])"
      by (auto simp: x)
    have "act_each (generate_callback_class h) cs s1 = (s', r)" using Cons.prems(3) 1 Inr by (simp add: x act_simps)
    with Cons.IH [of s1] Cons.prems(1) step obtain k where
      k: "k \<le> length cs" "\<forall>y\<in>set (take k cs). \<forall>e. fate h helper (snd y) \<noteq> Raised e"
        "handlers s' = fold (disabled_handlers h helper) (take k cs) (handlers s1)"
        "map hd (after_forward_declarations s') =
          map hd (after_forward_declarations s1) @ map class_head (written h helper (take k cs))"
        "case r of Inr _ \<Rightarrow> k = length cs | Inl e \<Rightarrow> k < length cs \<and> may_raise h helper (snd (cs ! k)) e"
      by auto
    show ?thesis
      using k st by (intro exI [of _ "Suc k"]) (auto simp: x written_Cons [of h helper "(n, tp)" "take k cs"] split: sum.splits)
  qed
qed

text \<open>A handler is changed only by its own callback.\<close>

lemma disabled_nth:
  assumes "j < length hs"
  shows "disabled_handlers h helper (n, tp) hs ! j =
    (if n = j \<and> fate h helper tp = Disabled then (hs ! j)\<lparr>DISABLED := True\<rparr> else hs ! j)"
  using assms by (simp add: disabled_handlers_def)

lemma disabled_length [simp]: "length (disabled_handlers h helper x hs) = length hs"
  by (simp add: disabled_handlers_def split: prod.splits)

lemma fold_disabled_nth:
  assumes "j < length hs"
  shows "fold (disabled_handlers h helper) (enumerate k cs) hs ! j =
    (if k \<le> j \<and> j < k + length cs \<and> fate h helper (cs ! (j - k)) = Disabled
     then (hs ! j)\<lparr>DISABLED := True\<rparr> else hs ! j)"
  using assms
proof (induction cs arbitrary: k hs)
  case (Cons tp cs)
  have "fold (disabled_handlers h helper) (enumerate (Suc k) cs) (disabled_handlers h helper (k, tp) hs) ! j =
    (if Suc k \<le> j \<and> j < Suc k + length cs \<and> fate h helper (cs ! (j - Suc k)) = Disabled
     then (disabled_handlers h helper (k, tp) hs ! j)\<lparr>DISABLED := True\<rparr> else disabled_handlers h helper (k, tp) hs ! j)"
    using Cons.prems by (intro Cons.IH) simp
  also have "\<dots> = (if k \<le> j \<and> j < k + length (tp # cs) \<and> fate h helper ((tp # cs) ! (j - k)) = Disabled
     then (hs ! j)\<lparr>DISABLED := True\<rparr> else hs ! j)"
    using Cons.prems by (auto simp: disabled_nth nth_Cons')
  finally show ?case by simp
qed auto

text \<open>
  C39. The loop over the callbacks, when none is an empty list and the name of each finds the handler registered for it
  and no handler of a return value.  The callbacks before some position are dealt with: for each whose
  return type and parameters are known one class is written, in the order of the callbacks and with the name that its
  handler uses, and no other class is; the handlers that are disabled are those of the callbacks with a
  known return type and a parameter that is not known.  The loop returns exactly when the position is the end; if it
  raises, the exception is that of the callback at the position: one of its types gave an exception other than the
  two that say that a type is not known, or its types are known and the generation of its wrapper raised.
\<close>

theorem callbacks_generated:
  assumes "[] \<notin> set callbacks"
    and "\<forall>i < length callbacks. lookup_parameter h (cls_name (callbacks ! i)) = Some i \<and> lookup_return h (cls_name (callbacks ! i)) = None"
    and "handlers s = register_callback_classes callbacks"
    and "generate_callback_classes h callbacks s = (s', r)"
  shows "\<exists>k \<le> length callbacks.
    (\<forall>i < k. \<forall>e. fate h (helper_class s) (callbacks ! i) \<noteq> Raised e) \<and>
    map hd (after_forward_declarations s') =
      map hd (after_forward_declarations s) @ map class_head (written h (helper_class s) (enumerate 0 (take k callbacks))) \<and>
    (\<forall>i < length callbacks. handlers s' ! i =
      (callback_handler (i, callbacks ! i))\<lparr>DISABLED := i < k \<and> fate h (helper_class s) (callbacks ! i) = Disabled\<rparr>) \<and>
    (case r of Inr _ \<Rightarrow> k = length callbacks
     | Inl e \<Rightarrow> k < length callbacks \<and> may_raise h (helper_class s) (callbacks ! k) e)"
proof -
  let ?f = "fate h (helper_class s)"
  have own: "list_all (own_handler h) (enumerate 0 callbacks)"
  proof -
    have "own_handler h (i, callbacks ! i)" if "i < length callbacks" for i
    proof -
      have "callbacks ! i \<noteq> []" using assms(1) nth_mem [OF that] by metis
      with that assms(2) show ?thesis by (simp add: own_handler_def)
    qed
    then show ?thesis by (auto simp: list_all_length nth_enumerate_eq)
  qed
  have kept: "helpers_kept h (helper_class s) s" by (simp add: helpers_kept_def)
  have take: "take k (enumerate 0 callbacks) = enumerate 0 (take k callbacks)" for k
    by (rule nth_equalityI) (auto simp: nth_enumerate_eq)
  from generate_loop [OF own kept assms(4) [unfolded generate_callback_classes_def]] obtain k where
    k: "k \<le> length callbacks" "\<forall>x\<in>set (enumerate 0 (take k callbacks)). \<forall>e. ?f (snd x) \<noteq> Raised e"
      "handlers s' = fold (disabled_handlers h (helper_class s)) (enumerate 0 (take k callbacks)) (register_callback_classes callbacks)"
      "map hd (after_forward_declarations s') =
        map hd (after_forward_declarations s) @ map class_head (written h (helper_class s) (enumerate 0 (take k callbacks)))"
      "case r of Inr _ \<Rightarrow> k = length callbacks | Inl e \<Rightarrow> k < length callbacks \<and> may_raise h (helper_class s) (snd (enumerate 0 callbacks ! k)) e"
    unfolding take assms(3) length_enumerate by blast
  have "\<forall>i < k. \<forall>e. ?f (callbacks ! i) \<noteq> Raised e"
  proof (intro allI impI)
    fix i e assume "i < k"
    then have "(i, callbacks ! i) \<in> set (enumerate 0 (take k callbacks))" using k(1) by (simp add: in_set_enumerate_eq)
    with k(2) show "?f (callbacks ! i) \<noteq> Raised e" by fastforce
  qed
  moreover have "handlers s' ! i = (callback_handler (i, callbacks ! i))\<lparr>DISABLED := i < k \<and> ?f (callbacks ! i) = Disabled\<rparr>"
    if "i < length callbacks" for i
    using that k(1) unfolding k(3)
    by (subst fold_disabled_nth) (auto simp: register_callback_classes_def nth_enumerate_eq callback_handler_def)
  moreover have "case r of Inr _ \<Rightarrow> k = length callbacks | Inl e \<Rightarrow> k < length callbacks \<and> may_raise h (helper_class s) (callbacks ! k) e"
    using k(5) by (auto simp: nth_enumerate_eq split: sum.splits)
  ultimately show ?thesis using k(1,4) by blast
qed

text \<open>
  Four callbacks: one that is known, one with an unknown parameter, one with an unknown return type, and one whose
  parameter is a callback, which the generation of the wrapper does not support.
\<close>

definition example_callbacks :: "string list list" where
  "example_callbacks = [[''void'', ''int'', ''ns3::empty''], [''void'', ''T''], [''T'', ''int''], [''void'', ''C'']]"

definition example_types :: "(unit, bool) typehandlers" where
  "example_types =
     \<lparr>parse_type = (\<lambda>t. Inr (t, False)),
      new_return = (\<lambda>t c. if t = ''T'' then Inl (Exception ''TypeLookupError'') else Inr ()),
      new_parameter = (\<lambda>t n c. if t = ''T'' then Inl (Exception ''TypeConfigurationError'') else Inr (t = ''C'')),
      cpp_class = (\<lambda>p. None), forward_declarations = (\<lambda>c. Inr False),
      lookup_return = (\<lambda>t. None),
      lookup_parameter = (\<lambda>t. find (\<lambda>i. cls_name (example_callbacks ! i) = t) [0..<4]),
      generate_wrapper = (\<lambda>k r ps. if True \<in> set ps then Inl (Exception ''NotSupportedError'') else Inr [])\<rparr>"

definition example_start :: generation where
  "example_start = \<lparr>handlers = register_callback_classes example_callbacks, helper_class = (\<lambda>c. False),
     helper_class_disabled = (\<lambda>c. False), after_forward_declarations = [], warned = []\<rparr>"

theorem callbacks_generated_witness:
  "\<exists>s'. generate_callback_classes example_types example_callbacks example_start = (s', Inl (Exception ''NotSupportedError'')) \<and>
    map hd (after_forward_declarations s') = [class_head (0, [''void'', ''int'', ''ns3::empty''])] \<and>
    \<not> DISABLED (handlers s' ! 0) \<and> DISABLED (handlers s' ! 1) \<and> \<not> DISABLED (handlers s' ! 2)"
proof -
  let ?f = "fate example_types (helper_class example_start)"
  have 2: "[] \<notin> set example_callbacks" by (simp add: example_callbacks_def)
  have 3: "\<forall>i < length example_callbacks. lookup_parameter example_types (cls_name (example_callbacks ! i)) = Some i \<and>
      lookup_return example_types (cls_name (example_callbacks ! i)) = None" by code_simp
  have f: "?f (example_callbacks ! 0) = Written" "?f (example_callbacks ! 1) = Disabled"
    "?f (example_callbacks ! 2) = Skipped" "?f (example_callbacks ! 3) = Written" "length example_callbacks = 4"
    by code_simp+
  have res: "snd (generate_callback_classes example_types example_callbacks example_start) = Inl (Exception ''NotSupportedError'')"
    by code_simp
  obtain s' where s': "generate_callback_classes example_types example_callbacks example_start = (s', Inl (Exception ''NotSupportedError''))"
    using res by (metis prod.collapse)
  have s: "handlers example_start = register_callback_classes example_callbacks" "after_forward_declarations example_start = []"
    by (simp_all add: example_start_def)
  from callbacks_generated [OF 2 3 s(1) s'] obtain k where
    k: "k < 4" "may_raise example_types (helper_class example_start) (example_callbacks ! k) (Exception ''NotSupportedError'')"
      "map hd (after_forward_declarations s') =
        map class_head (written example_types (helper_class example_start) (enumerate 0 (take k example_callbacks)))"
      "\<forall>i < 4. DISABLED (handlers s' ! i) \<longleftrightarrow> i < k \<and> ?f (example_callbacks ! i) = Disabled"
    unfolding f(5) s(2) by auto
  have no0: "\<not> may_raise example_types (helper_class example_start) (example_callbacks ! 0) (Exception ''NotSupportedError'')"
  proof
    assume "may_raise example_types (helper_class example_start) (example_callbacks ! 0) (Exception ''NotSupportedError'')"
    then obtain r ps helper where
      g: "list_all2 (\<lambda>x p. made_parameter example_types x = Inr p)
            (enumerate 0 (filter (\<lambda>t. t \<noteq> ''ns3::empty'') (tl (example_callbacks ! 0)))) ps"
        "generate_wrapper example_types helper r ps = Inl (Exception ''NotSupportedError'')"
      unfolding may_raise_def f(1) by blast
    have p: "enumerate 0 (filter (\<lambda>t. t \<noteq> ''ns3::empty'') (tl (example_callbacks ! 0))) = [(0, ''int'')]"
      "made_parameter example_types (0, ''int'') = Inr False"
      by code_simp+
    from g(1) have "ps = [False]" unfolding p(1) by (auto simp: list_all2_Cons1 p(2))
    with g(2) show False by (simp add: example_types_def)
  qed
  have no12: "\<not> may_raise example_types (helper_class example_start) (example_callbacks ! 1) e"
    "\<not> may_raise example_types (helper_class example_start) (example_callbacks ! 2) e" for e
    by (simp_all only: may_raise_def f fate.distinct simp_thms)
  have "k = 0 \<or> k = 1 \<or> k = 2 \<or> k = 3" using k(1) by linarith
  with k(2) no0 no12 have k3: "k = 3" by blast
  have w: "written example_types (helper_class example_start) (enumerate 0 (take 3 example_callbacks)) = [(0, [''void'', ''int'', ''ns3::empty''])]"
    by code_simp
  from k(3) have m: "map hd (after_forward_declarations s') = [class_head (0, [''void'', ''int'', ''ns3::empty''])]"
    unfolding k3 w by (simp only: list.map)
  have d: "\<not> DISABLED (handlers s' ! 0)" "DISABLED (handlers s' ! 1)" "\<not> DISABLED (handlers s' ! 2)"
    using k(4) f(2) by (simp_all add: k3 f(1,3))
  show ?thesis by (rule exI, intro conjI, rule s', rule m, rule d(1), rule d(2), rule d(3))
qed

text \<open>
  A handler that is disabled refuses to be converted; one that is not creates an object of its class.
  So the conversion of a callback whose return type is not known uses a class that is not written.
\<close>

lemma disabled_refused:
  "DISABLED c \<Longrightarrow> convert_python_to_c unique c name d w = Inl (Exception ''CodeGenerationError'')"
  by (simp add: convert_python_to_c_def)

lemma unknown_return_enabled:
  assumes "tp \<noteq> []" and "return_known h tp = Inr False"
    and "generate_callback_class h (n, tp) s = (s', r)"
  shows "r = Inr () \<and> handlers s' = handlers s \<and> after_forward_declarations s' = after_forward_declarations s"
proof -
  from return_type_known [OF assms(1), of h] assms(2) have "return_type h tp = Inr None"
    by (cases "return_type h tp") auto
  with assms(3) show ?thesis by (auto simp: generate_callback_class_def act_simps)
qed

lemma enabled_creates:
  assumes "\<not> DISABLED c"
  shows "\<exists>w' v p. convert_python_to_c unique c name None w = Inr w' \<and>
    Code (v @ '' = ns3::Create<'' @ PYTHON_CALLBACK_IMPL_NAME c @ ''> ('' @ p @ '');'') \<in> set (code (before_call w'))"
  using assms
  by (auto simp: convert_python_to_c_def convert_required_def declare_variable_def write_code_def Let_def)

text \<open>The default values: a second pass changes nothing.\<close>

lemma attributes_stable: "Attribute_customizations (Attribute_customizations cs) = Attribute_customizations cs"
proof -
  have "fix_parameter (fix_parameter p) = fix_parameter p" for p by (simp add: fix_parameter_def)
  then show ?thesis by (simp add: Attribute_customizations_def)
qed

lemma unconstructible_message_fails:
  "not_constructible cls \<Longrightarrow> lvalue \<noteq> [] \<Longrightarrow> \<not> str_startswith lvalue ''None'' \<Longrightarrow>
   ns3_object_instance_creation_function cls lvalue ps t b = Inl TypeError"
  by (simp add: ns3_object_instance_creation_function_def)

text \<open>The warning is given for the last entry of the stack that is in the file; a second error of the wrapper
  finds the stack reversed and takes the first.\<close>

lemma second_error_first_entry:
  "snd (handle_error f (fst (handle_error f stack))) = find (\<lambda>l. fst l = f) stack"
  by (simp add: handle_error_def)

end
