(* ===== verification/Spec2Isabelle.thy ===== *)
theory Spec2Isabelle
  imports Rad_Util Rad_Binary Rad_Numeric Find_Cycles Grid_Gui Check_Run Module_Layout Test_Config Test_Report
    Viz_Threads Viz_Samples Viz_Topology Viz_Wifi Viz_Axes Ns3_Main Flow_Results Module_Scan Smart_Pointers Callback_Classes
begin

text \<open>
  \<^bold>\<open>Verification of the Python programs of an ns-3 tree.\<close>

  The repository is a network simulator in C++ with programs in Python around it.  This development
  covers the programs that have logic of their own; they are stand-alone scripts and share only the
  conventions of the language, which \<open>Py_Prelude\<close> and \<open>Py_Strings\<close> fix: exceptions as values of a sum, dictionaries
  as association lists with distinct keys (with their contract as a locale), subscripts and slices,
  strings, lines, and actions that change a state and may raise.

  No model uses fuel: loops are functions with a measure, and those that need not end for every
  argument are partial functions: \<open>range_loop\<close>, \<open>float_loop\<close> and \<open>tick_loop\<close> are shown to return where
  they are used, \<open>old_relative_loop\<close> is shown not to return for paths outside ns-3.

  \<^bold>\<open>Dependency sorting\<close> (\<open>src/bindings/python/topsort.py\<close>).  \<open>Topsort\<close> has \<open>topsort\<close>,
  \<open>topsort_levels\<close>, \<open>CycleError\<close> and its methods, \<open>Find_Cycles\<close> has \<open>find_cycles\<close>.  A graph is the list of pairs the
  code gets.  Shown: topological order and depth levels for acyclic graphs, the exception with the nodes
  that could not be ordered for cyclic ones, and that \<open>find_cycles\<close> yields every simple cycle once up to
  rotation.

  \<^bold>\<open>API scanner\<close> (\<open>src/bindings/python/ns3modulescan.py\<close>, \<open>ns3modulescan-modular.py\<close>).  \<open>Module_Scan\<close> has the
  path of a header inside ns-3, the table of annotations, the hook that annotates a declaration, the list
  of callbacks, and the sections of the modules, which are ordered by \<open>topsort\<close>.  Shown: the name of a
  header, that declarations from outside are left alone, and that, under Python 2, for acyclic dependencies between
  known modules with distinct section names, a section follows those it depends on (under Python 3
  the ordering of the sections raises).  What \<open>pygccxml\<close> says of a declaration is a record.

  \<^bold>\<open>Utilities\<close> (\<open>src/bindings/python/rad_util.py\<close>).  \<open>Rad_Util\<close> (sequences, dictionaries, text),
  \<open>Rad_Binary\<close> (binary numerals and Gray codes), \<open>Rad_Numeric\<close> (number theory, statistics, ranges).
  Shown: round trips of numerals, the codes, permutations, common affixes, termination of the
  generators.  Floats are rationals.

  \<^bold>\<open>Test runner\<close> (\<open>src/test.py\<close>, \<open>src/utils.py\<close>).  \<open>Ns3_Utils\<close> reads lists and booleans out of Python
  files.  \<open>Test_Jobs\<close> has \<open>Job\<close>, \<open>run_job_synchronously\<close>, the lists of examples and the selection of
  jobs.  \<open>Test_Pool\<close> is the step relation of the main thread, the workers and the signal handler; its
  contract is the locale \<open>ranked_system\<close> of \<open>Transition\<close>.  \<open>Test_Run\<close> has the loop over the results, the results file,
  the summary and the exit status.  \<open>Test_Config\<close> has the configuration, the environment and the returns
  before the dispatch, \<open>Test_Report\<close> the text and HTML reports.  Shown: every job is accounted for in every
  interleaving, every run ends after a bounded number of steps and only when everything is collected,
  parallel results are the sequential ones up to order, and the exit status is 0 exactly if every
  job passed or was skipped and none was interrupted; the results file holds the element of every job, without the
  \<open>VALGR\<close> elements that a comment announces.  Processes, files and \<open>eval\<close> are arguments.

  \<^bold>\<open>Trace viewer\<close> (\<open>src/utils/grid.py\<close>).  \<open>Grid_Data\<close> (data ranges, events, timelines, windows by
  bisection), \<open>Grid_Read\<close> (the file format), \<open>Grid_Render\<close> (scale and legend), \<open>Grid_Draw\<close> (drawing
  of events and ranges), \<open>Grid_Graphic\<close> (layout of the whole picture and \<open>main\<close>), \<open>Grid_Gui\<close> (the mouse
  and scroll handlers as a session of events).  Shown: windows agree with a reference selection, what is
  stored is what the lines describe, boxes and ticks stay inside their areas (when the window is not empty and every
  value has a colour), and in every session the window lies inside the data unless a range wholly beside them was asked for.  Drawing operations are the values of a list; text extents are an argument.

  \<^bold>\<open>Style checker\<close> (\<open>src/utils/check-style.py\<close>).  \<open>Check_Style\<close> (patches, the repair of trailing
  blanks, the passes), \<open>Check_Run\<close> (\<open>indent_files\<close> and \<open>run_as_main\<close>).  Shown: patches round-trip
  (unless a changed line looks like a file header), the repair restores exactly the missing blank, the verdict is whether
  formatting changes a file, except with \<open>--debug\<close>, which accepts everything.
  The formatter, \<open>patch\<close> and the difference algorithm are arguments.

  \<^bold>\<open>Module generator\<close> (\<open>src/utils/create-module.py\<close>).  \<open>Module_Templates\<close> (the templates and
  \<open>str.format\<close>), \<open>File_System\<close> (a tree of directories and files in which \<open>..\<close> is followed and creation, writing and
  removal may be refused; there are no symbolic links),
  \<open>Create_Module\<close> (every function of the script), \<open>Module_Scope\<close> (what may change: the locale
  \<open>guarded_tree\<close>), \<open>Module_Layout\<close> (what is created).  Shown: the documented layout is created, a failed
  creation is cleaned up or, if a removal is refused, ends in an \<open>OSError\<close>, and nothing outside of the two source
  directories is touched, because the checks of the names keep \<open>..\<close> out.

  \<^bold>\<open>Visualizer\<close> (\<open>src/src/visualizer/visualizer\<close>).  \<open>Viz_Threads\<close> is the step relation of the simulation thread and
  of the callbacks of the main loop, which may nest; it is an instance of the locale \<open>invariant_system\<close> of \<open>Transition\<close>.
  \<open>Viz_Nodes\<close> has the nodes, channels and links on the canvas and the handlers of a session, \<open>Viz_Topology\<close> the
  table of device classes, \<open>scan_topology\<close> and the plugin loader, \<open>Viz_Samples\<close> the bounded memories of samples, the
  interface statistics and the arrows, \<open>Viz_Wifi\<close> the plugin that joins stations to access points, with the links as
  objects in a store, \<open>Viz_Axes\<close> the axes with their labels.  Shown: of the simulation thread and the callbacks that take the lock only one
  uses the simulator at a time (the three uses that do not take it race with the simulation), it is
  never further ahead of the view than a sample period, quitting ends, the canvas shows the state of the session, the links are
  those of the wired devices, rates come from the last ten samples, arrows and labels are reused without loss, stations are joined to the access
  point they report, and an axis has four to nine ticks.  The simulator,
  the layout program and what a plugin file is are arguments; coordinates are rationals, those of the axes reals.

  \<^bold>\<open>Front end\<close> (\<open>src/ns3\<close>).  \<open>Ns3_Args\<close> has what \<open>parse_args\<close> does with the namespace of \<open>argparse\<close>, \<open>Ns3_Shell\<close> the
  state of the script (files, environment, started processes, noted commands), the lock file and \<open>clean\<close>,
  \<open>Ns3_Cmake\<close> the search for the cache, configuration, build and forced refresh, \<open>Ns3_Targets\<close> shortcuts, targets and
  \<open>build_step\<close>, \<open>Ns3_Main\<close> \<open>run_step\<close>, \<open>sudo_step\<close> and \<open>main\<close> with all its exits.  Shown: a dry run changes no file and starts only
  \<open>cmake --version\<close> (with the two exceptions the code has), clean removes what it should and nothing else, the dictionary of shortcuts is the
  specified one, the cache that is found has the profile, a failed refresh can be repeated with the same settings, and the
  status of a program is that of the script.  What a process does, \<open>shutil.which\<close> and the variables of the lock file
  are arguments; path names are those of POSIX.

  \<^bold>\<open>Flow monitor results\<close> (\<open>src/src/flow-monitor/examples/flowmon-parse-results.py\<close>).  \<open>Flow_Results\<close> has the whole
  script: elements, flows with their measures, the objects that \<open>flow_map\<close> shares with the list of flows,
  the event loop and the report.  Shown: reading agrees with a specification without objects, the report
  lists the flows up to the first that cannot be printed, and the bounds of the measures.  Floats are rationals:
  \<open>inf\<close> and \<open>nan\<close> are not represented, their text is refused.

  \<^bold>\<open>Customizations of the bindings\<close> (\<open>src/bindings/python/ns3modulegen_core_customizations.py\<close>).  \<open>Smart_Pointers\<close> has
  the reading of the names of smart pointers and their handlers, \<open>Callback_Classes\<close> the handlers and the C++
  classes of callbacks, the code of their parameters, the construction of objects and the error handler of
  \<open>ns3modulegen-modular.py\<close>.  Shown: which names of pointer types are recognised, that those of classes
  that are not templates are read and read back, and that the classes written and the handlers disabled are those of
  the specification up to the callback whose types or wrapper raise, if there is one.  The type system of \<open>pybindgen\<close>
  is an argument, every part of which may raise.

  \<^bold>\<open>Not modelled.\<close>  The C++ simulator; the generated registration code of the bindings and the customizations that
  only add fixed methods and fixed C++ text through \<open>pybindgen\<close>; the widgets, tooltips, screenshot,
  shell and packet windows of the visualizer, which are calls to GTK; \<open>argparse\<close> and texts of the option parsers; verbose messages; the clock,
  \<open>getmodule\<close>, \<open>timestamp\<close> and \<open>pt2str\<close> of \<open>rad_util.py\<close>; temporary directories of \<open>test.py\<close>.
\<close>

end
